(* ===== verification/Prelude.thy ===== *)
theory Prelude
  imports Main "HOL-Library.List_Lexorder" "HOL-Library.Char_ord" "HOL-Library.Sublist"
    "HOL-Library.Multiset"
begin

text \<open>
  Shared ground of the development: Go byte strings as HOL \<open>string\<close>s (a \<open>char\<close> is one
  byte, so \<open>length\<close> counts bytes as \<open>len\<close> does and the library's lexicographic order is the
  byte order \<open>sort.Strings\<close> uses), the functions of \<open>strings\<close>, \<open>sort\<close> and \<open>strconv\<close>
  the source calls, and Go maps and slices as HOL maps and lists. The lemmas about them are collected
  in \<open>str_simps\<close> so that the component proofs can take them with \<open>simp add:\<close>.
\<close>

named_theorems str_simps \<open>rewrite rules for the modelled strings functions\<close>

section \<open>The strings package\<close>

text \<open>\<open>strings.Index\<close>: the least offset at which \<open>sub\<close> starts, \<open>None\<close> for -1.\<close>

fun strings_Index :: "string \<Rightarrow> string \<Rightarrow> nat option" where
  "strings_Index [] sub = (if sub = [] then Some 0 else None)"
| "strings_Index (c # s) sub =
     (if prefix sub (c # s) then Some 0 else map_option Suc (strings_Index s sub))"

definition strings_Contains :: "string \<Rightarrow> string \<Rightarrow> bool" where
  "strings_Contains s sub = (strings_Index s sub \<noteq> None)"

text \<open>\<open>strings.Cut\<close> and \<open>strings.Count\<close> at a one-byte separator.\<close>

fun strings_Cut :: "string \<Rightarrow> char \<Rightarrow> string \<times> string \<times> bool" where
  "strings_Cut [] c = ([], [], False)"
| "strings_Cut (x # s) c =
     (if x = c then ([], s, True)
      else (case strings_Cut s c of (a, b, found) \<Rightarrow> (x # a, b, found)))"

definition strings_Count :: "string \<Rightarrow> char \<Rightarrow> nat" where
  "strings_Count s c = count_list s c"

fun strings_Join :: "string list \<Rightarrow> string \<Rightarrow> string" where
  "strings_Join [] sep = []"
| "strings_Join [x] sep = x"
| "strings_Join (x # y # xs) sep = x @ sep @ strings_Join (y # xs) sep"

text \<open>\<open>strings.Split\<close> at a one-byte separator: always at least one part.\<close>

fun strings_Split :: "string \<Rightarrow> char \<Rightarrow> string list" where
  "strings_Split [] c = [[]]"
| "strings_Split (x # s) c =
     (if x = c then [] # strings_Split s c
      else (case strings_Split s c of [] \<Rightarrow> [[x]] | p # ps \<Rightarrow> (x # p) # ps))"

text \<open>
  \<open>strings.ToLower\<close> and \<open>strings.ToUpper\<close> map ASCII letters bytewise when the whole input is
  ASCII and consult the Unicode tables otherwise; the table lookup is the parameter \<open>uni\<close>.
\<close>

definition is_ascii :: "string \<Rightarrow> bool" where
  "is_ascii s = list_all (\<lambda>c. of_char c < (128 :: nat)) s"

definition lower_byte :: "char \<Rightarrow> char" where
  "lower_byte c = (if CHR ''A'' \<le> c \<and> c \<le> CHR ''Z'' then char_of (of_char c + (32 :: nat)) else c)"

definition upper_byte :: "char \<Rightarrow> char" where
  "upper_byte c = (if CHR ''a'' \<le> c \<and> c \<le> CHR ''z'' then char_of (of_char c - (32 :: nat)) else c)"

definition strings_ToLower :: "(string \<Rightarrow> string) \<Rightarrow> string \<Rightarrow> string" where
  "strings_ToLower uni s = (if is_ascii s then map lower_byte s else uni s)"

definition strings_ToUpper :: "(string \<Rightarrow> string) \<Rightarrow> string \<Rightarrow> string" where
  "strings_ToUpper uni s = (if is_ascii s then map upper_byte s else uni s)"

text \<open>\<open>strings.ReplaceAll\<close> of one byte by another.\<close>

definition strings_ReplaceAll :: "string \<Rightarrow> char \<Rightarrow> char \<Rightarrow> string" where
  "strings_ReplaceAll s old new = map (\<lambda>c. if c = old then new else c) s"

section \<open>Decimal and hexadecimal digits\<close>

fun show_nat :: "nat \<Rightarrow> string" where
  "show_nat n =
     (if n < 10 then [char_of (48 + n)] else show_nat (n div 10) @ [char_of (48 + n mod 10)])"

declare show_nat.simps [simp del]

definition hexdig :: string where
  "hexdig = ''0123456789abcdef''"

section \<open>Go maps\<close>

text \<open>Indexing a Go map that lacks the key gives the zero value.\<close>

definition map_get :: "('k \<rightharpoonup> string) \<Rightarrow> 'k \<Rightarrow> string" where
  "map_get m k = (case m k of None \<Rightarrow> [] | Some v \<Rightarrow> v)"

lemma map_get_simps [simp]:
  "m k = None \<Longrightarrow> map_get m k = []"
  "m k = Some v \<Longrightarrow> map_get m k = v"
  by (simp_all add: map_get_def)

section \<open>Facts about substrings\<close>

lemma strings_Index_Some:
  "strings_Index s sub = Some i \<Longrightarrow> prefix sub (drop i s) \<and> i + length sub \<le> length s"
proof (induction s arbitrary: i)
  case (Cons c s)
  then show ?case
    by (auto split: if_splits dest: prefix_length_le)
qed (auto split: if_splits)

lemma strings_Index_least:
  "strings_Index s sub = Some i \<Longrightarrow> j < i \<Longrightarrow> \<not> prefix sub (drop j s)"
proof (induction s arbitrary: i j)
  case (Cons c s)
  then show ?case
    by (cases j) (auto split: if_splits)
qed (auto split: if_splits)

lemma strings_Index_None:
  "strings_Index s sub = None \<Longrightarrow> \<not> prefix sub (drop j s)"
proof (induction s arbitrary: j)
  case (Cons c s)
  then show ?case
    by (cases j) (auto split: if_splits)
qed (auto split: if_splits)

lemma strings_Contains_sublist [str_simps]: "strings_Contains s sub \<longleftrightarrow> sublist sub s"
proof
  assume "strings_Contains s sub"
  then obtain i where "strings_Index s sub = Some i"
    by (auto simp: strings_Contains_def)
  then have "prefix sub (drop i s)"
    by (simp add: strings_Index_Some)
  moreover have "sublist (drop i s) s"
    by (rule suffix_imp_sublist) (rule suffix_drop)
  ultimately show "sublist sub s"
    by (meson prefix_imp_sublist sublist_order.order.trans)
next
  assume "sublist sub s"
  then obtain ps ss where "s = ps @ sub @ ss"
    by (auto simp: sublist_def)
  then have "prefix sub (drop (length ps) s)"
    by simp
  then show "strings_Contains s sub"
    using strings_Index_None by (auto simp: strings_Contains_def)
qed

lemma strings_Cut_found:
  "strings_Cut s c = (a, b, True) \<Longrightarrow> s = a @ c # b \<and> c \<notin> set a"
  by (induction s arbitrary: a b) (auto split: if_splits prod.splits)

lemma strings_Cut_not_found:
  "strings_Cut s c = (a, b, False) \<Longrightarrow> c \<notin> set s \<and> a = s \<and> b = []"
  by (induction s arbitrary: a b) (auto split: if_splits prod.splits)

lemma strings_Cut_append [str_simps]:
  "c \<notin> set a \<Longrightarrow> strings_Cut (a @ c # b) c = (a, b, True)"
  by (induction a) auto

lemma strings_Count_append [str_simps]:
  "strings_Count (a @ b) c = strings_Count a c + strings_Count b c"
  "strings_Count (x # b) c = (if x = c then 1 else 0) + strings_Count b c"
  "strings_Count [] c = 0"
  by (simp_all add: strings_Count_def)

lemma strings_Count_0 [str_simps]: "strings_Count s c = 0 \<longleftrightarrow> c \<notin> set s"
  by (simp add: strings_Count_def count_list_0_iff)

section \<open>Sorting strings\<close>

text \<open>
  A sorted list without repetitions is determined by its elements, so what \<open>sort.Strings\<close>
  returns does not depend on the order in which Go enumerated a map.
\<close>

lemma sort_perm_eq:
  fixes xs ys :: "'a :: linorder list"
  assumes "mset xs = mset ys"
  shows "sort xs = sort ys"
  by (metis assms mset_sort properties_for_sort sorted_sort)

lemma sort_sorted_id [simp]: "sorted xs \<Longrightarrow> sort xs = (xs :: 'a :: linorder list)"
  by (simp add: sorted_sort_id)

lemma sorted_distinct_eqI:
  fixes xs ys :: "'a :: linorder list"
  assumes "sorted xs" "sorted ys" "distinct xs" "distinct ys" "set xs = set ys"
  shows "xs = ys"
  using assms by (simp add: sorted_distinct_set_unique)

lemma sorted_distinct_listI:
  fixes xs :: "'a :: linorder list"
  assumes "sorted xs" "distinct xs" "set xs = A"
  shows "xs = sorted_list_of_set A"
  using assms by (auto simp: sorted_list_of_set.idem_if_sorted_distinct)

end
