(* ===== verification/Errors.thy ===== *)
theory Errors
  imports Prelude
begin

text \<open>
  Go \<open>error\<close> values. A package-level sentinel is a constructor of \<open>sentinel\<close>; a typed error
  is a constructor of \<open>err\<close> carrying its fields; \<open>fmt.Errorf\<close> is \<open>Errorf\<close> (no
  \<open>%w\<close> verb) or \<open>Wrapf\<close> (one \<open>%w\<close>), whose message is the list of its pieces:
  \<open>Lit\<close> is format text or a \<open>%s\<close> argument, \<open>Quoted\<close> a \<open>%q\<close> argument, \<open>Dec\<close> a
  \<open>%d\<close> argument. Errors that come from outside the module carry what the source inspects of
  them: a D-Bus error its name, an operating-system error whether it satisfies \<open>os.IsNotExist\<close>,
  a failed child process its exit code.
\<close>

datatype RefErrorKind = RefErrorEmpty | RefErrorSegmentCount | RefErrorInvalidChar

record RefError =
  Kind :: RefErrorKind
  Segment :: string
  Ref :: string

record KeyError =
  Key :: string
  Allowed :: "string list"

datatype sentinel =
    ErrRefEmpty | ErrRefSegmentCount | ErrRefInvalidChar
  | ErrKeyNotAllowed
  | ErrNotFound | ErrExists | ErrStoreClosed | ErrBackendNotImplemented
  | ErrFilePassphraseRequired | ErrSecretServiceFailClosed
  | errKeyringItemNotFound | errKeyringMetadataUnsupported
  | errSecretServiceCollectionNotFound
  | errKeychainPasswordFormat
  | ErrSecretLeaked
  | ErrMigrationConflict
  | ErrCacheMiss | ErrInstanceMismatch | ErrInvalidRoot | ErrCacheInvalidName
  | ErrStatedirInvalidName
  | ErrShortWrite
  | keyring_ErrKeyNotFound | keyring_ErrMetadataNotSupported | keyring_ErrMetadataNeedsCredentials

datatype piece = Lit string | Quoted string | Dec nat

datatype err =
    RefErr RefError
  | KeyErr KeyError
  | Sentinel sentinel
  | leakError string
  | migrationConflictError string
  | Errorf "piece list"
  | Wrapf "piece list" err "piece list"
  | DBusError string string
  | OsNotExist string
  | ExitError int string
  | OtherError string
  | NilDereference

type_synonym 'a result = "err + 'a"

section \<open>errors.Is\<close>

definition sentinel_of_kind :: "RefErrorKind \<Rightarrow> sentinel" where
  "sentinel_of_kind k =
     (case k of RefErrorEmpty \<Rightarrow> ErrRefEmpty
      | RefErrorSegmentCount \<Rightarrow> ErrRefSegmentCount
      | RefErrorInvalidChar \<Rightarrow> ErrRefInvalidChar)"

text \<open>\<open>(*RefError).Is\<close>: the target is a \<open>*RefError\<close> of the same \<open>Kind\<close>.\<close>

definition RefError_Is :: "RefError \<Rightarrow> sentinel \<Rightarrow> bool" where
  "RefError_Is e target = (sentinel_of_kind (Kind e) = target)"

text \<open>\<open>(*KeyError).Is\<close>: any \<open>*KeyError\<close> matches.\<close>

definition KeyError_Is :: "KeyError \<Rightarrow> sentinel \<Rightarrow> bool" where
  "KeyError_Is e target = (target = ErrKeyNotAllowed)"

definition leakError_Is :: "sentinel \<Rightarrow> bool" where
  "leakError_Is target = (target = ErrSecretLeaked)"

definition migrationConflictError_Is :: "sentinel \<Rightarrow> bool" where
  "migrationConflictError_Is target = (target = ErrMigrationConflict)"

text \<open>\<open>errors.Is(err, target)\<close>: the chain of \<open>%w\<close> links is searched.\<close>

primrec errors_Is :: "err \<Rightarrow> sentinel \<Rightarrow> bool" where
  "errors_Is (RefErr e) t = RefError_Is e t"
| "errors_Is (KeyErr e) t = KeyError_Is e t"
| "errors_Is (Sentinel s) t = (s = t)"
| "errors_Is (leakError m) t = leakError_Is t"
| "errors_Is (migrationConflictError m) t = migrationConflictError_Is t"
| "errors_Is (Errorf ps) t = False"
| "errors_Is (Wrapf ps e qs) t = errors_Is e t"
| "errors_Is (DBusError n m) t = False"
| "errors_Is (OsNotExist m) t = False"
| "errors_Is (ExitError c m) t = False"
| "errors_Is (OtherError m) t = False"
| "errors_Is NilDereference t = False"

section \<open>Error texts\<close>

text \<open>
  The text of a message: \<open>q\<close> is \<open>strconv.Quote\<close>. The theorems that speak of texts hold for
  every \<open>q\<close>.
\<close>

primrec piece_text :: "(string \<Rightarrow> string) \<Rightarrow> piece \<Rightarrow> string" where
  "piece_text q (Lit s) = s"
| "piece_text q (Quoted s) = q s"
| "piece_text q (Dec n) = show_nat n"

definition pieces_text :: "(string \<Rightarrow> string) \<Rightarrow> piece list \<Rightarrow> string" where
  "pieces_text q ps = concat (map (piece_text q) ps)"

text \<open>\<open>(*RefError).Error\<close>; the switch is exhaustive over the declared kinds.\<close>

definition RefError_Error :: "RefError \<Rightarrow> piece list" where
  "RefError_Error e =
     (case Kind e of
        RefErrorEmpty \<Rightarrow>
          (if Segment e \<noteq> '''' then
             (if Ref e = '''' then [Lit ''credstore: empty '', Lit (Segment e), Lit '' segment'']
              else [Lit ''credstore: empty '', Lit (Segment e),
                    Lit '' segment in credential ref '', Quoted (Ref e)])
           else [Lit ''credstore: empty credential ref''])
      | RefErrorSegmentCount \<Rightarrow>
          [Lit ''credstore: credential ref '', Quoted (Ref e),
           Lit '' must be \"<service>/<profile>\" (exactly one '', Lit [CHR 0x27], Lit ''/'',
           Lit [CHR 0x27], Lit '')'']
      | RefErrorInvalidChar \<Rightarrow>
          [Lit ''credstore: '', Lit (Segment e), Lit '' segment in credential ref '',
           Quoted (Ref e), Lit '' contains a character outside [A-Za-z0-9_-]''])"

definition KeyError_Error :: "KeyError \<Rightarrow> piece list" where
  "KeyError_Error e =
     (if Allowed e = [] then
        [Lit ''credstore: key '', Quoted (Key e), Lit '' is not allowed'']
      else
        [Lit ''credstore: key '', Quoted (Key e), Lit '' is not in the allowed set ['',
         Lit (strings_Join (Allowed e) '', ''), Lit '']''])"

text \<open>The texts of the credstore sentinels; those of other packages are not inspected.\<close>

definition sentinel_text :: "sentinel \<Rightarrow> string" where
  "sentinel_text s =
     (case s of
        ErrNotFound \<Rightarrow> ''credstore: credential not found''
      | ErrExists \<Rightarrow> ''credstore: credential already exists (use WithOverwrite to replace)''
      | ErrStoreClosed \<Rightarrow> ''credstore: store is closed''
      | ErrBackendNotImplemented \<Rightarrow> ''credstore: backend not implemented''
      | ErrFilePassphraseRequired \<Rightarrow> ''credstore: file backend passphrase required''
      | ErrSecretServiceFailClosed \<Rightarrow> ''credstore: secret-service unavailable, failing closed''
      | ErrRefEmpty \<Rightarrow> ''credstore: empty credential ref''
      | errKeyringItemNotFound \<Rightarrow> ''credstore: keyring item not found''
      | errKeyringMetadataUnsupported \<Rightarrow> ''credstore: keyring metadata unsupported''
      | errSecretServiceCollectionNotFound \<Rightarrow>
          ''the collection does not exist; add a key first''
      | errKeychainPasswordFormat \<Rightarrow>
          ''macOS Keychain read returned output in an unrecognized format''
      | ErrSecretLeaked \<Rightarrow> ''credstore: secret material leaked into output''
      | ErrMigrationConflict \<Rightarrow>
          ''credstore: legacy plaintext value conflicts with existing keyring value''
      | ErrCacheMiss \<Rightarrow> ''cache: miss''
      | ErrInstanceMismatch \<Rightarrow> ''cache: envelope instance does not match locator''
      | ErrInvalidRoot \<Rightarrow> ''cache: locator root must be a non-empty absolute path''
      | ErrCacheInvalidName \<Rightarrow> ''cache: unsafe path component''
      | ErrStatedirInvalidName \<Rightarrow> ''statedir: invalid scope/tool name''
      | _ \<Rightarrow> '''')"

primrec err_text :: "(string \<Rightarrow> string) \<Rightarrow> err \<Rightarrow> string" where
  "err_text q (RefErr e) = pieces_text q (RefError_Error e)"
| "err_text q (KeyErr e) = pieces_text q (KeyError_Error e)"
| "err_text q (Sentinel s) = sentinel_text s"
| "err_text q (leakError m) = m"
| "err_text q (migrationConflictError m) = m"
| "err_text q (Errorf ps) = pieces_text q ps"
| "err_text q (Wrapf ps e qs) = pieces_text q ps @ err_text q e @ pieces_text q qs"
| "err_text q (DBusError n m) = m"
| "err_text q (OsNotExist m) = m"
| "err_text q (ExitError c m) = m"
| "err_text q (OtherError m) = m"
| "err_text q NilDereference = ''runtime error: invalid memory address or nil pointer dereference''"

lemmas errors_Is_defs =
  RefError_Is_def KeyError_Is_def leakError_Is_def migrationConflictError_Is_def
  sentinel_of_kind_def

end
