(* ===== verification/CredRef.thy ===== *)
theory CredRef
  imports Errors
begin

text \<open>
  The credential-ref grammar of \<open>credstore/ref.go\<close>: the segment charset, \<open>ParseRef\<close> and its
  inverse \<open>FormatRef\<close>, \<open>DefaultRef\<close> and the escape of arbitrary byte strings into the
  charset. The lemmas give the language \<open>ParseRef\<close> accepts, the inverse laws, which error each
  rejected input gets, and a decoder for the escape, which the source leaves out.
\<close>

section \<open>Segments\<close>

definition DefaultProfile :: string where
  "DefaultProfile = ''default''"

definition isSegmentByte :: "char \<Rightarrow> bool" where
  "isSegmentByte b =
     (if CHR ''A'' \<le> b \<and> b \<le> CHR ''Z'' then True
      else if CHR ''a'' \<le> b \<and> b \<le> CHR ''z'' then True
      else if CHR ''0'' \<le> b \<and> b \<le> CHR ''9'' then True
      else b = CHR ''_'' \<or> b = CHR ''-'')"

fun all_segment_bytes :: "string \<Rightarrow> bool" where
  "all_segment_bytes [] = True"
| "all_segment_bytes (c # s) = (if \<not> isSegmentByte c then False else all_segment_bytes s)"

definition validSegment :: "string \<Rightarrow> bool" where
  "validSegment s = (if s = '''' then False else all_segment_bytes s)"

section \<open>ParseRef, FormatRef, DefaultRef\<close>

abbreviation ref_error :: "RefErrorKind \<Rightarrow> string \<Rightarrow> string \<Rightarrow> err" where
  "ref_error k seg r \<equiv> RefErr \<lparr>Kind = k, Segment = seg, Ref = r\<rparr>"

definition ParseRef :: "string \<Rightarrow> (string \<times> string) result" where
  "ParseRef ref =
     (if ref = '''' then Inl (ref_error RefErrorEmpty '''' ref)
      else if strings_Count ref (CHR ''/'') \<noteq> 1 then
        Inl (ref_error RefErrorSegmentCount '''' ref)
      else
        (let (service, profile, _) = strings_Cut ref (CHR ''/'') in
         if service = '''' then Inl (ref_error RefErrorEmpty ''service'' ref)
         else if profile = '''' then Inl (ref_error RefErrorEmpty ''profile'' ref)
         else if \<not> validSegment service then Inl (ref_error RefErrorInvalidChar ''service'' ref)
         else if \<not> validSegment profile then Inl (ref_error RefErrorInvalidChar ''profile'' ref)
         else Inr (service, profile)))"

definition FormatRef :: "string \<Rightarrow> string \<Rightarrow> string result" where
  "FormatRef service profile =
     (if service = '''' then Inl (ref_error RefErrorEmpty ''service'' '''')
      else if \<not> validSegment service then Inl (ref_error RefErrorInvalidChar ''service'' service)
      else if profile = '''' then Inl (ref_error RefErrorEmpty ''profile'' '''')
      else if \<not> validSegment profile then Inl (ref_error RefErrorInvalidChar ''profile'' profile)
      else Inr (service @ ''/'' @ profile))"

definition DefaultRef :: "string \<Rightarrow> string result" where
  "DefaultRef service = FormatRef service DefaultProfile"

section \<open>EscapeRefSegment\<close>

text \<open>\<open>c >> 4\<close> and \<open>c & 0x0f\<close> of a byte are its quotient and remainder by 16.\<close>

definition escape_byte :: "char \<Rightarrow> string" where
  "escape_byte c =
     (if CHR ''A'' \<le> c \<and> c \<le> CHR ''Z'' \<or> CHR ''a'' \<le> c \<and> c \<le> CHR ''z'' \<or>
         CHR ''0'' \<le> c \<and> c \<le> CHR ''9'' \<or> c = CHR ''-'' then [c]
      else if c = CHR ''_'' then ''__''
      else [CHR ''_'', CHR ''x'', hexdig ! (of_char c div 16), hexdig ! (of_char c mod 16)])"

fun EscapeRefSegment :: "string \<Rightarrow> string" where
  "EscapeRefSegment [] = []"
| "EscapeRefSegment (c # raw) = escape_byte c @ EscapeRefSegment raw"

text \<open>
  The decoder the source describes as possible ("reversible by construction") and leaves out. It is
  a specification device only.
\<close>

definition hexval :: "char \<Rightarrow> nat option" where
  "hexval c = strings_Index hexdig [c]"

fun unescape :: "string \<Rightarrow> string option" where
  "unescape [] = Some []"
| "unescape (c # s) =
     (if c \<noteq> CHR ''_'' then map_option ((#) c) (unescape s)
      else (case s of
              d # s' \<Rightarrow>
                if d = CHR ''_'' then map_option ((#) (CHR ''_'')) (unescape s')
                else (case s' of
                        h # l # s'' \<Rightarrow>
                          (case (hexval h, hexval l) of
                             (Some a, Some b) \<Rightarrow>
                               map_option ((#) (char_of (16 * a + b))) (unescape s'')
                           | _ \<Rightarrow> None)
                      | _ \<Rightarrow> None)
            | [] \<Rightarrow> None))"

section \<open>Lemmas\<close>

lemma all_segment_bytes_iff: "all_segment_bytes s \<longleftrightarrow> (\<forall>c \<in> set s. isSegmentByte c)"
  by (induction s) auto

lemma validSegment_iff: "validSegment s \<longleftrightarrow> s \<noteq> [] \<and> (\<forall>c \<in> set s. isSegmentByte c)"
  by (simp add: validSegment_def all_segment_bytes_iff)

lemma slash_not_segment [simp]: "\<not> isSegmentByte (CHR ''/'')"
  by (simp add: isSegmentByte_def less_eq_char_def)

lemma validSegment_no_slash: "validSegment s \<Longrightarrow> CHR ''/'' \<notin> set s"
  using validSegment_iff by force

lemma validSegment_nonempty: "validSegment s \<Longrightarrow> s \<noteq> []"
  by (simp add: validSegment_iff)

lemma validSegment_default [simp]: "validSegment DefaultProfile"
  by (simp add: DefaultProfile_def validSegment_def isSegmentByte_def less_eq_char_def)

lemma FormatRef_valid:
  "FormatRef service profile = Inr ref \<longleftrightarrow>
     validSegment service \<and> validSegment profile \<and> ref = service @ ''/'' @ profile"
  by (auto simp: FormatRef_def dest: validSegment_nonempty)

lemma ParseRef_join:
  assumes "validSegment s" "validSegment p"
  shows "ParseRef (s @ ''/'' @ p) = Inr (s, p)"
proof -
  have "strings_Count (s @ ''/'' @ p) (CHR ''/'') = 1"
    using assms by (simp add: str_simps validSegment_no_slash)
  then show ?thesis
    using assms by (simp add: ParseRef_def str_simps validSegment_no_slash validSegment_nonempty)
qed

lemma ParseRef_InrD:
  assumes "ParseRef ref = Inr (s, p)"
  shows "validSegment s" "validSegment p" "ref = s @ ''/'' @ p"
proof -
  from assms have count: "strings_Count ref (CHR ''/'') = 1"
    by (auto simp: ParseRef_def split: if_splits)
  obtain a b f where cut: "strings_Cut ref (CHR ''/'') = (a, b, f)"
    by (cases "strings_Cut ref (CHR ''/'')") auto
  from assms count cut have "a = s" "b = p" "validSegment s" "validSegment p"
    by (auto simp: ParseRef_def split: if_splits)
  moreover have f
    using count cut strings_Cut_not_found by (cases f) (auto simp: strings_Count_def)
  ultimately show "validSegment s" "validSegment p" "ref = s @ ''/'' @ p"
    using strings_Cut_found cut by auto
qed

lemma one_slash_split:
  "strings_Count ref (CHR ''/'') = 1 \<longleftrightarrow> (\<exists>s p. ref = s @ ''/'' @ p \<and> CHR ''/'' \<notin> set (s @ p))"
proof
  assume one: "strings_Count ref (CHR ''/'') = 1"
  then have "CHR ''/'' \<in> set ref"
    using strings_Count_0 [of ref "CHR ''/''"] by auto
  then obtain s p where "ref = s @ CHR ''/'' # p" "CHR ''/'' \<notin> set s"
    by (meson split_list_first)
  with one show "\<exists>s p. ref = s @ ''/'' @ p \<and> CHR ''/'' \<notin> set (s @ p)"
    by (intro exI [of _ s] exI [of _ p]) (auto simp: str_simps)
qed (auto simp: str_simps)

lemma slash_split_unique:
  "CHR ''/'' \<notin> set (s @ p) \<Longrightarrow> s @ ''/'' @ p = s' @ ''/'' @ p' \<longleftrightarrow> s = s' \<and> p = p'"
  by (simp add: append_Cons_eq_iff)

lemma slash_end_iff:
  assumes "CHR ''/'' \<notin> set (s @ p)"
  shows "(\<exists>t. CHR ''/'' \<notin> set t \<and> (s @ ''/'' @ p = t @ ''/'' \<or> s @ ''/'' @ p = ''/'' @ t)) \<longleftrightarrow>
    s = [] \<or> p = []"
  using slash_split_unique [OF assms, of _ "[]"] slash_split_unique [OF assms, of "[]"] assms
  by auto

lemma ParseRef_one_slash:
  assumes "CHR ''/'' \<notin> set (s @ p)"
  shows "ParseRef (s @ ''/'' @ p) =
    (if s = [] then Inl (ref_error RefErrorEmpty ''service'' (s @ ''/'' @ p))
     else if p = [] then Inl (ref_error RefErrorEmpty ''profile'' (s @ ''/'' @ p))
     else if \<not> validSegment s then Inl (ref_error RefErrorInvalidChar ''service'' (s @ ''/'' @ p))
     else if \<not> validSegment p then Inl (ref_error RefErrorInvalidChar ''profile'' (s @ ''/'' @ p))
     else Inr (s, p))"
proof -
  have "strings_Count (s @ ''/'' @ p) (CHR ''/'') = 1"
    using assms by (simp add: str_simps)
  then show ?thesis
    using assms by (simp add: ParseRef_def str_simps)
qed

lemma ParseRef_not_one_slash:
  "strings_Count ref (CHR ''/'') \<noteq> 1 \<Longrightarrow> ParseRef ref =
     Inl (ref_error (if ref = [] then RefErrorEmpty else RefErrorSegmentCount) '''' ref)"
  by (simp add: ParseRef_def)

lemma length_hexdig [simp]: "length hexdig = 16"
  by (simp add: hexdig_def)

lemma less16_cases:
  "n < (16 :: nat) \<Longrightarrow> n \<in> {0, 1, 2, 3, 4, 5, 6, 7, 8, 9, 10, 11, 12, 13, 14, 15}"
  unfolding insert_iff empty_iff by arith

lemma hexval_hexdig: "n < 16 \<Longrightarrow> hexval (hexdig ! n) = Some n"
  by (drule less16_cases) (elim insertE; simp add: hexval_def hexdig_def)

lemma isSegmentByte_hexdig: "n < 16 \<Longrightarrow> isSegmentByte (hexdig ! n)"
  by (drule less16_cases) (elim insertE; simp add: hexdig_def isSegmentByte_def less_eq_char_def)

lemma of_char_bound [simp]: "of_char c div 16 < (16 :: nat)"
  by (rule less_mult_imp_div_less) simp

lemma escape_byte_segment: "x \<in> set (escape_byte c) \<Longrightarrow> isSegmentByte x"
  by (auto simp: escape_byte_def isSegmentByte_hexdig split: if_splits)
     (auto simp: isSegmentByte_def less_eq_char_def)

lemma EscapeRefSegment_segment: "\<forall>c \<in> set (EscapeRefSegment raw). isSegmentByte c"
  by (induction raw) (auto dest: escape_byte_segment)

lemma escape_byte_nonempty [simp]: "escape_byte c \<noteq> []"
  by (simp add: escape_byte_def)

lemma EscapeRefSegment_empty_iff [simp]: "EscapeRefSegment raw = [] \<longleftrightarrow> raw = []"
  by (cases raw) auto

lemma validSegment_Escape: "validSegment (EscapeRefSegment raw) \<longleftrightarrow> raw \<noteq> []"
  by (simp add: validSegment_iff EscapeRefSegment_segment)

lemma unescape_byte:
  "unescape (escape_byte c @ s) = map_option ((#) c) (unescape s)"
proof -
  have "16 * (of_char c div 16) + of_char c mod 16 = (of_char c :: nat)"
    by simp
  then have "char_of (16 * (of_char c div 16) + of_char c mod 16 :: nat) = c"
    by (metis char_of_char)
  moreover have "CHR ''x'' \<noteq> CHR ''_''" by simp
  ultimately show ?thesis
    by (auto simp: escape_byte_def hexval_hexdig less_eq_char_def)
qed

lemma unescape_Escape: "unescape (EscapeRefSegment raw) = Some raw"
  by (induction raw) (simp_all add: unescape_byte)

section \<open>Properties\<close>

text \<open>
  C30. \<open>ParseRef\<close> and \<open>FormatRef\<close> are inverse partial functions: a ref parses into a pair
  of segments exactly when formatting that pair succeeds with that ref.
\<close>

theorem ParseRef_FormatRef_inverse: "ParseRef ref = Inr (s, p) \<longleftrightarrow> FormatRef s p = Inr ref"
  using ParseRef_InrD ParseRef_join by (auto simp: FormatRef_valid)

text \<open>
  C32. \<open>ParseRef\<close> reports \<open>ErrRefSegmentCount\<close> exactly for a non-empty input whose number
  of slashes is not one, \<open>ErrRefEmpty\<close> exactly for the empty input and for one-slash inputs with
  an empty side, and \<open>ErrRefInvalidChar\<close> exactly for two non-empty sides of which one leaves the
  charset.
\<close>

theorem ParseRef_error_classes:
  "((\<exists>e. ParseRef ref = Inl e \<and> errors_Is e ErrRefSegmentCount) \<longleftrightarrow>
      ref \<noteq> [] \<and> strings_Count ref (CHR ''/'') \<noteq> 1) \<and>
   ((\<exists>e. ParseRef ref = Inl e \<and> errors_Is e ErrRefEmpty) \<longleftrightarrow>
      ref = [] \<or> (\<exists>s. CHR ''/'' \<notin> set s \<and> (ref = s @ ''/'' \<or> ref = ''/'' @ s))) \<and>
   ((\<exists>e. ParseRef ref = Inl e \<and> errors_Is e ErrRefInvalidChar) \<longleftrightarrow>
      (\<exists>s p. ref = s @ ''/'' @ p \<and> CHR ''/'' \<notin> set (s @ p) \<and> s \<noteq> [] \<and> p \<noteq> [] \<and>
         \<not> (validSegment s \<and> validSegment p)))"
proof (cases "strings_Count ref (CHR ''/'') = 1")
  case False
  then have none: "\<not> (\<exists>s p. ref = s @ ''/'' @ p \<and> CHR ''/'' \<notin> set (s @ p))"
    by (simp only: one_slash_split not_False_eq_True)
  have empty: "(\<exists>s. CHR ''/'' \<notin> set s \<and> (ref = s @ ''/'' \<or> ref = ''/'' @ s)) \<longleftrightarrow> False"
    using none by (metis append.right_neutral append_Nil)
  have bad: "(\<exists>s p. ref = s @ ''/'' @ p \<and> CHR ''/'' \<notin> set (s @ p) \<and> s \<noteq> [] \<and> p \<noteq> [] \<and>
      \<not> (validSegment s \<and> validSegment p)) \<longleftrightarrow> False"
    using none by blast
  show ?thesis
    unfolding empty bad using False by (simp add: ParseRef_not_one_slash errors_Is_defs)
next
  case True
  then obtain s p where ref: "ref = s @ ''/'' @ p" and fresh: "CHR ''/'' \<notin> set (s @ p)"
    unfolding one_slash_split by blast
  have empty: "(\<exists>t. CHR ''/'' \<notin> set t \<and> (ref = t @ ''/'' \<or> ref = ''/'' @ t)) \<longleftrightarrow> s = [] \<or> p = []"
    unfolding ref by (rule slash_end_iff [OF fresh])
  have bad: "(\<exists>s' p'. ref = s' @ ''/'' @ p' \<and> CHR ''/'' \<notin> set (s' @ p') \<and> s' \<noteq> [] \<and> p' \<noteq> [] \<and>
      \<not> (validSegment s' \<and> validSegment p')) \<longleftrightarrow>
      s \<noteq> [] \<and> p \<noteq> [] \<and> \<not> (validSegment s \<and> validSegment p)"
    unfolding ref slash_split_unique [OF fresh] using fresh by auto
  show ?thesis
    unfolding empty bad using True
    by (simp add: ref ParseRef_one_slash [OF fresh, simplified] errors_Is_defs)
qed

text \<open>
  C31. \<open>EscapeRefSegment\<close> loses nothing (two inputs with the same escape are equal) and every
  non-empty input yields a valid segment, so it can stand as the profile of a ref that parses back.
\<close>

theorem EscapeRefSegment_faithful:
  "inj EscapeRefSegment \<and> (validSegment (EscapeRefSegment raw) \<longleftrightarrow> raw \<noteq> [])"
  by (metis injI option.inject unescape_Escape validSegment_Escape)

end
