(* ===== verification/Select.thy ===== *)
theory Select
  imports CredRef
begin

text \<open>
  Backend names, options and selection: the constants and option structs of
  \<open>credstore/store.go\<close>, the precedence of \<open>select.go\<close>, the flag helpers of \<open>flag.go\<close>, the
  Secret Service classification of \<open>linuxfallback.go\<close> and \<open>resolveBackend\<close>, which composes
  them. The environment, the target OS and the probe are arguments, as they are in the source. The
  lemmas show the precedence, that an unrecognised value is an error at every layer, that the memory
  backend is never chosen automatically, and that the only automatic downgrade to the file backend
  is the one a clear "no Secret Service" signal causes.
\<close>

section \<open>Backends and sources\<close>

type_synonym Backend = string
type_synonym Source = string

definition BackendKeychain :: Backend where "BackendKeychain = ''keychain''"
definition BackendWinCred :: Backend where "BackendWinCred = ''wincred''"
definition BackendSecretService :: Backend where "BackendSecretService = ''secret-service''"
definition BackendFile :: Backend where "BackendFile = ''file''"
definition BackendPass :: Backend where "BackendPass = ''pass''"
definition BackendOP :: Backend where "BackendOP = ''op''"
definition BackendOPConnect :: Backend where "BackendOPConnect = ''op-connect''"
definition BackendOPDesktop :: Backend where "BackendOPDesktop = ''op-desktop''"
definition BackendMemory :: Backend where "BackendMemory = ''memory''"

lemmas Backend_defs =
  BackendKeychain_def BackendWinCred_def BackendSecretService_def BackendFile_def BackendPass_def
  BackendOP_def BackendOPConnect_def BackendOPDesktop_def BackendMemory_def

definition SourceAuto :: Source where "SourceAuto = ''auto''"
definition SourceEnv :: Source where "SourceEnv = ''env''"
definition SourceConfig :: Source where "SourceConfig = ''config''"
definition SourceExplicit :: Source where "SourceExplicit = ''explicit''"

lemmas Source_defs = SourceAuto_def SourceEnv_def SourceConfig_def SourceExplicit_def

text \<open>\<open>DefaultOnePasswordTimeout\<close> is 30 seconds, in nanoseconds.\<close>

definition DefaultOnePasswordTimeout :: int where
  "DefaultOnePasswordTimeout = 30 * 1000000000"

record OnePasswordOptions =
  Timeout :: int
  VaultID :: string
  ItemTitlePrefix :: string
  ItemTag :: string
  ItemFieldTitle :: string
  ConnectHost :: string
  ConnectTokenEnv :: string
  ServiceTokenEnv :: string
  DesktopAccountID :: string

text \<open>\<open>FilePassphrase\<close> is a callback; \<open>None\<close> is nil.\<close>

record Options =
  AllowedKeys :: "string list"
  Backend :: Backend
  ConfigBackend :: Backend
  FilePassphrase :: "(unit \<Rightarrow> string result) option"
  OnePassword :: "OnePasswordOptions option"

definition Options_zero :: Options where
  "Options_zero = \<lparr>AllowedKeys = [], Backend = '''', ConfigBackend = '''',
     FilePassphrase = None, OnePassword = None\<rparr>"

text \<open>What the standard library looks up in tables: Unicode case mappings, \<open>%q\<close> quoting.\<close>

record runtime =
  unicode_upper :: "string \<Rightarrow> string"
  unicode_lower :: "string \<Rightarrow> string"
  quote :: "string \<Rightarrow> string"

section \<open>select.go\<close>

definition allBackends :: "Backend list" where
  "allBackends =
     [BackendKeychain, BackendWinCred, BackendSecretService, BackendFile, BackendPass, BackendOP,
      BackendOPConnect, BackendOPDesktop, BackendMemory]"

fun parseBackend_loop :: "string \<Rightarrow> Backend list \<Rightarrow> Backend option" where
  "parseBackend_loop s [] = None"
| "parseBackend_loop s (b # bs) = (if s = b then Some b else parseBackend_loop s bs)"

definition parseBackend :: "string \<Rightarrow> Backend option" where
  "parseBackend s = parseBackend_loop s allBackends"

definition osDefaultBackend :: "string \<Rightarrow> Backend option" where
  "osDefaultBackend goos =
     (if goos = ''darwin'' then Some BackendKeychain
      else if goos = ''windows'' then Some BackendWinCred
      else if goos = ''linux'' then Some BackendSecretService
      else None)"

definition envServicePrefix :: "runtime \<Rightarrow> string \<Rightarrow> string" where
  "envServicePrefix rt service =
     strings_ToUpper (unicode_upper rt) (strings_ReplaceAll service (CHR ''-'') (CHR ''_''))"

definition backendEnvVar :: "runtime \<Rightarrow> string \<Rightarrow> string" where
  "backendEnvVar rt service = envServicePrefix rt service @ ''_KEYRING_BACKEND''"

abbreviation not_implemented :: "piece list \<Rightarrow> err" where
  "not_implemented ps \<equiv> Wrapf [] (Sentinel ErrBackendNotImplemented) ps"

definition selectBackend ::
  "runtime \<Rightarrow> string \<Rightarrow> Options option \<Rightarrow> (string \<Rightarrow> string) \<Rightarrow> string \<Rightarrow> (Backend \<times> Source) result"
where
  "selectBackend rt service optsp getenv goos =
     (let opts = (case optsp of None \<Rightarrow> Options_zero | Some opts \<Rightarrow> opts) in
      if Backend opts \<noteq> '''' then
        (case parseBackend (Backend opts) of
           None \<Rightarrow> Inl (not_implemented [Lit '': Options.Backend '', Quoted (Backend opts),
                      Lit '' is not a known backend''])
         | Some b \<Rightarrow> Inr (b, SourceExplicit))
      else
        (let envVar = backendEnvVar rt service; v = getenv envVar in
         if v \<noteq> '''' then
           (case parseBackend v of
              None \<Rightarrow> Inl (not_implemented [Lit '': '', Lit envVar, Lit ''='', Quoted v,
                         Lit '' is not a known backend''])
            | Some b \<Rightarrow> Inr (b, SourceEnv))
         else if ConfigBackend opts \<noteq> '''' then
           (case parseBackend (ConfigBackend opts) of
              None \<Rightarrow> Inl (not_implemented [Lit '': config keyring.backend '',
                         Quoted (ConfigBackend opts), Lit '' is not a known backend''])
            | Some b \<Rightarrow> Inr (b, SourceConfig))
         else
           (case osDefaultBackend goos of
              None \<Rightarrow> Inl (not_implemented [Lit '': no default keyring backend for GOOS '',
                         Quoted goos, Lit ''; set Options.Backend or '', Lit envVar])
            | Some b \<Rightarrow> Inr (b, SourceAuto))))"

section \<open>flag.go\<close>

definition BackendFlagName :: string where
  "BackendFlagName = ''backend''"

definition ValidBackendNames :: "string list" where
  "ValidBackendNames = map (\<lambda>b. b) allBackends"

definition BackendFlagUsage :: string where
  "BackendFlagUsage =
     ''credential backend to use; one of: '' @ strings_Join (map (\<lambda>b. b) allBackends) '', '' @
     ''. Precedence: --backend flag > <SERVICE>_KEYRING_BACKEND env var > config keyring.backend > OS default.''"

definition ParseBackend :: "string \<Rightarrow> Backend result" where
  "ParseBackend name =
     (case parseBackend name of
        Some b \<Rightarrow> Inr b
      | None \<Rightarrow> Inl (not_implemented [Lit '': '', Quoted name,
                  Lit '' is not a known backend (valid: '',
                  Lit (strings_Join ValidBackendNames '', ''), Lit '')'']))"

definition BackendEnvVar :: "runtime \<Rightarrow> string \<Rightarrow> string" where
  "BackendEnvVar rt service = backendEnvVar rt service"

text \<open>The pointee of \<open>opts\<close> is returned updated, with the error result; \<open>None\<close> is nil.\<close>

definition BindBackendFlag ::
  "Options option \<Rightarrow> string \<Rightarrow> bool \<Rightarrow> string \<Rightarrow> Options option \<times> err option"
where
  "BindBackendFlag optsp flagValue flagSet configValue =
     (case optsp of
        None \<Rightarrow> (None, Some (Errorf [Lit ''credstore: BindBackendFlag requires a non-nil *Options'']))
      | Some opts \<Rightarrow>
          (if flagSet then
             (case ParseBackend flagValue of
                Inl e \<Rightarrow> (Some opts, Some e)
              | Inr b \<Rightarrow> (Some (opts\<lparr>Backend := b, ConfigBackend := configValue\<rparr>), None))
           else (Some (opts\<lparr>ConfigBackend := configValue\<rparr>), None)))"

section \<open>linuxfallback.go\<close>

datatype ssClass = ssReachable | ssUnavailable | ssDenied | ssAmbiguous

text \<open>\<open>errors.As\<close> against \<open>*dbus.Error\<close> and \<open>dbus.Error\<close>: the chain is searched.\<close>

primrec dbusErrName :: "err \<Rightarrow> string" where
  "dbusErrName (RefErr e) = ''''"
| "dbusErrName (KeyErr e) = ''''"
| "dbusErrName (Sentinel s) = ''''"
| "dbusErrName (leakError m) = ''''"
| "dbusErrName (migrationConflictError m) = ''''"
| "dbusErrName (Errorf ps) = ''''"
| "dbusErrName (Wrapf ps e qs) = dbusErrName e"
| "dbusErrName (DBusError n m) = n"
| "dbusErrName (OsNotExist m) = ''''"
| "dbusErrName (ExitError c m) = ''''"
| "dbusErrName (OtherError m) = ''''"
| "dbusErrName NilDereference = ''''"

definition classifySecretServiceErr :: "runtime \<Rightarrow> err option \<Rightarrow> ssClass" where
  "classifySecretServiceErr rt err =
     (case err of
        None \<Rightarrow> ssReachable
      | Some e \<Rightarrow>
          (let name = dbusErrName e in
           if name = ''org.freedesktop.DBus.Error.ServiceUnknown'' \<or>
              name = ''org.freedesktop.DBus.Error.NameHasNoOwner'' \<or>
              name = ''org.freedesktop.DBus.Error.Spawn.ServiceNotFound'' then ssUnavailable
           else if name = ''org.freedesktop.Secret.Error.IsLocked'' \<or>
              name = ''org.freedesktop.Secret.Error.NoSession'' \<or>
              name = ''org.freedesktop.DBus.Error.AccessDenied'' then ssDenied
           else if name \<noteq> '''' then ssAmbiguous
           else
             (let msg = strings_ToLower (unicode_lower rt) (err_text (quote rt) e) in
              if strings_Contains msg ''dbus_session_bus_address'' \<or>
                 strings_Contains msg ''session bus'' \<and> strings_Contains msg ''determine''
              then ssUnavailable
              else ssAmbiguous)))"

abbreviation fail_closed :: "piece list \<Rightarrow> err" where
  "fail_closed ps \<equiv> Wrapf [] (Sentinel ErrSecretServiceFailClosed) ps"

text \<open>The em dash of the ambiguous-probe message is the three UTF-8 bytes E2 80 94.\<close>

definition linuxAutoBackend :: "runtime \<Rightarrow> err option \<Rightarrow> string \<Rightarrow> Backend result" where
  "linuxAutoBackend rt probed envVar =
     (case classifySecretServiceErr rt probed of
        ssReachable \<Rightarrow> Inr BackendSecretService
      | ssUnavailable \<Rightarrow> Inr BackendFile
      | ssDenied \<Rightarrow> Inl (fail_closed
          [Lit '': secret-service is present but the keyring is locked or denied access (probe: list keys); unlock it (gnome-keyring-daemon, seahorse, kwalletmanager) or set '',
           Lit envVar, Lit ''=file to use the encrypted file backend''])
      | ssAmbiguous \<Rightarrow> Inl (fail_closed
          [Lit '': could not confirm secret-service availability (probe: list keys returned an unrecognized failure); failing closed instead of silently downgrading '',
           Lit [CHR 0xE2, CHR 0x80, CHR 0x94],
           Lit '' unlock the keyring (gnome-keyring-daemon, seahorse, kwalletmanager) or set '',
           Lit envVar, Lit ''=file'']))"

section \<open>resolveBackend\<close>

definition resolveBackend ::
  "runtime \<Rightarrow> string \<Rightarrow> Options option \<Rightarrow> (string \<Rightarrow> string) \<Rightarrow> string \<Rightarrow>
     (string \<Rightarrow> (string \<Rightarrow> string) \<Rightarrow> err option) \<Rightarrow> (Backend \<times> Source) result"
where
  "resolveBackend rt service opts getenv goos probe =
     (case selectBackend rt service opts getenv goos of
        Inl e \<Rightarrow> Inl e
      | Inr (kind, src) \<Rightarrow>
          (if kind = BackendSecretService \<and> src = SourceAuto \<and> goos = ''linux'' then
             (case linuxAutoBackend rt (probe service getenv) (backendEnvVar rt service) of
                Inl e \<Rightarrow> Inl e
              | Inr b \<Rightarrow> Inr (b, src))
           else Inr (kind, src)))"

section \<open>Lemmas\<close>

lemma parseBackend_loop_iff: "parseBackend_loop s bs = Some b \<longleftrightarrow> s = b \<and> b \<in> set bs"
  by (induction bs) auto

lemma parseBackend_iff: "parseBackend s = Some b \<longleftrightarrow> s = b \<and> b \<in> set allBackends"
  by (simp add: parseBackend_def parseBackend_loop_iff)

lemma parseBackend_cases: "parseBackend s = (if s \<in> set allBackends then Some s else None)"
proof (cases "s \<in> set allBackends")
  case True
  then show ?thesis
    using parseBackend_iff [of s s] by simp
next
  case False
  then have "parseBackend s = None"
    using parseBackend_iff by (metis option.exhaust)
  with False show ?thesis by simp
qed

lemma Source_distinct [simp]:
  "SourceAuto \<noteq> SourceEnv" "SourceAuto \<noteq> SourceConfig" "SourceAuto \<noteq> SourceExplicit"
  "SourceEnv \<noteq> SourceConfig" "SourceEnv \<noteq> SourceExplicit" "SourceConfig \<noteq> SourceExplicit"
  "SourceEnv \<noteq> SourceAuto" "SourceConfig \<noteq> SourceAuto" "SourceExplicit \<noteq> SourceAuto"
  "SourceConfig \<noteq> SourceEnv" "SourceExplicit \<noteq> SourceEnv" "SourceExplicit \<noteq> SourceConfig"
  by (simp_all add: Source_defs)

lemma allBackends_nonempty: "[] \<notin> set allBackends"
  by (simp add: allBackends_def Backend_defs)

lemma osDefaultBackend_range:
  "osDefaultBackend goos = Some b \<Longrightarrow> b \<in> {BackendKeychain, BackendWinCred, BackendSecretService}"
  by (auto simp: osDefaultBackend_def split: if_splits)

lemma osDefaultBackend_never:
  "osDefaultBackend goos \<noteq> Some BackendMemory" "osDefaultBackend goos \<noteq> Some BackendFile"
  by (auto dest!: osDefaultBackend_range simp: Backend_defs)

lemma osDefaultBackend_allBackends: "osDefaultBackend goos = Some b \<Longrightarrow> b \<in> set allBackends"
  by (auto dest!: osDefaultBackend_range simp: allBackends_def)

lemma osDefaultBackend_secret_service:
  "osDefaultBackend goos = Some BackendSecretService \<longleftrightarrow> goos = ''linux''"
  by (auto simp: osDefaultBackend_def Backend_defs)

text \<open>The layers of the selection, highest precedence first, as a list.\<close>

definition select_layers ::
  "runtime \<Rightarrow> string \<Rightarrow> Options \<Rightarrow> (string \<Rightarrow> string) \<Rightarrow> (string \<times> Source) list"
where
  "select_layers rt service opts getenv =
     [(Backend opts, SourceExplicit), (getenv (backendEnvVar rt service), SourceEnv),
      (ConfigBackend opts, SourceConfig)]"

lemma selectBackend_Inl:
  "selectBackend rt service opts getenv goos = Inl e \<Longrightarrow> errors_Is e ErrBackendNotImplemented"
  by (auto simp: selectBackend_def Let_def split: if_splits option.splits)

lemma classify_reachable: "classifySecretServiceErr rt probed = ssReachable \<longleftrightarrow> probed = None"
  by (auto simp: classifySecretServiceErr_def Let_def split: option.splits)

lemma linuxAutoBackend_Inr:
  "linuxAutoBackend rt probed envVar = Inr b \<longleftrightarrow>
     (classifySecretServiceErr rt probed = ssReachable \<and> b = BackendSecretService) \<or>
     (classifySecretServiceErr rt probed = ssUnavailable \<and> b = BackendFile)"
  by (cases "classifySecretServiceErr rt probed") (auto simp: linuxAutoBackend_def)

lemma linuxAutoBackend_Inl:
  "(\<exists>e. linuxAutoBackend rt probed envVar = Inl e \<and> errors_Is e ErrSecretServiceFailClosed) \<longleftrightarrow>
     classifySecretServiceErr rt probed \<in> {ssDenied, ssAmbiguous}"
  by (auto simp: linuxAutoBackend_def split: ssClass.splits)

lemma selectBackend_auto:
  "selectBackend rt service opts getenv goos = Inr (b, SourceAuto) \<Longrightarrow> osDefaultBackend goos = Some b"
  by (auto simp: selectBackend_def Let_def split: if_splits option.splits)

lemma upper_byte_segment:
  assumes "isSegmentByte c"
  defines "u \<equiv> upper_byte (if c = CHR ''-'' then CHR ''_'' else c)"
  shows "CHR ''A'' \<le> u \<and> u \<le> CHR ''Z'' \<or> CHR ''0'' \<le> u \<and> u \<le> CHR ''9'' \<or> u = CHR ''_''"
  using assms by (auto simp: isSegmentByte_def upper_byte_def less_eq_char_def split: if_splits)

lemma isSegmentByte_ascii: "isSegmentByte c \<Longrightarrow> of_char c < (128 :: nat)"
  by (auto simp: isSegmentByte_def less_eq_char_def split: if_splits)

lemma envServicePrefix_valid:
  assumes "validSegment service"
  shows "envServicePrefix rt service =
    map (\<lambda>c. upper_byte (if c = CHR ''-'' then CHR ''_'' else c)) service"
proof -
  have "is_ascii (strings_ReplaceAll service (CHR ''-'') (CHR ''_''))"
    using assms
    by (auto simp: is_ascii_def strings_ReplaceAll_def list_all_iff validSegment_iff
        dest: isSegmentByte_ascii)
  then show ?thesis
    by (simp add: envServicePrefix_def strings_ToUpper_def strings_ReplaceAll_def)
qed

section \<open>Properties\<close>

text \<open>
  C19. Selection takes the highest layer that is set (option, environment variable, config, then the
  OS default) and succeeds exactly when that layer names a known backend: an unknown value at a
  layer is never skipped in favour of a lower one.
\<close>

theorem selectBackend_precedence:
  "selectBackend rt service (Some opts) getenv goos = Inr (b, src) \<longleftrightarrow>
     (case find (\<lambda>(v, _). v \<noteq> []) (select_layers rt service opts getenv) of
        Some (v, s) \<Rightarrow> b = v \<and> src = s \<and> v \<in> set allBackends
      | None \<Rightarrow> osDefaultBackend goos = Some b \<and> src = SourceAuto)"
  by (auto simp: selectBackend_def select_layers_def Let_def parseBackend_cases
      split: option.split)

text \<open>
  Selection fails closed: every failure is \<open>ErrBackendNotImplemented\<close>, every success is a
  recognised backend, and the memory backend is never the automatic choice.
\<close>

theorem selectBackend_fail_closed:
  "case selectBackend rt service opts getenv goos of
     Inl e \<Rightarrow> errors_Is e ErrBackendNotImplemented
   | Inr (b, src) \<Rightarrow> b \<in> set allBackends \<and> \<not> (b = BackendMemory \<and> src = SourceAuto)"
proof (cases "selectBackend rt service opts getenv goos")
  case (Inl e)
  then show ?thesis using selectBackend_Inl by auto
next
  case (Inr r)
  obtain b src where r: "r = (b, src)" by (cases r)
  have "b \<in> set allBackends"
    using Inr r
    by (auto simp: selectBackend_def Let_def parseBackend_cases
        dest: osDefaultBackend_allBackends split: if_splits option.splits)
  moreover have "\<not> (b = BackendMemory \<and> src = SourceAuto)"
    using Inr r selectBackend_auto osDefaultBackend_never by blast
  ultimately show ?thesis
    using Inr r by simp
qed


text \<open>
  Binding a user-supplied flag and then selecting yields exactly the flag's backend as an
  explicit choice, whatever the environment, config and OS say; an unknown flag value (the empty one
  included) leaves the options untouched and reports \<open>ErrBackendNotImplemented\<close>.
\<close>

theorem BindBackendFlag_then_select:
  "case BindBackendFlag (Some opts) flagValue True configValue of
     (optsp, None) \<Rightarrow>
       flagValue \<in> set allBackends \<and>
       selectBackend rt service optsp getenv goos = Inr (flagValue, SourceExplicit)
   | (optsp, Some e) \<Rightarrow>
       flagValue \<notin> set allBackends \<and> optsp = Some opts \<and> errors_Is e ErrBackendNotImplemented"
proof (cases "flagValue \<in> set allBackends")
  case True
  then have "flagValue \<noteq> []"
    using allBackends_nonempty by blast
  with True show ?thesis
    by (simp add: BindBackendFlag_def ParseBackend_def parseBackend_cases selectBackend_def)
qed (simp add: BindBackendFlag_def ParseBackend_def parseBackend_cases)

text \<open>
  For a valid service the selector variable is a portable environment name: upper-case letters,
  digits and underscores only, whatever the Unicode tables hold.
\<close>

theorem backendEnvVar_portable:
  assumes "validSegment service" "c \<in> set (backendEnvVar rt service)"
  shows "CHR ''A'' \<le> c \<and> c \<le> CHR ''Z'' \<or> CHR ''0'' \<le> c \<and> c \<le> CHR ''9'' \<or> c = CHR ''_''"
proof (cases "c \<in> set (envServicePrefix rt service)")
  case True
  then obtain d where "isSegmentByte d" "c = upper_byte (if d = CHR ''-'' then CHR ''_'' else d)"
    using assms(1) by (auto simp: envServicePrefix_valid validSegment_iff)
  then show ?thesis
    using upper_byte_segment by blast
next
  case False
  then have "c \<in> set ''_KEYRING_BACKEND''"
    using assms(2) by (simp add: backendEnvVar_def)
  then show ?thesis
    by (auto simp: less_eq_char_def)
qed

theorem backendEnvVar_portable_witness:
  "CHR ''A'' \<le> CHR ''S'' \<and> CHR ''S'' \<le> CHR ''Z'' \<or> CHR ''0'' \<le> CHR ''S'' \<and> CHR ''S'' \<le> CHR ''9'' \<or>
   CHR ''S'' = CHR ''_''"
proof (rule backendEnvVar_portable [of "''slack-chat-api''" _
      "\<lparr>unicode_upper = id, unicode_lower = id, quote = id\<rparr>"])
  show "validSegment ''slack-chat-api''"
    by code_simp
  show "CHR ''S'' \<in> set (backendEnvVar \<lparr>unicode_upper = id, unicode_lower = id, quote = id\<rparr>
      ''slack-chat-api'')"
    by code_simp
qed

end
