(* ===== verification/BackendIface.thy ===== *)
theory BackendIface
  imports Select
begin

text \<open>
  The internal storage abstraction, \<open>type backend interface\<close> of \<open>credstore/store.go\<close>. An
  interface value is its method table (the record) and its receiver state (the type \<open>'b\<close>), which
  every call returns updated. The locale states what the client (\<open>Store\<close>, \<open>Bundle\<close>) relies
  on, in terms of the map a backend holds: reads change nothing, a write that succeeds changes one
  entry, a write that fails leaves every other entry alone. A failed write may have changed its own
  entry, except a no-overwrite write to an existing entry, which never does. The keys a client may
  pass are the item keys it builds from valid segments and the keys the backend holds (a listing may
  return an entry another program wrote): \<open>usable\<close>.
\<close>

record 'b backend =
  be_get :: "'b \<Rightarrow> string \<Rightarrow> 'b \<times> string result"
  be_set :: "'b \<Rightarrow> string \<Rightarrow> string \<Rightarrow> bool \<Rightarrow> 'b \<times> err option"
  be_delete :: "'b \<Rightarrow> string \<Rightarrow> 'b \<times> err option"
  be_exists :: "'b \<Rightarrow> string \<Rightarrow> 'b \<times> bool result"
  be_listKeys :: "'b \<Rightarrow> 'b \<times> string list result"
  be_kind :: "'b \<Rightarrow> Backend"
  be_close :: "'b \<Rightarrow> 'b \<times> err option"

type_synonym kvmap = "string \<rightharpoonup> string"

text \<open>Two maps that agree outside one key.\<close>

definition same_except :: "string set \<Rightarrow> kvmap \<Rightarrow> kvmap \<Rightarrow> bool" where
  "same_except K m1 m2 \<longleftrightarrow> (\<forall>j. j \<notin> K \<longrightarrow> m1 j = m2 j)"

lemma same_except_refl [simp, intro]: "same_except K m m"
  by (simp add: same_except_def)

lemma same_except_empty [simp]: "same_except {} m1 m2 \<longleftrightarrow> m1 = m2"
  by (auto simp: same_except_def)

lemma same_except_sym: "same_except K m1 m2 \<Longrightarrow> same_except K m2 m1"
  by (simp add: same_except_def)

lemma same_except_trans [trans]:
  "same_except K m1 m2 \<Longrightarrow> same_except L m2 m3 \<Longrightarrow> same_except (K \<union> L) m1 m3"
  by (simp add: same_except_def)

lemma same_except_mono: "same_except K m1 m2 \<Longrightarrow> K \<subseteq> L \<Longrightarrow> same_except L m1 m2"
  by (auto simp: same_except_def)

lemma same_except_upd [simp, intro]:
  "same_except {k} (m(k := x)) m" "same_except {k} m (m(k := x))"
  by (auto simp: same_except_def)

lemma same_exceptD: "same_except K m1 m2 \<Longrightarrow> j \<notin> K \<Longrightarrow> m1 j = m2 j"
  by (simp add: same_except_def)

definition is_item_key :: "string \<Rightarrow> bool" where
  "is_item_key ik \<longleftrightarrow> (\<exists>p k. validSegment p \<and> validSegment k \<and> ik = p @ ''/'' @ k)"

definition usable :: "('b \<Rightarrow> kvmap) \<Rightarrow> 'b \<Rightarrow> string \<Rightarrow> bool" where
  "usable view b k \<longleftrightarrow> is_item_key k \<or> view b k \<noteq> None"

lemma usable_item_key [simp, intro]: "is_item_key k \<Longrightarrow> usable view b k"
  by (simp add: usable_def)

lemma usable_held: "view b k \<noteq> None \<Longrightarrow> usable view b k"
  by (simp add: usable_def)

locale backend_laws =
  fixes ops :: "'b backend"
    and view :: "'b \<Rightarrow> kvmap"
    and good :: "'b \<Rightarrow> bool"
  assumes get_keeps: "good b \<Longrightarrow> usable view b k \<Longrightarrow> be_get ops b k = (b', r) \<Longrightarrow> good b' \<and> view b' = view b"
    and get_value: "good b \<Longrightarrow> usable view b k \<Longrightarrow> be_get ops b k = (b', Inr v) \<Longrightarrow> view b k = Some v"
    and get_absent: "good b \<Longrightarrow> usable view b k \<Longrightarrow> be_get ops b k = (b', Inl e) \<Longrightarrow> errors_Is e ErrNotFound \<Longrightarrow>
      view b k = None"
    and exists_keeps: "good b \<Longrightarrow> usable view b k \<Longrightarrow> be_exists ops b k = (b', r2) \<Longrightarrow> good b' \<and> view b' = view b"
    and exists_value: "good b \<Longrightarrow> usable view b k \<Longrightarrow> be_exists ops b k = (b', Inr p) \<Longrightarrow> p \<longleftrightarrow> view b k \<noteq> None"
    and set_ok: "good b \<Longrightarrow> usable view b k \<Longrightarrow> be_set ops b k v ow = (b', None) \<Longrightarrow>
      good b' \<and> view b' = (view b)(k \<mapsto> v) \<and> (ow \<or> view b k = None)"
    and set_fail: "good b \<Longrightarrow> usable view b k \<Longrightarrow> be_set ops b k v ow = (b', Some e) \<Longrightarrow>
      good b' \<and> same_except {k} (view b) (view b')"
    and set_guard: "good b \<Longrightarrow> usable view b k \<Longrightarrow> view b k \<noteq> None \<Longrightarrow> be_set ops b k v False = (b', r3) \<Longrightarrow>
      view b' = view b"
    and set_exists: "good b \<Longrightarrow> usable view b k \<Longrightarrow> be_set ops b k v False = (b', Some e) \<Longrightarrow> errors_Is e ErrExists \<Longrightarrow>
      view b' = view b"
    and delete_ok: "good b \<Longrightarrow> usable view b k \<Longrightarrow> be_delete ops b k = (b', None) \<Longrightarrow>
      good b' \<and> view b' = (view b)(k := None) \<and> view b k \<noteq> None"
    and delete_fail: "good b \<Longrightarrow> usable view b k \<Longrightarrow> be_delete ops b k = (b', Some e) \<Longrightarrow>
      good b' \<and> same_except {k} (view b) (view b')"
    and delete_absent: "good b \<Longrightarrow> usable view b k \<Longrightarrow> be_delete ops b k = (b', Some e) \<Longrightarrow> errors_Is e ErrNotFound \<Longrightarrow>
      view b k = None \<and> view b' = view b"
    and list_keeps: "good b \<Longrightarrow> be_listKeys ops b = (b', r4) \<Longrightarrow> good b' \<and> view b' = view b"
    and list_value: "good b \<Longrightarrow> be_listKeys ops b = (b', Inr ks) \<Longrightarrow>
      distinct ks \<and> set ks = dom (view b)"
begin

text \<open>Whatever their outcome, a write and a deletion touch their own key only.\<close>

lemma set_frame:
  "good b \<Longrightarrow> usable view b k \<Longrightarrow> be_set ops b k v ow = (b', r) \<Longrightarrow>
     good b' \<and> same_except {k} (view b) (view b')"
  using set_ok [of b k v ow b'] set_fail [of b k v ow b'] by (cases r) auto

lemma delete_frame:
  "good b \<Longrightarrow> usable view b k \<Longrightarrow> be_delete ops b k = (b', r) \<Longrightarrow>
     good b' \<and> same_except {k} (view b) (view b')"
  using delete_ok [of b k b'] delete_fail [of b k b'] by (cases r) auto

end

end
