(* ===== verification/Store.thy ===== *)
theory Store
  imports BackendIface
begin

text \<open>
  The service-scoped \<open>Store\<close> of \<open>credstore/store.go\<close>: item keys, the allowlist, the lifecycle
  and the single-key operations. A method takes the method table of the backend and the store and
  returns the store updated, as the thread that holds the mutex runs it (\<open>Threads\<close> is about the others).
  Calling a method of the nil backend is a panic, \<open>NilDereference\<close>; \<open>store_ok\<close> is the invariant under which none happens.
  The lemmas are proved once, for every backend that obeys \<open>backend_laws\<close>.
\<close>

section \<open>State\<close>

text \<open>
  \<open>st_allowed\<close> is the nil map (\<open>None\<close>: syntax-only) or a set of keys; \<open>st_be\<close> is the
  interface value, \<open>None\<close> when nil.
\<close>

record 'b Store =
  st_service :: string
  st_src :: Source
  st_kind :: Backend
  st_allowed :: "string set option"
  st_allowedList :: "string list"
  st_closed :: bool
  st_be :: "'b option"

section \<open>Keys and the allowlist\<close>

fun normalizeAllowedKeys_loop :: "string list \<Rightarrow> string set \<Rightarrow> string set result" where
  "normalizeAllowedKeys_loop [] A = Inr A"
| "normalizeAllowedKeys_loop (k # ks) A =
     (if k = '''' then Inl (ref_error RefErrorEmpty ''key'' '''')
      else if \<not> validSegment k then Inl (ref_error RefErrorInvalidChar ''key'' k)
      else normalizeAllowedKeys_loop ks (insert k A))"

text \<open>The map's keys, in whatever order they are visited, come out sorted.\<close>

definition normalizeAllowedKeys :: "string list \<Rightarrow> (string set option \<times> string list) result" where
  "normalizeAllowedKeys keys =
     (if keys = [] then Inr (None, [])
      else (case normalizeAllowedKeys_loop keys {} of
              Inl e \<Rightarrow> Inl e
            | Inr A \<Rightarrow> Inr (Some A, sorted_list_of_set A)))"

definition joinItemKey :: "string \<Rightarrow> string \<Rightarrow> string result" where
  "joinItemKey profile key =
     (if profile = '''' then Inl (ref_error RefErrorEmpty ''profile'' '''')
      else if \<not> validSegment profile then Inl (ref_error RefErrorInvalidChar ''profile'' profile)
      else if key = '''' then Inl (ref_error RefErrorEmpty ''key'' '''')
      else if \<not> validSegment key then Inl (ref_error RefErrorInvalidChar ''key'' key)
      else Inr (profile @ ''/'' @ key))"

definition checkAllowed :: "'b Store \<Rightarrow> string \<Rightarrow> err option" where
  "checkAllowed s key =
     (case st_allowed s of
        None \<Rightarrow> None
      | Some A \<Rightarrow>
          (if key \<in> A then None
           else Some (KeyErr \<lparr>Key = key, Allowed = st_allowedList s\<rparr>)))"

section \<open>Options of Set\<close>

record setOptions =
  overwrite :: bool

type_synonym SetOpt = "setOptions \<Rightarrow> setOptions"

definition WithOverwrite :: SetOpt where
  "WithOverwrite o1 = o1\<lparr>overwrite := True\<rparr>"

fun apply_opts :: "SetOpt list \<Rightarrow> setOptions \<Rightarrow> setOptions" where
  "apply_opts [] so = so"
| "apply_opts (f # fs) so = apply_opts fs (f so)"

definition so_overwrite :: "SetOpt list \<Rightarrow> bool" where
  "so_overwrite opts = overwrite (apply_opts opts \<lparr>overwrite = False\<rparr>)"

section \<open>Methods\<close>

text \<open>A method call on the interface field: the state it leaves is stored back.\<close>

definition on_backend :: "'b Store \<Rightarrow> 'r \<Rightarrow> ('b \<Rightarrow> 'b \<times> 'r) \<Rightarrow> 'b Store \<times> 'r" where
  "on_backend s panic f =
     (case st_be s of
        None \<Rightarrow> (s, panic)
      | Some b \<Rightarrow> (case f b of (b', r) \<Rightarrow> (s\<lparr>st_be := Some b'\<rparr>, r)))"

definition Store_Backend :: "'b Store \<Rightarrow> Backend \<times> Source" where
  "Store_Backend s = (st_kind s, st_src s)"

definition Store_Close :: "'b backend \<Rightarrow> 'b Store \<Rightarrow> 'b Store \<times> err option" where
  "Store_Close ops s =
     (if st_closed s then (s, None)
      else
        (case on_backend s (Some NilDereference) (be_close ops) of
           (s', Some e) \<Rightarrow> (s', Some e)
         | (s', None) \<Rightarrow> (s'\<lparr>st_closed := True, st_be := None\<rparr>, None)))"

definition Store_Get :: "'b backend \<Rightarrow> 'b Store \<Rightarrow> string \<Rightarrow> string \<Rightarrow> 'b Store \<times> string result" where
  "Store_Get ops s profile key =
     (if st_closed s then (s, Inl (Sentinel ErrStoreClosed))
      else
        (case joinItemKey profile key of
           Inl e \<Rightarrow> (s, Inl e)
         | Inr itemKey \<Rightarrow> on_backend s (Inl NilDereference) (\<lambda>b. be_get ops b itemKey)))"

definition Store_Set ::
  "'b backend \<Rightarrow> 'b Store \<Rightarrow> string \<Rightarrow> string \<Rightarrow> string \<Rightarrow> SetOpt list \<Rightarrow> 'b Store \<times> err option"
where
  "Store_Set ops s profile key value opts =
     (if st_closed s then (s, Some (Sentinel ErrStoreClosed))
      else
        (case joinItemKey profile key of
           Inl e \<Rightarrow> (s, Some e)
         | Inr itemKey \<Rightarrow>
             (case checkAllowed s key of
                Some e \<Rightarrow> (s, Some e)
              | None \<Rightarrow> on_backend s (Some NilDereference)
                          (\<lambda>b. be_set ops b itemKey value (so_overwrite opts)))))"

definition Store_Delete :: "'b backend \<Rightarrow> 'b Store \<Rightarrow> string \<Rightarrow> string \<Rightarrow> 'b Store \<times> err option" where
  "Store_Delete ops s profile key =
     (if st_closed s then (s, Some (Sentinel ErrStoreClosed))
      else
        (case joinItemKey profile key of
           Inl e \<Rightarrow> (s, Some e)
         | Inr itemKey \<Rightarrow>
             (case checkAllowed s key of
                Some e \<Rightarrow> (s, Some e)
              | None \<Rightarrow> on_backend s (Some NilDereference) (\<lambda>b. be_delete ops b itemKey))))"

definition Store_Exists :: "'b backend \<Rightarrow> 'b Store \<Rightarrow> string \<Rightarrow> string \<Rightarrow> 'b Store \<times> bool result" where
  "Store_Exists ops s profile key =
     (if st_closed s then (s, Inl (Sentinel ErrStoreClosed))
      else
        (case joinItemKey profile key of
           Inl e \<Rightarrow> (s, Inl e)
         | Inr itemKey \<Rightarrow> on_backend s (Inl NilDereference) (\<lambda>b. be_exists ops b itemKey)))"

section \<open>Facts about keys\<close>

lemma joinItemKey_Inr:
  "joinItemKey profile key = Inr ik \<longleftrightarrow>
     validSegment profile \<and> validSegment key \<and> ik = profile @ ''/'' @ key"
  by (auto simp: joinItemKey_def dest: validSegment_nonempty)

lemma joinItemKey_item: "joinItemKey profile key = Inr ik \<Longrightarrow> is_item_key ik"
  by (auto simp: joinItemKey_Inr is_item_key_def)

lemma joinItemKey_inj:
  "joinItemKey p k = Inr ik \<Longrightarrow> joinItemKey p' k' = Inr ik \<Longrightarrow> p = p' \<and> k = k'"
  by (auto simp: joinItemKey_Inr append_Cons_eq_iff validSegment_no_slash)

lemma joinItemKey_Inl: "joinItemKey profile key = Inl e \<Longrightarrow> \<not> errors_Is e ErrStoreClosed"
  by (auto simp: joinItemKey_def errors_Is_defs split: if_splits)

lemma normalizeAllowedKeys_loop_Inr:
  "normalizeAllowedKeys_loop ks A = Inr B \<longleftrightarrow> (\<forall>k \<in> set ks. validSegment k) \<and> B = A \<union> set ks"
  by (induction ks arbitrary: A) (auto dest: validSegment_nonempty)

lemma so_overwrite_With [simp]: "so_overwrite [WithOverwrite]" "\<not> so_overwrite []"
  by (simp_all add: so_overwrite_def WithOverwrite_def)

section \<open>The invariant\<close>

text \<open>Closed exactly when the backend is gone, and the reported list is the allowlist, sorted.\<close>

definition store_ok :: "('b \<Rightarrow> bool) \<Rightarrow> 'b Store \<Rightarrow> bool" where
  "store_ok good s \<longleftrightarrow>
     (case st_be s of None \<Rightarrow> st_closed s | Some b \<Rightarrow> \<not> st_closed s \<and> good b) \<and>
     (case st_allowed s of
        None \<Rightarrow> st_allowedList s = []
      | Some A \<Rightarrow> finite A \<and> A \<noteq> {} \<and> (\<forall>k \<in> A. validSegment k) \<and>
          st_allowedList s = sorted_list_of_set A)"

text \<open>The abstract store: what is held at a profile and key.\<close>

definition store_view :: "('b \<Rightarrow> kvmap) \<Rightarrow> 'b Store \<Rightarrow> kvmap" where
  "store_view view s = (case st_be s of None \<Rightarrow> Map.empty | Some b \<Rightarrow> view b)"

definition store_abs :: "('b \<Rightarrow> kvmap) \<Rightarrow> 'b Store \<Rightarrow> string \<times> string \<rightharpoonup> string" where
  "store_abs view s = (\<lambda>(profile, key).
     if validSegment profile \<and> validSegment key then store_view view s (profile @ ''/'' @ key)
     else None)"

text \<open>What no operation changes: everything but the backend's state.\<close>

definition same_frame :: "'b Store \<Rightarrow> 'b Store \<Rightarrow> bool" where
  "same_frame s s' \<longleftrightarrow> st_service s = st_service s' \<and> Store_Backend s = Store_Backend s' \<and>
     st_allowed s = st_allowed s' \<and> st_allowedList s = st_allowedList s'"

lemma store_okD:
  assumes "store_ok good s" "\<not> st_closed s"
  obtains b where "st_be s = Some b" "good b"
  using assms by (auto simp: store_ok_def split: option.splits)

lemma store_ok_upd_be:
  "store_ok good s \<Longrightarrow> \<not> st_closed s \<Longrightarrow> good b \<Longrightarrow> store_ok good (s\<lparr>st_be := Some b\<rparr>)"
  by (auto simp: store_ok_def split: option.splits)

lemma store_view_upd_be [simp]: "store_view view (s\<lparr>st_be := Some b\<rparr>) = view b"
  by (simp add: store_view_def)

lemma store_view_open: "st_be s = Some b \<Longrightarrow> store_view view s = view b"
  by (simp add: store_view_def)

lemma same_frame_refl [simp]: "same_frame s s"
  by (simp add: same_frame_def)

lemma same_frame_upd_be [simp]: "same_frame s (s\<lparr>st_be := b\<rparr>)"
  by (simp add: same_frame_def Store_Backend_def)

lemma store_abs_eqI: "store_view view s = store_view view s' \<Longrightarrow> store_abs view s = store_abs view s'"
  by (simp add: store_abs_def fun_eq_iff)

lemma store_abs_upd:
  assumes "joinItemKey p k = Inr ik" "store_view view s' = (store_view view s)(ik := x)"
  shows "store_abs view s' = (store_abs view s)((p, k) := x)"
proof (rule ext)
  fix pk :: "string \<times> string"
  obtain p' k' where pk: "pk = (p', k')" by (cases pk)
  have "validSegment p \<and> validSegment k" and ik: "ik = p @ ''/'' @ k"
    using assms(1) by (simp_all add: joinItemKey_Inr)
  moreover have "validSegment p' \<Longrightarrow> validSegment k' \<Longrightarrow> p' @ ''/'' @ k' = ik \<longleftrightarrow> p' = p \<and> k' = k"
    using joinItemKey_inj [of p' k' ik p k] assms(1) ik by (auto simp: joinItemKey_Inr)
  ultimately show "store_abs view s' pk = ((store_abs view s)((p, k) := x)) pk"
    using assms(2) pk by (auto simp: store_abs_def)
qed

lemma checkAllowed_None: "checkAllowed s k = None \<longleftrightarrow> (\<forall>A. st_allowed s = Some A \<longrightarrow> k \<in> A)"
  by (auto simp: checkAllowed_def split: option.splits)

lemma checkAllowed_Some: "checkAllowed s k = Some e \<Longrightarrow> errors_Is e ErrKeyNotAllowed"
  by (auto simp: checkAllowed_def errors_Is_defs split: option.splits if_splits)

end
