(* ===== verification/Memory.thy ===== *)
theory Memory
  imports BackendIface "HOL-Library.AList"
begin

text \<open>
  The in-memory backend, \<open>credstore/memory.go\<close>. The Go map is an association list without
  repeated keys: its order is the order in which one \<open>range\<close> visits the entries, so a theorem for
  every list holds for every iteration order. \<open>None\<close> is the nil map that signals closed. The two
  hooks are the test seams; \<open>None\<close> is a nil hook. The mutex makes each method one atomic step,
  which is what a function on the state is.
\<close>

record memoryBackend =
  mem_m :: "(string \<times> string) list option"
  setHook :: "(string \<Rightarrow> err option) option"
  deleteHook :: "(string \<Rightarrow> err option) option"

definition newMemoryBackend :: memoryBackend where
  "newMemoryBackend = \<lparr>mem_m = Some [], setHook = None, deleteHook = None\<rparr>"

definition memory_kind :: "memoryBackend \<Rightarrow> Backend" where
  "memory_kind b = BackendMemory"

definition memory_get :: "memoryBackend \<Rightarrow> string \<Rightarrow> memoryBackend \<times> string result" where
  "memory_get b itemKey =
     (case mem_m b of
        None \<Rightarrow> (b, Inl (Sentinel ErrStoreClosed))
      | Some al \<Rightarrow>
          (case map_of al itemKey of
             None \<Rightarrow> (b, Inl (Sentinel ErrNotFound))
           | Some v \<Rightarrow> (b, Inr v)))"

definition call_hook :: "(string \<Rightarrow> err option) option \<Rightarrow> string \<Rightarrow> err option" where
  "call_hook h itemKey = (case h of None \<Rightarrow> None | Some f \<Rightarrow> f itemKey)"

definition memory_set ::
  "memoryBackend \<Rightarrow> string \<Rightarrow> string \<Rightarrow> bool \<Rightarrow> memoryBackend \<times> err option"
where
  "memory_set b itemKey value overwrite =
     (case mem_m b of
        None \<Rightarrow> (b, Some (Sentinel ErrStoreClosed))
      | Some al \<Rightarrow>
          (case call_hook (setHook b) itemKey of
             Some e \<Rightarrow> (b, Some e)
           | None \<Rightarrow>
               (if \<not> overwrite \<and> map_of al itemKey \<noteq> None then (b, Some (Sentinel ErrExists))
                else (b\<lparr>mem_m := Some (AList.update itemKey value al)\<rparr>, None))))"

definition memory_delete :: "memoryBackend \<Rightarrow> string \<Rightarrow> memoryBackend \<times> err option" where
  "memory_delete b itemKey =
     (case mem_m b of
        None \<Rightarrow> (b, Some (Sentinel ErrStoreClosed))
      | Some al \<Rightarrow>
          (if map_of al itemKey = None then (b, Some (Sentinel ErrNotFound))
           else (case call_hook (deleteHook b) itemKey of
                   Some e \<Rightarrow> (b, Some e)
                 | None \<Rightarrow> (b\<lparr>mem_m := Some (AList.delete itemKey al)\<rparr>, None))))"

definition memory_exists :: "memoryBackend \<Rightarrow> string \<Rightarrow> memoryBackend \<times> bool result" where
  "memory_exists b itemKey =
     (case mem_m b of
        None \<Rightarrow> (b, Inl (Sentinel ErrStoreClosed))
      | Some al \<Rightarrow> (b, Inr (map_of al itemKey \<noteq> None)))"

definition memory_listKeys :: "memoryBackend \<Rightarrow> memoryBackend \<times> string list result" where
  "memory_listKeys b =
     (case mem_m b of
        None \<Rightarrow> (b, Inl (Sentinel ErrStoreClosed))
      | Some al \<Rightarrow> (b, Inr (map fst al)))"

definition memory_close :: "memoryBackend \<Rightarrow> memoryBackend \<times> err option" where
  "memory_close b =
     (case mem_m b of
        None \<Rightarrow> (b, None)
      | Some al \<Rightarrow>
          (let cleared = b\<lparr>mem_m := Some (map (\<lambda>(k, _). (k, '''')) al)\<rparr>
           in (cleared\<lparr>mem_m := None\<rparr>, None)))"

definition memory_ops :: "memoryBackend backend" where
  "memory_ops =
     \<lparr>be_get = memory_get, be_set = memory_set, be_delete = memory_delete,
      be_exists = memory_exists, be_listKeys = memory_listKeys, be_kind = memory_kind,
      be_close = memory_close\<rparr>"

section \<open>The laws of the interface\<close>

definition memory_view :: "memoryBackend \<Rightarrow> kvmap" where
  "memory_view b = (case mem_m b of None \<Rightarrow> Map.empty | Some al \<Rightarrow> map_of al)"

text \<open>
  The invariant: open, keys not repeated, and a delete hook that does not claim the key it is
  consulted for is missing (it is consulted for existing keys only).
\<close>

definition memory_good :: "memoryBackend \<Rightarrow> bool" where
  "memory_good b \<longleftrightarrow>
     (case mem_m b of None \<Rightarrow> False | Some al \<Rightarrow> distinct (map fst al)) \<and>
     (\<forall>k e. call_hook (deleteHook b) k = Some e \<longrightarrow> \<not> errors_Is e ErrNotFound)"

lemma memory_ops_simps [simp]:
  "be_get memory_ops = memory_get" "be_set memory_ops = memory_set"
  "be_delete memory_ops = memory_delete" "be_exists memory_ops = memory_exists"
  "be_listKeys memory_ops = memory_listKeys" "be_kind memory_ops = memory_kind"
  "be_close memory_ops = memory_close"
  by (simp_all add: memory_ops_def)

lemmas memory_defs =
  memory_get_def memory_set_def memory_delete_def memory_exists_def memory_listKeys_def
  memory_view_def memory_good_def

interpretation mem: backend_laws memory_ops memory_view memory_good
  by unfold_locales
     (auto simp: memory_defs update_conv' delete_conv' distinct_update distinct_delete dom_map_of_conv_image_fst
        split: option.splits if_splits)

lemma memory_good_new: "memory_good newMemoryBackend"
  by (simp add: memory_good_def newMemoryBackend_def call_hook_def)

lemma memory_view_new: "memory_view newMemoryBackend = Map.empty"
  by (simp add: memory_view_def newMemoryBackend_def)

end
