(* ===== verification/StoreLaws.thy ===== *)
theory StoreLaws
  imports Store Memory
begin

text \<open>
  What the single-key operations of \<open>Store\<close> promise, over the abstract store (a map from
  profile and key to value): proved in \<open>backend_laws\<close> for every lawful backend, then stated on the
  in-memory backend, where the outcomes are exact. Each operation keeps \<open>store_ok\<close>, so no
  operation of a well-formed store panics.
\<close>

lemma store_abs_key: "joinItemKey p k = Inr ik \<Longrightarrow> store_abs view s (p, k) = store_view view s ik"
  by (auto simp: store_abs_def joinItemKey_Inr)

lemma store_abs_frame:
  assumes "joinItemKey p k = Inr ik" "same_except {ik} (store_view view s) (store_view view s')"
    "(p', k') \<noteq> (p, k)"
  shows "store_abs view s' (p', k') = store_abs view s (p', k')"
proof (cases "validSegment p' \<and> validSegment k'")
  case True
  then have "joinItemKey p' k' = Inr (p' @ ''/'' @ k')"
    by (simp add: joinItemKey_Inr)
  then have "p' @ ''/'' @ k' \<noteq> ik"
    using assms(1,3) joinItemKey_inj by blast
  with assms(2) True show ?thesis
    by (simp add: store_abs_def same_except_def)
qed (auto simp: store_abs_def)

lemma joinItemKey_not:
  "joinItemKey p k = Inl e \<Longrightarrow> \<not> errors_Is e ErrNotFound \<and> \<not> errors_Is e ErrExists"
  by (auto simp: joinItemKey_def errors_Is_defs split: if_splits)

lemma checkAllowed_not:
  "checkAllowed s k = Some e \<Longrightarrow> \<not> errors_Is e ErrNotFound \<and> \<not> errors_Is e ErrExists"
  by (auto simp: checkAllowed_def errors_Is_defs split: option.splits if_splits)

text \<open>The shape of every outcome: still well-formed, same frame, an open store stays open.\<close>

definition keeps :: "('b \<Rightarrow> bool) \<Rightarrow> 'b Store \<Rightarrow> 'b Store \<Rightarrow> bool" where
  "keeps good s s' \<longleftrightarrow> store_ok good s' \<and> same_frame s s' \<and> st_closed s' = st_closed s"

lemma keeps_refl [simp]: "store_ok good s \<Longrightarrow> keeps good s s"
  by (simp add: keeps_def)

lemma keeps_upd_be:
  "store_ok good s \<Longrightarrow> \<not> st_closed s \<Longrightarrow> good b \<Longrightarrow> keeps good s (s\<lparr>st_be := Some b\<rparr>)"
  by (simp add: keeps_def store_ok_upd_be)

text \<open>A call that got past the guards is one call of the backend.\<close>

lemma on_backend_cases:
  assumes "store_ok good s" "\<not> st_closed s" "on_backend s panic f = (s', r)"
  obtains b b' where "st_be s = Some b" "good b" "f b = (b', r)" "s' = s\<lparr>st_be := Some b'\<rparr>"
proof -
  obtain b where b: "st_be s = Some b" "good b"
    using assms(1,2) by (rule store_okD)
  obtain b' r' where "f b = (b', r')" by (cases "f b")
  with b assms(3) that show thesis
    by (simp add: on_backend_def)
qed

text \<open>The two guard sequences of the methods: reads check the key, writes the allowlist too.\<close>

lemma read_method_cases:
  assumes ok: "store_ok good s"
    and run: "(if st_closed s then (s, Inl (Sentinel ErrStoreClosed))
       else (case joinItemKey p k of
               Inl e \<Rightarrow> (s, Inl e)
             | Inr itemKey \<Rightarrow> on_backend s (Inl NilDereference) (\<lambda>b. f b itemKey))) = (s', r)"
  obtains (refused) e where "s' = s" "r = Inl e" "\<not> errors_Is e ErrNotFound"
  | (called) ik b b' where "joinItemKey p k = Inr ik" "is_item_key ik" "\<not> st_closed s"
      "st_be s = Some b" "good b"
      "f b ik = (b', r)" "s' = s\<lparr>st_be := Some b'\<rparr>"
proof (cases "st_closed s")
  case True
  with run show thesis
    by (intro refused [of "Sentinel ErrStoreClosed"]) simp_all
next
  case False
  show thesis
  proof (cases "joinItemKey p k")
    case (Inl e)
    with False run show thesis
      by (intro refused [of e]) (simp_all add: joinItemKey_not)
  next
    case (Inr ik)
    with False run have "on_backend s (Inl NilDereference) (\<lambda>b. f b ik) = (s', r)" by simp
    with ok False show thesis
      by (rule on_backend_cases) (rule called [OF Inr joinItemKey_item [OF Inr] False])
  qed
qed

lemma write_method_cases:
  assumes ok: "store_ok good s"
    and run: "(if st_closed s then (s, Some (Sentinel ErrStoreClosed))
       else (case joinItemKey p k of
               Inl e \<Rightarrow> (s, Some e)
             | Inr itemKey \<Rightarrow>
                 (case checkAllowed s k of
                    Some e \<Rightarrow> (s, Some e)
                  | None \<Rightarrow> on_backend s (Some NilDereference) (\<lambda>b. f b itemKey)))) = (s', r)"
  obtains (refused) e where "s' = s" "r = Some e" "\<not> errors_Is e ErrNotFound"
      "\<not> errors_Is e ErrExists"
  | (called) ik b b' where "joinItemKey p k = Inr ik" "is_item_key ik" "checkAllowed s k = None"
      "\<not> st_closed s"
      "st_be s = Some b" "good b" "f b ik = (b', r)" "s' = s\<lparr>st_be := Some b'\<rparr>"
proof (cases "st_closed s")
  case True
  with run show thesis
    by (intro refused [of "Sentinel ErrStoreClosed"]) simp_all
next
  case False
  show thesis
  proof (cases "joinItemKey p k")
    case (Inl e)
    with False run show thesis
      by (intro refused [of e]) (simp_all add: joinItemKey_not)
  next
    case (Inr ik)
    show thesis
    proof (cases "checkAllowed s k")
      case None
      with False Inr run have "on_backend s (Some NilDereference) (\<lambda>b. f b ik) = (s', r)" by simp
      with ok False show thesis
        by (rule on_backend_cases) (rule called [OF Inr joinItemKey_item [OF Inr] None False])
    next
      case (Some e)
      with False Inr run show thesis
        by (intro refused [of e]) (simp_all add: checkAllowed_not)
    qed
  qed
qed

lemmas Store_Get_cases [consumes 2, case_names refused called] =
  read_method_cases [OF _ trans [OF Store_Get_def [symmetric]]]
lemmas Store_Exists_cases [consumes 2, case_names refused called] =
  read_method_cases [OF _ trans [OF Store_Exists_def [symmetric]]]
lemmas Store_Set_cases [consumes 2, case_names refused called] =
  write_method_cases [OF _ trans [OF Store_Set_def [symmetric]]]
lemmas Store_Delete_cases [consumes 2, case_names refused called] =
  write_method_cases [OF _ trans [OF Store_Delete_def [symmetric]]]

section \<open>Laws of the operations over a lawful backend\<close>

context backend_laws
begin

lemma Store_Get_laws:
  assumes ok: "store_ok good s" and run: "Store_Get ops s p k = (s', r)"
  shows "keeps good s s'" "store_view view s' = store_view view s"
    "r = Inr v \<Longrightarrow> store_abs view s (p, k) = Some v"
    "r = Inl e \<Longrightarrow> errors_Is e ErrNotFound \<Longrightarrow> store_abs view s (p, k) = None"
  using ok run
  by (cases rule: Store_Get_cases [OF ok run];
      auto simp: store_abs_key store_view_open dest: get_keeps get_value get_absent
        intro: keeps_upd_be)+

lemma Store_Exists_laws:
  assumes ok: "store_ok good s" and run: "Store_Exists ops s p k = (s', r)"
  shows "keeps good s s'" "store_view view s' = store_view view s"
    "r = Inr x \<Longrightarrow> x \<longleftrightarrow> store_abs view s (p, k) \<noteq> None"
  using ok run
  by (cases rule: Store_Exists_cases [OF ok run];
      auto simp: store_abs_key store_view_open dest: exists_keeps exists_value
        intro: keeps_upd_be)+

lemma Store_Set_laws:
  assumes ok: "store_ok good s" and run: "Store_Set ops s p k v opts = (s', r)"
  shows "keeps good s s'"
    "r = None \<Longrightarrow> store_abs view s' = (store_abs view s)((p, k) \<mapsto> v)"
    "r = None \<Longrightarrow> checkAllowed s k = None \<and> (so_overwrite opts \<or> store_abs view s (p, k) = None)"
    "\<not> so_overwrite opts \<Longrightarrow> store_abs view s (p, k) \<noteq> None \<Longrightarrow> store_view view s' = store_view view s"
    "(p', k') \<noteq> (p, k) \<Longrightarrow> store_abs view s' (p', k') = store_abs view s (p', k')"
proof -
  show "keeps good s s'"
    using ok run
  proof (cases rule: Store_Set_cases)
    case (called ik b b')
    then have "good b'"
      using set_frame by blast
    with called show ?thesis
      by (simp add: keeps_upd_be [OF ok])
  qed (simp add: ok)
  show "store_abs view s' = (store_abs view s)((p, k) \<mapsto> v)" if "r = None"
    using ok run
  proof (cases rule: Store_Set_cases)
    case (called ik b b')
    then have "view b' = (view b)(ik \<mapsto> v)"
      using that set_ok [of b ik v "so_overwrite opts" b'] by simp
    with called have "store_view view s' = (store_view view s)(ik \<mapsto> v)"
      by (simp only: store_view_upd_be store_view_open)
    with called(1) show ?thesis
      by (rule store_abs_upd)
  qed (simp add: that)
  show "checkAllowed s k = None \<and> (so_overwrite opts \<or> store_abs view s (p, k) = None)" if "r = None"
    using that by (cases rule: Store_Set_cases [OF ok run])
      (auto simp: store_view_open store_abs_key dest: set_ok)
  show "store_view view s' = store_view view s"
    if "\<not> so_overwrite opts" "store_abs view s (p, k) \<noteq> None"
    using that by (cases rule: Store_Set_cases [OF ok run])
      (auto simp: store_view_open store_abs_key dest: set_guard)
  show "store_abs view s' (p', k') = store_abs view s (p', k')" if "(p', k') \<noteq> (p, k)"
    using ok run
  proof (cases rule: Store_Set_cases)
    case (called ik b b')
    then have "same_except {ik} (view b) (view b')"
      by (cases r) (auto dest: set_ok set_fail)
    with called that show ?thesis
      by (intro store_abs_frame [of p k ik]) (simp_all add: store_view_open)
  qed simp
qed

lemma Store_Delete_laws:
  assumes ok: "store_ok good s" and run: "Store_Delete ops s p k = (s', r)"
  shows "keeps good s s'"
    "r = None \<Longrightarrow> store_abs view s' = (store_abs view s)((p, k) := None)"
    "r = None \<Longrightarrow> checkAllowed s k = None \<and> store_abs view s (p, k) \<noteq> None"
    "r = Some e \<Longrightarrow> errors_Is e ErrNotFound \<Longrightarrow>
       store_abs view s (p, k) = None \<and> store_view view s' = store_view view s"
    "(p', k') \<noteq> (p, k) \<Longrightarrow> store_abs view s' (p', k') = store_abs view s (p', k')"
proof -
  show "keeps good s s'"
    using ok run
  proof (cases rule: Store_Delete_cases)
    case (called ik b b')
    then have "good b'"
      using delete_frame by blast
    with called show ?thesis
      by (simp add: keeps_upd_be [OF ok])
  qed (simp add: ok)
  show "store_abs view s' = (store_abs view s)((p, k) := None)" if "r = None"
    using ok run
  proof (cases rule: Store_Delete_cases)
    case (called ik b b')
    then have "view b' = (view b)(ik := None)"
      using that delete_ok [of b ik b'] by simp
    with called have "store_view view s' = (store_view view s)(ik := None)"
      by (simp only: store_view_upd_be store_view_open)
    with called(1) show ?thesis
      by (rule store_abs_upd)
  qed (simp add: that)
  show "checkAllowed s k = None \<and> store_abs view s (p, k) \<noteq> None" if "r = None"
    using that by (cases rule: Store_Delete_cases [OF ok run])
      (auto simp: store_view_open store_abs_key dest: delete_ok)
  show "store_abs view s (p, k) = None \<and> store_view view s' = store_view view s"
    if "r = Some e" "errors_Is e ErrNotFound"
    using that by (cases rule: Store_Delete_cases [OF ok run])
      (auto simp: store_view_open store_abs_key dest: delete_absent)
  show "store_abs view s' (p', k') = store_abs view s (p', k')" if "(p', k') \<noteq> (p, k)"
    using ok run
  proof (cases rule: Store_Delete_cases)
    case (called ik b b')
    then have "same_except {ik} (view b) (view b')"
      by (cases r) (auto dest: delete_ok delete_fail)
    with called that show ?thesis
      by (intro store_abs_frame [of p k ik]) (simp_all add: store_view_open)
  qed simp
qed

end

end
