(* ===== verification/Bundle.thy ===== *)
theory Bundle
  imports StoreLaws
begin

text \<open>
  The bundle operations of \<open>credstore/bundle.go\<close>: \<open>ListBundle\<close>, \<open>ListProfiles\<close>,
  \<open>DeleteBundle\<close> and \<open>SetBundle\<close> with its snapshot and rollback. Each loop of the source is a
  recursive function over the keys that threads the backend's state. A Go map argument is an
  association list read by \<open>map_of\<close>; its keys are visited in sorted order, as in the source.
\<close>

record Result =
  Written :: "string list"
  Restored :: "string list"
  Absent :: "string list"
  Untouched :: "string list"
  RollbackFailed :: "string list"

definition Result_zero :: Result where
  "Result_zero =
     \<lparr>Written = [], Restored = [], Absent = [], Untouched = [], RollbackFailed = []\<rparr>"

definition validateProfile :: "string \<Rightarrow> err option" where
  "validateProfile profile =
     (if profile = '''' then Some (ref_error RefErrorEmpty ''profile'' '''')
      else if \<not> validSegment profile then Some (ref_error RefErrorInvalidChar ''profile'' profile)
      else None)"

section \<open>Listing\<close>

fun bare_keys_loop :: "string \<Rightarrow> string list \<Rightarrow> string list \<Rightarrow> string list" where
  "bare_keys_loop pre [] keys = keys"
| "bare_keys_loop pre (ik # all) keys =
     (if prefix pre ik then bare_keys_loop pre all (keys @ [drop (length pre) ik])
      else bare_keys_loop pre all keys)"

definition bundleBareKeys :: "'b backend \<Rightarrow> 'b Store \<Rightarrow> string \<Rightarrow> 'b Store \<times> string list result" where
  "bundleBareKeys ops s profile =
     (case on_backend s (Inl NilDereference) (be_listKeys ops) of
        (s', Inl e) \<Rightarrow> (s', Inl e)
      | (s', Inr all) \<Rightarrow> (s', Inr (sort (bare_keys_loop (profile @ ''/'') all []))))"

definition Store_ListBundle ::
  "'b backend \<Rightarrow> 'b Store \<Rightarrow> string \<Rightarrow> 'b Store \<times> string list result"
where
  "Store_ListBundle ops s profile =
     (if st_closed s then (s, Inl (Sentinel ErrStoreClosed))
      else
        (case validateProfile profile of
           Some e \<Rightarrow> (s, Inl e)
         | None \<Rightarrow> bundleBareKeys ops s profile))"

fun ListProfiles_loop :: "string list \<Rightarrow> string set \<Rightarrow> string list \<Rightarrow> string list" where
  "ListProfiles_loop [] seen profiles = profiles"
| "ListProfiles_loop (ik # all) seen profiles =
     (case strings_Cut ik (CHR ''/'') of
        (profile, _, found) \<Rightarrow>
          if \<not> found \<or> profile = '''' then ListProfiles_loop all seen profiles
          else if profile \<in> seen then ListProfiles_loop all seen profiles
          else ListProfiles_loop all (insert profile seen) (profiles @ [profile]))"

definition Store_ListProfiles :: "'b backend \<Rightarrow> 'b Store \<Rightarrow> 'b Store \<times> string list result" where
  "Store_ListProfiles ops s =
     (if st_closed s then (s, Inl (Sentinel ErrStoreClosed))
      else
        (case on_backend s (Inl NilDereference) (be_listKeys ops) of
           (s', Inl e) \<Rightarrow> (s', Inl e)
         | (s', Inr all) \<Rightarrow> (s', Inr (sort (ListProfiles_loop all {} [])))))"

section \<open>DeleteBundle\<close>

fun DeleteBundle_loop ::
  "'b backend \<Rightarrow> 'b \<Rightarrow> string \<Rightarrow> string list \<Rightarrow> string list \<Rightarrow> string list \<Rightarrow>
     'b \<times> string list \<times> string list"
where
  "DeleteBundle_loop ops b pre [] deleted failed = (b, deleted, failed)"
| "DeleteBundle_loop ops b pre (k # ks) deleted failed =
     (case be_delete ops b (pre @ k) of
        (b', Some e) \<Rightarrow> DeleteBundle_loop ops b' pre ks deleted (failed @ [k])
      | (b', None) \<Rightarrow> DeleteBundle_loop ops b' pre ks (deleted @ [k]) failed)"

definition Store_DeleteBundle ::
  "'b backend \<Rightarrow> 'b Store \<Rightarrow> string \<Rightarrow> 'b Store \<times> string list \<times> err option"
where
  "Store_DeleteBundle ops s profile =
     (if st_closed s then (s, [], Some (Sentinel ErrStoreClosed))
      else
        (case validateProfile profile of
           Some e \<Rightarrow> (s, [], Some e)
         | None \<Rightarrow>
             (case bundleBareKeys ops s profile of
                (s1, Inl e) \<Rightarrow> (s1, [], Some e)
              | (s1, Inr targets) \<Rightarrow>
                  (case on_backend s1 ([], targets)
                          (\<lambda>b. DeleteBundle_loop ops b (profile @ ''/'') targets [] []) of
                     (s2, deleted, failed) \<Rightarrow>
                       (if failed \<noteq> [] then
                          (s2, deleted, Some (Errorf
                             [Lit ''credstore: DeleteBundle('', Quoted profile,
                              Lit ''): failed to delete '', Dec (length failed), Lit '' key(s): '',
                              Lit (strings_Join failed '', '')]))
                        else (s2, deleted, None))))))"

section \<open>SetBundle\<close>

text \<open>Validation of every key before any write, building the item keys.\<close>

fun SetBundle_keys :: "'b Store \<Rightarrow> string \<Rightarrow> string list \<Rightarrow> kvmap \<Rightarrow> kvmap result" where
  "SetBundle_keys s profile [] itemKey = Inr itemKey"
| "SetBundle_keys s profile (k # ks) itemKey =
     (case joinItemKey profile k of
        Inl e \<Rightarrow> Inl e
      | Inr ik \<Rightarrow>
          (case checkAllowed s k of
             Some e \<Rightarrow> Inl e
           | None \<Rightarrow> SetBundle_keys s profile ks (itemKey(k \<mapsto> ik))))"

fun SetBundle_existed ::
  "'b backend \<Rightarrow> 'b \<Rightarrow> kvmap \<Rightarrow> string list \<Rightarrow> (string \<rightharpoonup> bool) \<Rightarrow> 'b \<times> (string \<rightharpoonup> bool) result"
where
  "SetBundle_existed ops b itemKey [] existed = (b, Inr existed)"
| "SetBundle_existed ops b itemKey (k # ks) existed =
     (case be_exists ops b (map_get itemKey k) of
        (b', Inl e) \<Rightarrow> (b', Inl e)
      | (b', Inr ok) \<Rightarrow> SetBundle_existed ops b' itemKey ks (existed(k \<mapsto> ok)))"

fun SetBundle_conflicts :: "(string \<rightharpoonup> bool) \<Rightarrow> string list \<Rightarrow> string list \<Rightarrow> string list" where
  "SetBundle_conflicts existed [] conflicts = conflicts"
| "SetBundle_conflicts existed (k # ks) conflicts =
     (if existed k = Some True then SetBundle_conflicts existed ks (conflicts @ [k])
      else SetBundle_conflicts existed ks conflicts)"

fun SetBundle_snapshot ::
  "'b backend \<Rightarrow> 'b \<Rightarrow> kvmap \<Rightarrow> (string \<rightharpoonup> bool) \<Rightarrow> string list \<Rightarrow> kvmap \<Rightarrow> 'b \<times> kvmap result"
where
  "SetBundle_snapshot ops b itemKey existed [] snap = (b, Inr snap)"
| "SetBundle_snapshot ops b itemKey existed (k # ks) snap =
     (if existed k = Some True then
        (case be_get ops b (map_get itemKey k) of
           (b', Inl e) \<Rightarrow> (b', Inl e)
         | (b', Inr v) \<Rightarrow> SetBundle_snapshot ops b' itemKey existed ks (snap(k \<mapsto> v)))
      else SetBundle_snapshot ops b itemKey existed ks snap)"

text \<open>The forward writes stop at the first failure: its key and error.\<close>

fun SetBundle_write ::
  "'b backend \<Rightarrow> 'b \<Rightarrow> kvmap \<Rightarrow> kvmap \<Rightarrow> bool \<Rightarrow> string list \<Rightarrow> string list \<Rightarrow>
     'b \<times> string list \<times> (string \<times> err) option"
where
  "SetBundle_write ops b itemKey kv ow [] written = (b, written, None)"
| "SetBundle_write ops b itemKey kv ow (k # ks) written =
     (case be_set ops b (map_get itemKey k) (map_get kv k) ow of
        (b', Some e) \<Rightarrow> (b', written, Some (k, e))
      | (b', None) \<Rightarrow> SetBundle_write ops b' itemKey kv ow ks (written @ [k]))"

text \<open>
  One round of the rollback: a key with a snapshot value is written back, any other key is deleted,
  where a missing entry counts as deleted.
\<close>

datatype undone = UndoRestored | UndoAbsent | UndoFailed

definition SetBundle_undo :: "'b backend \<Rightarrow> 'b \<Rightarrow> kvmap \<Rightarrow> kvmap \<Rightarrow> string \<Rightarrow> 'b \<times> undone" where
  "SetBundle_undo ops b itemKey snap k =
     (case snap k of
        Some prior \<Rightarrow>
          (case be_set ops b (map_get itemKey k) prior True of
             (b', Some e) \<Rightarrow> (b', UndoFailed)
           | (b', None) \<Rightarrow> (b', UndoRestored))
      | None \<Rightarrow>
          (case be_delete ops b (map_get itemKey k) of
             (b', Some e) \<Rightarrow> (b', if \<not> errors_Is e ErrNotFound then UndoFailed else UndoAbsent)
           | (b', None) \<Rightarrow> (b', UndoAbsent)))"

text \<open>The rollback visits every key: the lists are restored, absent and failed ones.\<close>

fun SetBundle_rollback ::
  "'b backend \<Rightarrow> 'b \<Rightarrow> kvmap \<Rightarrow> kvmap \<Rightarrow> string list \<Rightarrow>
     string list \<Rightarrow> string list \<Rightarrow> string list \<Rightarrow> 'b \<times> string list \<times> string list \<times> string list"
where
  "SetBundle_rollback ops b itemKey snap [] res gone rbFailed = (b, res, gone, rbFailed)"
| "SetBundle_rollback ops b itemKey snap (k # ks) res gone rbFailed =
     (case SetBundle_undo ops b itemKey snap k of
        (b', UndoFailed) \<Rightarrow> SetBundle_rollback ops b' itemKey snap ks res gone (rbFailed @ [k])
      | (b', UndoRestored) \<Rightarrow> SetBundle_rollback ops b' itemKey snap ks (res @ [k]) gone rbFailed
      | (b', UndoAbsent) \<Rightarrow> SetBundle_rollback ops b' itemKey snap ks res (gone @ [k]) rbFailed)"

text \<open>\<open>isRacerExists\<close>: a no-overwrite \<open>ErrExists\<close> means another writer owns the key.\<close>

definition isRacerExists :: "bool \<Rightarrow> err \<Rightarrow> bool" where
  "isRacerExists ow writeErr = (\<not> ow \<and> errors_Is writeErr ErrExists)"

definition SetBundle_untouched :: "string list \<Rightarrow> string list \<Rightarrow> string \<Rightarrow> bool \<Rightarrow> string list" where
  "SetBundle_untouched keys written failedKey racer =
     sort (filter (\<lambda>k. k \<notin> set written \<and> k \<noteq> failedKey) keys @ (if racer then [failedKey] else []))"

definition SetBundle_fail ::
  "'b backend \<Rightarrow> 'b \<Rightarrow> string \<Rightarrow> kvmap \<Rightarrow> kvmap \<Rightarrow> bool \<Rightarrow> string list \<Rightarrow> string list \<Rightarrow> string \<Rightarrow> err \<Rightarrow>
     'b \<times> Result \<times> err option"
where
  "SetBundle_fail ops b profile itemKey snap ow keys written failedKey writeErr =
     (let racer = isRacerExists ow writeErr;
          rbKeys = sort (written @ (if racer then [] else [failedKey])) in
      case SetBundle_rollback ops b itemKey snap rbKeys [] [] [] of
        (b', res, gone, rbFailed) \<Rightarrow>
          let r = Result_zero\<lparr>Restored := sort res, Absent := sort gone,
                    Untouched := SetBundle_untouched keys written failedKey racer\<rparr> in
          if rbFailed \<noteq> [] then
            (b', r\<lparr>RollbackFailed := sort rbFailed\<rparr>,
             Some (Wrapf [Lit ''credstore: SetBundle('', Quoted profile, Lit ''): write failed at '',
                    Quoted failedKey, Lit '': ''] writeErr
                   [Lit ''; rollback also failed for '', Lit (strings_Join (sort rbFailed) '', ''),
                    Lit '' '', Lit [CHR 0xE2, CHR 0x80, CHR 0x94],
                    Lit '' keyring may be inconsistent'']))
          else
            (b', r,
             Some (Wrapf [Lit ''credstore: SetBundle('', Quoted profile, Lit ''): write failed at '',
                    Quoted failedKey, Lit '': ''] writeErr [])))"

definition SetBundle_commit ::
  "'b backend \<Rightarrow> 'b \<Rightarrow> string \<Rightarrow> kvmap \<Rightarrow> kvmap \<Rightarrow> kvmap \<Rightarrow> bool \<Rightarrow> string list \<Rightarrow>
     'b \<times> Result \<times> err option"
where
  "SetBundle_commit ops b profile itemKey snap kv ow keys =
     (case SetBundle_write ops b itemKey kv ow keys [] of
        (b', written, None) \<Rightarrow> (b', Result_zero\<lparr>Written := written\<rparr>, None)
      | (b', written, Some (failedKey, writeErr)) \<Rightarrow>
          SetBundle_fail ops b' profile itemKey snap ow keys written failedKey writeErr)"

text \<open>The part under the mutex that calls the backend, from the pre-write state on.\<close>

definition SetBundle_body ::
  "'b backend \<Rightarrow> 'b \<Rightarrow> string \<Rightarrow> kvmap \<Rightarrow> kvmap \<Rightarrow> bool \<Rightarrow> string list \<Rightarrow> 'b \<times> Result \<times> err option"
where
  "SetBundle_body ops b profile itemKey kv ow keys =
     (case SetBundle_existed ops b itemKey keys Map.empty of
        (b1, Inl e) \<Rightarrow> (b1, Result_zero, Some e)
      | (b1, Inr existed) \<Rightarrow>
          (if \<not> ow then
             (let conflicts = SetBundle_conflicts existed keys [] in
              if conflicts \<noteq> [] then
                (b1, Result_zero,
                 Some (Wrapf [Lit ''credstore: SetBundle('', Quoted profile, Lit ''): '']
                        (Sentinel ErrExists)
                        [Lit '' for key(s): '', Lit (strings_Join conflicts '', '')]))
              else SetBundle_commit ops b1 profile itemKey Map.empty kv ow keys)
           else
             (case SetBundle_snapshot ops b1 itemKey existed keys Map.empty of
                (b2, Inl e) \<Rightarrow> (b2, Result_zero, Some e)
              | (b2, Inr snap) \<Rightarrow> SetBundle_commit ops b2 profile itemKey snap kv ow keys)))"

definition Store_SetBundle ::
  "'b backend \<Rightarrow> 'b Store \<Rightarrow> string \<Rightarrow> (string \<times> string) list \<Rightarrow> SetOpt list \<Rightarrow>
     'b Store \<times> Result \<times> err option"
where
  "Store_SetBundle ops s profile kv opts =
     (if st_closed s then (s, Result_zero, Some (Sentinel ErrStoreClosed))
      else
        (case validateProfile profile of
           Some e \<Rightarrow> (s, Result_zero, Some e)
         | None \<Rightarrow>
             (if kv = [] then (s, Result_zero, None)
              else
                (let keys = sort (remdups (map fst kv)) in
                 case SetBundle_keys s profile keys Map.empty of
                   Inl e \<Rightarrow> (s, Result_zero, Some e)
                 | Inr itemKey \<Rightarrow>
                     on_backend s (Result_zero, Some NilDereference)
                       (\<lambda>b. SetBundle_body ops b profile itemKey (map_of kv) (so_overwrite opts) keys)))))"

end
