(* ===== verification/BundleLaws.thy ===== *)
theory BundleLaws
  imports Bundle
begin

text \<open>
  Correctness of the bundle operations for every lawful backend: what the listings contain, that
  \<open>DeleteBundle\<close> attempts every key, and that \<open>SetBundle\<close> is all or nothing up to the keys it
  names as failed in the rollback. Every statement speaks of the map the backend holds.
\<close>

definition bundle_key :: "string \<Rightarrow> string \<Rightarrow> string" where
  "bundle_key p k = p @ ''/'' @ k"

text \<open>The item-key map has the item key of every listed key.\<close>

definition keyed :: "string \<Rightarrow> kvmap \<Rightarrow> string list \<Rightarrow> bool" where
  "keyed p itemKey ks \<longleftrightarrow>
     (\<forall>k \<in> set ks. itemKey k = Some (bundle_key p k) \<and> is_item_key (bundle_key p k))"

lemma subseq_sorted_distinct:
  "subseq xs ys \<Longrightarrow> sorted ys \<and> distinct ys \<Longrightarrow> sorted xs \<and> distinct xs"
  by (auto simp: subseq_conv_nths sorted_nths distinct_nthsI)

lemma bundle_key_inj [simp]: "bundle_key p k = bundle_key p k' \<longleftrightarrow> k = k'"
  by (simp add: bundle_key_def)

lemma bundle_key_image [simp]: "bundle_key p k \<in> bundle_key p ` K \<longleftrightarrow> k \<in> K"
  by auto

lemma keyed_Cons:
  "keyed p m (k # ks) \<longleftrightarrow>
     map_get m k = bundle_key p k \<and> m k \<noteq> None \<and> is_item_key (bundle_key p k) \<and> keyed p m ks"
  by (auto simp: keyed_def)

lemma keyed_item: "keyed p m ks \<Longrightarrow> k \<in> set ks \<Longrightarrow> is_item_key (bundle_key p k)"
  by (simp add: keyed_def)

lemma keyed_subset: "keyed p m ks \<Longrightarrow> set ks' \<subseteq> set ks \<Longrightarrow> keyed p m ks'"
  by (auto simp: keyed_def)

section \<open>The loops that do not write\<close>

lemma bare_keys_loop_eq:
  "bare_keys_loop pre all keys = keys @ map (drop (length pre)) (filter (prefix pre) all)"
  by (induction all arbitrary: keys) auto

lemma bare_keys_set:
  "set (bare_keys_loop (p @ ''/'') all []) = {k. bundle_key p k \<in> set all}"
  by (force simp: bare_keys_loop_eq bundle_key_def prefix_def)

lemma bare_keys_distinct: "distinct all \<Longrightarrow> distinct (bare_keys_loop pre all [])"
  by (auto simp: bare_keys_loop_eq distinct_map prefix_def intro!: inj_onI)

lemma ListProfiles_loop_result:
  "distinct profiles \<Longrightarrow> set profiles = seen \<Longrightarrow> ps = ListProfiles_loop all seen profiles \<Longrightarrow>
     distinct ps \<and> set ps = seen \<union>
       {p. p \<noteq> [] \<and> CHR ''/'' \<notin> set p \<and> (\<exists>k. bundle_key p k \<in> set all)}"
proof (induction all arbitrary: seen profiles)
  case (Cons ik all)
  obtain p k found where cut: "strings_Cut ik (CHR ''/'') = (p, k, found)"
    by (cases "strings_Cut ik (CHR ''/'')") auto
  have this_key: "bundle_key q k' = ik \<and> q \<noteq> [] \<and> CHR ''/'' \<notin> set q \<longleftrightarrow>
      found \<and> q = p \<and> k' = k \<and> p \<noteq> []" for q k'
  proof (cases found)
    case True
    with cut show ?thesis
      using strings_Cut_found [of ik "CHR ''/''" p k]
      by (auto simp: bundle_key_def dest!: arg_cong [where f = "\<lambda>s. strings_Cut s (CHR ''/'')"])
         (simp_all add: str_simps)
  next
    case False
    with cut show ?thesis
      using strings_Cut_not_found [of ik "CHR ''/''" p k] by (auto simp: bundle_key_def)
  qed
  have split: "{q. q \<noteq> [] \<and> CHR ''/'' \<notin> set q \<and> (\<exists>k'. bundle_key q k' \<in> set (ik # all))} =
      (if found \<and> p \<noteq> [] then {p} else {}) \<union>
      {q. q \<noteq> [] \<and> CHR ''/'' \<notin> set q \<and> (\<exists>k'. bundle_key q k' \<in> set all)}"
    using this_key by auto
  show ?case
  proof (cases "found \<and> p \<noteq> [] \<and> p \<notin> seen")
    case True
    with Cons.prems Cons.IH [of "profiles @ [p]" "insert p seen"] show ?thesis
      unfolding split by (simp add: cut)
  next
    case False
    with Cons.prems Cons.IH [of profiles seen] show ?thesis
      unfolding split by (auto simp: cut)
  qed
qed auto

lemma SetBundle_keys_Inr:
  "SetBundle_keys s p ks m = Inr m' \<Longrightarrow>
     (\<forall>k \<in> set ks. validSegment k \<and> checkAllowed s k = None) \<and> keyed p m' ks \<and>
     (\<forall>k. k \<notin> set ks \<longrightarrow> m' k = m k)"
proof (induction ks arbitrary: m)
  case (Cons k ks)
  then obtain ik where ik: "joinItemKey p k = Inr ik" "checkAllowed s k = None"
      "SetBundle_keys s p ks (m(k \<mapsto> ik)) = Inr m'"
    by (auto split: sum.splits option.splits)
  with Cons.IH [OF ik(3)] show ?case
    by (cases "k \<in> set ks")
       (auto simp: keyed_def joinItemKey_Inr bundle_key_def intro: joinItemKey_item [of p k])
qed (simp add: keyed_def)

lemma SetBundle_conflicts_eq:
  "SetBundle_conflicts ex ks cs = cs @ filter (\<lambda>k. ex k = Some True) ks"
  by (induction ks arbitrary: cs) auto

lemma validateProfile_iff: "validateProfile p = None \<longleftrightarrow> validSegment p"
  by (auto simp: validateProfile_def dest: validSegment_nonempty)

section \<open>What a SetBundle may do\<close>

text \<open>The slices of a rolled-back result split the keys, and say what was there before.\<close>

definition slices :: "string \<Rightarrow> kvmap \<Rightarrow> string list \<Rightarrow> Result \<Rightarrow> bool" where
  "slices p V keys res \<longleftrightarrow>
     mset keys = mset (Restored res) + mset (Absent res) + mset (Untouched res) +
       mset (RollbackFailed res) \<and>
     (\<forall>k \<in> set (Restored res). V (bundle_key p k) \<noteq> None) \<and>
     (\<forall>k \<in> set (Absent res). V (bundle_key p k) = None)"

text \<open>What a \<open>SetBundle\<close> may do to the map \<open>V\<close>, given its result and error.\<close>

definition SetBundle_outcome ::
  "string \<Rightarrow> kvmap \<Rightarrow> bool \<Rightarrow> string list \<Rightarrow> kvmap \<Rightarrow> kvmap \<Rightarrow> Result \<Rightarrow> err option \<Rightarrow> bool"
where
  "SetBundle_outcome p kv ow keys V V' res err \<longleftrightarrow>
     (case err of
        None \<Rightarrow>
          res = Result_zero\<lparr>Written := keys\<rparr> \<and> same_except (bundle_key p ` set keys) V V' \<and>
          (\<forall>k \<in> set keys. V' (bundle_key p k) = Some (map_get kv k) \<and>
             (ow \<or> V (bundle_key p k) = None))
      | Some e \<Rightarrow>
          same_except (bundle_key p ` set (RollbackFailed res)) V V' \<and> Written res = [] \<and>
          (res = Result_zero \<or> slices p V keys res))"

lemma SetBundle_outcome_refused [simp]:
  "SetBundle_outcome p kv ow keys V V Result_zero (Some e)"
  by (simp add: SetBundle_outcome_def Result_zero_def)

lemma SetBundle_untouched_mset:
  assumes "distinct keys" "keys = written @ fk # rest"
  shows "mset keys = mset (sort (written @ (if racer then [] else [fk]))) +
    mset (SetBundle_untouched keys written fk racer)"
proof -
  have "filter (\<lambda>k. k \<notin> set written \<and> k \<noteq> fk) keys = rest"
    using assms by (auto simp: filter_empty_conv filter_id_conv)
  then show ?thesis
    by (simp add: SetBundle_untouched_def assms(2))
qed

section \<open>The loops over a lawful backend\<close>

context backend_laws
begin

lemma SetBundle_existed_laws:
  assumes "SetBundle_existed ops b itemKey ks ex = (b', r)" "good b" "keyed p itemKey ks"
  shows "good b' \<and> view b' = view b \<and>
    (\<forall>ex' k. r = Inr ex' \<longrightarrow>
       ex' k = (if k \<in> set ks then Some (view b (bundle_key p k) \<noteq> None) else ex k))"
  using assms
proof (induction ks arbitrary: b ex)
  case (Cons k ks)
  obtain b1 r1 where ex: "be_exists ops b (bundle_key p k) = (b1, r1)"
    by (cases "be_exists ops b (bundle_key p k)")
  with Cons.prems have b1: "good b1" "view b1 = view b"
    using exists_keeps [of b "bundle_key p k" b1 r1] by (simp_all add: keyed_Cons)
  show ?case
  proof (cases r1)
    case (Inl e)
    with Cons.prems ex b1 show ?thesis by (auto simp: keyed_Cons)
  next
    case (Inr ok)
    then have "ok \<longleftrightarrow> view b (bundle_key p k) \<noteq> None"
      using ex Cons.prems exists_value [of b "bundle_key p k" b1 ok] by (simp add: keyed_Cons)
    moreover have "SetBundle_existed ops b1 itemKey ks (ex(k \<mapsto> ok)) = (b', r)"
      using Cons.prems ex Inr by (simp add: keyed_Cons)
    note Cons.IH [OF this b1(1), unfolded b1(2)]
    ultimately show ?thesis
      using Cons.prems(3) unfolding keyed_Cons by auto
  qed
qed auto

lemma SetBundle_snapshot_laws:
  assumes "SetBundle_snapshot ops b itemKey ex ks snap = (b', r)" "good b" "keyed p itemKey ks"
  shows "good b' \<and> view b' = view b \<and>
    (\<forall>snap' k. r = Inr snap' \<longrightarrow>
       snap' k = (if k \<in> set ks \<and> ex k = Some True then view b (bundle_key p k) else snap k))"
  using assms
proof (induction ks arbitrary: b snap)
  case (Cons k ks)
  show ?case
  proof (cases "ex k = Some True")
    case False
    with Cons.prems Cons.IH [of b snap] show ?thesis by (auto simp: keyed_Cons)
  next
    case True
    obtain b1 r1 where gt: "be_get ops b (bundle_key p k) = (b1, r1)"
      by (cases "be_get ops b (bundle_key p k)")
    with Cons.prems have b1: "good b1" "view b1 = view b"
      using get_keeps [of b "bundle_key p k" b1 r1] by (simp_all add: keyed_Cons)
    show ?thesis
    proof (cases r1)
      case (Inl e)
      with Cons.prems gt b1 True show ?thesis by (auto simp: keyed_Cons)
    next
      case (Inr v)
      then have "view b (bundle_key p k) = Some v"
        using gt Cons.prems get_value [of b "bundle_key p k" b1 v] by (simp add: keyed_Cons)
      moreover have "SetBundle_snapshot ops b1 itemKey ex ks (snap(k \<mapsto> v)) = (b', r)"
        using Cons.prems gt Inr True by (simp add: keyed_Cons)
      note Cons.IH [OF this b1(1), unfolded b1(2)]
      ultimately show ?thesis
        using Cons.prems(3) True unfolding keyed_Cons by auto
    qed
  qed
qed auto

lemma DeleteBundle_loop_laws:
  assumes "DeleteBundle_loop ops b (p @ ''/'') ks d f = (b', d', f')" "good b" "distinct ks"
    "\<forall>k \<in> set ks. view b (bundle_key p k) \<noteq> None"
  shows "good b' \<and> same_except (bundle_key p ` set ks) (view b) (view b') \<and>
    (\<exists>d1 f1. d' = d @ d1 \<and> f' = f @ f1 \<and> mset ks = mset d1 + mset f1 \<and> subseq d1 ks \<and>
       (\<forall>k \<in> set d1. view b (bundle_key p k) \<noteq> None \<and> view b' (bundle_key p k) = None))"
  using assms
proof (induction ks arbitrary: b d f)
  case Nil
  then show ?case by auto
next
  case (Cons k ks)
  obtain b1 r1 where del: "be_delete ops b (bundle_key p k) = (b1, r1)"
    by (cases "be_delete ops b (bundle_key p k)")
  have use: "usable view b (bundle_key p k)"
    using Cons.prems(4) by (intro usable_held) simp
  have b1: "good b1" "same_except {bundle_key p k} (view b) (view b1)"
    using delete_frame [OF Cons.prems(2) use del] by blast+
  have held: "\<forall>j \<in> set ks. view b1 (bundle_key p j) \<noteq> None"
  proof
    fix j
    assume "j \<in> set ks"
    with Cons.prems(3) have "bundle_key p j \<notin> {bundle_key p k}" by auto
    from same_exceptD [OF b1(2) this] show "view b1 (bundle_key p j) \<noteq> None"
      using Cons.prems(4) \<open>j \<in> set ks\<close> by (metis list.set_intros(2))
  qed
  have gone: "view b1 (bundle_key p k) = None" "view b (bundle_key p k) \<noteq> None" if "r1 = None"
    using that del use Cons.prems(2) delete_ok [of b "bundle_key p k" b1] by auto
  let ?d = "if r1 = None then [k] else []" and ?f = "if r1 = None then [] else [k]"
  have "DeleteBundle_loop ops b1 (p @ ''/'') ks (d @ ?d) (f @ ?f) = (b', d', f')"
    using Cons.prems(1) del by (cases r1) (simp_all add: bundle_key_def)
  from Cons.IH [OF this b1(1) _ held] Cons.prems(3) obtain d1 f1 where
    IH: "good b'" "same_except (bundle_key p ` set ks) (view b1) (view b')"
      "d' = (d @ ?d) @ d1" "f' = (f @ ?f) @ f1" "mset ks = mset d1 + mset f1" "subseq d1 ks"
      "\<forall>j \<in> set d1. view b1 (bundle_key p j) \<noteq> None \<and> view b' (bundle_key p j) = None"
    by auto
  have "k \<notin> set d1"
    using arg_cong [OF IH(5), where f = set_mset] Cons.prems(3) by auto
  then have kept: "\<forall>j \<in> set d1. view b (bundle_key p j) = view b1 (bundle_key p j)"
    using same_exceptD [OF b1(2)] by (metis bundle_key_inj singletonD)
  have "view b' (bundle_key p k) = view b1 (bundle_key p k)"
    using same_exceptD [OF IH(2), of "bundle_key p k"] Cons.prems(3) by simp
  with gone kept IH(7) have "\<forall>j \<in> set (?d @ d1). view b (bundle_key p j) \<noteq> None \<and>
      view b' (bundle_key p j) = None"
    by auto
  moreover have "same_except (bundle_key p ` set (k # ks)) (view b) (view b')"
    using same_except_trans [OF b1(2) IH(2)] by (rule same_except_mono) auto
  moreover have "d' = d @ (?d @ d1)" "f' = f @ (?f @ f1)" "subseq (?d @ d1) (k # ks)"
      "mset (k # ks) = mset (?d @ d1) + mset (?f @ f1)"
    using IH(3-6) by auto
  ultimately show ?case
    using IH(1) by blast
qed

lemma SetBundle_write_laws:
  assumes "SetBundle_write ops b itemKey kv ow ks w = (b', w', f)" "good b"
    "keyed p itemKey ks" "distinct ks"
  shows "good b' \<and> (\<exists>dn. w' = w @ dn \<and>
    (case f of
       None \<Rightarrow> dn = ks \<and> same_except (bundle_key p ` set ks) (view b) (view b') \<and>
         (\<forall>k \<in> set ks. view b' (bundle_key p k) = Some (map_get kv k) \<and>
            (ow \<or> view b (bundle_key p k) = None))
     | Some (k, e) \<Rightarrow> (\<exists>rest. ks = dn @ k # rest) \<and>
         same_except (bundle_key p ` set (if isRacerExists ow e then dn else dn @ [k]))
           (view b) (view b')))"
  using assms
proof (induction ks arbitrary: b w)
  case Nil
  then show ?case by auto
next
  case (Cons k ks)
  obtain b1 r1 where st: "be_set ops b (bundle_key p k) (map_get kv k) ow = (b1, r1)"
    by (cases "be_set ops b (bundle_key p k) (map_get kv k) ow")
  show ?case
  proof (cases r1)
    case (Some e)
    with Cons.prems st have res: "b' = b1" "w' = w" "f = Some (k, e)"
      by (auto simp: keyed_Cons)
    have "good b1" "same_except {bundle_key p k} (view b) (view b1)"
      using st Some Cons.prems(2,3) set_fail [of b "bundle_key p k" "map_get kv k" ow b1 e]
      by (simp_all add: keyed_Cons)
    moreover have "view b1 = view b" if "isRacerExists ow e"
      using that st Some Cons.prems(2,3) set_exists [of b "bundle_key p k" "map_get kv k" b1 e]
      by (simp add: isRacerExists_def keyed_Cons)
    ultimately show ?thesis
      unfolding res by (intro conjI exI [of _ "[]"]) auto
  next
    case None
    with st Cons.prems(2,3) have b1: "good b1" "view b1 = (view b)(bundle_key p k \<mapsto> map_get kv k)"
        "ow \<or> view b (bundle_key p k) = None"
      using set_ok [of b "bundle_key p k" "map_get kv k" ow b1] by (simp_all add: keyed_Cons)
    from Cons.prems st None have "SetBundle_write ops b1 itemKey kv ow ks (w @ [k]) = (b', w', f)"
      by (simp add: keyed_Cons)
    from Cons.IH [OF this b1(1)] Cons.prems(3,4) obtain dn where
      IH: "good b'" "w' = (w @ [k]) @ dn"
        "case f of
           None \<Rightarrow> dn = ks \<and> same_except (bundle_key p ` set ks) (view b1) (view b') \<and>
             (\<forall>k \<in> set ks. view b' (bundle_key p k) = Some (map_get kv k) \<and>
                (ow \<or> view b1 (bundle_key p k) = None))
         | Some (k, e) \<Rightarrow> (\<exists>rest. ks = dn @ k # rest) \<and>
             same_except (bundle_key p ` set (if isRacerExists ow e then dn else dn @ [k]))
               (view b1) (view b')"
      by (auto simp: keyed_Cons)
    have step: "same_except (bundle_key p ` insert k K) (view b) (view b')"
      if "same_except (bundle_key p ` K) (view b1) (view b')" for K
      using that b1(2) by (auto simp: same_except_def)
    show ?thesis
    proof (cases f)
      case None
      with IH(3) have all: "dn = ks" "same_except (bundle_key p ` set ks) (view b1) (view b')"
        "\<forall>j \<in> set ks. view b' (bundle_key p j) = Some (map_get kv j) \<and>
            (ow \<or> view b1 (bundle_key p j) = None)"
        by auto
      have "view b' (bundle_key p k) = Some (map_get kv k)"
        using same_exceptD [OF all(2), of "bundle_key p k"] Cons.prems(4) b1(2) by simp
      moreover have "\<forall>j \<in> set ks. ow \<or> view b (bundle_key p j) = None"
        using all(3) Cons.prems(4) b1(2) by (metis fun_upd_other bundle_key_inj distinct.simps(2))
      ultimately show ?thesis
        using None IH(1,2) all step [OF all(2)] b1(3) by (intro conjI exI [of _ "k # dn"]) auto
    next
      case (Some ke)
      obtain j e where "ke = (j, e)" by (cases ke)
      with Some IH(3) have "\<exists>rest. ks = dn @ j # rest"
        and sm: "same_except (bundle_key p ` set (if isRacerExists ow e then dn else dn @ [j]))
               (view b1) (view b')" by auto
      with Some IH(1,2) \<open>ke = (j, e)\<close> step [OF sm] show ?thesis
        by (intro conjI exI [of _ "k # dn"]) (auto split: if_splits)
    qed
  qed
qed

text \<open>A round that does not fail puts the key back to its snapshot, absent or present.\<close>

lemma SetBundle_undo_laws:
  assumes run: "SetBundle_undo ops b itemKey snap k = (b1, u)" and ok: "good b"
    and key: "map_get itemKey k = ik" and item: "is_item_key ik"
  shows "good b1" "u = UndoFailed \<Longrightarrow> same_except {ik} (view b) (view b1)"
    "u \<noteq> UndoFailed \<Longrightarrow> view b1 = (view b)(ik := snap k)"
    "u = UndoRestored \<Longrightarrow> snap k \<noteq> None" "u = UndoAbsent \<Longrightarrow> snap k = None"
proof -
  have "good b1 \<and> (u = UndoFailed \<longrightarrow> same_except {ik} (view b) (view b1)) \<and>
    (u \<noteq> UndoFailed \<longrightarrow> view b1 = (view b)(ik := snap k)) \<and>
    (u = UndoRestored \<longrightarrow> snap k \<noteq> None) \<and> (u = UndoAbsent \<longrightarrow> snap k = None)"
  proof (cases "snap k")
    case (Some prior)
    obtain r1 where st: "be_set ops b ik prior True = (b1, r1)"
        "u = (if r1 = None then UndoRestored else UndoFailed)"
      using run Some key by (auto simp: SetBundle_undo_def split: prod.splits option.splits)
    then show ?thesis
      using Some ok item set_ok [of b ik prior True b1] set_fail [of b ik prior True b1]
      by (cases r1) auto
  next
    case None
    obtain r1 where dl: "be_delete ops b ik = (b1, r1)"
        "u = (case r1 of None \<Rightarrow> UndoAbsent
              | Some e \<Rightarrow> if errors_Is e ErrNotFound then UndoAbsent else UndoFailed)"
      using run None key by (auto simp: SetBundle_undo_def split: prod.splits option.splits)
    show ?thesis
    proof (cases r1)
      case None
      with dl ok item \<open>snap k = None\<close> show ?thesis
        using delete_ok [of b ik b1] by auto
    next
      case (Some e)
      with dl ok item \<open>snap k = None\<close> show ?thesis
        using delete_fail [of b ik b1 e] delete_absent [of b ik b1 e]
        by (auto simp: fun_upd_idem_iff)
    qed
  qed
  then show "good b1" "u = UndoFailed \<Longrightarrow> same_except {ik} (view b) (view b1)"
    "u \<noteq> UndoFailed \<Longrightarrow> view b1 = (view b)(ik := snap k)"
    "u = UndoRestored \<Longrightarrow> snap k \<noteq> None" "u = UndoAbsent \<Longrightarrow> snap k = None" by blast+
qed

lemma SetBundle_rollback_laws:
  assumes "SetBundle_rollback ops b itemKey snap ks r a f = (b', r', a', f')" "good b"
    "keyed p itemKey ks" "distinct ks" "\<forall>k \<in> set ks. snap k = V (bundle_key p k)"
    "same_except (bundle_key p ` (set ks \<union> F)) V (view b)"
  shows "good b' \<and> (\<exists>r1 a1 f1. r' = r @ r1 \<and> a' = a @ a1 \<and> f' = f @ f1 \<and>
    mset ks = mset r1 + mset a1 + mset f1 \<and>
    (\<forall>k \<in> set r1. snap k \<noteq> None) \<and> (\<forall>k \<in> set a1. snap k = None) \<and>
    same_except (bundle_key p ` (set f1 \<union> F)) V (view b'))"
  using assms
proof (induction ks arbitrary: b r a f F)
  case Nil
  then show ?case by auto
next
  case (Cons k ks)
  obtain b1 u where u: "SetBundle_undo ops b itemKey snap k = (b1, u)"
    by (cases "SetBundle_undo ops b itemKey snap k")
  have "map_get itemKey k = bundle_key p k" "is_item_key (bundle_key p k)"
    using Cons.prems(3) by (simp_all add: keyed_Cons)
  note undo = SetBundle_undo_laws [OF u Cons.prems(2) this]
  have rest: "keyed p itemKey ks" "distinct ks" "\<forall>k \<in> set ks. snap k = V (bundle_key p k)"
    using Cons.prems by (auto simp: keyed_Cons)
  show ?case
  proof (cases "u = UndoFailed")
    case True
    have "same_except (bundle_key p ` (set ks \<union> insert k F)) V (view b1)"
      using same_except_trans [OF Cons.prems(6) undo(2) [OF True]]
      by (rule same_except_mono) auto
    moreover have "SetBundle_rollback ops b1 itemKey snap ks r a (f @ [k]) = (b', r', a', f')"
      using Cons.prems(1) u True by simp
    ultimately obtain r1 a1 f1 where
      "good b'" "r' = r @ r1" "a' = a @ a1" "f' = (f @ [k]) @ f1"
      "mset ks = mset r1 + mset a1 + mset f1" "\<forall>k \<in> set r1. snap k \<noteq> None"
      "\<forall>k \<in> set a1. snap k = None" "same_except (bundle_key p ` (set f1 \<union> insert k F)) V (view b')"
      using Cons.IH [OF _ undo(1) rest, of r a "f @ [k]" "insert k F"] by blast
    then show ?thesis
      by (intro conjI exI [of _ r1] exI [of _ a1] exI [of _ "k # f1"]) simp_all
  next
    case False
    let ?res = "if u = UndoRestored then [k] else []" and ?gone = "if u = UndoAbsent then [k] else []"
    have "same_except (bundle_key p ` (set ks \<union> F)) V (view b1)"
      using undo(3) [OF False] Cons.prems(5,6) by (auto simp: same_except_def)
    moreover have "SetBundle_rollback ops b1 itemKey snap ks (r @ ?res) (a @ ?gone) f =
        (b', r', a', f')"
      using Cons.prems(1) u False by (cases u) simp_all
    ultimately obtain r1 a1 f1 where IH:
      "good b'" "r' = (r @ ?res) @ r1" "a' = (a @ ?gone) @ a1" "f' = f @ f1"
      "mset ks = mset r1 + mset a1 + mset f1" "\<forall>k \<in> set r1. snap k \<noteq> None"
      "\<forall>k \<in> set a1. snap k = None" "same_except (bundle_key p ` (set f1 \<union> F)) V (view b')"
      using Cons.IH [OF _ undo(1) rest, of "r @ ?res" "a @ ?gone" f F] by blast
    have "mset (k # ks) = mset (?res @ r1) + mset (?gone @ a1) + mset f1"
      using False by (cases u) (simp_all add: IH(5))
    moreover have "\<forall>k \<in> set (?res @ r1). snap k \<noteq> None"
      using IH(6) undo(4) by auto
    moreover have "\<forall>k \<in> set (?gone @ a1). snap k = None"
      using IH(7) undo(5) by auto
    moreover have "r' = r @ (?res @ r1)" "a' = a @ (?gone @ a1)"
      using IH(2,3) by simp_all
    ultimately show ?thesis
      using IH(1,4,8) by blast
  qed
qed

lemma SetBundle_fail_laws:
  assumes run: "SetBundle_fail ops b p itemKey snap ow keys written fk we = (b', res, err)"
    and ok: "good b" and keyed: "keyed p itemKey keys" and dist: "distinct keys"
    and keys: "keys = written @ fk # rest" and snap: "\<forall>k \<in> set keys. snap k = V (bundle_key p k)"
    and pre: "same_except (bundle_key p ` set (if isRacerExists ow we then written
                else written @ [fk])) V (view b)"
  shows "good b' \<and> (\<exists>e. err = Some e) \<and> SetBundle_outcome p kv ow keys V (view b') res err"
proof -
  define rb where "rb = sort (written @ (if isRacerExists ow we then [] else [fk]))"
  obtain r1 a1 f1 where undo: "SetBundle_rollback ops b itemKey snap rb [] [] [] = (b', r1, a1, f1)"
    and res: "res = Result_zero\<lparr>Restored := sort r1, Absent := sort a1,
      Untouched := SetBundle_untouched keys written fk (isRacerExists ow we),
      RollbackFailed := sort f1\<rparr>" and err: "\<exists>e. err = Some e"
    using run unfolding SetBundle_fail_def rb_def Let_def
    by (auto simp: Result_zero_def split: prod.splits if_splits)
  have rbset: "set rb \<subseteq> set keys" "distinct rb" "mset rb = mset r1 + mset a1 + mset f1 \<longrightarrow>
      mset keys = mset r1 + mset a1 + mset f1 +
        mset (SetBundle_untouched keys written fk (isRacerExists ow we))"
    using dist keys SetBundle_untouched_mset [OF dist keys, of "isRacerExists ow we"]
    by (auto simp: rb_def)
  have "good b' \<and> (\<exists>r a f. r1 = [] @ r \<and> a1 = [] @ a \<and> f1 = [] @ f \<and>
      mset rb = mset r + mset a + mset f \<and> (\<forall>k \<in> set r. snap k \<noteq> None) \<and>
      (\<forall>k \<in> set a. snap k = None) \<and> same_except (bundle_key p ` (set f \<union> {})) V (view b'))"
  proof (rule SetBundle_rollback_laws [OF undo ok _ rbset(2)])
    show "keyed p itemKey rb" using keyed rbset(1) by (rule keyed_subset)
    show "\<forall>k \<in> set rb. snap k = V (bundle_key p k)" using snap rbset(1) by blast
    show "same_except (bundle_key p ` (set rb \<union> {})) V (view b)"
      using pre by (simp add: rb_def split: if_splits)
  qed
  then have post: "good b'" "mset rb = mset r1 + mset a1 + mset f1"
      "\<forall>k \<in> set r1. snap k \<noteq> None" "\<forall>k \<in> set a1. snap k = None"
      "same_except (bundle_key p ` set f1) V (view b')"
    by auto
  have "set r1 \<union> set a1 \<subseteq> set keys"
    using arg_cong [OF post(2), where f = set_mset] rbset(1) by auto
  then have "slices p V keys res"
    using post(2-4) rbset(3) snap by (fastforce simp: res slices_def Result_zero_def)
  then show ?thesis
    using post err by (auto simp: SetBundle_outcome_def res Result_zero_def)
qed

lemma SetBundle_commit_laws:
  assumes run: "SetBundle_commit ops b p itemKey snap kv ow keys = (b', res, err)"
    and ok: "good b" and keyed: "keyed p itemKey keys" and dist: "distinct keys"
    and snap: "\<forall>k \<in> set keys. snap k = view b (bundle_key p k)"
  shows "good b' \<and> SetBundle_outcome p kv ow keys (view b) (view b') res err"
proof -
  obtain b1 written f where wr: "SetBundle_write ops b itemKey kv ow keys [] = (b1, written, f)"
    by (cases "SetBundle_write ops b itemKey kv ow keys []") auto
  note laws = SetBundle_write_laws [OF wr ok keyed dist]
  show ?thesis
  proof (cases f)
    case None
    with run wr have "b' = b1" "res = Result_zero\<lparr>Written := written\<rparr>" "err = None"
      by (auto simp: SetBundle_commit_def)
    with laws None show ?thesis
      by (simp add: SetBundle_outcome_def)
  next
    case (Some fe)
    obtain fk we where fe: "fe = (fk, we)" by (cases fe)
    with Some laws obtain rest where split: "keys = written @ fk # rest" "good b1"
      "same_except (bundle_key p ` set (if isRacerExists ow we then written else written @ [fk]))
        (view b) (view b1)"
      by auto
    from run wr Some fe
    have "SetBundle_fail ops b1 p itemKey snap ow keys written fk we = (b', res, err)"
      by (simp add: SetBundle_commit_def)
    from SetBundle_fail_laws [OF this split(2) keyed dist split(1) snap split(3)] show ?thesis
      by blast
  qed
qed

lemma SetBundle_body_laws:
  assumes run: "SetBundle_body ops b p itemKey kv ow keys = (b', res, err)"
    and ok: "good b" and keyed: "keyed p itemKey keys" and dist: "distinct keys"
  shows "good b' \<and> SetBundle_outcome p kv ow keys (view b) (view b') res err"
proof -
  obtain b1 r1 where ex: "SetBundle_existed ops b itemKey keys Map.empty = (b1, r1)"
    by (cases "SetBundle_existed ops b itemKey keys Map.empty")
  note exl = SetBundle_existed_laws [OF ex ok keyed]
  show ?thesis
  proof (cases r1)
    case (Inl e)
    with run ex exl show ?thesis
      by (auto simp: SetBundle_body_def)
  next
    case (Inr existed)
    with exl have b1: "good b1" "view b1 = view b"
      and existed: "\<And>k. k \<in> set keys \<Longrightarrow> existed k = Some (view b (bundle_key p k) \<noteq> None)"
      by auto
    consider (conflict) e where "\<not> ow" "b' = b1" "res = Result_zero" "err = Some e"
      | (fresh) "\<not> ow" "filter (\<lambda>k. existed k = Some True) keys = []"
          "SetBundle_commit ops b1 p itemKey Map.empty kv ow keys = (b', res, err)"
      | (over) b2 r2 where ow "SetBundle_snapshot ops b1 itemKey existed keys Map.empty = (b2, r2)"
          "case r2 of Inl e \<Rightarrow> b' = b2 \<and> res = Result_zero \<and> err = Some e
           | Inr snap \<Rightarrow> SetBundle_commit ops b2 p itemKey snap kv ow keys = (b', res, err)"
      using run ex Inr
      by (auto simp: SetBundle_body_def SetBundle_conflicts_eq Let_def split: if_splits prod.splits
          sum.splits)
    then show ?thesis
    proof cases
      case conflict
      with b1 show ?thesis by simp
    next
      case fresh
      then have "\<forall>k \<in> set keys. Map.empty k = view b1 (bundle_key p k)"
        using existed unfolding b1(2) by (auto simp: filter_empty_conv)
      from SetBundle_commit_laws [OF fresh(3) b1(1) keyed dist this] b1(2) show ?thesis by simp
    next
      case over
      note sl = SetBundle_snapshot_laws [OF over(2) b1(1) keyed, unfolded b1(2)]
      show ?thesis
      proof (cases r2)
        case (Inl e)
        with over sl show ?thesis by simp
      next
        case (Inr snap)
        with sl have "good b2" "view b2 = view b"
          "\<forall>k \<in> set keys. snap k = view b2 (bundle_key p k)"
          using existed by auto
        with over(3) Inr SetBundle_commit_laws [of b2 p itemKey snap kv ow keys b' res err]
        show ?thesis using keyed dist by simp
      qed
    qed
  qed
qed

section \<open>The methods\<close>

text \<open>A call through the store's backend field, with the guards already passed.\<close>

lemma bundleBareKeys_laws:
  assumes ok: "store_ok good s" and op: "\<not> st_closed s"
    and run: "bundleBareKeys ops s p = (s', r)"
  shows "keeps good s s'" "store_view view s' = store_view view s"
    "r = Inr ks \<Longrightarrow> sorted ks \<and> distinct ks \<and>
       set ks = {k. store_view view s (bundle_key p k) \<noteq> None}"
proof -
  obtain r0 where call: "on_backend s (Inl NilDereference) (be_listKeys ops) = (s', r0)"
    and r: "r = (case r0 of Inl e \<Rightarrow> Inl e
              | Inr all \<Rightarrow> Inr (sort (bare_keys_loop (p @ ''/'') all [])))"
    using run by (auto simp: bundleBareKeys_def split: prod.splits sum.splits)
  from ok op call obtain b b' where b: "st_be s = Some b" "good b" "be_listKeys ops b = (b', r0)"
      "s' = s\<lparr>st_be := Some b'\<rparr>"
    by (rule on_backend_cases)
  note list_keeps [OF b(2,3)]
  with b ok op show "keeps good s s'" "store_view view s' = store_view view s"
    by (simp_all add: keeps_upd_be store_view_open)
  show "sorted ks \<and> distinct ks \<and> set ks = {k. store_view view s (bundle_key p k) \<noteq> None}"
    if inr: "r = Inr ks"
  proof -
    obtain all where all: "r0 = Inr all" "ks = sort (bare_keys_loop (p @ ''/'') all [])"
      using inr r by (cases r0) auto
    with b list_value [of b b' all] have "distinct all" "set all = dom (view b)"
      by simp_all
    then show ?thesis
      using b(1) by (simp add: all(2) bare_keys_set bare_keys_distinct store_view_open dom_def)
  qed
qed

text \<open>A profile that passes the check is a valid segment, so its item keys are keys of the store.\<close>

lemma store_abs_bundle:
  "validSegment p \<Longrightarrow> validSegment k \<Longrightarrow> store_abs view s (p, k) = store_view view s (bundle_key p k)"
  by (simp add: store_abs_def bundle_key_def)

lemma Store_ListBundle_laws:
  assumes ok: "store_ok good s" and run: "Store_ListBundle ops s p = (s', r)"
  shows "keeps good s s'" "store_view view s' = store_view view s"
    "r = Inr ks \<Longrightarrow> validSegment p \<and> sorted ks \<and> distinct ks \<and>
       set ks = {k. store_view view s (bundle_key p k) \<noteq> None}"
proof -
  have "keeps good s s' \<and> store_view view s' = store_view view s \<and>
      (\<forall>ks. r = Inr ks \<longrightarrow> validSegment p \<and> sorted ks \<and> distinct ks \<and>
         set ks = {k. store_view view s (bundle_key p k) \<noteq> None})"
  proof (cases "st_closed s \<or> \<not> validSegment p")
    case True
    with ok run show ?thesis
      by (auto simp: Store_ListBundle_def simp flip: validateProfile_iff split: option.splits if_splits)
  next
    case False
    with run have "bundleBareKeys ops s p = (s', r)"
      by (simp add: Store_ListBundle_def validateProfile_iff [THEN iffD2])
    from bundleBareKeys_laws [OF ok _ this] False show ?thesis
      by simp
  qed
  then show "keeps good s s'" "store_view view s' = store_view view s"
    "r = Inr ks \<Longrightarrow> validSegment p \<and> sorted ks \<and> distinct ks \<and>
       set ks = {k. store_view view s (bundle_key p k) \<noteq> None}"
    by blast+
qed

lemma Store_ListProfiles_laws:
  assumes ok: "store_ok good s" and run: "Store_ListProfiles ops s = (s', r)"
  shows "keeps good s s'" "store_view view s' = store_view view s"
    "r = Inr ps \<Longrightarrow> sorted ps \<and> distinct ps \<and>
       set ps = {p. p \<noteq> [] \<and> CHR ''/'' \<notin> set p \<and> (\<exists>k. store_view view s (bundle_key p k) \<noteq> None)}"
proof -
  have "keeps good s s' \<and> store_view view s' = store_view view s \<and>
      (\<forall>ps. r = Inr ps \<longrightarrow> sorted ps \<and> distinct ps \<and>
         set ps = {p. p \<noteq> [] \<and> CHR ''/'' \<notin> set p \<and>
           (\<exists>k. store_view view s (bundle_key p k) \<noteq> None)})"
  proof (cases "st_closed s")
    case True
    with ok run show ?thesis
      by (auto simp: Store_ListProfiles_def)
  next
    case False
    then obtain r0 where call: "on_backend s (Inl NilDereference) (be_listKeys ops) = (s', r0)"
      and r: "r = (case r0 of Inl e \<Rightarrow> Inl e | Inr all \<Rightarrow> Inr (sort (ListProfiles_loop all {} [])))"
      using run by (auto simp: Store_ListProfiles_def split: prod.splits sum.splits)
    from ok False call obtain b b' where b: "st_be s = Some b" "good b"
        "be_listKeys ops b = (b', r0)" "s' = s\<lparr>st_be := Some b'\<rparr>"
      by (rule on_backend_cases)
    note list_keeps [OF b(2,3)]
    moreover have "sorted ps \<and> distinct ps \<and>
        set ps = {p. p \<noteq> [] \<and> CHR ''/'' \<notin> set p \<and> (\<exists>k. view b (bundle_key p k) \<noteq> None)}"
      if inr: "r = Inr ps" for ps
    proof -
      obtain all where all: "r0 = Inr all" "ps = sort (ListProfiles_loop all {} [])"
        using inr r by (cases r0) auto
      then have "set all = dom (view b)"
        using b list_value by blast
      then show ?thesis
        using ListProfiles_loop_result [of "[]" "{}" _ all] by (simp add: all(2) dom_def)
    qed
    ultimately show ?thesis
      using b ok False by (simp add: keeps_upd_be store_view_open)
  qed
  then show "keeps good s s'" "store_view view s' = store_view view s"
    "r = Inr ps \<Longrightarrow> sorted ps \<and> distinct ps \<and>
       set ps = {p. p \<noteq> [] \<and> CHR ''/'' \<notin> set p \<and> (\<exists>k. store_view view s (bundle_key p k) \<noteq> None)}"
    by blast+
qed

text \<open>\<open>DeleteBundle\<close> attempts every key of the profile and reports each as deleted or failed.\<close>

lemma Store_DeleteBundle_laws:
  assumes ok: "store_ok good s" and run: "Store_DeleteBundle ops s p = (s', dl, err)"
  shows "keeps good s s'"
    "same_except (bundle_key p ` {k. store_view view s (bundle_key p k) \<noteq> None})
       (store_view view s) (store_view view s')"
    "k \<in> set dl \<Longrightarrow> store_view view s (bundle_key p k) \<noteq> None \<and>
       store_view view s' (bundle_key p k) = None"
    "sorted dl \<and> distinct dl"
    "err = None \<Longrightarrow> validSegment p \<and> set dl = {k. store_view view s (bundle_key p k) \<noteq> None}"
proof -
  let ?K = "{k. store_view view s (bundle_key p k) \<noteq> None}"
  have "keeps good s s' \<and> same_except (bundle_key p ` ?K) (store_view view s) (store_view view s') \<and>
    (\<forall>k \<in> set dl. store_view view s (bundle_key p k) \<noteq> None \<and>
       store_view view s' (bundle_key p k) = None) \<and> sorted dl \<and> distinct dl \<and>
    (err = None \<longrightarrow> validSegment p \<and> set dl = ?K)"
  proof (cases "st_closed s \<or> \<not> validSegment p")
    case True
    then have "s' = s \<and> dl = [] \<and> err \<noteq> None"
      using run
      by (cases "st_closed s"; cases "validateProfile p")
         (auto simp: Store_DeleteBundle_def simp flip: validateProfile_iff)
    with ok show ?thesis
      by auto
  next
    case False
    obtain s1 r1 where list: "bundleBareKeys ops s p = (s1, r1)"
      by (cases "bundleBareKeys ops s p")
    note bare = bundleBareKeys_laws [OF ok _ list]
    show ?thesis
    proof (cases r1)
      case (Inl e)
      with False run list bare show ?thesis
        by (auto simp: Store_DeleteBundle_def validateProfile_iff [THEN iffD2])
    next
      case (Inr targets)
      have s1: "store_ok good s1" "\<not> st_closed s1" "store_view view s1 = store_view view s"
        using bare False by (auto simp: keeps_def)
      have targets: "sorted targets" "distinct targets" "set targets = ?K"
        using bare(3) [OF _ Inr] False by auto
      obtain fl where call: "on_backend s1 ([], targets)
            (\<lambda>b. DeleteBundle_loop ops b (p @ ''/'') targets [] []) = (s', dl, fl)"
        and err: "err = None \<longrightarrow> fl = []"
        using run list Inr False
        by (auto simp: Store_DeleteBundle_def validateProfile_iff [THEN iffD2]
            split: prod.splits if_splits)
      from s1(1,2) call obtain b b' where b: "st_be s1 = Some b" "good b"
          "DeleteBundle_loop ops b (p @ ''/'') targets [] [] = (b', dl, fl)"
          "s' = s1\<lparr>st_be := Some b'\<rparr>"
        by (rule on_backend_cases)
      have "\<forall>k \<in> set targets. view b (bundle_key p k) \<noteq> None"
        using targets(3) s1(3) b(1) by (auto simp: store_view_open)
      from DeleteBundle_loop_laws [OF b(3,2) targets(2) this]
      have loop: "good b'" "same_except (bundle_key p ` set targets) (view b) (view b')"
          "mset targets = mset dl + mset fl" "subseq dl targets"
          "\<forall>k \<in> set dl. view b (bundle_key p k) \<noteq> None \<and> view b' (bundle_key p k) = None"
        by auto
      have views: "store_view view s = view b" "store_view view s' = view b'"
        using s1(3) b(1,4) by (simp_all add: store_view_open)
      have "sorted dl" "distinct dl"
        using loop(4) targets(1,2) by (auto dest: subseq_sorted_distinct)
      moreover have "keeps good s s'"
        using bare(1) s1 b(4) loop(1) False keeps_upd_be [OF s1(1,2) loop(1)]
        by (auto simp: keeps_def same_frame_def)
      moreover have "set dl = ?K" if "err = None"
        using err that arg_cong [OF loop(3), where f = set_mset] targets(3) by simp
      ultimately show ?thesis
        using loop(2) [unfolded targets(3)] loop(5) False unfolding views by blast
    qed
  qed
  then show "keeps good s s'"
    "same_except (bundle_key p ` ?K) (store_view view s) (store_view view s')"
    "k \<in> set dl \<Longrightarrow> store_view view s (bundle_key p k) \<noteq> None \<and>
       store_view view s' (bundle_key p k) = None"
    "sorted dl \<and> distinct dl" "err = None \<Longrightarrow> validSegment p \<and> set dl = ?K" by blast+
qed

lemma Store_SetBundle_laws:
  assumes ok: "store_ok good s" and run: "Store_SetBundle ops s p kv opts = (s', res, err)"
  defines "keys \<equiv> sort (remdups (map fst kv))"
  shows "keeps good s s'"
    "SetBundle_outcome p (map_of kv) (so_overwrite opts) keys (store_view view s) (store_view view s')
       res err"
    "err = None \<Longrightarrow> kv \<noteq> [] \<Longrightarrow>
       validSegment p \<and> (\<forall>k \<in> set keys. validSegment k \<and> checkAllowed s k = None)"
proof -
  have "keeps good s s' \<and> SetBundle_outcome p (map_of kv) (so_overwrite opts) keys
      (store_view view s) (store_view view s') res err \<and>
    (err = None \<and> kv \<noteq> [] \<longrightarrow>
       validSegment p \<and> (\<forall>k \<in> set keys. validSegment k \<and> checkAllowed s k = None))"
  proof (cases "st_closed s \<or> \<not> validSegment p \<or> kv = []")
    case True
    with ok run show ?thesis
      by (auto simp: Store_SetBundle_def keys_def SetBundle_outcome_def Result_zero_def
          simp flip: validateProfile_iff split: option.splits if_splits)
  next
    case False
    then have valid: "validateProfile p = None"
      by (simp add: validateProfile_iff)
    show ?thesis
    proof (cases "SetBundle_keys s p keys Map.empty")
      case (Inl e)
      with False valid run have "s' = s" "res = Result_zero" "err = Some e"
        by (simp_all add: Store_SetBundle_def keys_def)
      with ok show ?thesis
        by simp
    next
      case (Inr itemKey)
      note checked = SetBundle_keys_Inr [OF Inr]
      have call: "on_backend s (Result_zero, Some NilDereference)
          (\<lambda>b. SetBundle_body ops b p itemKey (map_of kv) (so_overwrite opts) keys) = (s', res, err)"
        using run Inr False valid by (simp add: Store_SetBundle_def keys_def)
      from ok _ call obtain b b' where b: "st_be s = Some b" "good b"
          "SetBundle_body ops b p itemKey (map_of kv) (so_overwrite opts) keys = (b', res, err)"
          "s' = s\<lparr>st_be := Some b'\<rparr>"
        using False by (elim on_backend_cases) auto
      have "distinct keys"
        by (simp add: keys_def)
      with SetBundle_body_laws [OF b(3,2)] checked have "good b'"
          "SetBundle_outcome p (map_of kv) (so_overwrite opts) keys (view b) (view b') res err"
        by blast+
      with False checked b ok show ?thesis
        by (auto simp: keeps_upd_be store_view_open)
    qed
  qed
  then show "keeps good s s'"
    "SetBundle_outcome p (map_of kv) (so_overwrite opts) keys (store_view view s) (store_view view s')
       res err"
    "err = None \<Longrightarrow> kv \<noteq> [] \<Longrightarrow>
       validSegment p \<and> (\<forall>k \<in> set keys. validSegment k \<and> checkAllowed s k = None)"
    by blast+
qed

text \<open>The same, spelled out over the map the backend holds.\<close>

lemma Store_SetBundle_contract:
  assumes "store_ok good s" "Store_SetBundle ops s p kv opts = (s', res, err)"
  shows "store_ok good s' \<and>
    (let V = store_view view s; V' = store_view view s';
         keys = sort (remdups (map fst kv)) in
     case err of
       None \<Rightarrow>
         Written res = keys \<and>
         (\<forall>k \<in> fst ` set kv. V' (p @ ''/'' @ k) = map_of kv k) \<and>
         (\<forall>ik. ik \<notin> (\<lambda>k. p @ ''/'' @ k) ` fst ` set kv \<longrightarrow> V' ik = V ik)
     | Some e \<Rightarrow>
         (\<forall>ik. ik \<notin> (\<lambda>k. p @ ''/'' @ k) ` set (RollbackFailed res) \<longrightarrow> V' ik = V ik) \<and>
         Written res = [] \<and>
         (res = Result_zero \<or>
          mset keys = mset (Restored res) + mset (Absent res) + mset (Untouched res) +
            mset (RollbackFailed res) \<and>
          (\<forall>k \<in> set (Restored res). V (p @ ''/'' @ k) \<noteq> None) \<and>
          (\<forall>k \<in> set (Absent res). V (p @ ''/'' @ k) = None)))"
proof -
  define ks where "ks = sort (remdups (map fst kv))"
  note out = Store_SetBundle_laws(2) [OF assms, folded ks_def]
  have ok: "store_ok good s'"
    using Store_SetBundle_laws(1) [OF assms] by (simp add: keeps_def)
  have ks: "set ks = fst ` set kv"
    by (simp add: ks_def)
  have held: "map_of kv k = Some (map_get (map_of kv) k)" if "k \<in> set ks" for k
    using that by (cases "map_of kv k") (simp_all add: ks map_of_eq_None_iff)
  show ?thesis
  proof (cases err)
    case None
    from out [unfolded None SetBundle_outcome_def option.simps]
    have "Written res = ks" "\<forall>k \<in> set ks. store_view view s' (p @ ''/'' @ k) = map_of kv k"
      "\<forall>ik. ik \<notin> (\<lambda>k. p @ ''/'' @ k) ` set ks \<longrightarrow>
        store_view view s' ik = store_view view s ik"
      by (simp_all add: bundle_key_def same_except_def held [symmetric])
    with ok None show ?thesis
      unfolding Let_def ks_def [symmetric] ks [symmetric] by simp
  next
    case (Some e)
    from out [unfolded Some SetBundle_outcome_def option.simps same_except_def slices_def bundle_key_def]
    show ?thesis
      unfolding Let_def ks_def [symmetric] Some option.simps using ok by (metis (no_types, lifting))
  qed
qed

end

end
