(* ===== verification/StoreSpec.thy ===== *)
theory StoreSpec
  imports BundleLaws
begin

text \<open>
  What a store promises as a whole. The abstract store is a closed flag and a finite map from profile
  and key to value; each operation of \<open>Store\<close> is one step of it, with the class of the error where
  the operation refuses. \<open>exact_backend\<close> adds to the laws of the interface that nothing fails
  without a reason, which the in-memory backend without fault hooks obeys, and over such a backend
  every sequence of operations answers as the abstract store does.
\<close>

section \<open>Operations as values\<close>

datatype operation =
    OpGet string string
  | OpSet string string string bool
  | OpDelete string string
  | OpExists string string
  | OpListBundle string
  | OpListProfiles
  | OpDeleteBundle string
  | OpSetBundle string "(string \<times> string) list" bool
  | OpClose

datatype payload = Value string | Present bool | Names "string list" | Done

definition opts_of :: "bool \<Rightarrow> SetOpt list" where
  "opts_of ow = (if ow then [WithOverwrite] else [])"

definition err_reply :: "payload \<Rightarrow> err option \<Rightarrow> payload result" where
  "err_reply x r = (case r of None \<Rightarrow> Inr x | Some e \<Rightarrow> Inl e)"

text \<open>One call of a method, and a sequence of calls with the replies they give.\<close>

primrec store_step :: "'b backend \<Rightarrow> 'b Store \<Rightarrow> operation \<Rightarrow> 'b Store \<times> payload result" where
  "store_step ops s (OpGet p k) = map_prod id (map_sum id Value) (Store_Get ops s p k)"
| "store_step ops s (OpSet p k v ow) = map_prod id (err_reply Done) (Store_Set ops s p k v (opts_of ow))"
| "store_step ops s (OpDelete p k) = map_prod id (err_reply Done) (Store_Delete ops s p k)"
| "store_step ops s (OpExists p k) = map_prod id (map_sum id Present) (Store_Exists ops s p k)"
| "store_step ops s (OpListBundle p) = map_prod id (map_sum id Names) (Store_ListBundle ops s p)"
| "store_step ops s OpListProfiles = map_prod id (map_sum id Names) (Store_ListProfiles ops s)"
| "store_step ops s (OpDeleteBundle p) =
     map_prod id (\<lambda>(deleted, r). err_reply (Names deleted) r) (Store_DeleteBundle ops s p)"
| "store_step ops s (OpSetBundle p kv ow) =
     map_prod id (\<lambda>(res, r). err_reply (Names (Written res)) r)
       (Store_SetBundle ops s p kv (opts_of ow))"
| "store_step ops s OpClose = map_prod id (err_reply Done) (Store_Close ops s)"

fun store_run :: "'b backend \<Rightarrow> 'b Store \<Rightarrow> operation list \<Rightarrow> 'b Store \<times> payload result list" where
  "store_run ops s [] = (s, [])"
| "store_run ops s (x # xs) =
     (case store_step ops s x of
        (s1, r) \<Rightarrow> (case store_run ops s1 xs of (s2, rs) \<Rightarrow> (s2, r # rs)))"

section \<open>The abstract store\<close>

record spec =
  sp_closed :: bool
  sp_map :: "string \<times> string \<rightharpoonup> string"

definition spec_segment :: "string \<Rightarrow> sentinel option" where
  "spec_segment x =
     (if x = [] then Some ErrRefEmpty else if validSegment x then None else Some ErrRefInvalidChar)"

definition spec_key :: "string \<Rightarrow> string \<Rightarrow> sentinel option" where
  "spec_key p k = (case spec_segment p of Some t \<Rightarrow> Some t | None \<Rightarrow> spec_segment k)"

definition spec_write_key :: "string set option \<Rightarrow> string \<Rightarrow> string \<Rightarrow> sentinel option" where
  "spec_write_key A p k =
     (case spec_key p k of
        Some t \<Rightarrow> Some t
      | None \<Rightarrow> if \<forall>B. A = Some B \<longrightarrow> k \<in> B then None else Some ErrKeyNotAllowed)"

fun spec_write_keys :: "string set option \<Rightarrow> string \<Rightarrow> string list \<Rightarrow> sentinel option" where
  "spec_write_keys A p [] = None"
| "spec_write_keys A p (k # ks) =
     (case spec_write_key A p k of Some t \<Rightarrow> Some t | None \<Rightarrow> spec_write_keys A p ks)"

type_synonym spec_reply = "sentinel + payload"

definition guarded :: "sentinel option \<Rightarrow> spec \<Rightarrow> spec \<times> spec_reply \<Rightarrow> spec \<times> spec_reply" where
  "guarded g sp x = (case g of Some t \<Rightarrow> (sp, Inl t) | None \<Rightarrow> x)"

definition bundle_of :: "(string \<times> string \<rightharpoonup> string) \<Rightarrow> string \<Rightarrow> string set" where
  "bundle_of m p = {k. m (p, k) \<noteq> None}"

definition put_bundle ::
  "(string \<times> string \<rightharpoonup> string) \<Rightarrow> string \<Rightarrow> (string \<rightharpoonup> string) \<Rightarrow> (string \<times> string \<rightharpoonup> string)"
where
  "put_bundle m p kv = (\<lambda>(q, k). if q = p \<and> kv k \<noteq> None then kv k else m (q, k))"

primrec spec_open :: "string set option \<Rightarrow> spec \<Rightarrow> operation \<Rightarrow> spec \<times> spec_reply" where
  "spec_open A sp (OpGet p k) = guarded (spec_key p k) sp
     (sp, case sp_map sp (p, k) of None \<Rightarrow> Inl ErrNotFound | Some v \<Rightarrow> Inr (Value v))"
| "spec_open A sp (OpSet p k v ow) = guarded (spec_write_key A p k) sp
     (if ow \<or> sp_map sp (p, k) = None then (sp\<lparr>sp_map := (sp_map sp)((p, k) \<mapsto> v)\<rparr>, Inr Done)
      else (sp, Inl ErrExists))"
| "spec_open A sp (OpDelete p k) = guarded (spec_write_key A p k) sp
     (if sp_map sp (p, k) = None then (sp, Inl ErrNotFound)
      else (sp\<lparr>sp_map := (sp_map sp)((p, k) := None)\<rparr>, Inr Done))"
| "spec_open A sp (OpExists p k) = guarded (spec_key p k) sp
     (sp, Inr (Present (sp_map sp (p, k) \<noteq> None)))"
| "spec_open A sp (OpListBundle p) = guarded (spec_segment p) sp
     (sp, Inr (Names (sorted_list_of_set (bundle_of (sp_map sp) p))))"
| "spec_open A sp OpListProfiles =
     (sp, Inr (Names (sorted_list_of_set (fst ` dom (sp_map sp)))))"
| "spec_open A sp (OpDeleteBundle p) = guarded (spec_segment p) sp
     (sp\<lparr>sp_map := (\<lambda>(q, k). if q = p then None else sp_map sp (q, k))\<rparr>,
      Inr (Names (sorted_list_of_set (bundle_of (sp_map sp) p))))"
| "spec_open A sp (OpSetBundle p kv ow) = guarded (spec_segment p) sp
     (let keys = sorted_list_of_set (fst ` set kv) in
      guarded (spec_write_keys A p keys) sp
        (if ow \<or> bundle_of (sp_map sp) p \<inter> fst ` set kv = {} then
           (sp\<lparr>sp_map := put_bundle (sp_map sp) p (map_of kv)\<rparr>, Inr (Names keys))
         else (sp, Inl ErrExists)))"
| "spec_open A sp OpClose = (\<lparr>sp_closed = True, sp_map = Map.empty\<rparr>, Inr Done)"

definition spec_step :: "string set option \<Rightarrow> spec \<Rightarrow> operation \<Rightarrow> spec \<times> spec_reply" where
  "spec_step A sp x =
     (if \<not> sp_closed sp then spec_open A sp x
      else if x = OpClose then (sp, Inr Done)
      else (sp, Inl ErrStoreClosed))"

fun spec_run :: "string set option \<Rightarrow> spec \<Rightarrow> operation list \<Rightarrow> spec \<times> spec_reply list" where
  "spec_run A sp [] = (sp, [])"
| "spec_run A sp (x # xs) =
     (case spec_step A sp x of
        (sp1, r) \<Rightarrow> (case spec_run A sp1 xs of (sp2, rs) \<Rightarrow> (sp2, r # rs)))"

text \<open>A reply implements an abstract one: the same payload, or an error of the stated class.\<close>

fun reply_matches :: "payload result \<Rightarrow> spec_reply \<Rightarrow> bool" where
  "reply_matches (Inr x) (Inr y) = (x = y)"
| "reply_matches (Inl e) (Inl t) = errors_Is e t"
| "reply_matches _ _ = False"

definition store_spec :: "('b \<Rightarrow> kvmap) \<Rightarrow> 'b Store \<Rightarrow> spec" where
  "store_spec view s = \<lparr>sp_closed = st_closed s, sp_map = store_abs view s\<rparr>"

text \<open>A well-formed store all of whose entries are at item keys the operations can name.\<close>

definition store_wf :: "('b \<Rightarrow> bool) \<Rightarrow> ('b \<Rightarrow> kvmap) \<Rightarrow> 'b Store \<Rightarrow> bool" where
  "store_wf good view s \<longleftrightarrow>
     store_ok good s \<and> (\<forall>ik \<in> dom (store_view view s). \<exists>p k. joinItemKey p k = Inr ik)"

section \<open>Guards\<close>

lemma guarded_simps [simp]: "guarded None sp x = x" "guarded (Some t) sp x = (sp, Inl t)"
  by (simp_all add: guarded_def)

lemma so_overwrite_opts_of [simp]: "so_overwrite (opts_of ow) = ow"
  by (simp add: opts_of_def)

lemma joinItemKey_spec:
  "case joinItemKey p k of
     Inl e \<Rightarrow> \<exists>t. spec_key p k = Some t \<and> errors_Is e t
   | Inr ik \<Rightarrow> spec_key p k = None"
  by (auto simp: joinItemKey_def spec_key_def spec_segment_def errors_Is_defs)

lemma validateProfile_spec:
  "case validateProfile p of
     Some e \<Rightarrow> \<exists>t. spec_segment p = Some t \<and> errors_Is e t
   | None \<Rightarrow> spec_segment p = None"
  by (auto simp: validateProfile_def spec_segment_def errors_Is_defs)

lemma SetBundle_keys_spec:
  "case SetBundle_keys s p ks m of
     Inl e \<Rightarrow> \<exists>t. spec_write_keys (st_allowed s) p ks = Some t \<and> errors_Is e t
   | Inr m' \<Rightarrow> spec_write_keys (st_allowed s) p ks = None"
proof (induction ks arbitrary: m)
  case (Cons k ks)
  have allowed: "checkAllowed s k = None \<longleftrightarrow> (\<forall>B. st_allowed s = Some B \<longrightarrow> k \<in> B)"
    by (rule checkAllowed_None)
  show ?case
  proof (cases "joinItemKey p k")
    case (Inl e)
    with joinItemKey_spec [of p k] show ?thesis
      by (auto simp: spec_write_key_def)
  next
    case (Inr ik)
    with joinItemKey_spec [of p k] have "spec_key p k = None" by simp
    define m1 where "m1 = m(k \<mapsto> ik)"
    from \<open>spec_key p k = None\<close> Inr allowed Cons.IH [of m1] show ?thesis
      by (cases "checkAllowed s k")
         (auto simp: spec_write_key_def m1_def [symmetric] dest: checkAllowed_Some
           split: sum.split)
  qed
qed simp

lemma slash_free_eq:
  "validSegment q \<Longrightarrow> validSegment p \<Longrightarrow> q @ ''/'' @ j = p @ ''/'' @ k \<longleftrightarrow> q = p \<and> j = k"
  by (metis append_Cons append_Nil prod.inject strings_Cut_append validSegment_no_slash)

section \<open>Exact backends\<close>

text \<open>Every call on a good backend succeeds unless the map itself is the reason it cannot.\<close>

locale exact_backend = backend_laws +
  assumes get_exact: "good b \<Longrightarrow> usable view b k \<Longrightarrow>
      snd (be_get ops b k) = (case view b k of None \<Rightarrow> Inl (Sentinel ErrNotFound) | Some v \<Rightarrow> Inr v)"
    and set_exact: "good b \<Longrightarrow> usable view b k \<Longrightarrow>
      snd (be_set ops b k v ow) =
        (if ow \<or> view b k = None then None else Some (Sentinel ErrExists))"
    and delete_exact: "good b \<Longrightarrow> usable view b k \<Longrightarrow>
      snd (be_delete ops b k) = (if view b k = None then Some (Sentinel ErrNotFound) else None)"
    and exists_exact: "good b \<Longrightarrow> usable view b k \<Longrightarrow> snd (be_exists ops b k) = Inr (view b k \<noteq> None)"
    and list_exact: "good b \<Longrightarrow> \<exists>ks. snd (be_listKeys ops b) = Inr ks"
    and close_exact: "good b \<Longrightarrow> snd (be_close ops b) = None"

text \<open>One concrete step is the abstract one.\<close>

definition implements ::
  "('b \<Rightarrow> bool) \<Rightarrow> ('b \<Rightarrow> kvmap) \<Rightarrow> 'b Store \<Rightarrow> operation \<Rightarrow> 'b Store \<times> payload result \<Rightarrow> bool"
where
  "implements good view s x out \<longleftrightarrow>
     (case out of (s', r) \<Rightarrow>
        store_wf good view s' \<and> st_allowed s' = st_allowed s \<and>
        (\<exists>r'. spec_step (st_allowed s) (store_spec view s) x = (store_spec view s', r') \<and>
           reply_matches r r'))"

lemma implements_closed:
  assumes "store_wf good view s" "st_closed s"
  shows "implements good view s x (store_step ops s x)"
  using assms
  by (cases x)
     (simp_all add: implements_def spec_step_def store_spec_def Store_Get_def Store_Set_def
       Store_Delete_def Store_Exists_def Store_ListBundle_def Store_ListProfiles_def
       Store_DeleteBundle_def Store_SetBundle_def Store_Close_def err_reply_def)

lemma implements_openI:
  assumes "store_wf good view s" "\<not> st_closed s" "keeps good s s'"
    "\<forall>ik \<in> dom (store_view view s'). ik \<notin> dom (store_view view s) \<longrightarrow>
       (\<exists>p k. joinItemKey p k = Inr ik)"
    "spec_open (st_allowed s) (store_spec view s) x =
       (\<lparr>sp_closed = False, sp_map = store_abs view s'\<rparr>, r')" "reply_matches r r'"
  shows "implements good view s x (s', r)"
proof -
  have "store_wf good view s'"
    using assms(1,3,4) unfolding store_wf_def keeps_def by blast
  then show ?thesis
    using assms(2,3,5,6)
    by (auto simp: implements_def spec_step_def store_spec_def keeps_def same_frame_def)
qed

text \<open>A step that refuses, or only reads, leaves the abstract store as it is.\<close>

lemma implements_readI:
  assumes "store_wf good view s" "\<not> st_closed s" "keeps good s s'"
    "store_view view s' = store_view view s"
    "spec_open (st_allowed s) (store_spec view s) x = (store_spec view s, r')" "reply_matches r r'"
  shows "implements good view s x (s', r)"
proof (rule implements_openI [OF assms(1-3) _ _ assms(6)])
  show "spec_open (st_allowed s) (store_spec view s) x =
      (\<lparr>sp_closed = False, sp_map = store_abs view s'\<rparr>, r')"
    using assms(2,5) store_abs_eqI [OF assms(4)] by (simp add: store_spec_def)
qed (simp add: assms(4))

lemma implements_refuseI:
  assumes "store_wf good view s" "\<not> st_closed s"
    "spec_open (st_allowed s) (store_spec view s) x = (store_spec view s, Inl t)" "errors_Is e t"
  shows "implements good view s x (s, Inl e)"
  by (rule implements_readI [OF assms(1,2) _ _ assms(3)]) (use assms in \<open>simp_all add: store_wf_def\<close>)

lemma sp_map_store_spec [simp]: "sp_map (store_spec view s) = store_abs view s"
  by (simp add: store_spec_def)

lemma on_backend_open:
  "st_be s = Some b \<Longrightarrow> on_backend s panic f = (s\<lparr>st_be := Some (fst (f b))\<rparr>, snd (f b))"
  by (simp add: on_backend_def split: prod.splits)

context exact_backend
begin

lemma Store_Get_implements:
  assumes wf: "store_wf good view s" and op: "\<not> st_closed s"
  shows "implements good view s (OpGet p k) (store_step ops s (OpGet p k))"
proof -
  have ok: "store_ok good s" using wf by (simp add: store_wf_def)
  then obtain b where b: "st_be s = Some b" "good b" using op by (rule store_okD)
  obtain s' r where run: "Store_Get ops s p k = (s', r)" by (cases "Store_Get ops s p k")
  note laws = Store_Get_laws(1,2) [OF ok run]
  show ?thesis
  proof (cases "joinItemKey p k")
    case (Inl e)
    with op have "store_step ops s (OpGet p k) = (s, Inl e)"
      by (simp add: Store_Get_def)
    moreover obtain t where "spec_key p k = Some t" "errors_Is e t"
      using Inl joinItemKey_spec [of p k] by auto
    ultimately show ?thesis
      using implements_refuseI [OF wf op] by simp
  next
    case (Inr ik)
    with op run b have "r = snd (be_get ops b ik)"
      by (auto simp: Store_Get_def on_backend_open)
    with Inr b joinItemKey_item [OF Inr] joinItemKey_spec [of p k] show ?thesis
      by (auto simp: run get_exact store_abs_key store_view_open split: option.splits
          intro!: implements_readI [OF wf op laws])
  qed
qed

lemma Store_Exists_implements:
  assumes wf: "store_wf good view s" and op: "\<not> st_closed s"
  shows "implements good view s (OpExists p k) (store_step ops s (OpExists p k))"
proof -
  have ok: "store_ok good s" using wf by (simp add: store_wf_def)
  then obtain b where b: "st_be s = Some b" "good b" using op by (rule store_okD)
  obtain s' r where run: "Store_Exists ops s p k = (s', r)" by (cases "Store_Exists ops s p k")
  note laws = Store_Exists_laws(1,2) [OF ok run]
  show ?thesis
  proof (cases "joinItemKey p k")
    case (Inl e)
    with op have "store_step ops s (OpExists p k) = (s, Inl e)"
      by (simp add: Store_Exists_def)
    moreover obtain t where "spec_key p k = Some t" "errors_Is e t"
      using Inl joinItemKey_spec [of p k] by auto
    ultimately show ?thesis
      using implements_refuseI [OF wf op] by simp
  next
    case (Inr ik)
    with op run b have "r = snd (be_exists ops b ik)"
      by (auto simp: Store_Exists_def on_backend_open)
    with Inr b joinItemKey_item [OF Inr] joinItemKey_spec [of p k] show ?thesis
      by (auto simp: run exists_exact store_abs_key store_view_open
          intro!: implements_readI [OF wf op laws])
  qed
qed

text \<open>The writes: refused as the abstract store refuses, or one call of the backend.\<close>

lemma write_refused:
  assumes wf: "store_wf good view s" and op: "\<not> st_closed s"
    and spec: "spec_open (st_allowed s) (store_spec view s) x =
      guarded (spec_write_key (st_allowed s) p k) (store_spec view s) y"
    and run: "store_step ops s x = map_prod id (err_reply Done)
      (case joinItemKey p k of
         Inl e \<Rightarrow> (s, Some e)
       | Inr ik \<Rightarrow> (case checkAllowed s k of Some e \<Rightarrow> (s, Some e) | None \<Rightarrow> f ik))"
    and call: "\<And>ik. joinItemKey p k = Inr ik \<Longrightarrow> checkAllowed s k = None \<Longrightarrow>
      spec_write_key (st_allowed s) p k = None \<Longrightarrow>
      implements good view s x (map_prod id (err_reply Done) (f ik))"
  shows "implements good view s x (store_step ops s x)"
proof (cases "joinItemKey p k")
  case (Inl e)
  then obtain t where "spec_key p k = Some t" "errors_Is e t"
    using joinItemKey_spec [of p k] by auto
  then have "spec_write_key (st_allowed s) p k = Some t" "errors_Is e t"
    by (simp_all add: spec_write_key_def)
  with Inl implements_refuseI [OF wf op] show ?thesis
    by (simp add: run spec err_reply_def)
next
  case (Inr ik)
  with joinItemKey_spec [of p k] have key: "spec_key p k = None" by simp
  show ?thesis
  proof (cases "checkAllowed s k")
    case (Some e)
    then have "spec_write_key (st_allowed s) p k = Some ErrKeyNotAllowed"
      using key checkAllowed_None [of s k] by (auto simp: spec_write_key_def)
    with Inr Some implements_refuseI [OF wf op _ checkAllowed_Some [OF Some]] show ?thesis
      by (simp add: run spec err_reply_def)
  next
    case None
    then have "spec_write_key (st_allowed s) p k = None"
      using key checkAllowed_None [of s k] by (auto simp: spec_write_key_def)
    with Inr None call [OF Inr None] show ?thesis
      by (simp add: run)
  qed
qed

lemma Store_Set_implements:
  assumes wf: "store_wf good view s" and op: "\<not> st_closed s"
  shows "implements good view s (OpSet p k v ow) (store_step ops s (OpSet p k v ow))"
proof (rule write_refused [OF wf op])
  show "store_step ops s (OpSet p k v ow) = map_prod id (err_reply Done)
      (case joinItemKey p k of Inl e \<Rightarrow> (s, Some e)
       | Inr ik \<Rightarrow> (case checkAllowed s k of Some e \<Rightarrow> (s, Some e)
           | None \<Rightarrow> on_backend s (Some NilDereference) (\<lambda>b. be_set ops b ik v ow)))"
    using op by (simp add: Store_Set_def split: sum.split option.split)
  fix ik
  assume key: "joinItemKey p k = Inr ik" "checkAllowed s k = None"
    "spec_write_key (st_allowed s) p k = None"
  have item: "is_item_key ik" using key(1) by (rule joinItemKey_item)
  have ok: "store_ok good s" using wf by (simp add: store_wf_def)
  then obtain b where b: "st_be s = Some b" "good b" using op by (rule store_okD)
  obtain b' r where st: "be_set ops b ik v ow = (b', r)" by (cases "be_set ops b ik v ow")
  have r: "r = (if ow \<or> view b ik = None then None else Some (Sentinel ErrExists))"
    using set_exact [OF b(2) usable_item_key [OF item], of v ow] st by simp
  have here: "store_abs view s (p, k) = view b ik"
    using key(1) b(1) by (simp add: store_abs_key store_view_open)
  have b': "good b'" using set_frame [OF b(2) usable_item_key [OF item] st] by simp
  let ?s' = "s\<lparr>st_be := Some b'\<rparr>"
  have keeps: "keeps good s ?s'" using ok op b' by (rule keeps_upd_be)
  have out: "map_prod id (err_reply Done) (on_backend s (Some NilDereference)
      (\<lambda>b. be_set ops b ik v ow)) = (?s', err_reply Done r)"
    using b(1) st by (simp add: on_backend_open)
  show "implements good view s (OpSet p k v ow) (map_prod id (err_reply Done)
      (on_backend s (Some NilDereference) (\<lambda>b. be_set ops b ik v ow)))"
  proof (cases "ow \<or> view b ik = None")
    case True
    with r st have upd: "view b' = (view b)(ik \<mapsto> v)"
      using set_ok [OF b(2) usable_item_key [OF item]] by simp
    with b(1) have view': "store_view view ?s' = (store_view view s)(ik \<mapsto> v)"
      by (simp only: store_view_upd_be store_view_open)
    show ?thesis
      unfolding out
    proof (rule implements_openI [OF wf op keeps])
      show "\<forall>jk \<in> dom (store_view view ?s'). jk \<notin> dom (store_view view s) \<longrightarrow>
          (\<exists>p k. joinItemKey p k = Inr jk)"
        unfolding view' using key(1) by auto
      show "spec_open (st_allowed s) (store_spec view s) (OpSet p k v ow) =
          (\<lparr>sp_closed = False, sp_map = store_abs view ?s'\<rparr>, Inr Done)"
        using True op by (simp add: key(3) here store_abs_upd [OF key(1) view'] store_spec_def)
    qed (use r True in \<open>simp add: err_reply_def\<close>)
  next
    case False
    then have "view b' = view b"
      using set_guard [of b ik v b' r] b(2) item st by simp
    then have "store_view view ?s' = store_view view s"
      using b(1) by (simp add: store_view_open)
    moreover have "r = Some (Sentinel ErrExists)" "\<not> ow"
      using False r by simp_all
    ultimately show ?thesis
      unfolding out using False
      by (intro implements_readI [OF wf op keeps, where r' = "Inl ErrExists"])
         (auto simp: key(3) here err_reply_def)
  qed
qed simp

lemma Store_Delete_implements:
  assumes wf: "store_wf good view s" and op: "\<not> st_closed s"
  shows "implements good view s (OpDelete p k) (store_step ops s (OpDelete p k))"
proof (rule write_refused [OF wf op])
  show "store_step ops s (OpDelete p k) = map_prod id (err_reply Done)
      (case joinItemKey p k of Inl e \<Rightarrow> (s, Some e)
       | Inr ik \<Rightarrow> (case checkAllowed s k of Some e \<Rightarrow> (s, Some e)
           | None \<Rightarrow> on_backend s (Some NilDereference) (\<lambda>b. be_delete ops b ik)))"
    using op by (simp add: Store_Delete_def)
  fix ik
  assume key: "joinItemKey p k = Inr ik" "checkAllowed s k = None"
    "spec_write_key (st_allowed s) p k = None"
  have item: "is_item_key ik" using key(1) by (rule joinItemKey_item)
  have ok: "store_ok good s" using wf by (simp add: store_wf_def)
  then obtain b where b: "st_be s = Some b" "good b" using op by (rule store_okD)
  obtain b' r where dl: "be_delete ops b ik = (b', r)" by (cases "be_delete ops b ik")
  have r: "r = (if view b ik = None then Some (Sentinel ErrNotFound) else None)"
    using delete_exact [OF b(2) usable_item_key [OF item]] dl by simp
  have here: "store_abs view s (p, k) = view b ik"
    using key(1) b(1) by (simp add: store_abs_key store_view_open)
  have b': "good b'" using delete_frame [OF b(2) usable_item_key [OF item] dl] by simp
  let ?s' = "s\<lparr>st_be := Some b'\<rparr>"
  have keeps: "keeps good s ?s'" using ok op b' by (rule keeps_upd_be)
  have out: "map_prod id (err_reply Done) (on_backend s (Some NilDereference)
      (\<lambda>b. be_delete ops b ik)) = (?s', err_reply Done r)"
    using b(1) dl by (simp add: on_backend_open)
  show "implements good view s (OpDelete p k) (map_prod id (err_reply Done)
      (on_backend s (Some NilDereference) (\<lambda>b. be_delete ops b ik)))"
  proof (cases "view b ik = None")
    case True
    then have "be_delete ops b ik = (b', Some (Sentinel ErrNotFound))"
      using r dl by simp
    from delete_absent [OF b(2) usable_item_key [OF item] this] b(1) have "store_view view ?s' = store_view view s"
      by (simp add: store_view_open)
    from implements_readI [OF wf op keeps this] True r show ?thesis
      unfolding out by (simp add: key(3) here err_reply_def)
  next
    case False
    then have "be_delete ops b ik = (b', None)"
      using r dl by simp
    from delete_ok [OF b(2) usable_item_key [OF item] this] have "view b' = (view b)(ik := None)"
      by blast
    with b(1) have view': "store_view view ?s' = (store_view view s)(ik := None)"
      by (simp only: store_view_upd_be store_view_open)
    show ?thesis
      unfolding out
    proof (rule implements_openI [OF wf op keeps])
      show "\<forall>jk \<in> dom (store_view view ?s'). jk \<notin> dom (store_view view s) \<longrightarrow>
          (\<exists>p k. joinItemKey p k = Inr jk)"
        unfolding view' by auto
      show "spec_open (st_allowed s) (store_spec view s) (OpDelete p k) =
          (\<lparr>sp_closed = False, sp_map = store_abs view ?s'\<rparr>, Inr Done)"
        using False op by (simp add: key(3) here store_abs_upd [OF key(1) view'] store_spec_def)
    qed (use r False in \<open>simp add: err_reply_def\<close>)
  qed
qed simp

text \<open>Item keys of a well-formed store: the stored keys of a profile are those of the abstract map.\<close>

lemma store_wf_bundle:
  assumes "store_wf good view s" "validSegment p"
  shows "{k. store_view view s (bundle_key p k) \<noteq> None} = bundle_of (store_abs view s) p"
proof -
  have "validSegment k" if "store_view view s (bundle_key p k) \<noteq> None" for k
  proof -
    from that assms(1) obtain q j where qj: "joinItemKey q j = Inr (bundle_key p k)"
      unfolding store_wf_def by blast
    then have "q = p \<and> j = k"
      using assms(2) slash_free_eq [of q p j k] by (simp add: joinItemKey_Inr bundle_key_def)
    with qj show ?thesis by (simp add: joinItemKey_Inr)
  qed
  with assms(2) show ?thesis
    by (auto simp: bundle_of_def store_abs_def bundle_key_def)
qed

lemma bundleBareKeys_exact:
  assumes ok: "store_ok good s" and op: "\<not> st_closed s" and run: "bundleBareKeys ops s p = (s', r)"
  shows "\<exists>ks. r = Inr ks"
proof -
  obtain b where b: "st_be s = Some b" "good b" using ok op by (rule store_okD)
  obtain b' ks where "be_listKeys ops b = (b', Inr ks)"
    using list_exact [OF b(2)] by (metis prod.collapse)
  with b(1) run show ?thesis
    by (auto simp: bundleBareKeys_def on_backend_def)
qed

lemma Store_ListBundle_implements:
  assumes wf: "store_wf good view s" and op: "\<not> st_closed s"
  shows "implements good view s (OpListBundle p) (store_step ops s (OpListBundle p))"
proof (cases "validateProfile p")
  case (Some e)
  then obtain t where "spec_segment p = Some t" "errors_Is e t"
    using validateProfile_spec [of p] by auto
  with Some op implements_refuseI [OF wf op] show ?thesis
    by (simp add: Store_ListBundle_def)
next
  case None
  then have seg: "spec_segment p = None" "validSegment p"
    using validateProfile_spec [of p] validateProfile_iff [of p] by simp_all
  have ok: "store_ok good s" using wf by (simp add: store_wf_def)
  obtain s' r where run: "Store_ListBundle ops s p = (s', r)" by (cases "Store_ListBundle ops s p")
  then have "bundleBareKeys ops s p = (s', r)"
    using None op by (simp add: Store_ListBundle_def)
  then obtain ks where r: "r = Inr ks"
    using bundleBareKeys_exact [OF ok op] by blast
  note laws = Store_ListBundle_laws [OF ok run]
  have "ks = sorted_list_of_set (bundle_of (store_abs view s) p)"
    using laws(3) [OF r] store_wf_bundle [OF wf seg(2)]
    by (intro sorted_distinct_listI) simp_all
  with r seg(1) show ?thesis
    by (simp add: run implements_readI [OF wf op laws(1,2)])
qed

lemma Store_ListProfiles_implements:
  assumes wf: "store_wf good view s" and op: "\<not> st_closed s"
  shows "implements good view s OpListProfiles (store_step ops s OpListProfiles)"
proof -
  have ok: "store_ok good s" using wf by (simp add: store_wf_def)
  then obtain b where b: "st_be s = Some b" "good b" using op by (rule store_okD)
  obtain b' all where "be_listKeys ops b = (b', Inr all)"
    using list_exact [OF b(2)] by (metis prod.collapse)
  then obtain s' ps where run: "Store_ListProfiles ops s = (s', Inr ps)"
    using b(1) op by (auto simp: Store_ListProfiles_def on_backend_def)
  note laws = Store_ListProfiles_laws [OF ok run]
  have "{p. p \<noteq> [] \<and> CHR ''/'' \<notin> set p \<and> (\<exists>k. store_view view s (bundle_key p k) \<noteq> None)} =
      fst ` dom (store_abs view s)"
  proof (intro equalityI subsetI)
    fix p
    assume "p \<in> {p. p \<noteq> [] \<and> CHR ''/'' \<notin> set p \<and> (\<exists>k. store_view view s (bundle_key p k) \<noteq> None)}"
    then obtain k where pk: "CHR ''/'' \<notin> set p" "store_view view s (bundle_key p k) \<noteq> None"
      by blast
    with wf obtain q j where qj: "joinItemKey q j = Inr (bundle_key p k)"
      unfolding store_wf_def by blast
    then have "q = p \<and> j = k"
      using pk(1) strings_Cut_append [of "CHR ''/''" q j] strings_Cut_append [of "CHR ''/''" p k]
      by (auto simp: joinItemKey_Inr bundle_key_def validSegment_no_slash)
    with qj pk(2) have "(p, k) \<in> dom (store_abs view s)"
      by (auto simp: store_abs_key)
    then show "p \<in> fst ` dom (store_abs view s)"
      by (rule rev_image_eqI) simp
  next
    fix p
    assume "p \<in> fst ` dom (store_abs view s)"
    then show "p \<in> {p. p \<noteq> [] \<and> CHR ''/'' \<notin> set p \<and>
        (\<exists>k. store_view view s (bundle_key p k) \<noteq> None)}"
      by (auto simp: store_abs_def bundle_key_def validSegment_no_slash
          dest: validSegment_nonempty split: if_splits) blast
  qed
  with laws(3) have "ps = sorted_list_of_set (fst ` dom (store_abs view s))"
    by (intro sorted_distinct_listI) simp_all
  then show ?thesis
    by (simp add: run implements_readI [OF wf op laws(1,2)])
qed

lemma DeleteBundle_loop_exact:
  assumes "good b" "distinct ks" "\<forall>k \<in> set ks. view b (bundle_key p k) \<noteq> None"
    "DeleteBundle_loop ops b (p @ ''/'') ks d f = (b', d', f')"
  shows "f' = f"
  using assms
proof (induction ks arbitrary: b d)
  case (Cons k ks)
  obtain b1 r where del: "be_delete ops b (bundle_key p k) = (b1, r)"
    by (cases "be_delete ops b (bundle_key p k)")
  have use: "usable view b (bundle_key p k)"
    using Cons.prems(3) by (intro usable_held) simp
  have r: "r = None"
    using del delete_exact [OF Cons.prems(1) use] Cons.prems(3) by simp
  with del have b1: "good b1" "view b1 = (view b)(bundle_key p k := None)"
    using delete_ok [OF Cons.prems(1) use] by auto
  have "\<forall>j \<in> set ks. view b1 (bundle_key p j) \<noteq> None"
    using Cons.prems(2,3) by (auto simp: b1(2))
  with Cons.IH [OF b1(1)] Cons.prems(2,4) del r show ?case
    by (simp add: bundle_key_def)
qed simp

lemma Store_DeleteBundle_exact:
  assumes wf: "store_wf good view s" and op: "\<not> st_closed s" and p: "validSegment p"
    and run: "Store_DeleteBundle ops s p = (s', dl, err)"
  shows "err = None"
proof -
  have ok: "store_ok good s" using wf by (simp add: store_wf_def)
  obtain s1 r1 where list: "bundleBareKeys ops s p = (s1, r1)" by (cases "bundleBareKeys ops s p")
  obtain ks where r1: "r1 = Inr ks" using bundleBareKeys_exact [OF ok op list] by blast
  note bare = bundleBareKeys_laws [OF ok op list]
  have s1: "store_ok good s1" "\<not> st_closed s1" "store_view view s1 = store_view view s"
    using bare(1,2) op by (auto simp: keeps_def)
  then obtain b where b: "st_be s1 = Some b" "good b" using store_okD by blast
  obtain b' d f where loop: "DeleteBundle_loop ops b (p @ ''/'') ks [] [] = (b', d, f)"
    by (cases "DeleteBundle_loop ops b (p @ ''/'') ks [] []")
  have "f = []"
  proof (rule DeleteBundle_loop_exact [OF b(2) _ _ loop])
    show "distinct ks" "\<forall>k \<in> set ks. view b (bundle_key p k) \<noteq> None"
      using bare(3) [OF r1] s1(3) b(1) by (auto simp: store_view_open)
  qed
  then show ?thesis
    using run op p list r1 b(1) loop
    by (simp add: Store_DeleteBundle_def validateProfile_iff [THEN iffD2] on_backend_def)
qed

lemma Store_DeleteBundle_implements:
  assumes wf: "store_wf good view s" and op: "\<not> st_closed s"
  shows "implements good view s (OpDeleteBundle p) (store_step ops s (OpDeleteBundle p))"
proof (cases "validateProfile p")
  case (Some e)
  then obtain t where "spec_segment p = Some t" "errors_Is e t"
    using validateProfile_spec [of p] by auto
  with Some op implements_refuseI [OF wf op] show ?thesis
    by (simp add: Store_DeleteBundle_def err_reply_def)
next
  case None
  then have seg: "spec_segment p = None" "validSegment p"
    using validateProfile_spec [of p] validateProfile_iff [of p] by simp_all
  have ok: "store_ok good s" using wf by (simp add: store_wf_def)
  obtain s' dl err where run: "Store_DeleteBundle ops s p = (s', dl, err)"
    by (cases "Store_DeleteBundle ops s p") auto
  have err: "err = None" by (rule Store_DeleteBundle_exact [OF wf op seg(2) run])
  note laws = Store_DeleteBundle_laws [OF ok run]
  note stored = store_wf_bundle [OF wf seg(2)]
  have dl: "dl = sorted_list_of_set (bundle_of (store_abs view s) p)"
    using laws(4) laws(5) [OF err] stored by (intro sorted_distinct_listI) simp_all
  have gone: "store_view view s' (bundle_key p k) = None" for k
  proof (cases "store_view view s (bundle_key p k) = None")
    case True
    then have "bundle_key p k \<notin> bundle_key p ` {k. store_view view s (bundle_key p k) \<noteq> None}"
      by simp
    with laws(2) have "store_view view s (bundle_key p k) = store_view view s' (bundle_key p k)"
      by (rule same_exceptD)
    with True show ?thesis
      by simp
  next
    case False
    then have "k \<in> set dl"
      using laws(5) [OF err] by simp
    then show ?thesis
      by (rule laws(3) [THEN conjunct2])
  qed
  have frame: "store_view view s' ik = store_view view s ik" if "\<forall>k. ik \<noteq> bundle_key p k" for ik
    by (rule same_exceptD [OF laws(2), symmetric]) (use that in auto)
  show ?thesis
    unfolding store_step.simps run
  proof (simp add: err err_reply_def, rule implements_openI [OF wf op laws(1)])
    show "\<forall>ik \<in> dom (store_view view s'). ik \<notin> dom (store_view view s) \<longrightarrow>
        (\<exists>p k. joinItemKey p k = Inr ik)"
      using gone frame by (metis domIff)
    have "store_abs view s' = (\<lambda>(q, k). if q = p then None else store_abs view s (q, k))"
    proof (rule ext, clarify)
      fix q k
      have "bundle_key q k \<noteq> bundle_key p j" if "q \<noteq> p" "validSegment q" for j
        using that seg(2) slash_free_eq [of q p k j] by (simp add: bundle_key_def)
      with gone frame [of "bundle_key q k"]
      show "store_abs view s' (q, k) = (if q = p then None else store_abs view s (q, k))"
        by (auto simp: store_abs_def bundle_key_def)
    qed
    then show "spec_open (st_allowed s) (store_spec view s) (OpDeleteBundle p) =
        (\<lparr>sp_closed = False, sp_map = store_abs view s'\<rparr>, Inr (Names dl))"
      using op by (simp add: seg(1) dl store_spec_def fun_eq_iff)
  qed simp
qed

lemma Store_Close_implements:
  assumes wf: "store_wf good view s" and op: "\<not> st_closed s"
  shows "implements good view s OpClose (store_step ops s OpClose)"
proof -
  have ok: "store_ok good s" using wf by (simp add: store_wf_def)
  then obtain b where b: "st_be s = Some b" "good b" using op by (rule store_okD)
  obtain b' where "be_close ops b = (b', None)"
    using close_exact [OF b(2)] by (metis prod.collapse)
  with b op have "store_step ops s OpClose = (s\<lparr>st_closed := True, st_be := None\<rparr>, Inr Done)"
    by (simp add: Store_Close_def on_backend_def err_reply_def)
  moreover have "store_wf good view (s\<lparr>st_closed := True, st_be := None\<rparr>)"
    using ok by (auto simp: store_wf_def store_ok_def store_view_def split: option.splits)
  moreover have "store_abs view (s\<lparr>st_closed := True, st_be := None\<rparr>) = Map.empty"
    by (auto simp: store_abs_def store_view_def)
  ultimately show ?thesis
    using op by (simp add: implements_def spec_step_def store_spec_def)
qed

text \<open>\<open>SetBundle\<close> on an exact backend: the only failure left is the conflict without overwrite.\<close>

lemma SetBundle_existed_exact:
  "good b \<Longrightarrow> keyed p itemKey ks \<Longrightarrow> \<exists>b' ex'. SetBundle_existed ops b itemKey ks ex = (b', Inr ex')"
proof (induction ks arbitrary: b ex)
  case (Cons k ks)
  have use: "usable view b (bundle_key p k)"
    using Cons.prems(2) by (simp add: keyed_Cons)
  obtain b1 where b1: "be_exists ops b (bundle_key p k) = (b1, Inr (view b (bundle_key p k) \<noteq> None))"
    using exists_exact [OF Cons.prems(1) use] by (metis prod.collapse)
  then have "good b1" using exists_keeps [OF Cons.prems(1) use] by blast
  from Cons.IH [OF this] Cons.prems(2) b1 show ?case
    by (simp add: keyed_Cons)
qed simp

lemma SetBundle_snapshot_exact:
  "good b \<Longrightarrow> keyed p itemKey ks \<Longrightarrow>
     \<forall>k \<in> set ks. ex k = Some (view b (bundle_key p k) \<noteq> None) \<Longrightarrow>
     \<exists>b' snap'. SetBundle_snapshot ops b itemKey ex ks snap = (b', Inr snap')"
proof (induction ks arbitrary: b snap)
  case (Cons k ks)
  show ?case
  proof (cases "view b (bundle_key p k)")
    case None
    with Cons show ?thesis by (simp add: keyed_Cons)
  next
    case (Some v)
    then obtain b1 where b1: "be_get ops b (bundle_key p k) = (b1, Inr v)"
      using get_exact [OF Cons.prems(1) usable_held [of view b "bundle_key p k"]]
      by (metis option.distinct(1) option.simps(5) prod.collapse)
    then have "good b1" "view b1 = view b"
      using get_keeps [OF Cons.prems(1) usable_held [of view b "bundle_key p k"]] Some by simp_all
    with Cons.IH [of b1] Cons.prems b1 Some show ?thesis
      by (simp add: keyed_Cons)
  qed
qed simp

lemma SetBundle_write_exact:
  "good b \<Longrightarrow> keyed p itemKey ks \<Longrightarrow> distinct ks \<Longrightarrow>
     ow \<or> (\<forall>k \<in> set ks. view b (bundle_key p k) = None) \<Longrightarrow>
     \<exists>b'. SetBundle_write ops b itemKey kv ow ks w = (b', w @ ks, None)"
proof (induction ks arbitrary: b w)
  case (Cons k ks)
  have use: "usable view b (bundle_key p k)"
    using Cons.prems(2) by (simp add: keyed_Cons)
  have "snd (be_set ops b (bundle_key p k) (map_get kv k) ow) = None"
    using set_exact [OF Cons.prems(1) use] Cons.prems(4) by auto
  then obtain b1 where b1: "be_set ops b (bundle_key p k) (map_get kv k) ow = (b1, None)"
    by (metis prod.collapse)
  from set_ok [OF Cons.prems(1) use b1]
  have "good b1" "view b1 = (view b)(bundle_key p k \<mapsto> map_get kv k)" by blast+
  moreover from this have "ow \<or> (\<forall>j \<in> set ks. view b1 (bundle_key p j) = None)"
    using Cons.prems(3,4) by auto
  ultimately show ?case
    using Cons.IH [of b1 "w @ [k]"] Cons.prems(2,3) b1 by (simp add: keyed_Cons)
qed simp

lemma SetBundle_body_exact:
  assumes b: "good b" and keyed: "keyed p itemKey keys" and dist: "distinct keys"
    and run: "SetBundle_body ops b p itemKey kv ow keys = (b', res, err)"
  shows "if ow \<or> (\<forall>k \<in> set keys. view b (bundle_key p k) = None) then err = None
    else res = Result_zero \<and> (\<exists>e. err = Some e \<and> errors_Is e ErrExists)"
proof -
  obtain b1 ex where ex: "SetBundle_existed ops b itemKey keys Map.empty = (b1, Inr ex)"
    using SetBundle_existed_exact [OF b keyed] by blast
  from SetBundle_existed_laws [OF this b keyed]
  have b1: "good b1" "view b1 = view b"
    and exk: "\<forall>k \<in> set keys. ex k = Some (view b1 (bundle_key p k) \<noteq> None)" by auto
  have none: "filter (\<lambda>k. ex k = Some True) keys = [] \<longleftrightarrow>
      (\<forall>k \<in> set keys. view b (bundle_key p k) = None)"
    using exk by (auto simp: filter_empty_conv b1(2))
  have commit: "\<exists>b2. SetBundle_commit ops b' p itemKey snap kv ow keys =
      (b2, Result_zero\<lparr>Written := keys\<rparr>, None)"
    if "good b'" "view b' = view b" "ow \<or> (\<forall>k \<in> set keys. view b (bundle_key p k) = None)"
    for b' snap
    using SetBundle_write_exact [OF that(1) keyed dist, of ow kv "[]"] that(2,3)
    by (auto simp: SetBundle_commit_def)
  show ?thesis
  proof (cases ow)
    case True
    obtain b2 snap where sn: "SetBundle_snapshot ops b1 itemKey ex keys Map.empty = (b2, Inr snap)"
      using SetBundle_snapshot_exact [OF b1(1) keyed exk] by blast
    with SetBundle_snapshot_laws [OF sn b1(1) keyed] b1(2) commit [of b2 snap] True ex run show ?thesis
      by (auto simp: SetBundle_body_def)
  next
    case False
    with commit [OF b1, of Map.empty] ex run none show ?thesis
      by (auto simp: SetBundle_body_def SetBundle_conflicts_eq Let_def split: if_splits)
  qed
qed

lemma Store_SetBundle_checked:
  assumes wf: "store_wf good view s" and op: "\<not> st_closed s" and seg: "validSegment p"
    and kv: "kv \<noteq> []" and keys: "SetBundle_keys s p (sort (remdups (map fst kv))) Map.empty = Inr itemKey"
    and run: "Store_SetBundle ops s p kv (opts_of ow) = (s', res, err)"
  shows "if ow \<or> bundle_of (store_abs view s) p \<inter> fst ` set kv = {} then err = None
    else res = Result_zero \<and> (\<exists>e. err = Some e \<and> errors_Is e ErrExists)"
proof -
  have ok: "store_ok good s" using wf by (simp add: store_wf_def)
  then obtain b where b: "st_be s = Some b" "good b" using op by (rule store_okD)
  define ks where "ks = sort (remdups (map fst kv))"
  obtain b' where body: "SetBundle_body ops b p itemKey (map_of kv) ow ks = (b', res, err)"
    using run op kv keys b(1) seg
    by (auto simp: Store_SetBundle_def validateProfile_iff [THEN iffD2] on_backend_def ks_def
        split: prod.splits)
  have "keyed p itemKey ks" "distinct ks"
    using SetBundle_keys_Inr [OF keys] by (simp_all add: ks_def)
  note SetBundle_body_exact [OF b(2) this body]
  moreover have "(\<forall>k \<in> set ks. view b (bundle_key p k) = None) \<longleftrightarrow>
      bundle_of (store_abs view s) p \<inter> fst ` set kv = {}"
    unfolding store_wf_bundle [OF wf seg, symmetric] by (auto simp: ks_def store_view_open [OF b(1)])
  ultimately show ?thesis by simp
qed

lemma Store_SetBundle_put:
  assumes wf: "store_wf good view s" and seg: "validSegment p"
    and keys: "\<forall>k \<in> fst ` set kv. validSegment k"
    and out: "SetBundle_outcome p (map_of kv) ow (sort (remdups (map fst kv)))
      (store_view view s) (store_view view s') res None"
  shows "store_abs view s' = put_bundle (store_abs view s) p (map_of kv)"
    "\<forall>ik \<in> dom (store_view view s'). ik \<notin> dom (store_view view s) \<longrightarrow>
       (\<exists>p k. joinItemKey p k = Inr ik)"
proof -
  have same: "same_except (bundle_key p ` fst ` set kv) (store_view view s) (store_view view s')"
    and val: "\<And>k. k \<in> fst ` set kv \<Longrightarrow>
      store_view view s' (bundle_key p k) = Some (map_get (map_of kv) k)"
    using out by (auto simp: SetBundle_outcome_def)
  have dom: "map_of kv k \<noteq> None \<longleftrightarrow> k \<in> fst ` set kv" for k
    by (simp add: map_of_eq_None_iff)
  show "store_abs view s' = put_bundle (store_abs view s) p (map_of kv)"
  proof (rule ext, clarify)
    fix q k
    show "store_abs view s' (q, k) = put_bundle (store_abs view s) p (map_of kv) (q, k)"
    proof (cases "q = p \<and> k \<in> fst ` set kv")
      case True
      then obtain v where "map_of kv k = Some v" using dom by blast
      moreover have "validSegment k" using True keys by blast
      ultimately show ?thesis
        using True val [of k] seg by (simp add: put_bundle_def store_abs_bundle)
    next
      case False
      have "bundle_key q k \<notin> bundle_key p ` fst ` set kv" if "validSegment q"
        using False that seg slash_free_eq [of q p k] by (auto simp: bundle_key_def image_iff)
      with same False dom [of k] show ?thesis
        by (auto simp: put_bundle_def store_abs_def bundle_key_def same_except_def)
    qed
  qed
  show "\<forall>ik \<in> dom (store_view view s'). ik \<notin> dom (store_view view s) \<longrightarrow>
      (\<exists>p k. joinItemKey p k = Inr ik)"
  proof (intro ballI impI)
    fix ik
    assume "ik \<in> dom (store_view view s')" "ik \<notin> dom (store_view view s)"
    then have "ik \<in> bundle_key p ` fst ` set kv"
      using same by (metis domIff same_exceptD)
    with keys seg show "\<exists>p k. joinItemKey p k = Inr ik"
      by (auto simp: joinItemKey_Inr bundle_key_def)
  qed
qed

lemma Store_SetBundle_implements:
  assumes wf: "store_wf good view s" and op: "\<not> st_closed s"
  shows "implements good view s (OpSetBundle p kv ow) (store_step ops s (OpSetBundle p kv ow))"
proof (cases "validateProfile p")
  case (Some e)
  then obtain t where "spec_segment p = Some t" "errors_Is e t"
    using validateProfile_spec [of p] by auto
  with Some op implements_refuseI [OF wf op] show ?thesis
    by (simp add: Store_SetBundle_def err_reply_def)
next
  case None
  then have seg: "spec_segment p = None" "validSegment p"
    using validateProfile_spec [of p] validateProfile_iff [of p] by simp_all
  have ok: "store_ok good s" using wf by (simp add: store_wf_def)
  define ks where "ks = sort (remdups (map fst kv))"
  have ks: "ks = sorted_list_of_set (fst ` set kv)"
    by (intro sorted_distinct_listI) (simp_all add: ks_def)
  show ?thesis
  proof (cases "SetBundle_keys s p ks Map.empty")
    case (Inl e)
    then obtain t where t: "spec_write_keys (st_allowed s) p ks = Some t" "errors_Is e t"
      using SetBundle_keys_spec [of s p ks Map.empty] by auto
    have "kv \<noteq> []" using Inl by (auto simp: ks_def)
    with Inl None op have "store_step ops s (OpSetBundle p kv ow) = (s, Inl e)"
      by (simp add: Store_SetBundle_def err_reply_def ks_def)
    with t implements_refuseI [OF wf op] show ?thesis
      by (simp add: seg(1) flip: ks)
  next
    case (Inr itemKey)
    then have spec: "spec_write_keys (st_allowed s) p ks = None"
      using SetBundle_keys_spec [of s p ks Map.empty] by simp
    obtain s' res err where run: "Store_SetBundle ops s p kv (opts_of ow) = (s', res, err)"
      by (cases "Store_SetBundle ops s p kv (opts_of ow)") auto
    note laws = Store_SetBundle_laws [OF ok run, unfolded so_overwrite_opts_of]
    let ?free = "ow \<or> bundle_of (store_abs view s) p \<inter> fst ` set kv = {}"
    have kind: "if ?free then err = None
        else res = Result_zero \<and> (\<exists>e. err = Some e \<and> errors_Is e ErrExists)"
    proof (cases "kv = []")
      case True
      with run None op show ?thesis by (simp add: Store_SetBundle_def)
    next
      case False
      from Store_SetBundle_checked [OF wf op seg(2) this Inr [unfolded ks_def] run]
      show ?thesis .
    qed
    show ?thesis
    proof (cases ?free)
      case True
      with kind have err: "err = None" by simp
      have res: "Written res = ks"
        using laws(2) by (simp add: err SetBundle_outcome_def ks_def)
      have "\<forall>k \<in> fst ` set kv. validSegment k"
        using SetBundle_keys_Inr [OF Inr] by (auto simp: ks_def)
      note put = Store_SetBundle_put [OF wf seg(2) this laws(2) [unfolded err]]
      show ?thesis
        unfolding store_step.simps run
      proof (simp add: err err_reply_def, rule implements_openI [OF wf op laws(1) put(2)])
        show "spec_open (st_allowed s) (store_spec view s) (OpSetBundle p kv ow) =
            (\<lparr>sp_closed = False, sp_map = store_abs view s'\<rparr>, Inr (Names (Written res)))"
          using True op by (simp add: seg(1) spec res put(1) store_spec_def flip: ks)
      qed simp
    next
      case False
      with kind obtain e where e: "err = Some e" "errors_Is e ErrExists" "res = Result_zero" by auto
      have "store_view view s' = store_view view s"
        using laws(2) by (simp add: e SetBundle_outcome_def Result_zero_def)
      then show ?thesis
        unfolding store_step.simps run
      proof (simp add: e(1) err_reply_def, rule implements_readI [OF wf op laws(1)])
        show "spec_open (st_allowed s) (store_spec view s) (OpSetBundle p kv ow) =
            (store_spec view s, Inl ErrExists)"
          using False by (simp add: seg(1) spec flip: ks)
      qed (simp add: e(2))
    qed
  qed
qed

text \<open>The refinement: one step, then any sequence of steps.\<close>

lemma store_step_implements:
  assumes wf: "store_wf good view s"
  shows "implements good view s x (store_step ops s x)"
proof (cases "st_closed s")
  case True
  with wf show ?thesis by (rule implements_closed)
next
  case False
  then show ?thesis
    by (cases x) (simp_all only: wf not_False_eq_True Store_Get_implements Store_Set_implements
      Store_Delete_implements Store_Exists_implements Store_ListBundle_implements
      Store_ListProfiles_implements Store_DeleteBundle_implements Store_SetBundle_implements
      Store_Close_implements)
qed

lemma store_run_implements:
  assumes "store_wf good view s"
  shows "case store_run ops s xs of
    (s', rs) \<Rightarrow> store_wf good view s' \<and> st_allowed s' = st_allowed s \<and>
      (case spec_run (st_allowed s) (store_spec view s) xs of
         (sp, rs') \<Rightarrow> sp = store_spec view s' \<and> list_all2 reply_matches rs rs')"
  using assms
proof (induction xs arbitrary: s)
  case (Cons x xs)
  obtain s1 r where step: "store_step ops s x = (s1, r)" by (cases "store_step ops s x")
  from store_step_implements [OF Cons.prems, of x] obtain r' where
    "store_wf good view s1" "st_allowed s1 = st_allowed s"
    "spec_step (st_allowed s) (store_spec view s) x = (store_spec view s1, r')" "reply_matches r r'"
    by (auto simp: step implements_def)
  with Cons.IH [of s1] step show ?case
    by (auto split: prod.splits)
qed simp

text \<open>The refinement of a run, and no reply is a panic.\<close>

lemma store_run_refines:
  assumes "store_wf good view s" "store_run ops s xs = (s', rs)"
  shows "\<exists>rs'. spec_run (st_allowed s) (store_spec view s) xs = (store_spec view s', rs') \<and>
    list_all2 reply_matches rs rs' \<and> Inl NilDereference \<notin> set rs"
proof -
  from store_run_implements [OF assms(1), of xs] obtain rs' where
    "spec_run (st_allowed s) (store_spec view s) xs = (store_spec view s', rs')" "list_all2 reply_matches rs rs'"
    unfolding assms(2) by (auto split: prod.splits)
  moreover have "\<not> reply_matches (Inl NilDereference) y" for y
    by (cases y) simp_all
  ultimately show ?thesis by (metis list_all2_conv_all_nth in_set_conv_nth)
qed

end

end
