(* ===== verification/Lockstep.thy ===== *)
theory Lockstep
  imports StoreSpec
begin

text \<open>
  The operations of \<open>Store\<close> and \<open>Bundle\<close> do not depend on what the state of a backend is, only on the answers
  to the calls they make. Here that is a theorem: a property that every call of a backend keeps is kept by
  every operation (\<open>backend_kept\<close>), and two backends whose calls answer alike take every operation through the
  same calls, up to the first call on which they part (\<open>backend_pair\<close>).
\<close>

section \<open>Calls and their answers\<close>

datatype call =
    CallGet string
  | CallSet string string bool
  | CallDelete string
  | CallExists string
  | CallList
  | CallClose

datatype answer =
    Text "string result"
  | Outcome "err option"
  | Flag "bool result"
  | Listing "string list result"

primrec perform :: "'b backend \<Rightarrow> call \<Rightarrow> 'b \<Rightarrow> 'b \<times> answer" where
  "perform ops (CallGet k) b = map_prod id Text (be_get ops b k)"
| "perform ops (CallSet k v ow) b = map_prod id Outcome (be_set ops b k v ow)"
| "perform ops (CallDelete k) b = map_prod id Outcome (be_delete ops b k)"
| "perform ops (CallExists k) b = map_prod id Flag (be_exists ops b k)"
| "perform ops CallList b = map_prod id Listing (be_listKeys ops b)"
| "perform ops CallClose b = map_prod id Outcome (be_close ops b)"

section \<open>What every call keeps\<close>

locale backend_kept =
  fixes kops :: "'b backend"
    and P :: "'b \<Rightarrow> bool"
  assumes kept: "P b \<Longrightarrow> P (fst (perform kops c b))"
begin

lemma calls_kept:
  assumes "P b"
  shows "P (fst (be_get kops b k))" "P (fst (be_set kops b k v ow))" "P (fst (be_delete kops b k))"
    "P (fst (be_exists kops b k))" "P (fst (be_listKeys kops b))" "P (fst (be_close kops b))"
  using kept [OF assms, of "CallGet k"] kept [OF assms, of "CallSet k v ow"] kept [OF assms, of "CallDelete k"]
    kept [OF assms, of "CallExists k"] kept [OF assms, of CallList] kept [OF assms, of CallClose]
  by simp_all

lemma DeleteBundle_loop_kept: "P b \<Longrightarrow> P (fst (DeleteBundle_loop kops b pre ks deleted failed))"
proof (induction ks arbitrary: b deleted failed)
  case (Cons k ks)
  from calls_kept(3) [OF Cons.prems, of "pre @ k"] Cons.IH show ?case
    by (auto split: prod.split option.split)
qed simp

lemma SetBundle_existed_kept: "P b \<Longrightarrow> P (fst (SetBundle_existed kops b itemKey ks existed))"
proof (induction ks arbitrary: b existed)
  case (Cons k ks)
  from calls_kept(4) [OF Cons.prems, of "map_get itemKey k"] Cons.IH show ?case
    by (auto split: prod.split sum.split)
qed simp

lemma SetBundle_snapshot_kept: "P b \<Longrightarrow> P (fst (SetBundle_snapshot kops b itemKey existed ks snap))"
proof (induction ks arbitrary: b snap)
  case (Cons k ks)
  from calls_kept(1) [OF Cons.prems, of "map_get itemKey k"] Cons.IH Cons.prems show ?case
    by (auto split: prod.split sum.split)
qed simp

lemma SetBundle_write_kept: "P b \<Longrightarrow> P (fst (SetBundle_write kops b itemKey kv ow ks written))"
proof (induction ks arbitrary: b written)
  case (Cons k ks)
  from calls_kept(2) [OF Cons.prems, of "map_get itemKey k" "map_get kv k" ow] Cons.IH show ?case
    by (auto split: prod.split option.split)
qed simp

lemma SetBundle_undo_kept: "P b \<Longrightarrow> P (fst (SetBundle_undo kops b itemKey snap k))"
  using calls_kept(2) [of b "map_get itemKey k" "the (snap k)" True] calls_kept(3) [of b "map_get itemKey k"]
  by (auto simp: SetBundle_undo_def split: prod.split option.split)

lemma SetBundle_rollback_kept: "P b \<Longrightarrow> P (fst (SetBundle_rollback kops b itemKey snap ks res gone failed))"
proof (induction ks arbitrary: b res gone failed)
  case (Cons k ks)
  from SetBundle_undo_kept [OF Cons.prems, of itemKey snap k] Cons.IH show ?case
    by (auto split: prod.split undone.split)
qed simp

lemma SetBundle_fail_kept: "P b \<Longrightarrow> P (fst (SetBundle_fail kops b p itemKey snap ow keys written failedKey e))"
  unfolding SetBundle_fail_def Let_def
  by (simp add: case_prod_beta SetBundle_rollback_kept)

lemma SetBundle_commit_kept: "P b \<Longrightarrow> P (fst (SetBundle_commit kops b p itemKey snap kv ow keys))"
  using SetBundle_write_kept [of b itemKey kv ow keys "[]"] SetBundle_fail_kept
  unfolding SetBundle_commit_def by (auto split: prod.split option.split)

lemma SetBundle_body_kept: "P b \<Longrightarrow> P (fst (SetBundle_body kops b p itemKey kv ow keys))"
proof -
  assume b: "P b"
  obtain b1 r where e: "SetBundle_existed kops b itemKey keys Map.empty = (b1, r)"
    by (cases "SetBundle_existed kops b itemKey keys Map.empty")
  have b1: "P b1" using SetBundle_existed_kept [OF b, of itemKey keys Map.empty] e by simp
  show ?thesis
  proof (cases r)
    case (Inr existed)
    obtain b2 r2 where s: "SetBundle_snapshot kops b1 itemKey existed keys Map.empty = (b2, r2)"
      by (cases "SetBundle_snapshot kops b1 itemKey existed keys Map.empty")
    have "P b2" using SetBundle_snapshot_kept [OF b1, of itemKey existed keys Map.empty] s by simp
    with e b1 Inr s SetBundle_commit_kept show ?thesis by (simp add: SetBundle_body_def Let_def split: sum.split)
  qed (use e b1 in \<open>simp add: SetBundle_body_def\<close>)
qed

end

section \<open>Two backends side by side\<close>

text \<open>
  In sync, an operation has got the same answers from both; apart, they have parted, in one of the ways \<open>'i\<close>,
  and stay so whatever is called.
\<close>

locale backend_pair =
  fixes lops :: "'b backend" and rops :: "'c backend"
    and insync :: "'b \<Rightarrow> 'c \<Rightarrow> bool"
    and lapart :: "'i \<Rightarrow> 'b \<Rightarrow> bool" and rapart :: "'i \<Rightarrow> 'c \<Rightarrow> bool"
  assumes lstay: "lapart i b \<Longrightarrow> lapart i (fst (perform lops c b))"
    and rstay: "rapart i d \<Longrightarrow> rapart i (fst (perform rops c d))"
    and sync: "insync b d \<Longrightarrow>
      (case perform lops c b of (b', x) \<Rightarrow> case perform rops c d of (d', y) \<Rightarrow>
         insync b' d' \<and> x = y \<or> (\<exists>i. lapart i b' \<and> rapart i d'))"

sublocale backend_pair \<subseteq> left: backend_kept lops "lapart i" for i
  by unfold_locales (rule lstay)

sublocale backend_pair \<subseteq> right: backend_kept rops "rapart i" for i
  by unfold_locales (rule rstay)

context backend_pair
begin

definition paired :: "'b \<times> 'r \<Rightarrow> 'c \<times> 'r \<Rightarrow> bool" where
  "paired out1 out2 \<longleftrightarrow>
     insync (fst out1) (fst out2) \<and> snd out1 = snd out2 \<or> (\<exists>i. lapart i (fst out1) \<and> rapart i (fst out2))"

lemma paired_sync [simp]: "insync b d \<Longrightarrow> paired (b, r) (d, r)"
  by (simp add: paired_def)

lemma paired_calls:
  assumes "insync b d"
  shows "paired (be_get lops b k) (be_get rops d k)" "paired (be_set lops b k v ow) (be_set rops d k v ow)"
    "paired (be_delete lops b k) (be_delete rops d k)" "paired (be_exists lops b k) (be_exists rops d k)"
    "paired (be_listKeys lops b) (be_listKeys rops d)"
  using sync [OF assms, of "CallGet k"] sync [OF assms, of "CallSet k v ow"] sync [OF assms, of "CallDelete k"]
    sync [OF assms, of "CallExists k"] sync [OF assms, of CallList]
  by (auto simp: paired_def case_prod_beta)

text \<open>One outcome after another: what follows is asked of both only where they are in sync.\<close>

lemma paired_bind:
  assumes "paired out1 out2" "\<And>b d r. insync b d \<Longrightarrow> paired (f b r) (g d r)"
    and "\<And>i b r. lapart i b \<Longrightarrow> lapart i (fst (f b r))" "\<And>i d r. rapart i d \<Longrightarrow> rapart i (fst (g d r))"
  shows "paired (case out1 of (b, r) \<Rightarrow> f b r) (case out2 of (d, r) \<Rightarrow> g d r)"
  using assms by (cases out1; cases out2) (fastforce simp: paired_def)

lemma DeleteBundle_loop_paired:
  "insync b d \<Longrightarrow> paired (DeleteBundle_loop lops b pre ks deleted failed) (DeleteBundle_loop rops d pre ks deleted failed)"
proof (induction ks arbitrary: b d deleted failed)
  case (Cons k ks)
  show ?case
    unfolding DeleteBundle_loop.simps
    by (rule paired_bind [OF paired_calls(3) [OF Cons.prems]])
      (auto split: option.split intro: Cons.IH left.DeleteBundle_loop_kept right.DeleteBundle_loop_kept)
qed simp

lemma SetBundle_existed_paired:
  "insync b d \<Longrightarrow> paired (SetBundle_existed lops b itemKey ks existed) (SetBundle_existed rops d itemKey ks existed)"
proof (induction ks arbitrary: b d existed)
  case (Cons k ks)
  show ?case
    unfolding SetBundle_existed.simps
    by (rule paired_bind [OF paired_calls(4) [OF Cons.prems]])
      (auto split: sum.split intro: Cons.IH left.SetBundle_existed_kept right.SetBundle_existed_kept)
qed simp

lemma SetBundle_snapshot_paired:
  "insync b d \<Longrightarrow> paired (SetBundle_snapshot lops b itemKey existed ks snap) (SetBundle_snapshot rops d itemKey existed ks snap)"
proof (induction ks arbitrary: b d snap)
  case (Cons k ks)
  have "paired
      (case be_get lops b (map_get itemKey k) of (b', r) \<Rightarrow> (case r of Inl e \<Rightarrow> (b', Inl e)
        | Inr v \<Rightarrow> SetBundle_snapshot lops b' itemKey existed ks (snap(k \<mapsto> v))))
      (case be_get rops d (map_get itemKey k) of (d', r) \<Rightarrow> (case r of Inl e \<Rightarrow> (d', Inl e)
        | Inr v \<Rightarrow> SetBundle_snapshot rops d' itemKey existed ks (snap(k \<mapsto> v))))"
    by (rule paired_bind [OF paired_calls(1) [OF Cons.prems]])
      (auto split: sum.split intro: Cons.IH left.SetBundle_snapshot_kept right.SetBundle_snapshot_kept)
  then show ?case using Cons.IH [OF Cons.prems] by simp
qed simp

lemma SetBundle_write_paired:
  "insync b d \<Longrightarrow> paired (SetBundle_write lops b itemKey kv ow ks written) (SetBundle_write rops d itemKey kv ow ks written)"
proof (induction ks arbitrary: b d written)
  case (Cons k ks)
  show ?case
    unfolding SetBundle_write.simps
    by (rule paired_bind [OF paired_calls(2) [OF Cons.prems]])
      (auto split: option.split intro: Cons.IH left.SetBundle_write_kept right.SetBundle_write_kept)
qed simp

lemma SetBundle_undo_paired:
  "insync b d \<Longrightarrow> paired (SetBundle_undo lops b itemKey snap k) (SetBundle_undo rops d itemKey snap k)"
  unfolding SetBundle_undo_def
  by (auto split: option.split intro!: paired_bind paired_calls)

lemma SetBundle_rollback_paired:
  "insync b d \<Longrightarrow> paired (SetBundle_rollback lops b itemKey snap ks res gone failed)
     (SetBundle_rollback rops d itemKey snap ks res gone failed)"
proof (induction ks arbitrary: b d res gone failed)
  case (Cons k ks)
  show ?case
    unfolding SetBundle_rollback.simps
    by (rule paired_bind [OF SetBundle_undo_paired [OF Cons.prems]])
      (auto split: undone.split intro: Cons.IH left.SetBundle_rollback_kept right.SetBundle_rollback_kept)
qed simp

lemma SetBundle_fail_paired:
  "insync b d \<Longrightarrow> paired (SetBundle_fail lops b p itemKey snap ow keys written failedKey e)
     (SetBundle_fail rops d p itemKey snap ow keys written failedKey e)"
  unfolding SetBundle_fail_def Let_def
  by (rule paired_bind [OF SetBundle_rollback_paired]) (auto simp: case_prod_beta)

lemma SetBundle_commit_paired:
  "insync b d \<Longrightarrow> paired (SetBundle_commit lops b p itemKey snap kv ow keys) (SetBundle_commit rops d p itemKey snap kv ow keys)"
  unfolding SetBundle_commit_def
  by (rule paired_bind [OF SetBundle_write_paired])
    (auto split: option.split prod.split intro: SetBundle_fail_paired left.SetBundle_fail_kept right.SetBundle_fail_kept)

lemma SetBundle_body_paired:
  "insync b d \<Longrightarrow> paired (SetBundle_body lops b p itemKey kv ow keys) (SetBundle_body rops d p itemKey kv ow keys)"
proof -
  have snapshot: "paired
      (case SetBundle_snapshot lops b itemKey existed keys Map.empty of (b2, r) \<Rightarrow>
        (case r of Inl e \<Rightarrow> (b2, Result_zero, Some e) | Inr snap \<Rightarrow> SetBundle_commit lops b2 p itemKey snap kv ow keys))
      (case SetBundle_snapshot rops d itemKey existed keys Map.empty of (d2, r) \<Rightarrow>
        (case r of Inl e \<Rightarrow> (d2, Result_zero, Some e) | Inr snap \<Rightarrow> SetBundle_commit rops d2 p itemKey snap kv ow keys))"
    if "insync b d" for b d existed ow
    by (rule paired_bind [OF SetBundle_snapshot_paired [OF that]])
      (auto split: sum.split intro: SetBundle_commit_paired left.SetBundle_commit_kept right.SetBundle_commit_kept)
  have lsnapshot: "lapart i (fst (case SetBundle_snapshot lops b itemKey existed keys Map.empty of (b2, r) \<Rightarrow>
        (case r of Inl e \<Rightarrow> (b2, Result_zero, Some e) | Inr snap \<Rightarrow> SetBundle_commit lops b2 p itemKey snap kv ow keys)))"
    if "lapart i b" for i b existed ow
    using left.SetBundle_snapshot_kept [OF that, of itemKey existed keys Map.empty]
    by (auto simp: case_prod_beta split: sum.split intro: left.SetBundle_commit_kept)
  have rsnapshot: "rapart i (fst (case SetBundle_snapshot rops d itemKey existed keys Map.empty of (d2, r) \<Rightarrow>
        (case r of Inl e \<Rightarrow> (d2, Result_zero, Some e) | Inr snap \<Rightarrow> SetBundle_commit rops d2 p itemKey snap kv ow keys)))"
    if "rapart i d" for i d existed ow
    using right.SetBundle_snapshot_kept [OF that, of itemKey existed keys Map.empty]
    by (auto simp: case_prod_beta split: sum.split intro: right.SetBundle_commit_kept)
  assume "insync b d"
  from SetBundle_existed_paired [OF this] show ?thesis
    unfolding SetBundle_body_def Let_def
    by (rule paired_bind)
      (auto split: sum.split intro: snapshot lsnapshot rsnapshot SetBundle_commit_paired
        left.SetBundle_commit_kept right.SetBundle_commit_kept)
qed

end

section \<open>The store over the two\<close>

text \<open>A store over another backend: the same, but for the state of the backend.\<close>

definition with_be :: "'b Store \<Rightarrow> 'c option \<Rightarrow> 'c Store" where
  "with_be s b =
     \<lparr>st_service = st_service s, st_src = st_src s, st_kind = st_kind s, st_allowed = st_allowed s,
      st_allowedList = st_allowedList s, st_closed = st_closed s, st_be = b\<rparr>"

lemma with_be_simps [simp]:
  "st_service (with_be s b) = st_service s" "st_src (with_be s b) = st_src s" "st_kind (with_be s b) = st_kind s"
  "st_allowed (with_be s b) = st_allowed s" "st_allowedList (with_be s b) = st_allowedList s"
  "st_closed (with_be s b) = st_closed s" "st_be (with_be s b) = b"
  "with_be (with_be s b) d = with_be s d" "(with_be s b)\<lparr>st_be := d\<rparr> = with_be s d"
  "with_be (s\<lparr>st_be := e\<rparr>) d = with_be s d"
  by (simp_all add: with_be_def)

lemma with_be_same: "with_be s b = s\<lparr>st_be := b\<rparr>"
  by (simp add: with_be_def)

lemma with_be_inj [simp]: "with_be s b = with_be s d \<longleftrightarrow> b = d"
  by (auto dest: arg_cong [where f = st_be])

lemma checkAllowed_with_be [simp]: "checkAllowed (with_be s b) k = checkAllowed s k"
  by (simp add: checkAllowed_def split: option.split)

lemma SetBundle_keys_with_be [simp]: "SetBundle_keys (with_be s b) p ks m = SetBundle_keys s p ks m"
  by (induction ks arbitrary: m) (simp_all split: sum.split option.split)

lemma on_backend_with_be [simp]:
  "on_backend (with_be s (Some b)) panic f = map_prod (\<lambda>b'. with_be s (Some b')) id (f b)"
  "on_backend (with_be s None) panic f = (with_be s None, panic)"
  by (simp_all add: on_backend_def map_prod_def case_prod_beta)

text \<open>An operation other than \<open>Close\<close> takes one store to that store with another state of the backend.\<close>

context backend_pair
begin

definition store_paired :: "'s Store \<Rightarrow> 'b Store \<times> 'r \<Rightarrow> 'c Store \<times> 'r \<Rightarrow> bool" where
  "store_paired s out1 out2 \<longleftrightarrow> (\<exists>b r1 d r2. out1 = (with_be s (Some b), r1) \<and> out2 = (with_be s (Some d), r2) \<and>
     paired (b, r1) (d, r2))"

definition lstore :: "'s Store \<Rightarrow> 'i \<Rightarrow> 'b Store \<times> 'r \<Rightarrow> bool" where
  "lstore s i out \<longleftrightarrow> (\<exists>b r. out = (with_be s (Some b), r) \<and> lapart i b)"

definition rstore :: "'s Store \<Rightarrow> 'i \<Rightarrow> 'c Store \<times> 'r \<Rightarrow> bool" where
  "rstore s i out \<longleftrightarrow> (\<exists>d r. out = (with_be s (Some d), r) \<and> rapart i d)"

lemma apart_stores [simp]:
  "lstore s i (with_be s (Some b), r) \<longleftrightarrow> lapart i b" "rstore s i (with_be s (Some d), r) \<longleftrightarrow> rapart i d"
  by (auto simp: lstore_def rstore_def)

lemma store_paired_refuse: "insync b d \<Longrightarrow> store_paired s (with_be s (Some b), r) (with_be s (Some d), r)"
  by (auto simp: store_paired_def)

lemma store_paired_call:
  "paired out1 out2 \<Longrightarrow> store_paired s (map_prod (\<lambda>b'. with_be s (Some b')) id out1) (map_prod (\<lambda>d'. with_be s (Some d')) id out2)"
  unfolding store_paired_def by (cases out1; cases out2) auto

lemma store_paired_reply:
  "store_paired s out1 out2 \<Longrightarrow> store_paired s (map_prod id h out1) (map_prod id h out2)"
  unfolding store_paired_def by (auto simp: paired_def)

lemma store_paired_bind:
  assumes "store_paired s out1 out2"
    and "\<And>b d r. insync b d \<Longrightarrow> store_paired s (f (with_be s (Some b)) r) (g (with_be s (Some d)) r)"
    and "\<And>i b r. lapart i b \<Longrightarrow> lstore s i (f (with_be s (Some b)) r)"
    and "\<And>i d r. rapart i d \<Longrightarrow> rstore s i (g (with_be s (Some d)) r)"
  shows "store_paired s (case out1 of (s', r) \<Rightarrow> f s' r) (case out2 of (s', r) \<Rightarrow> g s' r)"
proof -
  obtain b r1 d r2 where out: "out1 = (with_be s (Some b), r1)" "out2 = (with_be s (Some d), r2)"
    and "paired (b, r1) (d, r2)"
    using assms(1) unfolding store_paired_def by blast
  then consider "insync b d" "r1 = r2" | i where "lapart i b" "rapart i d" by (auto simp: paired_def)
  then show ?thesis
  proof cases
    case 1
    then show ?thesis using assms(2) out by simp
  next
    case 2
    from assms(3) [OF 2(1), of r1] assms(4) [OF 2(2), of r2] show ?thesis
      unfolding out by (auto simp: store_paired_def paired_def lstore_def rstore_def)
  qed
qed

lemma list_paired:
  "insync b d \<Longrightarrow> store_paired s (on_backend (with_be s (Some b)) panic (be_listKeys lops))
     (on_backend (with_be s (Some d)) panic (be_listKeys rops))"
  by (simp add: store_paired_call paired_calls)

lemma bundleBareKeys_paired:
  "insync b d \<Longrightarrow> store_paired s (bundleBareKeys lops (with_be s (Some b)) p) (bundleBareKeys rops (with_be s (Some d)) p)"
  unfolding bundleBareKeys_def
  by (rule store_paired_bind [OF list_paired]) (auto split: sum.split intro: store_paired_refuse)

lemma DeleteBundle_paired:
  assumes "insync b d"
  shows "store_paired s (Store_DeleteBundle lops (with_be s (Some b)) p) (Store_DeleteBundle rops (with_be s (Some d)) p)"
proof -
  have loop: "store_paired s
      (case on_backend (with_be s (Some b)) ([], ks) (\<lambda>b. DeleteBundle_loop lops b pre ks [] []) of
         (s2, deleted, failed) \<Rightarrow> if failed \<noteq> [] then (s2, deleted, g failed) else (s2, deleted, None))
      (case on_backend (with_be s (Some d)) ([], ks) (\<lambda>d. DeleteBundle_loop rops d pre ks [] []) of
         (s2, deleted, failed) \<Rightarrow> if failed \<noteq> [] then (s2, deleted, g failed) else (s2, deleted, None))"
    if "insync b d" for b d ks pre and g :: "string list \<Rightarrow> err option"
    by (rule store_paired_bind)
      (auto simp: that intro!: store_paired_call DeleteBundle_loop_paired store_paired_refuse)
  have lloop: "lstore s i (case on_backend (with_be s (Some b)) ([], ks) (\<lambda>b. DeleteBundle_loop lops b pre ks [] []) of
         (s2, deleted, failed) \<Rightarrow> if failed \<noteq> [] then (s2, deleted, g failed) else (s2, deleted, None))"
    if "lapart i b" for i b ks pre and g :: "string list \<Rightarrow> err option"
    using left.DeleteBundle_loop_kept [OF that, of pre ks "[]" "[]"] by (auto simp: case_prod_beta)
  have rloop: "rstore s i (case on_backend (with_be s (Some d)) ([], ks) (\<lambda>d. DeleteBundle_loop rops d pre ks [] []) of
         (s2, deleted, failed) \<Rightarrow> if failed \<noteq> [] then (s2, deleted, g failed) else (s2, deleted, None))"
    if "rapart i d" for i d ks pre and g :: "string list \<Rightarrow> err option"
    using right.DeleteBundle_loop_kept [OF that, of pre ks "[]" "[]"] by (auto simp: case_prod_beta)
  show ?thesis
    unfolding Store_DeleteBundle_def with_be_simps
    by (auto simp: assms simp del: on_backend_with_be split: option.split sum.split
        intro!: store_paired_bind [OF bundleBareKeys_paired [OF assms]] store_paired_refuse loop lloop rloop)
qed

lemma step_paired:
  assumes "insync b d" "x \<noteq> OpClose"
  shows "store_paired s (store_step lops (with_be s (Some b)) x) (store_step rops (with_be s (Some d)) x)"
  using assms(2)
proof (cases x)
  case (OpDeleteBundle p)
  then show ?thesis by (simp add: store_paired_reply DeleteBundle_paired assms(1))
next
  case OpListProfiles
  have "store_paired s (Store_ListProfiles lops (with_be s (Some b))) (Store_ListProfiles rops (with_be s (Some d)))"
    unfolding Store_ListProfiles_def with_be_simps
    by (auto simp: assms simp del: on_backend_with_be split: sum.split
        intro!: store_paired_bind [OF list_paired [OF assms(1)]] store_paired_refuse)
  with OpListProfiles show ?thesis by (simp add: store_paired_reply)
next
  case (OpListBundle p)
  have "store_paired s (Store_ListBundle lops (with_be s (Some b)) p) (Store_ListBundle rops (with_be s (Some d)) p)"
    unfolding Store_ListBundle_def with_be_simps
    by (auto simp: assms intro: store_paired_refuse bundleBareKeys_paired split: option.split)
  with OpListBundle show ?thesis by (simp add: store_paired_reply)
next
  case (OpSetBundle p kv ow)
  have "store_paired s (Store_SetBundle lops (with_be s (Some b)) p kv opts) (Store_SetBundle rops (with_be s (Some d)) p kv opts)" for opts
    unfolding Store_SetBundle_def with_be_simps Let_def
    by (auto simp: assms intro!: store_paired_refuse store_paired_call [OF SetBundle_body_paired [OF assms(1)]]
        split: option.split sum.split)
  with OpSetBundle show ?thesis by (simp add: store_paired_reply)
qed (use assms(1) in \<open>auto simp: Store_Get_def Store_Set_def Store_Delete_def Store_Exists_def
    intro!: store_paired_reply store_paired_refuse store_paired_call paired_calls split: sum.split option.split\<close>)

lemma step_cases:
  assumes "insync b d" "x \<noteq> OpClose"
  obtains b' r1 d' r2 where "store_step lops (with_be s (Some b)) x = (with_be s (Some b'), r1)"
    "store_step rops (with_be s (Some d)) x = (with_be s (Some d'), r2)"
    "insync b' d' \<and> r1 = r2 \<or> (\<exists>i. lapart i b' \<and> rapart i d')"
proof -
  obtain b' r1 d' r2 where "store_step lops (with_be s (Some b)) x = (with_be s (Some b'), r1)"
    "store_step rops (with_be s (Some d)) x = (with_be s (Some d'), r2)" "paired (b', r1) (d', r2)"
    using step_paired [OF assms, of s] unfolding store_paired_def by blast
  then show thesis by (intro that) (simp_all add: paired_def)
qed

end

text \<open>A store whose backend is the nil interface calls nothing.\<close>

lemma step_nil:
  assumes "st_be s = None"
  shows "store_step lops s x = (s, snd (store_step lops s x))"
    "store_step kops (with_be s None) x = (with_be s None, snd (store_step lops s x))"
  using assms
  by (cases x;
    auto simp: Store_Get_def Store_Set_def Store_Delete_def Store_Exists_def Store_ListBundle_def Store_ListProfiles_def
      Store_DeleteBundle_def Store_SetBundle_def Store_Close_def bundleBareKeys_def on_backend_def Let_def
      split: option.split sum.split)+

end
