(* ===== verification/Replay.thy ===== *)
theory Replay
  imports Lockstep
begin

text \<open>
  A method of \<open>Store\<close> taken apart into the calls it makes of its backend. \<open>logged_ops\<close> records each call with
  its answer; \<open>replay_ops\<close> gives back answers from a list and, when they run out, holds the call that is
  pending. So the next call of a method, after the answers it has had, is what it does on the second.
\<close>

section \<open>Recording the calls\<close>

type_synonym script = "(call \<times> answer) list"

definition logged :: "('b \<Rightarrow> 'b \<times> 'r) \<Rightarrow> call \<Rightarrow> ('r \<Rightarrow> answer) \<Rightarrow> 'b \<times> script \<Rightarrow> ('b \<times> script) \<times> 'r" where
  "logged f c g st = (case f (fst st) of (b', r) \<Rightarrow> ((b', snd st @ [(c, g r)]), r))"

definition logged_ops :: "'b backend \<Rightarrow> ('b \<times> script) backend" where
  "logged_ops ops =
     \<lparr>be_get = (\<lambda>st k. logged (\<lambda>b. be_get ops b k) (CallGet k) Text st),
      be_set = (\<lambda>st k v ow. logged (\<lambda>b. be_set ops b k v ow) (CallSet k v ow) Outcome st),
      be_delete = (\<lambda>st k. logged (\<lambda>b. be_delete ops b k) (CallDelete k) Outcome st),
      be_exists = (\<lambda>st k. logged (\<lambda>b. be_exists ops b k) (CallExists k) Flag st),
      be_listKeys = logged (be_listKeys ops) CallList Listing,
      be_kind = (\<lambda>st. be_kind ops (fst st)),
      be_close = logged (be_close ops) CallClose Outcome\<rparr>"

lemma perform_logged:
  "perform (logged_ops ops) c (b, tr) = (case perform ops c b of (b', x) \<Rightarrow> ((b', tr @ [(c, x)]), x))"
  by (cases c) (simp_all add: logged_ops_def logged_def case_prod_beta map_prod_def)

text \<open>A script is one the backend gives, from one state to another.\<close>

primrec follows :: "'b backend \<Rightarrow> 'b \<Rightarrow> script \<Rightarrow> 'b \<Rightarrow> bool" where
  "follows ops b [] b' \<longleftrightarrow> b = b'"
| "follows ops b (ca # tr) b' \<longleftrightarrow> (case perform ops (fst ca) b of (b1, x) \<Rightarrow> x = snd ca \<and> follows ops b1 tr b')"

lemma follows_append: "follows ops b (tr @ tr') b' \<longleftrightarrow> (\<exists>b1. follows ops b tr b1 \<and> follows ops b1 tr' b')"
  by (induction tr arbitrary: b) (auto split: prod.split)

lemma follows_snoc: "follows ops b tr b1 \<Longrightarrow> perform ops c b1 = (b2, x) \<Longrightarrow> follows ops b (tr @ [(c, x)]) b2"
  unfolding follows_append by (rule exI [where x = b1]) simp

interpretation logging: backend_pair "logged_ops ops" ops
  "\<lambda>st b. fst st = b \<and> follows ops b0 (snd st) b" "\<lambda>(i :: unit) st. False" "\<lambda>(i :: unit) b. False"
  for ops b0
  by unfold_locales (auto simp: perform_logged intro: follows_snoc split: prod.split)

section \<open>Replaying answers\<close>

type_synonym replayed = "answer list \<times> call option"

definition replay :: "call \<Rightarrow> 'r \<Rightarrow> (answer \<Rightarrow> 'r option) \<Rightarrow> replayed \<Rightarrow> replayed \<times> 'r" where
  "replay c halted g st =
     (case snd st of
        Some c' \<Rightarrow> (st, halted)
      | None \<Rightarrow>
          (case fst st of
             [] \<Rightarrow> (([], Some c), halted)
           | a # as \<Rightarrow> ((as, None), (case g a of None \<Rightarrow> halted | Some r \<Rightarrow> r))))"

definition replay_ops :: "replayed backend" where
  "replay_ops =
     \<lparr>be_get = (\<lambda>st k. replay (CallGet k) (Inl NilDereference) (\<lambda>a. case a of Text r \<Rightarrow> Some r | _ \<Rightarrow> None) st),
      be_set = (\<lambda>st k v ow. replay (CallSet k v ow) (Some NilDereference) (\<lambda>a. case a of Outcome r \<Rightarrow> Some r | _ \<Rightarrow> None) st),
      be_delete = (\<lambda>st k. replay (CallDelete k) (Some NilDereference) (\<lambda>a. case a of Outcome r \<Rightarrow> Some r | _ \<Rightarrow> None) st),
      be_exists = (\<lambda>st k. replay (CallExists k) (Inl NilDereference) (\<lambda>a. case a of Flag r \<Rightarrow> Some r | _ \<Rightarrow> None) st),
      be_listKeys = replay CallList (Inl NilDereference) (\<lambda>a. case a of Listing r \<Rightarrow> Some r | _ \<Rightarrow> None),
      be_kind = (\<lambda>st. BackendMemory),
      be_close = replay CallClose (Some NilDereference) (\<lambda>a. case a of Outcome r \<Rightarrow> Some r | _ \<Rightarrow> None)\<rparr>"

lemma replay_pending: "fst (perform replay_ops c (as, Some c')) = (as, Some c')"
  by (cases c) (simp_all add: replay_ops_def replay_def)

lemma replay_halts: "fst (perform replay_ops c ([], None)) = ([], Some c)"
  by (cases c) (simp_all add: replay_ops_def replay_def)

lemma replay_answers:
  assumes "perform ops c b = (b', x)"
  shows "perform replay_ops c (x # as, None) = ((as, None), x)"
  using assms by (cases c) (auto simp: replay_ops_def replay_def map_prod_def case_prod_beta)

lemma replay_pops: "\<exists>y. perform replay_ops c (x # as, None) = ((as, None), y)"
  by (cases c) (simp_all add: replay_ops_def replay_def)

text \<open>
  Where a recorded run and a replay of the answers \<open>as\<close> part: the answers have run out, at a call, or the
  backend answers otherwise.
\<close>

definition left_parts :: "answer list \<Rightarrow> call option \<Rightarrow> 'b \<times> script \<Rightarrow> bool" where
  "left_parts as i st =
     (case i of
        Some c \<Rightarrow> (\<exists>tr1 x. map snd tr1 = as \<and> prefix (tr1 @ [(c, x)]) (snd st))
      | None \<Rightarrow> \<not> prefix as (map snd (snd st)) \<and> \<not> prefix (map snd (snd st)) as)"

definition right_parts :: "call option \<Rightarrow> replayed \<Rightarrow> bool" where
  "right_parts i st = (case i of Some c \<Rightarrow> st = ([], Some c) | None \<Rightarrow> True)"

definition same_so_far :: "answer list \<Rightarrow> 'b \<times> script \<Rightarrow> replayed \<Rightarrow> bool" where
  "same_so_far as st d \<longleftrightarrow> snd d = None \<and> map snd (snd st) @ fst d = as"

lemma not_prefix_append: "\<not> prefix xs ys \<Longrightarrow> \<not> prefix ys xs \<Longrightarrow> \<not> prefix xs (ys @ zs) \<and> \<not> prefix (ys @ zs) xs"
  by (metis append_prefixD prefix_append prefix_def prefix_same_cases)

interpretation replaying: backend_pair "logged_ops ops" replay_ops "same_so_far as" "left_parts as" right_parts
  for ops :: "'b backend" and as
proof
  fix i and b :: "'b \<times> script" and c
  assume "left_parts as i b"
  then show "left_parts as i (fst (perform (logged_ops ops) c b))"
    using not_prefix_append [of as "map snd (snd b)"]
    by (cases b) (auto simp: left_parts_def perform_logged split: prod.split option.splits intro: prefix_prefix)
next
  fix i d c
  assume "right_parts i d"
  then show "right_parts i (fst (perform replay_ops c d))"
    by (auto simp: right_parts_def replay_pending split: option.splits)
next
  fix b :: "'b \<times> script" and d c
  assume sync: "same_so_far as b d"
  obtain b0 tr where b: "b = (b0, tr)" by (cases b)
  obtain b1 x where call: "perform ops c b0 = (b1, x)" by (cases "perform ops c b0")
  from sync obtain rest where d: "d = (rest, None)" "map snd tr @ rest = as" by (cases d) (auto simp: same_so_far_def b)
  show "case perform (logged_ops ops) c b of (b', x) \<Rightarrow> case perform replay_ops c d of (d', y) \<Rightarrow>
      same_so_far as b' d' \<and> x = y \<or> (\<exists>i. left_parts as i b' \<and> right_parts i d')"
  proof (cases rest)
    case Nil
    obtain y where "perform replay_ops c d = (([], Some c), y)"
      using replay_halts [of c] d Nil by (cases "perform replay_ops c d") simp
    moreover have "left_parts as (Some c) (b1, tr @ [(c, x)])" using d(2) Nil by (auto simp: left_parts_def)
    ultimately show ?thesis
      by (auto simp: b perform_logged call right_parts_def intro!: exI [where x = "Some c"])
  next
    case (Cons a rest')
    show ?thesis
    proof (cases "a = x")
      case True
      then show ?thesis using d Cons replay_answers [OF call, of rest'] by (auto simp: b perform_logged call same_so_far_def)
    next
      case False
      obtain y where "perform replay_ops c d = ((rest', None), y)" using replay_pops [of c a rest'] d(1) Cons by auto
      moreover have "left_parts as None (b1, tr @ [(c, x)])"
        using False d(2) Cons by (auto simp: left_parts_def)
      ultimately show ?thesis
        by (auto simp: b perform_logged call right_parts_def intro!: exI [where x = None])
    qed
  qed
qed

section \<open>The calls of a method\<close>

text \<open>The calls a method makes when it runs alone, with the answers it gets.\<close>

definition script_of :: "'b backend \<Rightarrow> 'b Store \<Rightarrow> operation \<Rightarrow> script" where
  "script_of ops s x =
     (case st_be s of
        None \<Rightarrow> []
      | Some b \<Rightarrow>
          (if x = OpClose then
             (if st_closed s then [] else [(CallClose, Outcome (snd (be_close ops b)))])
           else
             (case st_be (fst (store_step (logged_ops ops) (with_be s (Some (b, []))) x)) of
                None \<Rightarrow> []
              | Some st \<Rightarrow> snd st)))"

text \<open>
  Where a method stands after the answers \<open>as\<close>: about to make a call, or done, with what it leaves of the
  fields of the store and its result.
\<close>

definition next_call :: "'b Store \<Rightarrow> operation \<Rightarrow> answer list \<Rightarrow> call + 'b Store \<times> payload result" where
  "next_call s x as =
     (case store_step replay_ops (with_be s (map_option (\<lambda>b. (as, None)) (st_be s))) x of
        (t, r) \<Rightarrow>
          (case Option.bind (st_be t) snd of
             Some c \<Rightarrow> Inl c
           | None \<Rightarrow> Inr (s\<lparr>st_closed := st_closed t, st_be := (if st_be t = None then None else st_be s)\<rparr>, r)))"

lemma same_store: "(s :: 'b Store)\<lparr>st_closed := st_closed s, st_be := st_be s\<rparr> = s"
  by simp

lemma step_scripted:
  assumes b: "st_be s = Some b" and x: "x \<noteq> OpClose"
  obtains b' r where "store_step ops s x = (s\<lparr>st_be := Some b'\<rparr>, r)" "follows ops b (script_of ops s x) b'"
    "store_step (logged_ops ops) (with_be s (Some (b, []))) x = (with_be s (Some (b', script_of ops s x)), r)"
proof -
  have start: "fst (b, []) = b \<and> follows ops b (snd (b, [])) b" by simp
  show thesis
  proof (rule logging.step_cases [OF start x, of s])
    fix st r1 b' r2
    assume log: "store_step (logged_ops ops) (with_be s (Some (b, []))) x = (with_be s (Some st), r1)"
      and run: "store_step ops (with_be s (Some b)) x = (with_be s (Some b'), r2)"
      and eq: "(fst st = b' \<and> follows ops b (snd st) b') \<and> r1 = r2 \<or> (\<exists>i. False \<and> False)"
    have same: "s\<lparr>st_be := Some b\<rparr> = s" using b by simp
    have tr: "script_of ops s x = snd st" using b x log by (simp add: script_of_def)
    show thesis
      by (rule that [of b' r1]) (use run [unfolded with_be_same same] log eq in \<open>auto simp: tr\<close>)
  qed
qed

lemma not_longer: "map snd tr1 = map snd tr \<Longrightarrow> \<not> prefix (tr1 @ [ca]) tr"
  by (auto dest!: prefix_length_le map_eq_imp_length_eq)

lemma replay_scripted:
  assumes log: "store_step (logged_ops ops) (with_be s (Some (b, []))) x = (with_be s (Some (b', tr)), r)"
    and x: "x \<noteq> OpClose"
  shows "store_step replay_ops (with_be s (Some (map snd tr, None))) x = (with_be s (Some ([], None)), r)"
    and "tr = tr1 @ ca # tr2 \<Longrightarrow>
      \<exists>r'. store_step replay_ops (with_be s (Some (map snd tr1, None))) x = (with_be s (Some ([], Some (fst ca))), r')"
proof -
  show "store_step replay_ops (with_be s (Some (map snd tr, None))) x = (with_be s (Some ([], None)), r)"
  proof (rule replaying.step_cases [of "map snd tr" "(b, [])" "(map snd tr, None)" x ops s])
    show "same_so_far (map snd tr) (b, []) (map snd tr, None)" by (simp add: same_so_far_def)
  qed (use log x in \<open>auto simp: same_so_far_def left_parts_def not_longer split: option.splits\<close>)
next
  assume tr: "tr = tr1 @ ca # tr2"
  let ?as = "map snd tr1"
  have start: "same_so_far ?as (b, []) (?as, None)" by (simp add: same_so_far_def)
  show "\<exists>r'. store_step replay_ops (with_be s (Some (map snd tr1, None))) x = (with_be s (Some ([], Some (fst ca))), r')"
  proof (rule replaying.step_cases [OF start x, of ops s])
    fix st r1 d r2
    assume log': "store_step (logged_ops ops) (with_be s (Some (b, []))) x = (with_be s (Some st), r1)"
      and run: "store_step replay_ops (with_be s (Some (?as, None))) x = (with_be s (Some d), r2)"
      and how: "same_so_far ?as st d \<and> r1 = r2 \<or> (\<exists>i. left_parts ?as i st \<and> right_parts i d)"
    have st: "snd st = tr" using log log' by simp
    have "d = ([], Some (fst ca))"
    proof -
      have "\<not> same_so_far ?as st d" by (simp add: same_so_far_def st tr)
      then obtain i where i: "left_parts ?as i st" "right_parts i d" using how by blast
      have "i \<noteq> None" using i(1) by (cases i) (simp_all add: left_parts_def st tr)
      then obtain c where c: "i = Some c" by blast
      then obtain t1 a where t1: "map snd t1 = ?as" "prefix (t1 @ [(c, a)]) tr"
        using i(1) by (auto simp: left_parts_def st)
      have len: "length t1 = length tr1" using t1(1) map_eq_imp_length_eq by blast
      from t1(2) tr len have "c = fst ca" by (auto simp: prefix_def)
      with i(2) c show ?thesis by (simp add: right_parts_def)
    qed
    with run show ?thesis by simp
  qed
qed

text \<open>
  A method that makes its calls one at a time goes through its script and ends as it does alone. The state of
  the backend is passed on by the calls; \<open>next_call\<close> sees only that there is one.
\<close>

lemma next_call_nil:
  assumes "st_be s = None"
  shows "script_of ops s x = []" "next_call s x [] = Inr (store_step ops s x)"
proof -
  show "script_of ops s x = []" using assms by (simp add: script_of_def)
  have "s\<lparr>st_be := None\<rparr> = s" using assms by simp
  moreover obtain r where "store_step ops s x = (s, r)" using step_nil(1) [OF assms, of ops x] by blast
  ultimately show "next_call s x [] = Inr (store_step ops s x)"
    using step_nil(2) [OF assms, of replay_ops x ops] assms
    by (simp add: next_call_def)
qed

lemma next_call_scripted:
  assumes b: "st_be s = Some b" and tr: "script_of ops s x = tr1 @ ca # tr2"
  shows "next_call (s\<lparr>st_be := Some b1\<rparr>) x (map snd tr1) = Inl (fst ca)"
proof (cases "x = OpClose")
  case True
  with b tr have "\<not> st_closed s" "tr1 = []" "fst ca = CallClose"
    by (auto simp: script_of_def Cons_eq_append_conv split: if_splits)
  with True show ?thesis
    by (simp add: next_call_def Store_Close_def map_prod_def replay_ops_def replay_def)
next
  case False
  obtain b' r where log: "store_step (logged_ops ops) (with_be s (Some (b, []))) x = (with_be s (Some (b', script_of ops s x)), r)"
    by (rule step_scripted [OF b False])
  from replay_scripted(2) [OF log False tr] show ?thesis by (auto simp: next_call_def)
qed

lemma next_call_done:
  assumes b: "st_be s = Some b"
  obtains b' where "follows ops b (script_of ops s x) b'"
    "next_call (s\<lparr>st_be := Some b'\<rparr>) x (map snd (script_of ops s x)) = Inr (store_step ops s x)"
proof (cases "x = OpClose")
  case True
  show thesis
  proof (cases "st_closed s")
    case closed: True
    have "s\<lparr>st_closed := True, st_be := Some b\<rparr> = s" using closed b by simp
    with True closed b show thesis
      by (intro that [of b]) (simp_all add: script_of_def next_call_def Store_Close_def)
  next
    case False
    obtain b' e where close: "be_close ops b = (b', e)" by (cases "be_close ops b")
    show thesis
      by (rule that [of b'])
        (use True False b close in \<open>auto simp: script_of_def next_call_def Store_Close_def on_backend_def replay_ops_def
          replay_def split: option.split\<close>)
  qed
next
  case False
  obtain b' r where run: "store_step ops s x = (s\<lparr>st_be := Some b'\<rparr>, r)" "follows ops b (script_of ops s x) b'"
    and log: "store_step (logged_ops ops) (with_be s (Some (b, []))) x = (with_be s (Some (b', script_of ops s x)), r)"
    by (rule step_scripted [OF b False])
  from replay_scripted(1) [OF log False] run show thesis
    by (intro that [of b']) (simp_all add: next_call_def)
qed

end
