(* ===== verification/OsBackend.thy ===== *)
theory OsBackend
  imports StoreSpec
begin

text \<open>
  The adapter from a platform keyring to the backend interface, \<open>credstore/osbackend_core.go\<close>:
  \<open>keyringItem\<close>, the \<open>keyringBackend\<close> interface (a method table and a receiver state, as for
  \<open>backend\<close>), the item metadata of a write and the six methods of \<open>osKeyringBackend\<close>. The locale
  \<open>keyring_laws\<close> is what the adapter relies on; the \<open>sublocale\<close> shows that the adapter over a lawful
  keyring is a lawful backend, so everything proved of \<open>Store\<close> over a lawful backend holds of it.
\<close>

record keyringItem =
  ki_key :: string
  ki_data :: string
  ki_label :: string
  ki_description :: string
  keychainNotTrustApplication :: bool
  keychainNotSynchronizable :: bool

definition keyringItem_zero :: keyringItem where
  "keyringItem_zero = \<lparr>ki_key = '''', ki_data = '''', ki_label = '''', ki_description = '''',
     keychainNotTrustApplication = False, keychainNotSynchronizable = False\<rparr>"

record 'k keyringBackend =
  kr_get :: "'k \<Rightarrow> string \<Rightarrow> 'k \<times> keyringItem result"
  kr_metadata :: "'k \<Rightarrow> string \<Rightarrow> 'k \<times> keyringItem result"
  kr_set :: "'k \<Rightarrow> keyringItem \<Rightarrow> 'k \<times> err option"
  kr_remove :: "'k \<Rightarrow> string \<Rightarrow> 'k \<times> err option"
  kr_keys :: "'k \<Rightarrow> 'k \<times> string list result"

record 'k osKeyringBackend =
  os_kr :: 'k
  os_backendKind :: Backend
  os_service :: string

section \<open>Item metadata\<close>

definition keyringItemLabel :: "string \<Rightarrow> string \<Rightarrow> string" where
  "keyringItemLabel service itemKey = service @ '' '' @ itemKey"

definition keyringItemDescription :: "string \<Rightarrow> string \<Rightarrow> string" where
  "keyringItemDescription service itemKey = ''Credential for '' @ service @ '' '' @ itemKey"

definition keyringItemForWrite :: "string \<Rightarrow> string \<Rightarrow> string \<Rightarrow> keyringItem" where
  "keyringItemForWrite service itemKey value =
     keyringItem_zero\<lparr>ki_key := itemKey, ki_data := value,
       ki_label := keyringItemLabel service itemKey,
       ki_description := keyringItemDescription service itemKey\<rparr>"

section \<open>The adapter\<close>

text \<open>A method call on the field \<open>kr\<close>, whose state is stored back.\<close>

definition on_kr :: "'k osKeyringBackend \<Rightarrow> ('k \<Rightarrow> 'k \<times> 'r) \<Rightarrow> 'k osKeyringBackend \<times> 'r" where
  "on_kr b f = (case f (os_kr b) of (k', r) \<Rightarrow> (b\<lparr>os_kr := k'\<rparr>, r))"

definition os_error :: "'k osKeyringBackend \<Rightarrow> string \<Rightarrow> string \<Rightarrow> string \<Rightarrow> err \<Rightarrow> err" where
  "os_error b what itemKey note e =
     Wrapf [Lit ''credstore: '', Lit (os_backendKind b), Lit what, Quoted itemKey, Lit note] e []"

definition os_kind :: "'k osKeyringBackend \<Rightarrow> Backend" where
  "os_kind b = os_backendKind b"

definition os_get ::
  "'k keyringBackend \<Rightarrow> 'k osKeyringBackend \<Rightarrow> string \<Rightarrow> 'k osKeyringBackend \<times> string result"
where
  "os_get kro b itemKey =
     (case on_kr b (\<lambda>k. kr_get kro k itemKey) of
        (b', Inl e) \<Rightarrow>
          (if errors_Is e errKeyringItemNotFound then (b', Inl (Sentinel ErrNotFound))
           else (b', Inl (os_error b'  '' get '' itemKey '': '' e)))
      | (b', Inr it) \<Rightarrow> (b', Inr (ki_data it)))"

text \<open>The write itself, after the overwrite check.\<close>

definition os_set_write ::
  "'k keyringBackend \<Rightarrow> 'k osKeyringBackend \<Rightarrow> string \<Rightarrow> string \<Rightarrow> 'k osKeyringBackend \<times> err option"
where
  "os_set_write kro b itemKey value =
     (case on_kr b (\<lambda>k. kr_set kro k (keyringItemForWrite (os_service b) itemKey value)) of
        (b', Some e) \<Rightarrow> (b', Some (os_error b' '' set '' itemKey '': '' e))
      | (b', None) \<Rightarrow> (b', None))"

definition os_set ::
  "'k keyringBackend \<Rightarrow> 'k osKeyringBackend \<Rightarrow> string \<Rightarrow> string \<Rightarrow> bool \<Rightarrow> 'k osKeyringBackend \<times> err option"
where
  "os_set kro b itemKey value ow =
     (if \<not> ow then
        (case on_kr b (\<lambda>k. kr_get kro k itemKey) of
           (b1, Inr _) \<Rightarrow> (b1, Some (Sentinel ErrExists))
         | (b1, Inl e) \<Rightarrow>
             (if errors_Is e errKeyringItemNotFound then os_set_write kro b1 itemKey value
              else (b1, Some (os_error b1 '' set '' itemKey '' (overwrite pre-check): '' e))))
      else os_set_write kro b itemKey value)"

definition os_delete ::
  "'k keyringBackend \<Rightarrow> 'k osKeyringBackend \<Rightarrow> string \<Rightarrow> 'k osKeyringBackend \<times> err option"
where
  "os_delete kro b itemKey =
     (case on_kr b (\<lambda>k. kr_remove kro k itemKey) of
        (b', Some e) \<Rightarrow>
          (if errors_Is e errKeyringItemNotFound then (b', Some (Sentinel ErrNotFound))
           else (b', Some (os_error b' '' delete '' itemKey '': '' e)))
      | (b', None) \<Rightarrow> (b', None))"

text \<open>
  \<open>err\<close> is overwritten by the error of the fallback read when metadata is unsupported:
  \<open>None\<close> is its nil.
\<close>

definition os_exists_fallback ::
  "'k keyringBackend \<Rightarrow> 'k osKeyringBackend \<Rightarrow> string \<Rightarrow> err \<Rightarrow> 'k osKeyringBackend \<times> err option"
where
  "os_exists_fallback kro b itemKey e =
     (if errors_Is e errKeyringMetadataUnsupported then
        (case on_kr b (\<lambda>k. kr_get kro k itemKey) of
           (b', Inl e') \<Rightarrow> (b', Some e')
         | (b', Inr _) \<Rightarrow> (b', None))
      else (b, Some e))"

definition os_exists ::
  "'k keyringBackend \<Rightarrow> 'k osKeyringBackend \<Rightarrow> string \<Rightarrow> 'k osKeyringBackend \<times> bool result"
where
  "os_exists kro b itemKey =
     (case on_kr b (\<lambda>k. kr_metadata kro k itemKey) of
        (b1, Inr _) \<Rightarrow> (b1, Inr True)
      | (b1, Inl e) \<Rightarrow>
          (case os_exists_fallback kro b1 itemKey e of
             (b2, None) \<Rightarrow> (b2, Inr True)
           | (b2, Some e') \<Rightarrow>
               (if errors_Is e' errKeyringItemNotFound then (b2, Inr False)
                else (b2, Inl (os_error b2 '' exists '' itemKey '': '' e')))))"

definition os_listKeys ::
  "'k keyringBackend \<Rightarrow> 'k osKeyringBackend \<Rightarrow> 'k osKeyringBackend \<times> string list result"
where
  "os_listKeys kro b =
     (case on_kr b (kr_keys kro) of
        (b', Inl e) \<Rightarrow>
          (b', Inl (Wrapf [Lit ''credstore: '', Lit (os_backendKind b'), Lit '' listKeys: ''] e []))
      | (b', Inr ks) \<Rightarrow> (b', Inr ks))"

definition os_close :: "'k osKeyringBackend \<Rightarrow> 'k osKeyringBackend \<times> err option" where
  "os_close b = (b, None)"

definition os_ops :: "'k keyringBackend \<Rightarrow> 'k osKeyringBackend backend" where
  "os_ops kro =
     \<lparr>be_get = os_get kro, be_set = os_set kro, be_delete = os_delete kro, be_exists = os_exists kro,
      be_listKeys = os_listKeys kro, be_kind = os_kind, be_close = os_close\<rparr>"

lemma os_ops_simps [simp]:
  "be_get (os_ops kro) = os_get kro" "be_set (os_ops kro) = os_set kro"
  "be_delete (os_ops kro) = os_delete kro" "be_exists (os_ops kro) = os_exists kro"
  "be_listKeys (os_ops kro) = os_listKeys kro" "be_kind (os_ops kro) = os_kind"
  "be_close (os_ops kro) = os_close"
  by (simp_all add: os_ops_def)

lemmas os_defs =
  os_get_def os_set_def os_set_write_def os_delete_def os_exists_def os_exists_fallback_def
  os_listKeys_def os_error_def on_kr_def

section \<open>What the adapter relies on\<close>

text \<open>
  A keyring holds a map from keys to data. Its errors are its own: none of them is one of the store's
  sentinels, so \<open>errors.Is\<close> against those sees only what the adapter returns.
\<close>

definition own_error :: "err \<Rightarrow> bool" where
  "own_error e \<longleftrightarrow> \<not> errors_Is e ErrNotFound \<and> \<not> errors_Is e ErrExists"

locale keyring_laws =
  fixes kro :: "'k keyringBackend"
    and kview :: "'k \<Rightarrow> kvmap"
    and kgood :: "'k \<Rightarrow> bool"
  assumes kget_keeps: "kgood k \<Longrightarrow> usable kview k i \<Longrightarrow> kr_get kro k i = (k', r) \<Longrightarrow>
      kgood k' \<and> kview k' = kview k"
    and kget_value: "kgood k \<Longrightarrow> usable kview k i \<Longrightarrow> kr_get kro k i = (k', Inr it) \<Longrightarrow>
      kview k i = Some (ki_data it)"
    and kget_error: "kgood k \<Longrightarrow> usable kview k i \<Longrightarrow> kr_get kro k i = (k', Inl e) \<Longrightarrow>
      own_error e \<and> (errors_Is e errKeyringItemNotFound \<longrightarrow> kview k i = None)"
    and kmeta_keeps: "kgood k \<Longrightarrow> usable kview k i \<Longrightarrow> kr_metadata kro k i = (k', r) \<Longrightarrow>
      kgood k' \<and> kview k' = kview k"
    and kmeta_value: "kgood k \<Longrightarrow> usable kview k i \<Longrightarrow> kr_metadata kro k i = (k', Inr it) \<Longrightarrow>
      kview k i \<noteq> None"
    and kmeta_absent: "kgood k \<Longrightarrow> usable kview k i \<Longrightarrow> kr_metadata kro k i = (k', Inl e) \<Longrightarrow>
      errors_Is e errKeyringItemNotFound \<Longrightarrow> kview k i = None"
    and kset_ok: "kgood k \<Longrightarrow> usable kview k (ki_key it) \<Longrightarrow> kr_set kro k it = (k', None) \<Longrightarrow>
      kgood k' \<and> kview k' = (kview k)(ki_key it \<mapsto> ki_data it)"
    and kset_fail: "kgood k \<Longrightarrow> usable kview k (ki_key it) \<Longrightarrow> kr_set kro k it = (k', Some e) \<Longrightarrow>
      kgood k' \<and> same_except {ki_key it} (kview k) (kview k') \<and> own_error e"
    and kremove_ok: "kgood k \<Longrightarrow> usable kview k i \<Longrightarrow> kr_remove kro k i = (k', None) \<Longrightarrow>
      kgood k' \<and> kview k' = (kview k)(i := None) \<and> kview k i \<noteq> None"
    and kremove_fail: "kgood k \<Longrightarrow> usable kview k i \<Longrightarrow> kr_remove kro k i = (k', Some e) \<Longrightarrow>
      kgood k' \<and> same_except {i} (kview k) (kview k') \<and> own_error e"
    and kremove_absent: "kgood k \<Longrightarrow> usable kview k i \<Longrightarrow> kr_remove kro k i = (k', Some e) \<Longrightarrow>
      errors_Is e errKeyringItemNotFound \<Longrightarrow> kview k i = None \<and> kview k' = kview k"
    and kkeys_keeps: "kgood k \<Longrightarrow> kr_keys kro k = (k', r2) \<Longrightarrow> kgood k' \<and> kview k' = kview k"
    and kkeys_value: "kgood k \<Longrightarrow> kr_keys kro k = (k', Inr ks) \<Longrightarrow>
      distinct ks \<and> set ks = dom (kview k)"

definition os_view :: "('k \<Rightarrow> kvmap) \<Rightarrow> 'k osKeyringBackend \<Rightarrow> kvmap" where
  "os_view kview b = kview (os_kr b)"

definition os_good :: "('k \<Rightarrow> bool) \<Rightarrow> 'k osKeyringBackend \<Rightarrow> bool" where
  "os_good kgood b = kgood (os_kr b)"

lemma os_view_simps [simp]:
  "os_view kview (b\<lparr>os_kr := k\<rparr>) = kview k" "os_good kgood (b\<lparr>os_kr := k\<rparr>) = kgood k"
  "usable (os_view kview) b i = usable kview (os_kr b) i"
  by (simp_all add: os_view_def os_good_def usable_def)

context keyring_laws
begin

lemma os_get_laws:
  assumes "kgood (os_kr b)" "usable kview (os_kr b) i" "os_get kro b i = (b', r)"
  shows "kgood (os_kr b') \<and> kview (os_kr b') = kview (os_kr b)"
    "r = Inr v \<Longrightarrow> kview (os_kr b) i = Some v"
    "r = Inl e \<Longrightarrow> errors_Is e ErrNotFound \<Longrightarrow> kview (os_kr b) i = None"
  using assms kget_keeps [OF assms(1,2)] kget_value [OF assms(1,2)] kget_error [OF assms(1,2)]
  by (auto simp: os_defs own_error_def split: prod.splits sum.splits if_splits)

lemma os_exists_laws:
  assumes "kgood (os_kr b)" "usable kview (os_kr b) i" "os_exists kro b i = (b', r)"
  shows "kgood (os_kr b') \<and> kview (os_kr b') = kview (os_kr b)"
    "r = Inr x \<Longrightarrow> x \<longleftrightarrow> kview (os_kr b) i \<noteq> None"
proof -
  obtain k1 m where meta: "kr_metadata kro (os_kr b) i = (k1, m)"
    by (cases "kr_metadata kro (os_kr b) i")
  note keep = kmeta_keeps [OF assms(1,2) meta]
  obtain k2 g where get: "kr_get kro k1 i = (k2, g)"
    by (cases "kr_get kro k1 i")
  have use: "usable kview k1 i"
    using assms(2) keep by (simp add: usable_def)
  note keep2 = kget_keeps [OF _ use get]
  have "(kgood (os_kr b') \<and> kview (os_kr b') = kview (os_kr b)) \<and>
      (\<forall>x. r = Inr x \<longrightarrow> (x \<longleftrightarrow> kview (os_kr b) i \<noteq> None))"
  proof (cases m)
    case (Inr it)
    with assms meta keep kmeta_value [OF assms(1,2)] show ?thesis
      by (auto simp: os_defs)
  next
    case (Inl e)
    have absent: "errors_Is e errKeyringItemNotFound \<Longrightarrow> kview (os_kr b) i = None"
      using kmeta_absent [OF assms(1,2)] meta Inl by simp
    show ?thesis
    proof (cases "errors_Is e errKeyringMetadataUnsupported")
      case False
      with assms meta Inl keep absent show ?thesis
        by (auto simp: os_defs split: if_splits)
    next
      case True
      have "g = Inr it \<Longrightarrow> kview (os_kr b) i \<noteq> None"
        "g = Inl e' \<Longrightarrow> errors_Is e' errKeyringItemNotFound \<Longrightarrow> kview (os_kr b) i = None" for it e'
        using keep get kget_value [of k1 i k2 it] kget_error [of k1 i k2 e'] use by auto
      with True assms(3) meta Inl get keep keep2 show ?thesis
        by (cases g) (auto simp: os_defs split: if_splits)
    qed
  qed
  then show "kgood (os_kr b') \<and> kview (os_kr b') = kview (os_kr b)"
    "r = Inr x \<Longrightarrow> x \<longleftrightarrow> kview (os_kr b) i \<noteq> None" by blast+
qed

lemma os_set_write_laws:
  assumes "kgood (os_kr b)" "usable kview (os_kr b) i" "os_set_write kro b i v = (b', r)"
  shows "case r of
      None \<Rightarrow> kgood (os_kr b') \<and> kview (os_kr b') = (kview (os_kr b))(i \<mapsto> v)
    | Some e \<Rightarrow> kgood (os_kr b') \<and> same_except {i} (kview (os_kr b)) (kview (os_kr b')) \<and>
        \<not> errors_Is e ErrExists"
proof -
  let ?it = "keyringItemForWrite (os_service b) i v"
  have it: "ki_key ?it = i" "ki_data ?it = v"
    by (simp_all add: keyringItemForWrite_def)
  obtain k' r' where "kr_set kro (os_kr b) ?it = (k', r')"
    by (cases "kr_set kro (os_kr b) ?it")
  with assms it kset_ok [of "os_kr b" ?it k'] kset_fail [of "os_kr b" ?it k'] show ?thesis
    by (cases r') (auto simp: os_defs own_error_def)
qed

lemma os_set_laws:
  assumes "kgood (os_kr b)" "usable kview (os_kr b) i" "os_set kro b i v ow = (b', r)"
  shows "kgood (os_kr b')"
    "r = None \<Longrightarrow> kview (os_kr b') = (kview (os_kr b))(i \<mapsto> v) \<and> (ow \<or> kview (os_kr b) i = None)"
    "same_except {i} (kview (os_kr b)) (kview (os_kr b'))"
    "\<not> ow \<Longrightarrow> kview (os_kr b) i \<noteq> None \<Longrightarrow> kview (os_kr b') = kview (os_kr b)"
    "\<not> ow \<Longrightarrow> r = Some e \<Longrightarrow> errors_Is e ErrExists \<Longrightarrow> kview (os_kr b') = kview (os_kr b)"
proof -
  have "kgood (os_kr b') \<and>
    (r = None \<longrightarrow> kview (os_kr b') = (kview (os_kr b))(i \<mapsto> v) \<and> (ow \<or> kview (os_kr b) i = None)) \<and>
    same_except {i} (kview (os_kr b)) (kview (os_kr b')) \<and>
    (\<not> ow \<longrightarrow> kview (os_kr b) i \<noteq> None \<longrightarrow> kview (os_kr b') = kview (os_kr b)) \<and>
    (\<not> ow \<longrightarrow> r \<noteq> None \<longrightarrow> errors_Is (the r) ErrExists \<longrightarrow> kview (os_kr b') = kview (os_kr b))"
  proof (cases ow)
    case True
    with assms os_set_write_laws [of b i v b' r] show ?thesis
      by (cases r) (auto simp: os_set_def)
  next
    case False
    obtain k1 g where get: "kr_get kro (os_kr b) i = (k1, g)"
      by (cases "kr_get kro (os_kr b) i")
    note keep = kget_keeps [OF assms(1,2) get]
    show ?thesis
    proof (cases "\<exists>e. g = Inl e \<and> errors_Is e errKeyringItemNotFound")
      case True
      then have absent: "kview (os_kr b) i = None"
        using kget_error [OF assms(1,2)] get by auto
      from True False assms(3) get have wr: "os_set_write kro (b\<lparr>os_kr := k1\<rparr>) i v = (b', r)"
        by (auto simp: os_set_def on_kr_def)
      have "usable kview k1 i"
        using assms(2) keep by (simp add: usable_def)
      with os_set_write_laws [OF _ _ wr] keep absent show ?thesis
        by (cases r) auto
    next
      case other: False
      with False assms(3) get have "os_kr b' = k1" "r \<noteq> None"
        by (auto simp: os_defs split: sum.splits)
      with keep show ?thesis
        by auto
    qed
  qed
  then show "kgood (os_kr b')"
    "r = None \<Longrightarrow> kview (os_kr b') = (kview (os_kr b))(i \<mapsto> v) \<and> (ow \<or> kview (os_kr b) i = None)"
    "same_except {i} (kview (os_kr b)) (kview (os_kr b'))"
    "\<not> ow \<Longrightarrow> kview (os_kr b) i \<noteq> None \<Longrightarrow> kview (os_kr b') = kview (os_kr b)"
    "\<not> ow \<Longrightarrow> r = Some e \<Longrightarrow> errors_Is e ErrExists \<Longrightarrow> kview (os_kr b') = kview (os_kr b)"
    by auto
qed

lemma os_delete_laws:
  assumes "kgood (os_kr b)" "usable kview (os_kr b) i" "os_delete kro b i = (b', r)"
  shows "kgood (os_kr b') \<and> same_except {i} (kview (os_kr b)) (kview (os_kr b'))"
    "r = None \<Longrightarrow> kview (os_kr b') = (kview (os_kr b))(i := None) \<and> kview (os_kr b) i \<noteq> None"
    "r = Some e \<Longrightarrow> errors_Is e ErrNotFound \<Longrightarrow>
       kview (os_kr b) i = None \<and> kview (os_kr b') = kview (os_kr b)"
proof -
  obtain k1 d where rm: "kr_remove kro (os_kr b) i = (k1, d)"
    by (cases "kr_remove kro (os_kr b) i")
  have "kgood (os_kr b') \<and> same_except {i} (kview (os_kr b)) (kview (os_kr b')) \<and>
    (r = None \<longrightarrow> kview (os_kr b') = (kview (os_kr b))(i := None) \<and> kview (os_kr b) i \<noteq> None) \<and>
    (\<forall>e. r = Some e \<longrightarrow> errors_Is e ErrNotFound \<longrightarrow>
       kview (os_kr b) i = None \<and> kview (os_kr b') = kview (os_kr b))"
  proof (cases d)
    case None
    with assms rm kremove_ok [OF assms(1,2)] show ?thesis
      by (auto simp: os_defs)
  next
    case (Some e)
    with assms(3) rm kremove_fail [OF assms(1,2)] kremove_absent [OF assms(1,2)] show ?thesis
      by (auto simp: os_defs own_error_def split: if_splits)
  qed
  then show "kgood (os_kr b') \<and> same_except {i} (kview (os_kr b)) (kview (os_kr b'))"
    "r = None \<Longrightarrow> kview (os_kr b') = (kview (os_kr b))(i := None) \<and> kview (os_kr b) i \<noteq> None"
    "r = Some e \<Longrightarrow> errors_Is e ErrNotFound \<Longrightarrow>
       kview (os_kr b) i = None \<and> kview (os_kr b') = kview (os_kr b)" by blast+
qed

end

sublocale keyring_laws \<subseteq> os: backend_laws "os_ops kro" "os_view kview" "os_good kgood"
proof (unfold_locales, goal_cases)
  case (1 b k b' r)
  then show ?case using os_get_laws(1) [of b k b' r] by (simp add: os_view_def os_good_def)
next
  case (2 b k b' v)
  then show ?case using os_get_laws(2) [of b k b' "Inr v" v] by (simp add: os_view_def os_good_def)
next
  case (3 b k b' e)
  then show ?case using os_get_laws(3) [of b k b' "Inl e" e] by (simp add: os_view_def os_good_def)
next
  case (4 b k b' r)
  then show ?case using os_exists_laws(1) [of b k b' r] by (simp add: os_view_def os_good_def)
next
  case (5 b k b' x)
  then show ?case using os_exists_laws(2) [of b k b' "Inr x" x] by (simp add: os_view_def os_good_def)
next
  case (6 b k v ow b')
  then show ?case using os_set_laws(1,2) [of b k v ow b' None]
    by (simp add: os_view_def os_good_def fun_eq_iff)
next
  case (7 b k v ow b' e)
  then show ?case using os_set_laws(1,3) [of b k v ow b' "Some e"] by (simp add: os_view_def os_good_def)
next
  case (8 b k v b' r)
  then show ?case using os_set_laws(4) [of b k v False b' r] by (simp add: os_view_def os_good_def)
next
  case (9 b k v b' e)
  then show ?case using os_set_laws(5) [of b k v False b' "Some e" e] by (simp add: os_view_def os_good_def)
next
  case (10 b k b')
  then show ?case using os_delete_laws(1,2) [of b k b' None]
    by (simp add: os_view_def os_good_def fun_eq_iff)
next
  case (11 b k b' e)
  then show ?case using os_delete_laws(1) [of b k b' "Some e"] by (simp add: os_view_def os_good_def)
next
  case (12 b k b' e)
  then show ?case using os_delete_laws(3) [of b k b' "Some e" e] by (simp add: os_view_def os_good_def)
next
  case (13 b b' r)
  then show ?case
    using kkeys_keeps [of "os_kr b"]
    by (auto simp: os_listKeys_def on_kr_def os_view_def os_good_def split: prod.splits sum.splits)
next
  case (14 b b' ks)
  then show ?case
    using kkeys_value [of "os_kr b"]
    by (auto simp: os_listKeys_def on_kr_def os_view_def os_good_def split: prod.splits sum.splits)
qed

end
