(* ===== verification/Paths.thy ===== *)
theory Paths
  imports Prelude
begin

text \<open>
  The lexical path functions of \<open>path/filepath\<close> on a Unix host: \<open>Clean\<close> as a pass over the
  components with a stack, \<open>Join\<close>, \<open>Dir\<close>, \<open>IsAbs\<close>. The main lemma is that joining a base
  directory and a plain name (non-empty, no separator, not a dot name) yields that name directly
  below the cleaned base, and that two such paths agree only if the names do.
\<close>

definition filepath_IsAbs :: "string \<Rightarrow> bool" where
  "filepath_IsAbs p = prefix ''/'' p"

definition clean_step :: "bool \<Rightarrow> string list \<Rightarrow> string \<Rightarrow> string list" where
  "clean_step rooted stack c =
     (if c = '''' \<or> c = ''.'' then stack
      else if c = ''..'' then
        (if stack = [] then (if rooted then [] else [''..''])
         else if last stack = ''..'' then stack @ [''..'']
         else butlast stack)
      else stack @ [c])"

definition clean_parts :: "string \<Rightarrow> string list" where
  "clean_parts p = foldl (clean_step (filepath_IsAbs p)) [] (strings_Split p (CHR ''/''))"

definition unparts :: "bool \<Rightarrow> string list \<Rightarrow> string" where
  "unparts rooted ps =
     (if rooted then ''/'' @ strings_Join ps ''/''
      else if ps = [] then ''.'' else strings_Join ps ''/'')"

definition filepath_Clean :: "string \<Rightarrow> string" where
  "filepath_Clean p = unparts (filepath_IsAbs p) (clean_parts p)"

definition filepath_Join :: "string list \<Rightarrow> string" where
  "filepath_Join elems =
     (case dropWhile (\<lambda>e. e = '''') elems of
        [] \<Rightarrow> ''''
      | es \<Rightarrow> filepath_Clean (strings_Join es ''/''))"

text \<open>\<open>filepath.Dir\<close>: everything up to the last separator, cleaned.\<close>

definition filepath_Dir :: "string \<Rightarrow> string" where
  "filepath_Dir p = filepath_Clean (rev (dropWhile (\<lambda>c. c \<noteq> CHR ''/'') (rev p)))"

text \<open>A name that can stand as one path component.\<close>

definition plain :: "string \<Rightarrow> bool" where
  "plain v \<longleftrightarrow> v \<noteq> '''' \<and> v \<noteq> ''.'' \<and> v \<noteq> ''..'' \<and> CHR ''/'' \<notin> set v"

section \<open>Splitting and joining\<close>

lemma strings_Split_append:
  "strings_Split (a @ c # b) c = strings_Split a c @ strings_Split b c"
proof (induction a)
  case (Cons x a)
  moreover have "strings_Split a c \<noteq> []"
    by (cases a) (auto split: list.splits)
  ultimately show ?case
    by (auto split: list.splits)
qed simp

lemma strings_Split_single: "c \<notin> set v \<Longrightarrow> strings_Split v c = [v]"
  by (induction v) auto

lemma strings_Split_no_sep: "p \<in> set (strings_Split s c) \<Longrightarrow> c \<notin> set p"
  by (induction s arbitrary: p) (auto split: list.splits if_splits)

lemma strings_Split_Join:
  "ps \<noteq> [] \<Longrightarrow> (\<forall>p \<in> set ps. c \<notin> set p) \<Longrightarrow> strings_Split (strings_Join ps [c]) c = ps"
  by (induction ps "[c]" rule: strings_Join.induct)
     (auto simp: strings_Split_single strings_Split_append)

lemma strings_Join_append:
  "xs \<noteq> [] \<Longrightarrow> strings_Join (xs @ [y]) sep = strings_Join xs sep @ sep @ y"
  by (induction xs sep rule: strings_Join.induct) auto

lemma strings_Join_inj:
  assumes "strings_Join ps [c] = strings_Join qs [c]" "ps \<noteq> []" "qs \<noteq> []"
    "\<forall>p \<in> set ps. c \<notin> set p" "\<forall>p \<in> set qs. c \<notin> set p"
  shows "ps = qs"
  using assms strings_Split_Join by metis

section \<open>Clean\<close>

text \<open>The stack of a cleaned path: names, and \<open>..\<close> in a relative path only.\<close>

definition clean_stack :: "bool \<Rightarrow> string list \<Rightarrow> bool" where
  "clean_stack rooted st \<longleftrightarrow> (\<forall>c \<in> set st. plain c \<or> c = ''..'' \<and> \<not> rooted)"

lemma clean_step_stack:
  assumes "clean_stack rooted st" "CHR ''/'' \<notin> set c"
  shows "clean_stack rooted (clean_step rooted st c)"
proof -
  have "clean_stack rooted (butlast st)"
    using assms(1) by (auto simp: clean_stack_def dest: in_set_butlastD)
  moreover have "last st = ''..'' \<Longrightarrow> st \<noteq> [] \<Longrightarrow> \<not> rooted"
    using assms(1) last_in_set [of st] by (fastforce simp: clean_stack_def plain_def)
  ultimately show ?thesis
    using assms by (auto simp: clean_step_def clean_stack_def plain_def)
qed

lemma foldl_clean_stack:
  "clean_stack r st \<Longrightarrow> \<forall>c \<in> set cs. CHR ''/'' \<notin> set c \<Longrightarrow>
     clean_stack r (foldl (clean_step r) st cs)"
  by (induction cs arbitrary: st) (simp_all add: clean_step_stack)

lemma clean_parts_stack: "clean_stack (filepath_IsAbs p) (clean_parts p)"
  unfolding clean_parts_def
  by (rule foldl_clean_stack) (auto simp: clean_stack_def dest: strings_Split_no_sep)

lemma clean_stack_parts: "clean_stack r st \<Longrightarrow> c \<in> set st \<Longrightarrow> c \<noteq> [] \<and> CHR ''/'' \<notin> set c \<and> c \<noteq> ''.''"
  by (fastforce simp: clean_stack_def plain_def)

text \<open>Joined components: the text starts with the first, and tells the components.\<close>

lemma strings_Join_hd: "ps \<noteq> [] \<Longrightarrow> \<exists>t. strings_Join ps sep = hd ps @ t"
  by (cases "(ps, sep)" rule: strings_Join.cases) auto

lemma strings_Join_head:
  assumes "\<forall>c \<in> set ps. CHR ''/'' \<notin> set c \<and> c \<noteq> []"
  shows "\<not> prefix ''/'' (strings_Join ps ''/'')" "strings_Join ps ''/'' = [] \<longleftrightarrow> ps = []"
proof -
  have "\<not> prefix ''/'' (strings_Join ps ''/'') \<and> (strings_Join ps ''/'' = [] \<longleftrightarrow> ps = [])"
  proof (cases ps)
    case (Cons p qs)
    then obtain t where "strings_Join ps ''/'' = p @ t"
      using strings_Join_hd [of ps "''/''"] by auto
    with assms Cons show ?thesis
      by (cases p) auto
  qed simp
  then show "\<not> prefix ''/'' (strings_Join ps ''/'')" "strings_Join ps ''/'' = [] \<longleftrightarrow> ps = []"
    by blast+
qed

lemma filepath_IsAbs_unparts:
  assumes "clean_stack r ps"
  shows "filepath_IsAbs (unparts r ps) = r"
proof -
  have "\<not> prefix ''/'' (strings_Join ps ''/'')"
    by (rule strings_Join_head) (use assms clean_stack_parts in blast)
  then show ?thesis
    by (simp add: unparts_def filepath_IsAbs_def)
qed

lemma clean_parts_unparts:
  assumes "clean_stack r ps" "\<not> r \<Longrightarrow> \<forall>c \<in> set ps. plain c"
  shows "clean_parts (unparts r ps) = ps"
proof -
  have plain: "\<forall>c \<in> set ps. plain c"
    using assms by (cases r) (auto simp: clean_stack_def)
  have push: "foldl (clean_step b) st qs = st @ qs" if "\<forall>c \<in> set qs. plain c" for b st qs
    using that by (induction qs arbitrary: st) (auto simp: clean_step_def plain_def)
  have "strings_Split (strings_Join ps ''/'') (CHR ''/'') = ps" if "ps \<noteq> []"
    using that plain by (intro strings_Split_Join) (auto simp: plain_def)
  then have "foldl (clean_step b) [] (strings_Split (strings_Join ps ''/'') (CHR ''/'')) = ps" for b
    using push [OF plain, of b "[]"] by (cases "ps = []") (simp_all add: clean_step_def)
  then show ?thesis
    unfolding clean_parts_def filepath_IsAbs_unparts [OF assms(1)]
    by (auto simp: unparts_def clean_step_def)
qed

section \<open>Joining a base and a plain name\<close>

lemma clean_parts_Join:
  assumes "base \<noteq> []" "plain v"
  shows "clean_parts (base @ ''/'' @ v) = clean_parts base @ [v]"
    "filepath_IsAbs (base @ ''/'' @ v) = filepath_IsAbs base"
proof -
  show abs: "filepath_IsAbs (base @ ''/'' @ v) = filepath_IsAbs base"
    using assms(1) by (cases base) (auto simp: filepath_IsAbs_def)
  have "strings_Split (base @ ''/'' @ v) (CHR ''/'') = strings_Split base (CHR ''/'') @ [v]"
    using assms(2) by (simp add: strings_Split_append strings_Split_single plain_def)
  then show "clean_parts (base @ ''/'' @ v) = clean_parts base @ [v]"
    using assms(2) abs by (simp add: clean_parts_def clean_step_def plain_def)
qed

lemma filepath_Join_plain:
  assumes "base \<noteq> []" "plain v"
  shows "filepath_Join [base, v] = unparts (filepath_IsAbs base) (clean_parts base @ [v])"
  using assms clean_parts_Join [OF assms]
  by (simp add: filepath_Join_def filepath_Clean_def plain_def)

lemma filepath_Join_plain2:
  assumes "base \<noteq> []" "plain v" "plain w"
  shows "filepath_Join [base, v, w] = unparts (filepath_IsAbs base) (clean_parts base @ [v, w])"
proof -
  have ne: "base @ ''/'' @ v \<noteq> []" by simp
  show ?thesis
    using assms clean_parts_Join [OF ne assms(3)] clean_parts_Join [OF assms(1,2)]
    by (simp add: filepath_Join_def filepath_Clean_def plain_def)
qed

lemma filepath_Join_plain_inj:
  assumes "base \<noteq> []" "plain v" "plain w" "filepath_Join [base, v] = filepath_Join [base, w]"
  shows "v = w"
proof -
  have parts: "\<forall>c \<in> set (clean_parts base @ [u]). CHR ''/'' \<notin> set c" if "plain u" for u
    using that clean_stack_parts [OF clean_parts_stack] by (auto simp: plain_def)
  have "strings_Join (clean_parts base @ [v]) ''/'' = strings_Join (clean_parts base @ [w]) ''/''"
    using assms by (simp add: filepath_Join_plain unparts_def split: if_splits)
  then have "clean_parts base @ [v] = clean_parts base @ [w]"
    by (rule strings_Join_inj) (use parts assms(2,3) in auto)
  then show ?thesis by simp
qed

lemma clean_parts_trailing:
  assumes "p \<noteq> []"
  shows "clean_parts (p @ ''/'') = clean_parts p"
proof -
  have "strings_Split (p @ ''/'') (CHR ''/'') = strings_Split p (CHR ''/'') @ [[]]"
    using strings_Split_append [of p "CHR ''/''" "[]"] by simp
  moreover have "filepath_IsAbs (p @ ''/'') = filepath_IsAbs p"
    using assms by (cases p) (auto simp: filepath_IsAbs_def)
  ultimately show ?thesis
    by (simp add: clean_parts_def clean_step_def)
qed

lemma filepath_Dir_Join:
  assumes "filepath_IsAbs base" "plain v"
  shows "filepath_Dir (filepath_Join [base, v]) = filepath_Clean base"
proof -
  have base: "base \<noteq> []" using assms(1) by (auto simp: filepath_IsAbs_def)
  let ?ps = "clean_parts base"
  have st: "clean_stack True ?ps"
    using clean_parts_stack [of base] assms(1) by simp
  have fresh: "CHR ''/'' \<notin> set v" using assms(2) by (simp add: plain_def)
  have drop: "rev (dropWhile (\<lambda>c. c \<noteq> CHR ''/'') (rev (a @ ''/'' @ v))) = a @ ''/''" for a
  proof -
    have "dropWhile (\<lambda>c. c \<noteq> CHR ''/'') (rev v @ ''/'' @ rev a) = ''/'' @ rev a"
      using fresh by (subst dropWhile_append2) auto
    then show ?thesis by simp
  qed
  show ?thesis
  proof (cases "?ps = []")
    case True
    have "filepath_Join [base, v] = [] @ ''/'' @ v"
      using assms base True by (simp add: filepath_Join_plain unparts_def)
    then have "filepath_Dir (filepath_Join [base, v]) = filepath_Clean ''/''"
      using drop [of "[]"] by (simp add: filepath_Dir_def)
    also have "\<dots> = ''/''"
      by code_simp
    finally show ?thesis
      using assms(1) True by (simp add: filepath_Clean_def unparts_def)
  next
    case False
    have "filepath_Join [base, v] = unparts True ?ps @ ''/'' @ v"
      using assms base False by (simp add: filepath_Join_plain unparts_def strings_Join_append)
    then have "filepath_Dir (filepath_Join [base, v]) = filepath_Clean (unparts True ?ps @ ''/'')"
      using drop by (simp add: filepath_Dir_def)
    also have "\<dots> = unparts True ?ps"
      using clean_parts_trailing [of "unparts True ?ps"] clean_parts_unparts [OF st]
      by (simp add: filepath_Clean_def) (simp add: unparts_def filepath_IsAbs_def)
    finally show ?thesis
      using assms(1) by (simp add: filepath_Clean_def)
  qed
qed

lemma filepath_Join_shape:
  assumes "filepath_IsAbs base" "plain v"
  shows "\<exists>a. filepath_Join [base, v] = a @ ''/'' @ v"
proof -
  have "base \<noteq> []" using assms(1) by (auto simp: filepath_IsAbs_def)
  with assms show ?thesis
    by (cases "clean_parts base = []") (auto simp: filepath_Join_plain unparts_def strings_Join_append)
qed

lemma filepath_Clean_idem:
  assumes "filepath_IsAbs p"
  shows "filepath_Clean (filepath_Clean p) = filepath_Clean p" "filepath_IsAbs (filepath_Clean p)"
proof -
  have st: "clean_stack True (clean_parts p)"
    using clean_parts_stack [of p] assms by simp
  show "filepath_IsAbs (filepath_Clean p)"
    using filepath_IsAbs_unparts [OF st] assms by (simp add: filepath_Clean_def)
  then show "filepath_Clean (filepath_Clean p) = filepath_Clean p"
    using clean_parts_unparts [OF st] assms by (simp add: filepath_Clean_def)
qed

lemma filepath_Join_IsAbs:
  "filepath_IsAbs base \<Longrightarrow> plain v \<Longrightarrow> filepath_IsAbs (filepath_Join [base, v])"
  by (cases base) (auto simp: filepath_Join_plain filepath_IsAbs_def unparts_def)

lemma filepath_Join_clean:
  assumes "filepath_IsAbs base" "plain v"
  shows "filepath_Clean (filepath_Join [base, v]) = filepath_Join [base, v]"
    "filepath_Join [filepath_Clean base, v] = filepath_Join [base, v]"
proof -
  have base: "base \<noteq> []" using assms(1) by (auto simp: filepath_IsAbs_def)
  have Join: "filepath_Join [base, v] = filepath_Clean (base @ ''/'' @ v)"
    using base assms(2) by (simp add: filepath_Join_def plain_def)
  have "filepath_IsAbs (base @ ''/'' @ v)"
    using assms clean_parts_Join(2) base by simp
  then show "filepath_Clean (filepath_Join [base, v]) = filepath_Join [base, v]"
    unfolding Join by (rule filepath_Clean_idem)
  have "clean_parts (filepath_Clean base) = clean_parts base"
    unfolding filepath_Clean_def using assms(1) clean_parts_stack [of base]
    by (intro clean_parts_unparts) simp_all
  moreover have "filepath_Clean base \<noteq> []" "filepath_IsAbs (filepath_Clean base)"
    using filepath_Clean_idem(2) [OF assms(1)] by (auto simp: filepath_IsAbs_def)
  ultimately show "filepath_Join [filepath_Clean base, v] = filepath_Join [base, v]"
    using assms base by (simp add: filepath_Join_plain)
qed

section \<open>Joining several names\<close>

text \<open>Joining plain names one after the other below a base.\<close>

lemma filepath_Join_plains:
  "base \<noteq> [] \<Longrightarrow> \<forall>v \<in> set vs. plain v \<Longrightarrow>
     filepath_Join (base # vs) = unparts (filepath_IsAbs base) (clean_parts base @ vs)"
proof (induction vs arbitrary: base)
  case Nil
  then show ?case by (simp add: filepath_Join_def filepath_Clean_def)
next
  case (Cons v vs)
  have ne: "base @ ''/'' @ v \<noteq> []" by simp
  have "filepath_Join (base # v # vs) = filepath_Join ((base @ ''/'' @ v) # vs)"
    using Cons.prems by (cases vs) (simp_all add: filepath_Join_def)
  also have "\<dots> = unparts (filepath_IsAbs (base @ ''/'' @ v)) (clean_parts (base @ ''/'' @ v) @ vs)"
    using Cons.IH [OF ne] Cons.prems(2) by simp
  finally show ?case
    using clean_parts_Join [OF Cons.prems(1), of v] Cons.prems(2) by simp
qed

lemma clean_parts_unparts_abs:
  assumes "filepath_IsAbs root" "\<forall>v \<in> set vs. plain v"
  shows "clean_parts (unparts True (clean_parts root @ vs)) = clean_parts root @ vs"
    "filepath_IsAbs (unparts True (clean_parts root @ vs))"
proof -
  have st: "clean_stack True (clean_parts root @ vs)"
    using assms clean_parts_stack [of root] by (auto simp: clean_stack_def)
  show "clean_parts (unparts True (clean_parts root @ vs)) = clean_parts root @ vs"
    using clean_parts_unparts [OF st] by simp
  show "filepath_IsAbs (unparts True (clean_parts root @ vs))"
    using filepath_IsAbs_unparts [OF st] by simp
qed

lemma Join_chain:
  assumes "filepath_IsAbs root" "\<forall>v \<in> set vs. plain v" "\<forall>v \<in> set ws. plain v"
  shows "filepath_Join (unparts True (clean_parts root @ vs) # ws) = unparts True (clean_parts root @ vs @ ws)"
proof -
  note p = clean_parts_unparts_abs [OF assms(1,2)]
  have "unparts True (clean_parts root @ vs) \<noteq> []" using p(2) by (auto simp: filepath_IsAbs_def)
  then show ?thesis
    using filepath_Join_plains assms(3) p by simp
qed

lemma unparts_append:
  "xs \<noteq> [] \<Longrightarrow> unparts True (xs @ [v]) = unparts True xs @ ''/'' @ v"
  by (simp add: unparts_def strings_Join_append)

lemma unparts_abs_nonempty [simp]: "unparts True xs \<noteq> []" "filepath_IsAbs (unparts True xs)"
  by (simp_all add: unparts_def filepath_IsAbs_def)

end
