(* ===== verification/Fs.thy ===== *)
theory Fs
  imports Errors Paths "HOL-Library.AList"
begin

text \<open>
  The file-system calls of package \<open>os\<close> the source makes, on a tree of files and directories keyed
  by cleaned path (an association list, so listings compute), without links. Any call may fail: the
  field \<open>fault\<close> gives, per call, an error text and, for a write, how many bytes reach the file all the
  same; \<open>tick\<close> counts the calls and \<open>rand\<close> is the source of random names. Modes are kept. The
  lemmas say what each call leaves at every path.
\<close>

datatype node = File nat string | Dir nat

record fs =
  nodes :: "(string \<times> node) list"
  tick :: nat
  fault :: "nat \<Rightarrow> (string \<times> nat option) option"
  rand :: "nat \<Rightarrow> nat"

text \<open>The root and the working directory always exist.\<close>

definition node_at :: "fs \<Rightarrow> string \<Rightarrow> node option" where
  "node_at w p =
     (let q = filepath_Clean p in
      if q = ''/'' \<or> q = ''.'' then Some (Dir 493) else map_of (nodes w) q)"

definition put_node :: "string \<Rightarrow> node \<Rightarrow> fs \<Rightarrow> fs" where
  "put_node p n w = w\<lparr>nodes := AList.update (filepath_Clean p) n (nodes w)\<rparr>"

definition del_node :: "string \<Rightarrow> fs \<Rightarrow> fs" where
  "del_node p w = w\<lparr>nodes := AList.delete (filepath_Clean p) (nodes w)\<rparr>"

definition step :: "fs \<Rightarrow> fs" where
  "step w = w\<lparr>tick := Suc (tick w)\<rparr>"

definition fault_now :: "fs \<Rightarrow> (string \<times> nat option) option" where
  "fault_now w = fault w (tick w)"

text \<open>A call: it takes one tick, and a fault without partial effect ends it.\<close>

definition syscall :: "fs \<Rightarrow> (fs \<Rightarrow> fs \<times> 'r result) \<Rightarrow> fs \<times> 'r result" where
  "syscall w f =
     (case fault_now w of
        Some (msg, _) \<Rightarrow> (step w, Inl (OtherError msg))
      | None \<Rightarrow> f (step w))"

definition is_dir :: "fs \<Rightarrow> string \<Rightarrow> bool" where
  "is_dir w p = (case node_at w p of Some (Dir _) \<Rightarrow> True | _ \<Rightarrow> False)"

definition os_Stat :: "fs \<Rightarrow> string \<Rightarrow> fs \<times> node result" where
  "os_Stat w p = syscall w (\<lambda>w'. (w', case node_at w p of None \<Rightarrow> Inl (OsNotExist p) | Some n \<Rightarrow> Inr n))"

definition os_ReadFile :: "fs \<Rightarrow> string \<Rightarrow> fs \<times> string result" where
  "os_ReadFile w p = syscall w (\<lambda>w'. (w',
     case node_at w p of
       None \<Rightarrow> Inl (OsNotExist p)
     | Some (Dir _) \<Rightarrow> Inl (OtherError ''is a directory'')
     | Some (File _ c) \<Rightarrow> Inr c))"

text \<open>Why a file cannot be opened for writing, if it cannot.\<close>

definition open_error :: "fs \<Rightarrow> string \<Rightarrow> err option" where
  "open_error w p =
     (if is_dir w p then Some (OtherError ''is a directory'')
      else if is_dir w (filepath_Dir p) then None
      else if node_at w (filepath_Dir p) = None then Some (OsNotExist p)
      else Some (OtherError ''not a directory''))"

text \<open>The mode given is that of a new file only.\<close>

definition file_mode :: "fs \<Rightarrow> string \<Rightarrow> nat \<Rightarrow> nat" where
  "file_mode w p perm = (case node_at w p of Some (File m _) \<Rightarrow> m | _ \<Rightarrow> perm)"

definition os_WriteFile :: "fs \<Rightarrow> string \<Rightarrow> string \<Rightarrow> nat \<Rightarrow> fs \<times> err option" where
  "os_WriteFile w p data perm =
     (case open_error w p of
        Some e \<Rightarrow> (step w, Some e)
      | None \<Rightarrow>
          (case fault_now w of
             None \<Rightarrow> (put_node p (File (file_mode w p perm) data) (step w), None)
           | Some (msg, None) \<Rightarrow> (step w, Some (OtherError msg))
           | Some (msg, Some n) \<Rightarrow>
               (put_node p (File (file_mode w p perm) (take n data)) (step w), Some (OtherError msg))))"

definition children :: "fs \<Rightarrow> string \<Rightarrow> (string \<times> node) list" where
  "children w p =
     map (\<lambda>(q, n). (rev (takeWhile (\<lambda>c. c \<noteq> CHR ''/'') (rev q)), n))
       (filter (\<lambda>(q, n). filepath_Dir q = filepath_Clean p) (nodes w))"

definition os_Remove :: "fs \<Rightarrow> string \<Rightarrow> fs \<times> err option" where
  "os_Remove w p =
     (case syscall w (\<lambda>w'. (case node_at w p of
          None \<Rightarrow> (w', Inl (OsNotExist p))
        | Some (File _ _) \<Rightarrow> (del_node p w', Inr ())
        | Some (Dir _) \<Rightarrow>
            (if children w p = [] then (del_node p w', Inr ())
             else (w', Inl (OtherError ''directory not empty''))))) of
        (w', Inl e) \<Rightarrow> (w', Some e)
      | (w', Inr _) \<Rightarrow> (w', None))"

definition os_ReadDir :: "fs \<Rightarrow> string \<Rightarrow> fs \<times> (string \<times> node) list result" where
  "os_ReadDir w p = syscall w (\<lambda>w'. (w',
     case node_at w p of
       None \<Rightarrow> Inl (OsNotExist p)
     | Some (File _ _) \<Rightarrow> Inl (OtherError ''not a directory'')
     | Some (Dir _) \<Rightarrow> Inr (sort_key fst (children w p))))"

definition os_Mkdir :: "fs \<Rightarrow> string \<Rightarrow> nat \<Rightarrow> fs \<times> err option" where
  "os_Mkdir w p perm =
     (case fault_now w of
        Some (msg, _) \<Rightarrow> (step w, Some (OtherError msg))
      | None \<Rightarrow>
          (if node_at w p \<noteq> None then (step w, Some (OtherError ''file exists''))
           else (case open_error w p of
                   Some e \<Rightarrow> (step w, Some e)
                 | None \<Rightarrow> (put_node p (Dir perm) (step w), None))))"

text \<open>
  \<open>os.MkdirAll\<close>, from the outermost directory inwards; a failed \<open>Mkdir\<close> of a directory that is
  there after all is no error.
\<close>

definition mkdir_one :: "fs \<Rightarrow> string \<Rightarrow> nat \<Rightarrow> fs \<times> err option" where
  "mkdir_one w q perm =
     (case os_Stat w q of
        (w1, Inr (Dir _)) \<Rightarrow> (w1, None)
      | (w1, Inr (File _ _)) \<Rightarrow> (w1, Some (OtherError ''not a directory''))
      | (w1, Inl _) \<Rightarrow>
          (case os_Mkdir w1 q perm of
             (w2, None) \<Rightarrow> (w2, None)
           | (w2, Some e) \<Rightarrow>
               (case os_Stat w2 q of
                  (w3, Inr (Dir _)) \<Rightarrow> (w3, None)
                | (w3, _) \<Rightarrow> (w3, Some e))))"

fun mkdir_loop :: "fs \<Rightarrow> string list \<Rightarrow> nat \<Rightarrow> fs \<times> err option" where
  "mkdir_loop w [] perm = (w, None)"
| "mkdir_loop w (q # qs) perm =
     (case mkdir_one w q perm of
        (w', Some e) \<Rightarrow> (w', Some e)
      | (w', None) \<Rightarrow> mkdir_loop w' qs perm)"

definition ancestors :: "string \<Rightarrow> string list" where
  "ancestors p =
     (let ps = clean_parts p in
      map (\<lambda>i. unparts (filepath_IsAbs p) (take i ps)) [1 ..< Suc (length ps)])"

definition os_MkdirAll :: "fs \<Rightarrow> string \<Rightarrow> nat \<Rightarrow> fs \<times> err option" where
  "os_MkdirAll w p perm = mkdir_loop w (ancestors p) perm"

section \<open>What a call leaves\<close>

lemma step_simps [simp]:
  "nodes (step w) = nodes w" "node_at (step w) p = node_at w p"
proof -
  show nodes: "nodes (step w) = nodes w" by (simp add: step_def)
  show "node_at (step w) p = node_at w p" unfolding node_at_def nodes ..
qed

lemma syscall_cases:
  assumes "syscall w f = (w', r)"
  obtains (fault) msg where "w' = step w" "r = Inl (OtherError msg)"
  | (run) "f (step w) = (w', r)"
  using assms by (auto simp: syscall_def split: option.splits prod.splits)

text \<open>A path that is neither the root nor the working directory.\<close>

definition proper :: "string \<Rightarrow> bool" where
  "proper p \<longleftrightarrow> filepath_Clean p \<noteq> ''/'' \<and> filepath_Clean p \<noteq> ''.''"

lemma node_at_put [simp]:
  "proper p \<Longrightarrow> node_at (put_node p n w) q = (if filepath_Clean q = filepath_Clean p then Some n else node_at w q)"
  by (simp add: node_at_def put_node_def proper_def Let_def update_conv')

lemma node_at_del [simp]:
  "proper p \<Longrightarrow> node_at (del_node p w) q = (if filepath_Clean q = filepath_Clean p then None else node_at w q)"
  by (simp add: node_at_def del_node_def proper_def Let_def delete_conv')

lemma node_at_cong: "filepath_Clean p = filepath_Clean q \<Longrightarrow> node_at w p = node_at w q"
  by (simp add: node_at_def)

section \<open>What lies directly below a directory\<close>

definition below :: "string \<Rightarrow> fs \<Rightarrow> (string \<times> node) list" where
  "below D w = filter (\<lambda>(q, n). filepath_Dir q = filepath_Clean D) (nodes w)"

lemma below_step [simp]: "below D (step w) = below D w"
  by (simp add: below_def)

lemma filter_update_other:
  "\<not> P k \<Longrightarrow> filter (\<lambda>(q, n). P q) (AList.update k v xs) = filter (\<lambda>(q, n). P q) xs"
  by (induction xs) auto

lemma filter_update_same:
  "P k \<Longrightarrow> filter (\<lambda>(q, n). P q) (AList.update k v xs) = AList.update k v (filter (\<lambda>(q, n). P q) xs)"
  by (induction xs) auto

lemma filter_delete:
  "filter (\<lambda>(q, n). P q) (AList.delete k xs) = AList.delete k (filter (\<lambda>(q, n). P q) xs)"
  by (induction xs) auto

lemma below_put_other:
  "filepath_Dir (filepath_Clean p) \<noteq> filepath_Clean D \<Longrightarrow> below D (put_node p n w) = below D w"
  by (simp add: below_def put_node_def filter_update_other)

text \<open>The path of a plain name below an absolute directory.\<close>

lemma Join_proper:
  assumes "filepath_IsAbs D" "plain v"
  shows "proper (filepath_Join [D, v])"
proof -
  obtain a where "filepath_Join [D, v] = a @ ''/'' @ v"
    using filepath_Join_shape [OF assms] by blast
  then show ?thesis
    using assms filepath_Join_clean(1) [OF assms] by (cases a) (auto simp: proper_def plain_def)
qed

lemma below_put:
  assumes "filepath_IsAbs D" "plain v"
  shows "below D (put_node (filepath_Join [D, v]) n w) = AList.update (filepath_Join [D, v]) n (below D w)"
  using filepath_Dir_Join [OF assms] filepath_Join_clean(1) [OF assms]
  by (simp add: below_def put_node_def filter_update_same)

lemma below_del:
  assumes "filepath_IsAbs D" "plain v"
  shows "below D (del_node (filepath_Join [D, v]) w) = AList.delete (filepath_Join [D, v]) (below D w)"
  using filepath_Join_clean(1) [OF assms] by (simp add: below_def del_node_def filter_delete)

lemma map_of_filter_key: "P k \<Longrightarrow> map_of (filter (\<lambda>(q, n). P q) xs) k = map_of xs k"
  by (induction xs) auto

lemma node_at_below:
  assumes "filepath_IsAbs D" "plain v"
  shows "node_at w (filepath_Join [D, v]) = map_of (below D w) (filepath_Join [D, v])"
  using Join_proper [OF assms] filepath_Dir_Join [OF assms] filepath_Join_clean(1) [OF assms]
  by (simp add: node_at_def below_def proper_def map_of_filter_key)

lemma children_below:
  "children w D = map (\<lambda>(q, n). (rev (takeWhile (\<lambda>c. c \<noteq> CHR ''/'') (rev q)), n)) (below D w)"
  by (simp add: children_def below_def)

lemma base_Join:
  assumes "filepath_IsAbs D" "plain v"
  shows "rev (takeWhile (\<lambda>c. c \<noteq> CHR ''/'') (rev (filepath_Join [D, v]))) = v"
proof -
  obtain a where "filepath_Join [D, v] = a @ ''/'' @ v"
    using filepath_Join_shape [OF assms] by blast
  moreover have "takeWhile (\<lambda>c. c \<noteq> CHR ''/'') (rev v @ ''/'' @ rev a) = rev v"
    using assms(2) by (subst takeWhile_append2) (auto simp: plain_def)
  ultimately show ?thesis by simp
qed

section \<open>Creating a directory leaves what is below it\<close>

lemma syscall_state:
  assumes "syscall w f = (w', r)" "\<And>w1 r1. f (step w) = (w1, r1) \<Longrightarrow> w1 = step w"
  shows "w' = step w"
  using assms by (auto elim: syscall_cases)

lemma os_Stat_below [simp]: "below D (fst (os_Stat w p)) = below D w"
  by (simp add: os_Stat_def syscall_def split: option.split)

lemma os_Mkdir_below:
  "filepath_Dir (filepath_Clean q) \<noteq> filepath_Clean D \<Longrightarrow> below D (fst (os_Mkdir w q perm)) = below D w"
  by (simp add: os_Mkdir_def below_put_other split: option.split)

lemma mkdir_one_below:
  assumes "filepath_Dir (filepath_Clean q) \<noteq> filepath_Clean D"
  shows "below D (fst (mkdir_one w q perm)) = below D w"
proof -
  obtain w1 r1 where 1: "os_Stat w q = (w1, r1)" by (cases "os_Stat w q")
  obtain w2 r2 where 2: "os_Mkdir w1 q perm = (w2, r2)" by (cases "os_Mkdir w1 q perm")
  obtain w3 r3 where 3: "os_Stat w2 q = (w3, r3)" by (cases "os_Stat w2 q")
  have "below D w1 = below D w" "below D w2 = below D w1" "below D w3 = below D w2"
    using os_Stat_below [of D w q] os_Mkdir_below [OF assms, of w1 perm] os_Stat_below [of D w2 q] 1 2 3
    by simp_all
  with 1 2 3 show ?thesis
    by (simp add: mkdir_one_def split: sum.split node.split option.split)
qed

lemma mkdir_loop_below:
  assumes "\<And>q. q \<in> set qs \<Longrightarrow> filepath_Dir (filepath_Clean q) \<noteq> filepath_Clean D"
  shows "below D (fst (mkdir_loop w qs perm)) = below D w"
  using assms
proof (induction qs arbitrary: w)
  case (Cons q qs)
  obtain w1 r1 where 1: "mkdir_one w q perm = (w1, r1)" by (cases "mkdir_one w q perm")
  with mkdir_one_below [of q D w perm] Cons show ?case
    by (simp split: option.split)
qed simp

lemma ancestors_above:
  assumes "filepath_IsAbs D" "q \<in> set (ancestors D)"
  shows "filepath_Dir (filepath_Clean q) \<noteq> filepath_Clean D"
proof -
  let ?ps = "clean_parts D"
  have st: "clean_stack True ?ps"
    using clean_parts_stack [of D] assms(1) by simp
  from assms(2) obtain i where q: "q = unparts (filepath_IsAbs D) (take i ?ps)" "0 < i" "i \<le> length ?ps"
    by (auto simp: ancestors_def Let_def simp del: upt_Suc)
  then obtain j where i: "i = Suc j" "j < length ?ps" by (cases i) auto
  let ?up = "unparts True (take j ?ps)"
  have sub: "clean_stack True (take j ?ps)"
    using st by (auto simp: clean_stack_def dest: in_set_takeD)
  have up: "filepath_IsAbs ?up" "clean_parts ?up = take j ?ps"
    using filepath_IsAbs_unparts [OF sub] clean_parts_unparts [OF sub] by simp_all
  have nth: "plain (?ps ! j)"
    using st i by (simp add: clean_stack_def)
  have "?up \<noteq> []" using up(1) by (auto simp: filepath_IsAbs_def)
  then have "q = filepath_Join [?up, ?ps ! j]"
    using q i up nth assms(1) by (simp add: filepath_Join_plain take_Suc_conv_app_nth)
  then have "filepath_Dir (filepath_Clean q) = filepath_Clean ?up"
    using filepath_Dir_Join [OF up(1) nth] filepath_Join_clean(1) [OF up(1) nth] by simp
  moreover have "filepath_Clean ?up \<noteq> filepath_Clean D"
  proof
    assume eq: "filepath_Clean ?up = filepath_Clean D"
    have "unparts True (take j ?ps) = unparts True ?ps"
      using eq up assms(1) by (simp add: filepath_Clean_def)
    then have "take j ?ps = ?ps"
      using clean_parts_unparts [OF sub] clean_parts_unparts [OF st] by simp
    with i show False by (metis length_take min_less_iff_conj less_irrefl)
  qed
  ultimately show ?thesis by simp
qed

lemma os_MkdirAll_below:
  "filepath_IsAbs D \<Longrightarrow> below D (fst (os_MkdirAll w D perm)) = below D w"
  unfolding os_MkdirAll_def by (rule mkdir_loop_below) (rule ancestors_above)

end
