(* ===== verification/Env.thy ===== *)
theory Env
  imports Errors Paths
begin

text \<open>
  What the source reads of the process environment through package \<open>os\<close>: \<open>os.UserHomeDir\<close>,
  \<open>os.UserConfigDir\<close> and \<open>os.UserCacheDir\<close> as functions of the operating system name and of
  \<open>os.Getenv\<close>, and the predicate \<open>os.IsNotExist\<close>.
\<close>

type_synonym getenv = "string \<Rightarrow> string"

text \<open>A prompt function (\<open>promptFunc\<close>) takes the prompt text, given as the pieces of its \<open>fmt.Sprintf\<close>.\<close>

type_synonym promptFunc = "piece list \<Rightarrow> string result"

definition os_IsNotExist :: "err \<Rightarrow> bool" where
  "os_IsNotExist e = (case e of OsNotExist _ \<Rightarrow> True | _ \<Rightarrow> False)"

definition dollar :: "string \<Rightarrow> string" where
  "dollar v = CHR 0x24 # v"

definition os_UserHomeDir :: "string \<Rightarrow> getenv \<Rightarrow> string result" where
  "os_UserHomeDir goos env =
     (let v = (if goos = ''windows'' then ''USERPROFILE'' else ''HOME'') in
      if env v \<noteq> '''' then Inr (env v)
      else Inl (OtherError ((if goos = ''windows'' then ''%userprofile%'' else dollar ''HOME'') @ '' is not defined'')))"

text \<open>
  The XDG variables count on Unix other than macOS; a relative one is an error. \<open>sub\<close> is the default
  below the home directory.
\<close>

definition os_xdg_dir :: "getenv \<Rightarrow> string \<Rightarrow> string \<Rightarrow> string result" where
  "os_xdg_dir env xdg sub =
     (if env xdg = '''' then
        (if env ''HOME'' = '''' then
           Inl (OtherError (''neither '' @ dollar xdg @ '' nor '' @ dollar ''HOME are defined''))
         else Inr (env ''HOME'' @ sub))
      else if \<not> filepath_IsAbs (env xdg) then
        Inl (OtherError (''path in '' @ dollar xdg @ '' is relative''))
      else Inr (env xdg))"

definition os_known_dir :: "string \<Rightarrow> getenv \<Rightarrow> string \<Rightarrow> string \<Rightarrow> string \<Rightarrow> string \<Rightarrow> string result" where
  "os_known_dir goos env win mac xdg sub =
     (if goos = ''windows'' then
        (if env win = '''' then Inl (OtherError (''%'' @ win @ ''% is not defined'')) else Inr (env win))
      else if goos = ''darwin'' then
        (if env ''HOME'' = '''' then Inl (OtherError (dollar ''HOME is not defined''))
         else Inr (env ''HOME'' @ mac))
      else os_xdg_dir env xdg sub)"

definition os_UserConfigDir :: "string \<Rightarrow> getenv \<Rightarrow> string result" where
  "os_UserConfigDir goos env =
     os_known_dir goos env ''AppData'' ''/Library/Application Support'' ''XDG_CONFIG_HOME'' ''/.config''"

definition os_UserCacheDir :: "string \<Rightarrow> getenv \<Rightarrow> string result" where
  "os_UserCacheDir goos env =
     os_known_dir goos env ''LocalAppData'' ''/Library/Caches'' ''XDG_CACHE_HOME'' ''/.cache''"

end
