(* ===== verification/FileBackend.thy ===== *)
theory FileBackend
  imports OsBackend Fs Env
begin

text \<open>
  The encrypted-file keyring of the static Unix builds: \<open>filebackend_nocgo_unix.go\<close>,
  \<open>filebackend_format.go\<close> and \<open>filebackend_format_nocgo_unix.go\<close> of \<open>credstore\<close>. One file per item
  in a directory, its name the percent-encoded item key, its content an encrypted token. The JSON
  encoding and the third-party encryption and percent encoding are the fields of the parameter
  \<open>codec\<close>; \<open>codec_ok\<close> states what the backend relies on: what was encrypted under a password decrypts
  under it, the data bytes survive the JSON encoding, an item key's file name is a plain name that
  decodes to the key. The world is the file system of the backend's record.
\<close>

section \<open>The file format\<close>

record persistedKeyringItem =
  pi_Key :: string
  pi_Data :: string
  pi_Label :: string
  pi_Description :: string
  pi_KeychainNotTrustApplication :: bool
  pi_KeychainNotSynchronizable :: bool

text \<open>\<open>jose_Encrypt\<close> takes the payload, the password, and the randomness of the call.\<close>

record codec =
  json_Marshal :: "persistedKeyringItem \<Rightarrow> string result"
  json_Unmarshal :: "string \<Rightarrow> persistedKeyringItem result"
  jose_Encrypt :: "nat \<Rightarrow> string \<Rightarrow> string \<Rightarrow> string result"
  jose_Decode :: "string \<Rightarrow> string \<Rightarrow> string result"
  percent_Encode :: "string \<Rightarrow> string \<Rightarrow> string"
  percent_Decode :: "string \<Rightarrow> string"

definition encodeFileKeyringItem :: "codec \<Rightarrow> nat \<Rightarrow> keyringItem \<Rightarrow> string \<Rightarrow> string result" where
  "encodeFileKeyringItem cd rnd it password =
     (case json_Marshal cd \<lparr>pi_Key = ki_key it, pi_Data = ki_data it, pi_Label = ki_label it,
         pi_Description = ki_description it,
         pi_KeychainNotTrustApplication = keychainNotTrustApplication it,
         pi_KeychainNotSynchronizable = keychainNotSynchronizable it\<rparr> of
        Inl e \<Rightarrow> Inl e
      | Inr bytes \<Rightarrow> jose_Encrypt cd rnd bytes password)"

definition fileKeyringFilename :: "codec \<Rightarrow> string \<Rightarrow> string" where
  "fileKeyringFilename cd itemKey = percent_Encode cd itemKey ''/''"

definition decodeFileKeyringItem :: "codec \<Rightarrow> string \<Rightarrow> string \<Rightarrow> keyringItem result" where
  "decodeFileKeyringItem cd token password =
     (case jose_Decode cd token password of
        Inl e \<Rightarrow> Inl e
      | Inr payload \<Rightarrow>
          (case json_Unmarshal cd payload of
             Inl e \<Rightarrow> Inl e
           | Inr decoded \<Rightarrow> Inr (keyringItem_zero\<lparr>ki_key := pi_Key decoded, ki_data := pi_Data decoded\<rparr>)))"

section \<open>The backend\<close>

record fileKeyringBackend =
  fb_dir :: string
  fb_passwordFunc :: "promptFunc option"
  fb_password :: string
  fb_fs :: fs

definition expandTilde :: "getenv \<Rightarrow> string \<Rightarrow> string result" where
  "expandTilde env dir =
     (if prefix ''~/'' dir then
        (case os_UserHomeDir ''linux'' env of
           Inl e \<Rightarrow> Inl e
         | Inr home \<Rightarrow> Inr (home @ drop 1 dir))
      else Inr dir)"

definition resolveDir :: "getenv \<Rightarrow> fileKeyringBackend \<Rightarrow> fileKeyringBackend \<times> string result" where
  "resolveDir env b =
     (if fb_dir b = '''' then (b, Inl (Errorf [Lit ''No directory provided for file keyring'']))
      else
        (case expandTilde env (fb_dir b) of
           Inl e \<Rightarrow> (b, Inl e)
         | Inr dir \<Rightarrow>
             (case os_Stat (fb_fs b) dir of
                (w, Inl e) \<Rightarrow>
                  (if os_IsNotExist e then
                     (case os_MkdirAll w dir 448 of
                        (w', None) \<Rightarrow> (b\<lparr>fb_fs := w'\<rparr>, Inr dir)
                      | (w', Some e') \<Rightarrow> (b\<lparr>fb_fs := w'\<rparr>, Inl e'))
                   else (b\<lparr>fb_fs := w\<rparr>, Inl e))
              | (w, Inr (Dir _)) \<Rightarrow> (b\<lparr>fb_fs := w\<rparr>, Inr dir)
              | (w, Inr (File _ _)) \<Rightarrow>
                  (b\<lparr>fb_fs := w\<rparr>, Inl (Errorf [Lit dir, Lit '' is a file, not a directory''])))))"

definition file_prompt :: "fileKeyringBackend \<Rightarrow> piece list" where
  "file_prompt b = [Lit ''Enter passphrase to unlock '', Quoted (fb_dir b)]"

definition unlock :: "getenv \<Rightarrow> fileKeyringBackend \<Rightarrow> fileKeyringBackend \<times> err option" where
  "unlock env b =
     (case resolveDir env b of
        (b1, Inl e) \<Rightarrow> (b1, Some e)
      | (b1, Inr _) \<Rightarrow>
          (if fb_password b1 \<noteq> '''' then (b1, None)
           else
             (case fb_passwordFunc b1 of
                None \<Rightarrow> (b1, Some (Sentinel ErrFilePassphraseRequired))
              | Some f \<Rightarrow>
                  (case f (file_prompt b1) of
                     Inl e \<Rightarrow> (b1, Some e)
                   | Inr pwd \<Rightarrow> (b1\<lparr>fb_password := pwd\<rparr>, None)))))"

definition filename :: "codec \<Rightarrow> getenv \<Rightarrow> fileKeyringBackend \<Rightarrow> string \<Rightarrow> fileKeyringBackend \<times> string result" where
  "filename cd env b itemKey =
     (case resolveDir env b of
        (b1, Inl e) \<Rightarrow> (b1, Inl e)
      | (b1, Inr dir) \<Rightarrow> (b1, Inr (filepath_Join [dir, fileKeyringFilename cd itemKey])))"

definition file_get :: "codec \<Rightarrow> getenv \<Rightarrow> fileKeyringBackend \<Rightarrow> string \<Rightarrow> fileKeyringBackend \<times> keyringItem result" where
  "file_get cd env b itemKey =
     (case filename cd env b itemKey of
        (b1, Inl e) \<Rightarrow> (b1, Inl e)
      | (b1, Inr name) \<Rightarrow>
          (case os_ReadFile (fb_fs b1) name of
             (w, Inl e) \<Rightarrow>
               (b1\<lparr>fb_fs := w\<rparr>, Inl (if os_IsNotExist e then Sentinel errKeyringItemNotFound else e))
           | (w, Inr bytes) \<Rightarrow>
               (case unlock env (b1\<lparr>fb_fs := w\<rparr>) of
                  (b2, Some e) \<Rightarrow> (b2, Inl e)
                | (b2, None) \<Rightarrow> (b2, decodeFileKeyringItem cd bytes (fb_password b2)))))"

definition file_metadata :: "codec \<Rightarrow> getenv \<Rightarrow> fileKeyringBackend \<Rightarrow> string \<Rightarrow> fileKeyringBackend \<times> keyringItem result" where
  "file_metadata cd env b itemKey =
     (case filename cd env b itemKey of
        (b1, Inl e) \<Rightarrow> (b1, Inl e)
      | (b1, Inr name) \<Rightarrow>
          (case os_Stat (fb_fs b1) name of
             (w, Inl e) \<Rightarrow>
               (b1\<lparr>fb_fs := w\<rparr>, Inl (if os_IsNotExist e then Sentinel errKeyringItemNotFound else e))
           | (w, Inr _) \<Rightarrow> (b1\<lparr>fb_fs := w\<rparr>, Inr (keyringItem_zero\<lparr>ki_key := itemKey\<rparr>))))"

definition file_set :: "codec \<Rightarrow> getenv \<Rightarrow> fileKeyringBackend \<Rightarrow> keyringItem \<Rightarrow> fileKeyringBackend \<times> err option" where
  "file_set cd env b it =
     (case unlock env b of
        (b1, Some e) \<Rightarrow> (b1, Some e)
      | (b1, None) \<Rightarrow>
          (case encodeFileKeyringItem cd (rand (fb_fs b1) (tick (fb_fs b1))) it (fb_password b1) of
             Inl e \<Rightarrow> (b1, Some e)
           | Inr token \<Rightarrow>
               (case filename cd env b1 (ki_key it) of
                  (b2, Inl e) \<Rightarrow> (b2, Some e)
                | (b2, Inr name) \<Rightarrow>
                    (case os_WriteFile (fb_fs b2) name token 384 of
                       (w, r) \<Rightarrow> (b2\<lparr>fb_fs := w\<rparr>, r)))))"

definition file_remove :: "codec \<Rightarrow> getenv \<Rightarrow> fileKeyringBackend \<Rightarrow> string \<Rightarrow> fileKeyringBackend \<times> err option" where
  "file_remove cd env b itemKey =
     (case filename cd env b itemKey of
        (b1, Inl e) \<Rightarrow> (b1, Some e)
      | (b1, Inr name) \<Rightarrow>
          (case os_Remove (fb_fs b1) name of
             (w, Some e) \<Rightarrow>
               (b1\<lparr>fb_fs := w\<rparr>, Some (if os_IsNotExist e then Sentinel errKeyringItemNotFound else e))
           | (w, None) \<Rightarrow> (b1\<lparr>fb_fs := w\<rparr>, None)))"

fun file_keys_loop :: "codec \<Rightarrow> (string \<times> node) list \<Rightarrow> string list \<Rightarrow> string list" where
  "file_keys_loop cd [] ks = ks"
| "file_keys_loop cd ((v, Dir _) # fs) ks = file_keys_loop cd fs ks"
| "file_keys_loop cd ((v, File _ _) # fs) ks = file_keys_loop cd fs (ks @ [percent_Decode cd v])"

definition file_keys :: "codec \<Rightarrow> getenv \<Rightarrow> fileKeyringBackend \<Rightarrow> fileKeyringBackend \<times> string list result" where
  "file_keys cd env b =
     (case resolveDir env b of
        (b1, Inl e) \<Rightarrow> (b1, Inl e)
      | (b1, Inr dir) \<Rightarrow>
          (case os_ReadDir (fb_fs b1) dir of
             (w, Inl e) \<Rightarrow> (b1\<lparr>fb_fs := w\<rparr>, Inl e)
           | (w, Inr files) \<Rightarrow> (b1\<lparr>fb_fs := w\<rparr>, Inr (file_keys_loop cd files []))))"

definition file_ops :: "codec \<Rightarrow> getenv \<Rightarrow> fileKeyringBackend keyringBackend" where
  "file_ops cd env =
     \<lparr>kr_get = file_get cd env, kr_metadata = file_metadata cd env, kr_set = file_set cd env,
      kr_remove = file_remove cd env, kr_keys = file_keys cd env\<rparr>"

section \<open>What the backend holds\<close>

text \<open>The password in use: the one kept, else what the prompt gives.\<close>

definition eff_password :: "fileKeyringBackend \<Rightarrow> string" where
  "eff_password b =
     (if fb_password b \<noteq> '''' then fb_password b
      else (case fb_passwordFunc b of
              None \<Rightarrow> ''''
            | Some f \<Rightarrow> (case f (file_prompt b) of Inl _ \<Rightarrow> '''' | Inr pwd \<Rightarrow> pwd)))"

definition base_dir :: "getenv \<Rightarrow> fileKeyringBackend \<Rightarrow> string" where
  "base_dir env b = (case expandTilde env (fb_dir b) of Inl _ \<Rightarrow> '''' | Inr d \<Rightarrow> d)"

text \<open>Keys whose file name is one path component and tells the key.\<close>

definition nameable :: "codec \<Rightarrow> string \<Rightarrow> bool" where
  "nameable cd i \<longleftrightarrow> plain (fileKeyringFilename cd i) \<and> percent_Decode cd (fileKeyringFilename cd i) = i"

definition item_path :: "codec \<Rightarrow> getenv \<Rightarrow> fileKeyringBackend \<Rightarrow> string \<Rightarrow> string" where
  "item_path cd env b i = filepath_Join [base_dir env b, fileKeyringFilename cd i]"

text \<open>An item whose token the password does not open counts as empty; reading it is an error.\<close>

definition token_data :: "codec \<Rightarrow> string \<Rightarrow> string \<Rightarrow> string" where
  "token_data cd pw token =
     (case decodeFileKeyringItem cd token pw of Inl _ \<Rightarrow> '''' | Inr it \<Rightarrow> ki_data it)"

definition node_data :: "codec \<Rightarrow> string \<Rightarrow> node \<Rightarrow> string option" where
  "node_data cd pw n = (case n of File _ token \<Rightarrow> Some (token_data cd pw token) | Dir _ \<Rightarrow> None)"

definition file_view :: "codec \<Rightarrow> getenv \<Rightarrow> fileKeyringBackend \<Rightarrow> kvmap" where
  "file_view cd env b i =
     (if nameable cd i then
        Option.bind (node_at (fb_fs b) (item_path cd env b i)) (node_data cd (eff_password b))
      else None)"

definition foreign_error :: "err \<Rightarrow> bool" where
  "foreign_error e \<longleftrightarrow> own_error e \<and> \<not> errors_Is e errKeyringItemNotFound"

text \<open>What is relied on of the codec.\<close>

definition codec_ok :: "codec \<Rightarrow> bool" where
  "codec_ok cd \<longleftrightarrow>
     (\<forall>p s. json_Marshal cd p = Inr s \<longrightarrow>
        (\<exists>p'. json_Unmarshal cd s = Inr p' \<and> pi_Data p' = pi_Data p)) \<and>
     (\<forall>rnd s pw tok. jose_Encrypt cd rnd s pw = Inr tok \<longrightarrow> jose_Decode cd tok pw = Inr s) \<and>
     (\<forall>p e. json_Marshal cd p = Inl e \<longrightarrow> foreign_error e) \<and>
     (\<forall>s e. json_Unmarshal cd s = Inl e \<longrightarrow> foreign_error e) \<and>
     (\<forall>rnd s pw e. jose_Encrypt cd rnd s pw = Inl e \<longrightarrow> foreign_error e) \<and>
     (\<forall>tok pw e. jose_Decode cd tok pw = Inl e \<longrightarrow> foreign_error e) \<and>
     (\<forall>i. is_item_key i \<longrightarrow> nameable cd i)"

text \<open>
  The directory holds items only: every entry is a file whose name is the name of a key, and no path
  is listed twice. Nothing is asked when the directory does not exist yet.
\<close>

definition dir_ok :: "codec \<Rightarrow> string \<Rightarrow> fs \<Rightarrow> bool" where
  "dir_ok cd D w \<longleftrightarrow>
     distinct (map fst (below D w)) \<and>
     (\<forall>(q, n) \<in> set (below D w). \<exists>i m token. nameable cd i \<and>
        q = filepath_Join [D, fileKeyringFilename cd i] \<and> n = File m token)"

definition prompt_ok :: "fileKeyringBackend \<Rightarrow> bool" where
  "prompt_ok b \<longleftrightarrow> (\<forall>f ps e. fb_passwordFunc b = Some f \<longrightarrow> f ps = Inl e \<longrightarrow> foreign_error e)"

definition file_good :: "codec \<Rightarrow> getenv \<Rightarrow> fileKeyringBackend \<Rightarrow> bool" where
  "file_good cd env b \<longleftrightarrow>
     codec_ok cd \<and> prompt_ok b \<and> filepath_IsAbs (base_dir env b) \<and>
     dir_ok cd (base_dir env b) (fb_fs b)"

section \<open>The file system calls at the directory\<close>

text \<open>
  A step that leaves everything below the directory, the prompt and the password in use, as it was:
  the relation the read-only parts of the methods stay in.
\<close>

definition quiet :: "getenv \<Rightarrow> fileKeyringBackend \<Rightarrow> fileKeyringBackend \<Rightarrow> bool" where
  "quiet env b b' \<longleftrightarrow>
     fb_dir b' = fb_dir b \<and> fb_passwordFunc b' = fb_passwordFunc b \<and> eff_password b' = eff_password b \<and>
     below (base_dir env b) (fb_fs b') = below (base_dir env b) (fb_fs b)"

lemma quiet_refl [simp, intro]: "quiet env b b"
  by (simp add: quiet_def)

lemma quiet_base: "quiet env b b' \<Longrightarrow> base_dir env b' = base_dir env b"
  by (simp add: quiet_def base_dir_def)

lemma quiet_trans: "quiet env b b1 \<Longrightarrow> quiet env b1 b2 \<Longrightarrow> quiet env b b2"
  by (auto simp: quiet_def base_dir_def)

lemma quiet_fs:
  "below (base_dir env b) w = below (base_dir env b) (fb_fs b) \<Longrightarrow> quiet env b (b\<lparr>fb_fs := w\<rparr>)"
  by (simp add: quiet_def eff_password_def file_prompt_def split: option.split sum.split)

lemma file_view_below:
  assumes "filepath_IsAbs (base_dir env b)"
  shows "file_view cd env b i =
    (if nameable cd i then
       Option.bind (map_of (below (base_dir env b) (fb_fs b)) (item_path cd env b i))
         (node_data cd (eff_password b))
     else None)"
  using node_at_below [OF assms] by (simp add: file_view_def item_path_def nameable_def)

lemma quiet_view:
  assumes "quiet env b b'" "filepath_IsAbs (base_dir env b)"
  shows "file_view cd env b' = file_view cd env b"
proof
  fix i
  have "base_dir env b' = base_dir env b" "eff_password b' = eff_password b"
    "below (base_dir env b) (fb_fs b') = below (base_dir env b) (fb_fs b)"
    using quiet_base [OF assms(1)] assms(1) by (simp_all add: quiet_def)
  then show "file_view cd env b' i = file_view cd env b i"
    using assms(2) by (simp add: file_view_below item_path_def)
qed

lemma quiet_good: "quiet env b b' \<Longrightarrow> file_good cd env b \<Longrightarrow> file_good cd env b'"
  using quiet_base [of env b b'] by (simp add: file_good_def dir_ok_def prompt_ok_def) (simp add: quiet_def)

text \<open>File-system errors are the system's own.\<close>

definition system_error :: "err \<Rightarrow> bool" where
  "system_error e \<longleftrightarrow> (\<exists>m. e = OtherError m \<or> e = OsNotExist m)"

lemma system_foreign [simp]: "system_error e \<Longrightarrow> foreign_error e"
  by (auto simp: system_error_def foreign_error_def own_error_def)

lemma system_errorI [simp, intro]: "system_error (OtherError m)" "system_error (OsNotExist m)"
  by (simp_all add: system_error_def)

lemma os_Stat_error: "os_Stat w p = (w', Inl e) \<Longrightarrow> system_error e"
  by (auto simp: os_Stat_def syscall_def split: option.splits)

lemma open_error_system: "open_error w p = Some e \<Longrightarrow> system_error e"
  by (auto simp: open_error_def split: if_splits)

lemma os_Mkdir_error: "os_Mkdir w p perm = (w', Some e) \<Longrightarrow> system_error e"
  by (auto simp: os_Mkdir_def open_error_system split: option.splits if_splits)

lemma mkdir_one_error: "mkdir_one w q perm = (w', Some e) \<Longrightarrow> system_error e"
  by (auto simp: mkdir_one_def os_Mkdir_error split: prod.splits sum.splits node.splits option.splits)

lemma mkdir_loop_error: "mkdir_loop w qs perm = (w', Some e) \<Longrightarrow> system_error e"
  by (induction w qs perm rule: mkdir_loop.induct)
     (auto simp: mkdir_one_error split: prod.splits option.splits)

lemma os_MkdirAll_error: "os_MkdirAll w p perm = (w', Some e) \<Longrightarrow> system_error e"
  unfolding os_MkdirAll_def by (rule mkdir_loop_error)

lemma foreign_Errorf [simp]: "foreign_error (Errorf ps)"
  by (simp add: foreign_error_def own_error_def)

lemma foreign_passphrase [simp]: "foreign_error (Sentinel ErrFilePassphraseRequired)"
  by (simp add: foreign_error_def own_error_def)

section \<open>What the helpers leave\<close>

lemma resolveDir_laws:
  assumes "filepath_IsAbs (base_dir env b)" "resolveDir env b = (b', r)"
  shows "quiet env b b' \<and> fb_password b' = fb_password b \<and>
    (case r of Inr d \<Rightarrow> d = base_dir env b | Inl e \<Rightarrow> foreign_error e)"
proof -
  have ne: "fb_dir b \<noteq> ''''"
    using assms(1) by (auto simp: base_dir_def expandTilde_def filepath_IsAbs_def)
  obtain D where D: "expandTilde env (fb_dir b) = Inr D" "base_dir env b = D"
    using assms(1) by (auto simp: base_dir_def filepath_IsAbs_def split: sum.splits)
  obtain w s where st: "os_Stat (fb_fs b) D = (w, s)" by (cases "os_Stat (fb_fs b) D")
  obtain w2 m where mk: "os_MkdirAll w D 448 = (w2, m)" by (cases "os_MkdirAll w D 448")
  have "below D w = below D (fb_fs b)" "below D w2 = below D w"
    using os_Stat_below [of D "fb_fs b" D] os_MkdirAll_below [of D w 448] st mk assms(1) D by simp_all
  then have q: "quiet env b (b\<lparr>fb_fs := w\<rparr>)" "quiet env b (b\<lparr>fb_fs := w2\<rparr>)"
    using D by (auto intro!: quiet_fs)
  have "s = Inl e \<Longrightarrow> foreign_error e" "m = Some e \<Longrightarrow> foreign_error e" for e
    using st mk os_Stat_error os_MkdirAll_error by auto
  with assms(2) ne D st mk q show ?thesis
    by (auto simp: resolveDir_def split: sum.splits if_splits option.splits node.splits)
qed

lemma filename_laws:
  assumes "filepath_IsAbs (base_dir env b)" "filename cd env b i = (b', r)"
  shows "quiet env b b' \<and>
    (case r of Inr p \<Rightarrow> p = item_path cd env b i | Inl e \<Rightarrow> foreign_error e)"
  using assms resolveDir_laws [OF assms(1)]
  by (auto simp: filename_def item_path_def split: prod.splits sum.splits)

lemma unlock_laws:
  assumes "filepath_IsAbs (base_dir env b)" "prompt_ok b" "unlock env b = (b', r)"
  shows "quiet env b b' \<and>
    (case r of None \<Rightarrow> fb_password b' = eff_password b | Some e \<Rightarrow> foreign_error e)"
proof -
  obtain b1 d where rd: "resolveDir env b = (b1, d)" by (cases "resolveDir env b")
  note dir = resolveDir_laws [OF assms(1) rd]
  from dir have q: "quiet env b b1" and pw: "fb_password b1 = fb_password b" by simp_all
  from q have pf: "fb_passwordFunc b1 = fb_passwordFunc b" "file_prompt b1 = file_prompt b"
    by (simp_all add: quiet_def file_prompt_def)
  show ?thesis
  proof (cases "\<exists>pwd f. d = Inr (base_dir env b) \<and> fb_password b = '''' \<and>
      fb_passwordFunc b = Some f \<and> f (file_prompt b) = Inr pwd")
    case True
    then obtain pwd f where p: "d = Inr (base_dir env b)" "fb_password b = ''''"
      "fb_passwordFunc b = Some f" "f (file_prompt b) = Inr pwd" by blast
    have e: "eff_password b = pwd" using p by (simp add: eff_password_def)
    have r: "b' = b1\<lparr>fb_password := pwd\<rparr>" "r = None"
      using assms(3) rd p pw pf by (simp_all add: unlock_def)
    have fp: "file_prompt (b1\<lparr>fb_password := pwd\<rparr>) = file_prompt b"
      using pf by (simp add: file_prompt_def)
    have "eff_password b' = pwd"
      using r p pf fp by (cases "pwd = []") (simp_all add: eff_password_def)
    with q r e show ?thesis by (simp add: quiet_def)
  next
    case False
    with assms(2,3) rd dir q pw pf show ?thesis
      by (auto simp: unlock_def prompt_ok_def eff_password_def split: sum.splits option.splits if_splits)
  qed
qed

section \<open>Reads, writes and removals of one file\<close>

lemma os_ReadFile_laws:
  assumes "os_ReadFile w p = (w', r)"
  shows "below D w' = below D w" "r = Inr c \<Longrightarrow> \<exists>m. node_at w p = Some (File m c)"
    "r = Inl e \<Longrightarrow> system_error e \<and> (os_IsNotExist e \<longrightarrow> node_at w p = None)"
  using assms
  by (auto simp: os_ReadFile_def syscall_def os_IsNotExist_def split: option.splits node.splits)

lemma os_Stat_laws:
  assumes "os_Stat w p = (w', r)"
  shows "below D w' = below D w" "r = Inr n \<Longrightarrow> node_at w p = Some n"
    "r = Inl e \<Longrightarrow> system_error e \<and> (os_IsNotExist e \<longrightarrow> node_at w p = None)"
  using assms by (auto simp: os_Stat_def syscall_def os_IsNotExist_def split: option.splits)

lemma os_WriteFile_laws:
  assumes "os_WriteFile w p data perm = (w', r)"
  shows "r = None \<Longrightarrow> \<exists>m. w' = put_node p (File m data) (step w)"
    "r = Some e \<Longrightarrow> system_error e \<and> (w' = step w \<or> (\<exists>m c. w' = put_node p (File m c) (step w)))"
  using assms by (auto simp: os_WriteFile_def open_error_system split: option.splits) blast

lemma os_Remove_laws:
  assumes "os_Remove w p = (w', r)" "\<forall>k. node_at w p \<noteq> Some (Dir k)"
  shows "r = None \<Longrightarrow> w' = del_node p (step w) \<and> node_at w p \<noteq> None"
    "r = Some e \<Longrightarrow> system_error e \<and> w' = step w \<and> (os_IsNotExist e \<longrightarrow> node_at w p = None)"
  using assms
  by (auto simp: os_Remove_def syscall_def os_IsNotExist_def
      split: option.splits node.splits prod.splits sum.splits if_splits)

section \<open>The view after a change of one file\<close>

lemma item_path_inj:
  assumes "filepath_IsAbs (base_dir env b)" "nameable cd i" "nameable cd j"
    "item_path cd env b i = item_path cd env b j"
  shows "i = j"
proof -
  have "base_dir env b \<noteq> []" using assms(1) by (auto simp: filepath_IsAbs_def)
  then have "fileKeyringFilename cd i = fileKeyringFilename cd j"
    using assms filepath_Join_plain_inj by (auto simp: item_path_def nameable_def)
  then show ?thesis using assms(2,3) by (metis nameable_def)
qed

text \<open>Two backends that differ in what lies below the directory only.\<close>

definition moved :: "getenv \<Rightarrow> fileKeyringBackend \<Rightarrow> fileKeyringBackend \<Rightarrow> (string \<times> node) list \<Rightarrow> bool" where
  "moved env b b' ns \<longleftrightarrow>
     fb_dir b' = fb_dir b \<and> fb_passwordFunc b' = fb_passwordFunc b \<and> eff_password b' = eff_password b \<and>
     below (base_dir env b) (fb_fs b') = ns"

lemma moved_fs: "moved env b (b\<lparr>fb_fs := w\<rparr>) (below (base_dir env b) w)"
  by (simp add: moved_def eff_password_def file_prompt_def split: option.split sum.split)

lemma moved_base: "moved env b b' ns \<Longrightarrow> base_dir env b' = base_dir env b"
  by (simp add: moved_def base_dir_def)

lemma moved_view:
  assumes "moved env b b' ns" "filepath_IsAbs (base_dir env b)"
  shows "file_view cd env b' j =
    (if nameable cd j then
       Option.bind (map_of ns (item_path cd env b j)) (node_data cd (eff_password b))
     else None)"
  using assms moved_base [OF assms(1)]
  by (simp add: file_view_below item_path_def) (simp add: moved_def)

lemma set_update_cases: "(q, n) \<in> set (AList.update k v xs) \<Longrightarrow> (q, n) \<in> set xs \<or> (q = k \<and> n = v)"
  by (induction xs) (auto split: if_splits)

lemma set_delete_subset: "set (AList.delete k xs) \<subseteq> set xs"
  by (auto simp: AList.delete_eq)

lemma put_laws:
  assumes "file_good cd env b" "nameable cd i"
    "moved env b b' (AList.update (item_path cd env b i) (File m c) (below (base_dir env b) (fb_fs b)))"
  shows "file_good cd env b' \<and> file_view cd env b' = (file_view cd env b)(i \<mapsto> token_data cd (eff_password b) c)"
proof
  note base = moved_base [OF assms(3)]
  have abs: "filepath_IsAbs (base_dir env b)" using assms(1) by (simp add: file_good_def)
  have ns: "below (base_dir env b) (fb_fs b') =
      AList.update (item_path cd env b i) (File m c) (below (base_dir env b) (fb_fs b))"
    using assms(3) by (simp add: moved_def)
  have "dir_ok cd (base_dir env b) (fb_fs b')"
  proof -
    have "(q, n) \<in> set (below (base_dir env b) (fb_fs b')) \<Longrightarrow>
        (q, n) \<in> set (below (base_dir env b) (fb_fs b)) \<or> (q = item_path cd env b i \<and> n = File m c)" for q n
      unfolding ns by (rule set_update_cases)
    then show ?thesis
      using assms(1,2) ns
      by (fastforce simp: dir_ok_def file_good_def distinct_update item_path_def)
  qed
  then show "file_good cd env b'"
    using assms(1,3) base by (simp add: file_good_def prompt_ok_def) (simp add: moved_def)
  show "file_view cd env b' = (file_view cd env b)(i \<mapsto> token_data cd (eff_password b) c)"
  proof
    fix j
    show "file_view cd env b' j = ((file_view cd env b)(i \<mapsto> token_data cd (eff_password b) c)) j"
      using moved_view [OF assms(3) abs, of cd j] item_path_inj [OF abs assms(2), of j] assms(2)
      by (auto simp: file_view_below [OF abs] update_conv' node_data_def)
  qed
qed

lemma del_laws:
  assumes "file_good cd env b" "nameable cd i"
    "moved env b b' (AList.delete (item_path cd env b i) (below (base_dir env b) (fb_fs b)))"
  shows "file_good cd env b' \<and> file_view cd env b' = (file_view cd env b)(i := None)"
proof
  note base = moved_base [OF assms(3)]
  have abs: "filepath_IsAbs (base_dir env b)" using assms(1) by (simp add: file_good_def)
  have ns: "below (base_dir env b) (fb_fs b') =
      AList.delete (item_path cd env b i) (below (base_dir env b) (fb_fs b))"
    using assms(3) by (simp add: moved_def)
  have "dir_ok cd (base_dir env b) (fb_fs b')"
    using assms(1) set_delete_subset [of "item_path cd env b i" "below (base_dir env b) (fb_fs b)"]
    by (auto simp: dir_ok_def file_good_def ns distinct_delete)
  then show "file_good cd env b'"
    using assms(1,3) base by (simp add: file_good_def prompt_ok_def) (simp add: moved_def)
  show "file_view cd env b' = (file_view cd env b)(i := None)"
  proof
    fix j
    show "file_view cd env b' j = ((file_view cd env b)(i := None)) j"
      using moved_view [OF assms(3) abs, of cd j] item_path_inj [OF abs assms(2), of j] assms(2)
      by (auto simp: file_view_below [OF abs] delete_conv')
  qed
qed

section \<open>The operations\<close>

lemma quiet_keeps:
  "quiet env b b' \<Longrightarrow> file_good cd env b \<Longrightarrow> file_good cd env b' \<and> file_view cd env b' = file_view cd env b"
  using quiet_good quiet_view by (auto simp: file_good_def)

lemma usable_nameable:
  "file_good cd env b \<Longrightarrow> usable (file_view cd env) b i \<Longrightarrow> nameable cd i"
  by (auto simp: usable_def file_good_def codec_ok_def file_view_def split: if_splits)

text \<open>The entry of a key is a file or nothing.\<close>

lemma entry_cases:
  assumes "file_good cd env b" "nameable cd i"
  obtains (none) "node_at (fb_fs b) (item_path cd env b i) = None" "file_view cd env b i = None"
  | (some) m token where "node_at (fb_fs b) (item_path cd env b i) = Some (File m token)"
      "file_view cd env b i = Some (token_data cd (eff_password b) token)"
proof -
  have at: "node_at (fb_fs b) (item_path cd env b i) =
      map_of (below (base_dir env b) (fb_fs b)) (item_path cd env b i)"
    using assms node_at_below by (simp add: item_path_def file_good_def nameable_def)
  have "node_at (fb_fs b) (item_path cd env b i) = Some n \<Longrightarrow> \<exists>m token. n = File m token" for n
    using assms(1) unfolding at by (auto simp: file_good_def dir_ok_def dest!: map_of_SomeD)
  then show ?thesis
    using assms(2) none some
    by (cases "node_at (fb_fs b) (item_path cd env b i)") (fastforce simp: file_view_def node_data_def)+
qed

lemma quiet_path: "quiet env b b' \<Longrightarrow> item_path cd env b' i = item_path cd env b i"
  by (simp add: item_path_def quiet_base)

lemma file_get_laws:
  assumes "file_good cd env b" "nameable cd i" "file_get cd env b i = (b', r)"
  shows "quiet env b b'"
    "r = Inr it \<Longrightarrow> file_view cd env b i = Some (ki_data it)"
    "r = Inl e \<Longrightarrow> own_error e \<and> (errors_Is e errKeyringItemNotFound \<longrightarrow> file_view cd env b i = None)"
proof -
  have abs: "filepath_IsAbs (base_dir env b)" using assms(1) by (simp add: file_good_def)
  obtain b1 p where fn: "filename cd env b i = (b1, p)" by (cases "filename cd env b i")
  note n = filename_laws [OF abs fn]
  have g1: "file_good cd env b1" "file_view cd env b1 = file_view cd env b"
    using quiet_keeps n assms(1) by auto
  obtain w rd where rf: "os_ReadFile (fb_fs b1) (item_path cd env b i) = (w, rd)"
    by (cases "os_ReadFile (fb_fs b1) (item_path cd env b i)")
  note R = os_ReadFile_laws [OF rf]
  have q1: "quiet env b1 (b1\<lparr>fb_fs := w\<rparr>)"
    by (rule quiet_fs) (rule R(1))
  have q: "quiet env b (b1\<lparr>fb_fs := w\<rparr>)"
    using n q1 quiet_trans by blast
  have abs1: "filepath_IsAbs (base_dir env (b1\<lparr>fb_fs := w\<rparr>))" "prompt_ok (b1\<lparr>fb_fs := w\<rparr>)"
    using quiet_keeps [OF q assms(1)] by (simp_all add: file_good_def)
  obtain b2 u where ul: "unlock env (b1\<lparr>fb_fs := w\<rparr>) = (b2, u)" by (cases "unlock env (b1\<lparr>fb_fs := w\<rparr>)")
  note U = unlock_laws [OF abs1 ul]
  have q2: "quiet env b b2" using q U quiet_trans by blast
  have ep: "eff_password (b1\<lparr>fb_fs := w\<rparr>) = eff_password b" "eff_password b1 = eff_password b"
    using q n by (simp_all add: quiet_def)
  have path: "item_path cd env b1 i = item_path cd env b i" using n quiet_path by blast
  have none: "file_view cd env b i = None" if "node_at (fb_fs b1) (item_path cd env b i) = None"
    using that entry_cases [OF g1(1) assms(2)] g1(2) path by auto
  have some: "file_view cd env b i = Some (token_data cd (eff_password b) t)"
    if "node_at (fb_fs b1) (item_path cd env b i) = Some (File m t)" for m t
    using that entry_cases [OF g1(1) assms(2)] g1(2) path ep by fastforce
  have dec: "decodeFileKeyringItem cd t pw = Inl e \<Longrightarrow> foreign_error e" for t pw e
    using assms(1) by (auto simp: decodeFileKeyringItem_def file_good_def codec_ok_def split: sum.splits)
  have all: "quiet env b b' \<and> (\<forall>it. r = Inr it \<longrightarrow> file_view cd env b i = Some (ki_data it)) \<and>
    (\<forall>e. r = Inl e \<longrightarrow> own_error e \<and> (errors_Is e errKeyringItemNotFound \<longrightarrow> file_view cd env b i = None))"
  proof (cases p)
    case (Inl e)
    with assms(3) fn n show ?thesis by (auto simp: file_get_def foreign_error_def)
  next
    case (Inr path')
    show ?thesis
    proof (cases rd)
      case (Inl e)
      with Inr assms(3) fn n rf R(3) [of e] q none show ?thesis
        by (auto simp: file_get_def own_error_def dest!: system_foreign simp: foreign_error_def split: if_splits)
    next
      case rd: (Inr t)
      obtain m where "node_at (fb_fs b1) (item_path cd env b i) = Some (File m t)"
        using R(2) [OF rd] by blast
      note v = some [OF this]
      show ?thesis
      proof (cases u)
        case None
        with Inr rd assms(3) fn n rf ul U ep have "b' = b2" "r = decodeFileKeyringItem cd t (eff_password b)"
          by (auto simp: file_get_def)
        with v q2 dec show ?thesis
          by (auto simp: token_data_def foreign_error_def)
      next
        case (Some e)
        with Inr rd assms(3) fn n rf ul U q2 show ?thesis
          by (auto simp: file_get_def foreign_error_def)
      qed
    qed
  qed
  from all show "quiet env b b'"
    "r = Inr it \<Longrightarrow> file_view cd env b i = Some (ki_data it)"
    "r = Inl e \<Longrightarrow> own_error e \<and> (errors_Is e errKeyringItemNotFound \<longrightarrow> file_view cd env b i = None)"
    by blast+
qed

lemma file_metadata_laws:
  assumes "file_good cd env b" "nameable cd i" "file_metadata cd env b i = (b', r)"
  shows "quiet env b b'" "r = Inr it \<Longrightarrow> file_view cd env b i \<noteq> None"
    "r = Inl e \<Longrightarrow> errors_Is e errKeyringItemNotFound \<Longrightarrow> file_view cd env b i = None"
proof -
  have abs: "filepath_IsAbs (base_dir env b)" using assms(1) by (simp add: file_good_def)
  obtain b1 p where fn: "filename cd env b i = (b1, p)" by (cases "filename cd env b i")
  note n = filename_laws [OF abs fn]
  have g1: "file_good cd env b1" "file_view cd env b1 = file_view cd env b"
    using quiet_keeps n assms(1) by auto
  obtain w s where st: "os_Stat (fb_fs b1) (item_path cd env b i) = (w, s)"
    by (cases "os_Stat (fb_fs b1) (item_path cd env b i)")
  note S = os_Stat_laws [OF st]
  have "quiet env b1 (b1\<lparr>fb_fs := w\<rparr>)"
    by (rule quiet_fs) (rule S(1))
  then have q: "quiet env b (b1\<lparr>fb_fs := w\<rparr>)"
    using n quiet_trans by blast
  have path: "item_path cd env b1 i = item_path cd env b i" using n quiet_path by blast
  have view: "file_view cd env b i = None \<longleftrightarrow> node_at (fb_fs b1) (item_path cd env b i) = None"
    using entry_cases [OF g1(1) assms(2)] g1(2) path by fastforce
  have all: "quiet env b b' \<and> (\<forall>it. r = Inr it \<longrightarrow> file_view cd env b i \<noteq> None) \<and>
    (\<forall>e. r = Inl e \<longrightarrow> errors_Is e errKeyringItemNotFound \<longrightarrow> file_view cd env b i = None)"
  proof (cases p)
    case (Inl e)
    with assms(3) fn n show ?thesis by (auto simp: file_metadata_def foreign_error_def)
  next
    case (Inr path')
    with assms(3) fn n st S q view show ?thesis
      by (cases s) (auto simp: file_metadata_def foreign_error_def dest!: system_foreign split: if_splits)
  qed
  from all show "quiet env b b'" "r = Inr it \<Longrightarrow> file_view cd env b i \<noteq> None"
    "r = Inl e \<Longrightarrow> errors_Is e errKeyringItemNotFound \<Longrightarrow> file_view cd env b i = None"
    by blast+
qed

lemma moved_quiet:
  assumes "quiet env b b1" "moved env b1 b' ns"
  shows "moved env b b' ns"
  using assms quiet_base [OF assms(1)] by (simp add: moved_def) (simp add: quiet_def)

lemma encode_decode:
  assumes "codec_ok cd" "encodeFileKeyringItem cd rnd it pw = Inr tok"
  shows "token_data cd pw tok = ki_data it"
proof -
  let ?p = "\<lparr>pi_Key = ki_key it, pi_Data = ki_data it, pi_Label = ki_label it,
         pi_Description = ki_description it,
         pi_KeychainNotTrustApplication = keychainNotTrustApplication it,
         pi_KeychainNotSynchronizable = keychainNotSynchronizable it\<rparr>"
  obtain s where s: "json_Marshal cd ?p = Inr s" "jose_Encrypt cd rnd s pw = Inr tok"
    using assms(2) by (auto simp: encodeFileKeyringItem_def split: sum.splits)
  then have "jose_Decode cd tok pw = Inr s"
    using assms(1) unfolding codec_ok_def by blast
  moreover have "\<exists>p'. json_Unmarshal cd s = Inr p' \<and> pi_Data p' = pi_Data ?p"
    using assms(1) s(1) unfolding codec_ok_def by blast
  then obtain p' where "json_Unmarshal cd s = Inr p'" "pi_Data p' = ki_data it"
    by auto
  ultimately show ?thesis
    by (simp add: token_data_def decodeFileKeyringItem_def)
qed

lemma encode_error:
  "codec_ok cd \<Longrightarrow> encodeFileKeyringItem cd rnd it pw = Inl e \<Longrightarrow> foreign_error e"
  by (auto simp: encodeFileKeyringItem_def codec_ok_def split: sum.splits)

lemma below_item:
  assumes "filepath_IsAbs (base_dir env b)" "nameable cd i"
  shows "below (base_dir env b) (put_node (item_path cd env b i) n w) =
      AList.update (item_path cd env b i) n (below (base_dir env b) w)"
    "below (base_dir env b) (del_node (item_path cd env b i) w) =
      AList.delete (item_path cd env b i) (below (base_dir env b) w)"
  using assms below_put below_del by (simp_all add: item_path_def nameable_def)

text \<open>A write of the item's file: done, or failed with any content in that file.\<close>

lemma write_laws:
  assumes "file_good cd env b" "nameable cd i"
    "os_WriteFile (fb_fs b) (item_path cd env b i) token perm = (w, r)"
  shows "case r of
      None \<Rightarrow> file_good cd env (b\<lparr>fb_fs := w\<rparr>) \<and>
        file_view cd env (b\<lparr>fb_fs := w\<rparr>) = (file_view cd env b)(i \<mapsto> token_data cd (eff_password b) token)
    | Some e \<Rightarrow> file_good cd env (b\<lparr>fb_fs := w\<rparr>) \<and> own_error e \<and>
        same_except {i} (file_view cd env b) (file_view cd env (b\<lparr>fb_fs := w\<rparr>))"
proof -
  have abs: "filepath_IsAbs (base_dir env b)" using assms(1) by (simp add: file_good_def)
  have put: "file_good cd env (b\<lparr>fb_fs := w\<rparr>) \<and>
      file_view cd env (b\<lparr>fb_fs := w\<rparr>) = (file_view cd env b)(i \<mapsto> token_data cd (eff_password b) c)"
    if "w = put_node (item_path cd env b i) (File m c) (step (fb_fs b))" for m c
    using put_laws [OF assms(1,2), of "b\<lparr>fb_fs := w\<rparr>" m c] moved_fs [of env b w] that below_item [OF abs assms(2)]
    by simp
  have same: "file_good cd env (b\<lparr>fb_fs := w\<rparr>) \<and> file_view cd env (b\<lparr>fb_fs := w\<rparr>) = file_view cd env b"
    if "w = step (fb_fs b)"
    using quiet_keeps [OF quiet_fs assms(1)] that by simp
  show ?thesis
  proof (cases r)
    case None
    with os_WriteFile_laws(1) [OF assms(3)] put show ?thesis by auto
  next
    case (Some e)
    with os_WriteFile_laws(2) [OF assms(3), of e] system_foreign [of e] put same show ?thesis
      by (auto simp: foreign_error_def)
  qed
qed

lemma file_set_laws:
  assumes "file_good cd env b" "nameable cd (ki_key it)" "file_set cd env b it = (b', r)"
  shows "case r of
      None \<Rightarrow> file_good cd env b' \<and> file_view cd env b' = (file_view cd env b)(ki_key it \<mapsto> ki_data it)
    | Some e \<Rightarrow> file_good cd env b' \<and> own_error e \<and>
        same_except {ki_key it} (file_view cd env b) (file_view cd env b')"
proof -
  have abs: "filepath_IsAbs (base_dir env b)" "prompt_ok b" and cd: "codec_ok cd"
    using assms(1) by (simp_all add: file_good_def)
  obtain b1 u where ul: "unlock env b = (b1, u)" by (cases "unlock env b")
  note U = unlock_laws [OF abs ul]
  have g1: "file_good cd env b1" "file_view cd env b1 = file_view cd env b"
    using U quiet_keeps assms(1) by auto
  show ?thesis
  proof (cases u)
    case (Some e)
    with assms(3) ul U g1 show ?thesis by (auto simp: file_set_def foreign_error_def)
  next
    case None
    with U have pw: "fb_password b1 = eff_password b" by simp
    obtain b2 p where fn: "filename cd env b1 (ki_key it) = (b2, p)" by (cases "filename cd env b1 (ki_key it)")
    note n = filename_laws [OF _ fn]
    have abs1: "filepath_IsAbs (base_dir env b1)" using g1 by (simp add: file_good_def)
    have g2: "file_good cd env b2" "file_view cd env b2 = file_view cd env b" "quiet env b b2"
      using n [OF abs1] quiet_keeps [OF _ g1(1)] g1(2) U quiet_trans by auto
    have ep: "eff_password b2 = eff_password b" using g2(3) by (simp add: quiet_def)
    have path: "item_path cd env b1 (ki_key it) = item_path cd env b2 (ki_key it)"
      using n [OF abs1] quiet_path by metis
    show ?thesis
    proof (cases "encodeFileKeyringItem cd (rand (fb_fs b1) (tick (fb_fs b1))) it (fb_password b1)")
      case (Inl e)
      with None ul assms(3) g1 encode_error [OF cd Inl] show ?thesis
        by (auto simp: file_set_def foreign_error_def)
    next
      case tok: (Inr token)
      have data: "token_data cd (eff_password b2) token = ki_data it"
        using encode_decode [OF cd tok] pw ep by simp
      show ?thesis
      proof (cases p)
        case (Inl e)
        with None ul tok fn assms(3) g2 n [OF abs1] show ?thesis
          by (auto simp: file_set_def foreign_error_def)
      next
        case (Inr name)
        obtain w rw where wr: "os_WriteFile (fb_fs b2) (item_path cd env b2 (ki_key it)) token 384 = (w, rw)"
          by (cases "os_WriteFile (fb_fs b2) (item_path cd env b2 (ki_key it)) token 384")
        from Inr None ul tok fn assms(3) n [OF abs1] wr path have "b' = b2\<lparr>fb_fs := w\<rparr>" "r = rw"
          by (simp_all add: file_set_def)
        with write_laws [OF g2(1) assms(2) wr] g2(2) data show ?thesis by (cases rw) simp_all
      qed
    qed
  qed
qed

lemma file_remove_laws:
  assumes "file_good cd env b" "nameable cd i" "file_remove cd env b i = (b', r)"
  shows "case r of
      None \<Rightarrow> file_good cd env b' \<and> file_view cd env b' = (file_view cd env b)(i := None) \<and>
        file_view cd env b i \<noteq> None
    | Some e \<Rightarrow> file_good cd env b' \<and> file_view cd env b' = file_view cd env b \<and> own_error e \<and>
        (errors_Is e errKeyringItemNotFound \<longrightarrow> file_view cd env b i = None)"
proof -
  have abs: "filepath_IsAbs (base_dir env b)" using assms(1) by (simp add: file_good_def)
  obtain b1 p where fn: "filename cd env b i = (b1, p)" by (cases "filename cd env b i")
  note n = filename_laws [OF abs fn]
  have g1: "file_good cd env b1" "file_view cd env b1 = file_view cd env b"
    using quiet_keeps n assms(1) by auto
  have abs1: "filepath_IsAbs (base_dir env b1)" using g1 by (simp add: file_good_def)
  have path: "item_path cd env b i = item_path cd env b1 i" using n quiet_path by metis
  show ?thesis
  proof (cases p)
    case (Inl e)
    with assms(3) fn n g1 show ?thesis by (auto simp: file_remove_def foreign_error_def)
  next
    case (Inr name)
    obtain w rm where rem: "os_Remove (fb_fs b1) (item_path cd env b1 i) = (w, rm)"
      by (cases "os_Remove (fb_fs b1) (item_path cd env b1 i)")
    have nodir: "\<forall>k. node_at (fb_fs b1) (item_path cd env b1 i) \<noteq> Some (Dir k)"
      and view: "file_view cd env b1 i = None \<longleftrightarrow> node_at (fb_fs b1) (item_path cd env b1 i) = None"
      using entry_cases [OF g1(1) assms(2)] by fastforce+
    note R = os_Remove_laws [OF rem nodir]
    have gone: "file_good cd env (b1\<lparr>fb_fs := w\<rparr>) \<and>
        file_view cd env (b1\<lparr>fb_fs := w\<rparr>) = (file_view cd env b1)(i := None)"
      if "w = del_node (item_path cd env b1 i) (step (fb_fs b1))"
      using del_laws [OF g1(1) assms(2), of "b1\<lparr>fb_fs := w\<rparr>"] moved_fs [of env b1 w] that
        below_item [OF abs1 assms(2)] by simp
    have same: "file_good cd env (b1\<lparr>fb_fs := w\<rparr>) \<and> file_view cd env (b1\<lparr>fb_fs := w\<rparr>) = file_view cd env b1"
      if "w = step (fb_fs b1)"
      using quiet_keeps [OF quiet_fs g1(1)] that by simp
    show ?thesis
    proof (cases rm)
      case None
      with Inr assms(3) fn n rem path R(1) gone view g1(2) show ?thesis by (auto simp: file_remove_def)
    next
      case (Some e)
      with Inr assms(3) fn n rem path R(2) [OF Some] same view g1(2) system_foreign [of e] show ?thesis
        by (auto simp: file_remove_def foreign_error_def own_error_def)
    qed
  qed
qed

section \<open>Listing\<close>

lemma file_keys_loop_app: "file_keys_loop cd fs ks = ks @ file_keys_loop cd fs []"
proof (induction fs arbitrary: ks)
  case (Cons f fs)
  obtain v n where f: "f = (v, n)" by (cases f)
  show ?case
  proof (cases n)
    case (File m t)
    with f Cons.IH [of "ks @ [percent_Decode cd v]"] Cons.IH [of "[percent_Decode cd v]"] show ?thesis
      by simp
  next
    case (Dir m)
    with f Cons.IH [of ks] show ?thesis by simp
  qed
qed simp

lemma file_keys_loop_files:
  "\<forall>(v, n) \<in> set fs. \<exists>m t. n = File m t \<Longrightarrow>
     file_keys_loop cd fs [] = map (\<lambda>(v, n). percent_Decode cd v) fs"
proof (induction fs)
  case (Cons f fs)
  then show ?case
    using file_keys_loop_app [of cd fs "[percent_Decode cd (fst f)]"] by auto
qed simp

text \<open>The key an entry of the directory stands for.\<close>

definition entry_key :: "codec \<Rightarrow> string \<times> node \<Rightarrow> string" where
  "entry_key cd e = percent_Decode cd (rev (takeWhile (\<lambda>c. c \<noteq> CHR ''/'') (rev (fst e))))"

lemma entry_key_path:
  assumes "filepath_IsAbs D" "nameable cd i"
  shows "entry_key cd (filepath_Join [D, fileKeyringFilename cd i], n) = i"
  using base_Join [OF assms(1)] assms(2) by (simp add: entry_key_def nameable_def)

lemma listing_keys:
  assumes "file_good cd env b"
  shows "mset (file_keys_loop cd (sort_key fst (children (fb_fs b) (base_dir env b))) []) =
      mset (map (entry_key cd) (below (base_dir env b) (fb_fs b)))" (is "mset (file_keys_loop cd (sort_key fst ?ch) []) = _")
proof -
  have "\<forall>(v, n) \<in> set (sort_key fst ?ch). \<exists>m t. n = File m t"
    using assms by (auto simp: children_below file_good_def dir_ok_def)
  then have "file_keys_loop cd (sort_key fst ?ch) [] = map (\<lambda>(v, n). percent_Decode cd v) (sort_key fst ?ch)"
    by (rule file_keys_loop_files)
  then have "mset (file_keys_loop cd (sort_key fst ?ch) []) = mset (map (\<lambda>(v, n). percent_Decode cd v) ?ch)"
    by simp
  also have "\<dots> = mset (map (entry_key cd) (below (base_dir env b) (fb_fs b)))"
    by (simp add: children_below entry_key_def [abs_def] split_def image_mset.compositionality comp_def)
  finally show ?thesis .
qed

lemma entry_keys_laws:
  assumes "file_good cd env b"
  shows "distinct (map (entry_key cd) (below (base_dir env b) (fb_fs b)))"
    "set (map (entry_key cd) (below (base_dir env b) (fb_fs b))) = dom (file_view cd env b)"
proof -
  let ?D = "base_dir env b" and ?ns = "below (base_dir env b) (fb_fs b)"
  have abs: "filepath_IsAbs ?D" and ok: "dir_ok cd ?D (fb_fs b)"
    using assms by (simp_all add: file_good_def)
  have entry: "\<exists>i m t. nameable cd i \<and> e = (filepath_Join [?D, fileKeyringFilename cd i], File m t) \<and>
      entry_key cd e = i" if "e \<in> set ?ns" for e
  proof -
    have "case e of (q, n) \<Rightarrow> \<exists>i m token. nameable cd i \<and>
        q = filepath_Join [?D, fileKeyringFilename cd i] \<and> n = File m token"
      using that ok unfolding dir_ok_def by blast
    then show ?thesis
      using entry_key_path [OF abs] by (cases e) blast
  qed
  have "inj_on (entry_key cd) (set ?ns)"
  proof (rule inj_onI)
    fix x y assume *: "x \<in> set ?ns" "y \<in> set ?ns" "entry_key cd x = entry_key cd y"
    then have "fst x = fst y" using entry [of x] entry [of y] by (metis fst_conv)
    with * ok show "x = y"
      by (metis dir_ok_def eq_key_imp_eq_value prod.collapse)
  qed
  then show "distinct (map (entry_key cd) ?ns)"
    using ok by (auto simp: dir_ok_def distinct_map)
  show "set (map (entry_key cd) ?ns) = dom (file_view cd env b)" (is "?L = ?R")
  proof (intro set_eqI iffI)
    fix i assume "i \<in> ?L"
    then obtain e where e: "e \<in> set ?ns" "i = entry_key cd e" by auto
    from entry [OF e(1)] obtain j m t where "nameable cd j"
      "e = (filepath_Join [?D, fileKeyringFilename cd j], File m t)" "entry_key cd e = j"
      by blast
    then have i: "nameable cd i" "e = (item_path cd env b i, File m t)"
      unfolding e(2) item_path_def by simp_all
    have "map_of ?ns (item_path cd env b i) = Some (File m t)"
      using e(1) ok unfolding i(2) by (simp add: dir_ok_def)
    then show "i \<in> ?R" using i(1) by (simp add: file_view_below [OF abs] node_data_def dom_def)
  next
    fix i assume "i \<in> ?R"
    then obtain n where n: "nameable cd i" "map_of ?ns (item_path cd env b i) = Some n"
      by (auto simp: file_view_below [OF abs] dom_def split: if_splits bind_splits)
    then have "(item_path cd env b i, n) \<in> set ?ns" by (auto dest: map_of_SomeD)
    moreover have "entry_key cd (item_path cd env b i, n) = i"
      using entry_key_path [OF abs n(1)] by (simp add: item_path_def)
    ultimately show "i \<in> ?L" by force
  qed
qed

lemma file_keys_laws:
  assumes "file_good cd env b" "file_keys cd env b = (b', r)"
  shows "quiet env b b'" "r = Inr ks \<Longrightarrow> distinct ks \<and> set ks = dom (file_view cd env b)"
proof -
  have abs: "filepath_IsAbs (base_dir env b)" using assms(1) by (simp add: file_good_def)
  obtain b1 d where rd: "resolveDir env b = (b1, d)" by (cases "resolveDir env b")
  note R = resolveDir_laws [OF abs rd]
  have q: "quiet env b b1" using R by simp
  have g1: "file_good cd env b1" "file_view cd env b1 = file_view cd env b" "base_dir env b1 = base_dir env b"
    using quiet_keeps [OF q assms(1)] quiet_base [OF q] by auto
  obtain w l where ls: "os_ReadDir (fb_fs b1) (base_dir env b) = (w, l)"
    by (cases "os_ReadDir (fb_fs b1) (base_dir env b)")
  have w: "below (base_dir env b1) w = below (base_dir env b1) (fb_fs b1)"
    and l: "l = Inr es \<Longrightarrow> es = sort_key fst (children (fb_fs b1) (base_dir env b))" for es
    using ls by (auto simp: os_ReadDir_def syscall_def children_def split: option.splits node.splits)
  have q2: "quiet env b (b1\<lparr>fb_fs := w\<rparr>)"
    using quiet_trans [OF q quiet_fs [OF w]] .
  show "quiet env b b'"
    using assms(2) rd R ls q q2 by (auto simp: file_keys_def split: sum.splits)
  assume ks: "r = Inr ks"
  then have "ks = file_keys_loop cd (sort_key fst (children (fb_fs b1) (base_dir env b1))) []"
    using assms(2) rd R ls l g1(3) by (auto simp: file_keys_def split: sum.splits)
  then have m: "mset ks = mset (map (entry_key cd) (below (base_dir env b1) (fb_fs b1)))"
    using listing_keys [OF g1(1)] by simp
  then have "distinct ks \<longleftrightarrow> distinct (map (entry_key cd) (below (base_dir env b1) (fb_fs b1)))"
    "set ks = set (map (entry_key cd) (below (base_dir env b1) (fb_fs b1)))"
    by (metis mset_eq_imp_distinct_iff) (metis m mset_eq_setD)
  then show "distinct ks \<and> set ks = dom (file_view cd env b)"
    using entry_keys_laws [OF g1(1)] g1(2) by simp
qed

section \<open>The laws of a keyring\<close>

lemma file_ops_simps [simp]:
  "kr_get (file_ops cd env) = file_get cd env" "kr_metadata (file_ops cd env) = file_metadata cd env"
  "kr_set (file_ops cd env) = file_set cd env" "kr_remove (file_ops cd env) = file_remove cd env"
  "kr_keys (file_ops cd env) = file_keys cd env"
  by (simp_all add: file_ops_def)

interpretation filekr: keyring_laws "file_ops cd env" "file_view cd env" "file_good cd env"
  for cd :: codec and env :: getenv
proof (unfold_locales, goal_cases)
  case (1 k i k' r)
  then show ?case using file_get_laws(1) [of cd env k i k' r] usable_nameable quiet_keeps by fastforce
next
  case (2 k i k' it)
  then show ?case using file_get_laws(2) [of cd env k i k' "Inr it" it] usable_nameable by fastforce
next
  case (3 k i k' e)
  then show ?case using file_get_laws(3) [of cd env k i k' "Inl e" e] usable_nameable by fastforce
next
  case (4 k i k' r)
  then show ?case using file_metadata_laws(1) [of cd env k i k' r] usable_nameable quiet_keeps by fastforce
next
  case (5 k i k' it)
  then show ?case using file_metadata_laws(2) [of cd env k i k' "Inr it" it] usable_nameable by fastforce
next
  case (6 k i k' e)
  then show ?case using file_metadata_laws(3) [of cd env k i k' "Inl e" e] usable_nameable by fastforce
next
  case (7 k it k')
  then show ?case using file_set_laws [of cd env k it k' None] usable_nameable by fastforce
next
  case (8 k it k' e)
  then show ?case using file_set_laws [of cd env k it k' "Some e"] usable_nameable by fastforce
next
  case (9 k i k')
  then show ?case using file_remove_laws [of cd env k i k' None] usable_nameable by fastforce
next
  case (10 k i k' e)
  then show ?case using file_remove_laws [of cd env k i k' "Some e"] usable_nameable by fastforce
next
  case (11 k i k' e)
  then show ?case using file_remove_laws [of cd env k i k' "Some e"] usable_nameable by fastforce
next
  case (12 k k' r)
  then show ?case using file_keys_laws(1) [of cd env k k' r] quiet_keeps by fastforce
next
  case (13 k k' ks)
  then show ?case using file_keys_laws(2) [of cd env k k' "Inr ks" ks] by fastforce
qed

end
