(* ===== verification/FileExact.thy ===== *)
theory FileExact
  imports FileBackend StoreSpec
begin

text \<open>
  The file keyring when nothing goes wrong: the directory is there, no system call faults, the codec
  encodes everything, the password can be had and opens every item. Then each method of the keyring
  succeeds unless the item itself is the reason it cannot, the adapter turns that into an exact store
  backend, and a store over encrypted files answers as the abstract store of \<open>StoreSpec\<close> does.
\<close>

section \<open>Exact keyrings\<close>

locale exact_keyring = keyring_laws +
  assumes kget_exact: "kgood k \<Longrightarrow> usable kview k i \<Longrightarrow>
      (case kview k i of
         None \<Rightarrow> snd (kr_get kro k i) = Inl (Sentinel errKeyringItemNotFound)
       | Some v \<Rightarrow> \<exists>it. snd (kr_get kro k i) = Inr it)"
    and kmeta_exact: "kgood k \<Longrightarrow> usable kview k i \<Longrightarrow>
      (case kview k i of
         None \<Rightarrow> snd (kr_metadata kro k i) = Inl (Sentinel errKeyringItemNotFound)
       | Some v \<Rightarrow> \<exists>it. snd (kr_metadata kro k i) = Inr it)"
    and kset_exact: "kgood k \<Longrightarrow> usable kview k (ki_key it) \<Longrightarrow> snd (kr_set kro k it) = None"
    and kremove_exact: "kgood k \<Longrightarrow> usable kview k i \<Longrightarrow>
      snd (kr_remove kro k i) =
        (if kview k i = None then Some (Sentinel errKeyringItemNotFound) else None)"
    and kkeys_exact: "kgood k \<Longrightarrow> \<exists>ks. snd (kr_keys kro k) = Inr ks"
begin

lemma os_set_write_exact:
  "kgood (os_kr b) \<Longrightarrow> usable kview (os_kr b) i \<Longrightarrow> snd (os_set_write kro b i v) = None"
  using kset_exact [of "os_kr b" "keyringItemForWrite (os_service b) i v"]
  by (auto simp: os_defs keyringItemForWrite_def split: prod.splits option.splits)

lemma os_set_exact:
  assumes "kgood (os_kr b)" "usable kview (os_kr b) i"
  shows "snd (os_set kro b i v ow) =
    (if ow \<or> kview (os_kr b) i = None then None else Some (Sentinel ErrExists))"
proof (cases ow)
  case True
  with os_set_write_exact [OF assms] show ?thesis by (simp add: os_set_def)
next
  case False
  obtain k' r where get: "kr_get kro (os_kr b) i = (k', r)" by (cases "kr_get kro (os_kr b) i")
  show ?thesis
  proof (cases "kview (os_kr b) i")
    case None
    have "kgood k'" "kview k' = kview (os_kr b)"
      using kget_keeps [OF assms get] by simp_all
    moreover from None kget_exact [OF assms] get have "r = Inl (Sentinel errKeyringItemNotFound)"
      by simp
    moreover have "usable kview k' i"
      using assms(2) calculation(2) by (simp add: usable_def)
    ultimately show ?thesis
      using False None get os_set_write_exact [of "b\<lparr>os_kr := k'\<rparr>" i v]
      by (simp add: os_set_def on_kr_def)
  next
    case (Some w)
    with False kget_exact [OF assms] get show ?thesis
      by (auto simp: os_set_def on_kr_def)
  qed
qed

end

sublocale exact_keyring \<subseteq> osx: exact_backend "os_ops kro" "os_view kview" "os_good kgood"
proof (unfold_locales, goal_cases)
  case (1 b k)
  then show ?case
    using kget_exact [of "os_kr b" k] kget_value [of "os_kr b" k]
    by (cases "kr_get kro (os_kr b) k") (auto simp: os_defs os_view_def os_good_def split: option.splits)
next
  case (2 b k v ow)
  then show ?case
    using os_set_exact [of b k v ow] by (simp add: os_view_def os_good_def)
next
  case (3 b k)
  then show ?case
    using kremove_exact [of "os_kr b" k]
    by (cases "kr_remove kro (os_kr b) k") (auto simp: os_defs os_view_def os_good_def split: if_splits)
next
  case (4 b k)
  then show ?case
    using kmeta_exact [of "os_kr b" k]
    by (cases "kr_metadata kro (os_kr b) k") (auto simp: os_defs os_view_def os_good_def split: option.splits)
next
  case (5 b)
  then show ?case
    using kkeys_exact [of "os_kr b"]
    by (cases "kr_keys kro (os_kr b)") (auto simp: os_defs os_good_def)
next
  case (6 b)
  then show ?case by (simp add: os_close_def)
qed

section \<open>The file keyring without faults\<close>

definition decodable :: "codec \<Rightarrow> string \<Rightarrow> node \<Rightarrow> bool" where
  "decodable cd pw n = (case n of Dir _ \<Rightarrow> False | File _ token \<Rightarrow> \<not> isl (decodeFileKeyringItem cd token pw))"

definition codec_total :: "codec \<Rightarrow> bool" where
  "codec_total cd \<longleftrightarrow>
     (\<forall>p. \<not> isl (json_Marshal cd p)) \<and> (\<forall>rnd s pw. \<not> isl (jose_Encrypt cd rnd s pw))"

definition unlockable :: "fileKeyringBackend \<Rightarrow> bool" where
  "unlockable b \<longleftrightarrow> fb_password b \<noteq> '''' \<or>
     (case fb_passwordFunc b of None \<Rightarrow> False | Some f \<Rightarrow> \<not> isl (f (file_prompt b)))"

definition file_exact :: "codec \<Rightarrow> getenv \<Rightarrow> fileKeyringBackend \<Rightarrow> bool" where
  "file_exact cd env b \<longleftrightarrow>
     file_good cd env b \<and> codec_total cd \<and> unlockable b \<and>
     fault (fb_fs b) = (\<lambda>_. None) \<and> is_dir (fb_fs b) (base_dir env b) \<and>
     (\<forall>(q, n) \<in> set (below (base_dir env b) (fb_fs b)). decodable cd (eff_password b) n)"

lemma fault_step [simp]: "fault (step w) = fault w" "fault (put_node p n w) = fault w" "fault (del_node p w) = fault w"
  by (simp_all add: step_def put_node_def del_node_def)

lemma is_dir_step [simp]: "is_dir (step w) p = is_dir w p"
  by (simp add: is_dir_def)

lemma eff_password_fs [simp]: "eff_password (b\<lparr>fb_fs := w\<rparr>) = eff_password b"
  by (simp add: eff_password_def file_prompt_def split: option.split sum.split)

lemma base_dir_upd [simp]:
  "base_dir env (b\<lparr>fb_fs := w\<rparr>) = base_dir env b" "base_dir env (b\<lparr>fb_password := p\<rparr>) = base_dir env b"
  by (simp_all add: base_dir_def)

lemma unlockable_fs [simp]: "unlockable (b\<lparr>fb_fs := w\<rparr>) = unlockable b"
  by (simp add: unlockable_def file_prompt_def split: option.split)

lemma resolveDir_exact:
  assumes "file_exact cd env b"
  shows "resolveDir env b = (b\<lparr>fb_fs := step (fb_fs b)\<rparr>, Inr (base_dir env b))"
proof -
  have abs: "filepath_IsAbs (base_dir env b)" and dir: "is_dir (fb_fs b) (base_dir env b)"
    and nofault: "fault (fb_fs b) = (\<lambda>_. None)"
    using assms by (simp_all add: file_exact_def file_good_def)
  obtain m where "node_at (fb_fs b) (base_dir env b) = Some (Dir m)"
    using dir by (auto simp: is_dir_def split: option.splits node.splits)
  then have "os_Stat (fb_fs b) (base_dir env b) = (step (fb_fs b), Inr (Dir m))"
    using nofault by (simp add: os_Stat_def syscall_def fault_now_def)
  moreover have "fb_dir b \<noteq> ''''" "expandTilde env (fb_dir b) = Inr (base_dir env b)"
    using abs by (auto simp: base_dir_def expandTilde_def filepath_IsAbs_def split: sum.splits)
  ultimately show ?thesis
    by (simp add: resolveDir_def)
qed

lemma filename_exact:
  "file_exact cd env b \<Longrightarrow>
     filename cd' env b i = (b\<lparr>fb_fs := step (fb_fs b)\<rparr>, Inr (item_path cd' env b i))"
  by (simp add: filename_def resolveDir_exact item_path_def)

lemma unlock_exact:
  assumes "file_exact cd env b"
  shows "unlock env b = (b\<lparr>fb_fs := step (fb_fs b), fb_password := eff_password b\<rparr>, None)"
proof -
  have "unlockable b" using assms by (simp add: file_exact_def)
  then show ?thesis
    using resolveDir_exact [OF assms]
    by (cases "fb_passwordFunc b")
       (auto simp: unlock_def unlockable_def eff_password_def file_prompt_def split: sum.splits)
qed

section \<open>The methods without faults\<close>

lemma exact_quietI:
  assumes "file_exact cd env b" "quiet env b b'" "unlockable b'" "fault (fb_fs b') = fault (fb_fs b)"
    "is_dir (fb_fs b') (base_dir env b) = is_dir (fb_fs b) (base_dir env b)"
  shows "file_exact cd env b'"
  using assms quiet_good [OF assms(2), of cd] quiet_base [OF assms(2)]
  by (simp add: file_exact_def) (simp add: quiet_def)

lemma exact_step: "file_exact cd env b \<Longrightarrow> file_exact cd env (b\<lparr>fb_fs := step (fb_fs b)\<rparr>)"
  by (rule exact_quietI, assumption) (auto intro!: quiet_fs simp: file_exact_def)

lemma exact_unlocked:
  assumes "file_exact cd env b"
  shows "file_exact cd env (b\<lparr>fb_fs := step (fb_fs b), fb_password := eff_password b\<rparr>)"
    "quiet env b (b\<lparr>fb_fs := step (fb_fs b), fb_password := eff_password b\<rparr>)"
proof -
  show q: "quiet env b (b\<lparr>fb_fs := step (fb_fs b), fb_password := eff_password b\<rparr>)"
    using unlock_laws [OF _ _ unlock_exact [OF assms]] assms by (simp add: file_exact_def file_good_def)
  have "unlockable b" using assms by (simp add: file_exact_def)
  then have "unlockable (b\<lparr>fb_fs := step (fb_fs b), fb_password := eff_password b\<rparr>)"
    by (auto simp: unlockable_def eff_password_def file_prompt_def split: option.splits sum.splits)
  then show "file_exact cd env (b\<lparr>fb_fs := step (fb_fs b), fb_password := eff_password b\<rparr>)"
    by (intro exact_quietI [OF assms q]) simp_all
qed

lemma exact_good: "file_exact cd env b \<Longrightarrow> file_good cd env b"
  by (simp add: file_exact_def)

lemma exact_decodable:
  assumes "file_exact cd env b" "nameable cd i"
    "node_at (fb_fs b) (item_path cd env b i) = Some (File m token)"
  shows "\<exists>it. decodeFileKeyringItem cd token (eff_password b) = Inr it"
proof -
  have "map_of (below (base_dir env b) (fb_fs b)) (item_path cd env b i) = Some (File m token)"
    using assms node_at_below by (simp add: item_path_def file_exact_def file_good_def nameable_def)
  then have "(item_path cd env b i, File m token) \<in> set (below (base_dir env b) (fb_fs b))"
    by (rule map_of_SomeD)
  then have "\<not> isl (decodeFileKeyringItem cd token (eff_password b))"
    using assms(1) by (fastforce simp: file_exact_def decodable_def)
  then show ?thesis
    by (cases "decodeFileKeyringItem cd token (eff_password b)") simp_all
qed

lemma file_get_exact:
  assumes "file_exact cd env b" "nameable cd i" "file_get cd env b i = (b', r)"
  shows "file_exact cd env b'"
    "case file_view cd env b i of
       None \<Rightarrow> r = Inl (Sentinel errKeyringItemNotFound) | Some v \<Rightarrow> \<exists>it. r = Inr it"
proof -
  define b1 where "b1 = b\<lparr>fb_fs := step (fb_fs b)\<rparr>"
  have b1: "file_exact cd env b1" "quiet env b b1"
    using exact_step [OF assms(1)] by (auto simp: b1_def intro!: quiet_fs)
  have fs: "fb_fs b1 = step (fb_fs b)" "fault (step (fb_fs b)) = (\<lambda>_. None)"
    using assms(1) by (simp_all add: b1_def file_exact_def)
  define b2 where "b2 = b1\<lparr>fb_fs := step (fb_fs b1)\<rparr>"
  have b2: "file_exact cd env b2" "eff_password b2 = eff_password b"
    using exact_step [OF b1(1)] by (simp_all add: b2_def b1_def)
  note fn = filename_exact [OF assms(1), of cd i, folded b1_def]
  from exact_good [OF assms(1)] assms(2)
  have "file_exact cd env b' \<and> (case file_view cd env b i of
       None \<Rightarrow> r = Inl (Sentinel errKeyringItemNotFound) | Some v \<Rightarrow> \<exists>it. r = Inr it)"
  proof (cases rule: entry_cases)
    case none
    with assms(3) fn fs b2 show ?thesis
      by (simp add: file_get_def os_ReadFile_def syscall_def fault_now_def os_IsNotExist_def b2_def)
  next
    case (some m token)
    have "os_ReadFile (fb_fs b1) (item_path cd env b i) = (step (fb_fs b1), Inr token)"
      using some(1) fs by (simp add: os_ReadFile_def syscall_def fault_now_def)
    then have out: "b' = b2\<lparr>fb_fs := step (fb_fs b2), fb_password := eff_password b2\<rparr>"
      "r = decodeFileKeyringItem cd token (eff_password b)"
      using assms(3) fn unlock_exact [OF b2(1)] b2(2) by (simp_all add: file_get_def b2_def)
    with exact_unlocked(1) [OF b2(1)] exact_decodable [OF assms(1,2) some(1)] some(2) show ?thesis
      by simp
  qed
  then show "file_exact cd env b'"
    "case file_view cd env b i of
       None \<Rightarrow> r = Inl (Sentinel errKeyringItemNotFound) | Some v \<Rightarrow> \<exists>it. r = Inr it" by blast+
qed

lemma file_metadata_exact:
  assumes "file_exact cd env b" "nameable cd i" "file_metadata cd env b i = (b', r)"
  shows "file_exact cd env b'"
    "case file_view cd env b i of
       None \<Rightarrow> r = Inl (Sentinel errKeyringItemNotFound) | Some v \<Rightarrow> \<exists>it. r = Inr it"
proof -
  define b1 where "b1 = b\<lparr>fb_fs := step (fb_fs b)\<rparr>"
  note fn = filename_exact [OF assms(1), of cd i, folded b1_def]
  have b2: "file_exact cd env (b1\<lparr>fb_fs := step (fb_fs b1)\<rparr>)"
    using exact_step [OF exact_step [OF assms(1)]] by (simp add: b1_def)
  have "fault (fb_fs b1) = (\<lambda>_. None)" "node_at (fb_fs b1) p = node_at (fb_fs b) p" for p
    using assms(1) by (simp_all add: b1_def file_exact_def)
  then have "os_Stat (fb_fs b1) p = (step (fb_fs b1),
      case node_at (fb_fs b) p of None \<Rightarrow> Inl (OsNotExist p) | Some n \<Rightarrow> Inr n)" for p
    by (simp add: os_Stat_def syscall_def fault_now_def)
  then have "file_exact cd env b' \<and> (case file_view cd env b i of
       None \<Rightarrow> r = Inl (Sentinel errKeyringItemNotFound) | Some v \<Rightarrow> \<exists>it. r = Inr it)"
    using assms(3) fn b2
    by (cases rule: entry_cases [OF exact_good [OF assms(1)] assms(2)])
       (auto simp: file_metadata_def os_IsNotExist_def)
  then show "file_exact cd env b'"
    "case file_view cd env b i of
       None \<Rightarrow> r = Inl (Sentinel errKeyringItemNotFound) | Some v \<Rightarrow> \<exists>it. r = Inr it" by blast+
qed

text \<open>The directory itself is no path below it.\<close>

lemma Join_not_base:
  assumes "filepath_IsAbs D" "plain v"
  shows "filepath_Join [D, v] \<noteq> filepath_Clean D"
proof
  assume eq: "filepath_Join [D, v] = filepath_Clean D"
  let ?ps = "clean_parts D"
  have st: "clean_stack True ?ps" "clean_stack True (?ps @ [v])"
    using clean_parts_stack [of D] assms by (simp_all add: clean_stack_def)
  have "D \<noteq> []" using assms(1) by (auto simp: filepath_IsAbs_def)
  with eq assms have "unparts True (?ps @ [v]) = unparts True ?ps"
    by (simp add: filepath_Join_plain filepath_Clean_def)
  then have "?ps @ [v] = ?ps"
    using clean_parts_unparts [OF st(1)] clean_parts_unparts [OF st(2)] by simp
  then show False by simp
qed

lemma is_dir_item:
  assumes "filepath_IsAbs (base_dir env b)" "nameable cd i"
  shows "is_dir (put_node (item_path cd env b i) n w) (base_dir env b) = is_dir w (base_dir env b)"
    "is_dir (del_node (item_path cd env b i) w) (base_dir env b) = is_dir w (base_dir env b)"
  using assms Join_not_base [of "base_dir env b" "fileKeyringFilename cd i"]
    Join_proper [of "base_dir env b" "fileKeyringFilename cd i"]
    filepath_Join_clean(1) [of "base_dir env b" "fileKeyringFilename cd i"]
  by (auto simp: is_dir_def item_path_def nameable_def)

lemma exact_put:
  assumes "file_exact cd env b" "nameable cd i"
    "decodeFileKeyringItem cd token (eff_password b) = Inr it"
  shows "file_exact cd env (b\<lparr>fb_fs := put_node (item_path cd env b i) (File m token) (step (fb_fs b))\<rparr>)"
proof -
  let ?b = "b\<lparr>fb_fs := put_node (item_path cd env b i) (File m token) (step (fb_fs b))\<rparr>"
  have abs: "filepath_IsAbs (base_dir env b)" using assms(1) by (simp add: file_exact_def file_good_def)
  note below = below_item(1) [OF abs assms(2), of "File m token" "step (fb_fs b)"]
  have "file_good cd env ?b"
    using put_laws [OF exact_good [OF assms(1)] assms(2), of ?b m token] below
      moved_fs [of env b "put_node (item_path cd env b i) (File m token) (step (fb_fs b))"] by simp
  moreover have "\<forall>(q, n) \<in> set (below (base_dir env b) (fb_fs ?b)). decodable cd (eff_password b) n"
    using assms(1,3) below set_update_cases
    by (fastforce simp: file_exact_def decodable_def)
  ultimately show ?thesis
    using assms(1) is_dir_item(1) [OF abs assms(2)] by (simp add: file_exact_def)
qed

lemma exact_del:
  assumes "file_exact cd env b" "nameable cd i"
  shows "file_exact cd env (b\<lparr>fb_fs := del_node (item_path cd env b i) (step (fb_fs b))\<rparr>)"
proof -
  let ?b = "b\<lparr>fb_fs := del_node (item_path cd env b i) (step (fb_fs b))\<rparr>"
  have abs: "filepath_IsAbs (base_dir env b)" using assms(1) by (simp add: file_exact_def file_good_def)
  note below = below_item(2) [OF abs assms(2), of "step (fb_fs b)"]
  have "file_good cd env ?b"
    using del_laws [OF exact_good [OF assms(1)] assms(2), of ?b] below
      moved_fs [of env b "del_node (item_path cd env b i) (step (fb_fs b))"] by simp
  moreover have "\<forall>(q, n) \<in> set (below (base_dir env b) (fb_fs ?b)). decodable cd (eff_password b) n"
    using assms(1) below set_delete_subset [of "item_path cd env b i" "below (base_dir env b) (fb_fs b)"]
    by (auto simp: file_exact_def)
  ultimately show ?thesis
    using assms(1) is_dir_item(2) [OF abs assms(2)] by (simp add: file_exact_def)
qed

lemma encode_decodable:
  assumes "codec_ok cd" "encodeFileKeyringItem cd rnd it pw = Inr tok"
  shows "\<exists>jt. decodeFileKeyringItem cd tok pw = Inr jt"
proof -
  obtain p s where s: "json_Marshal cd p = Inr s" "jose_Encrypt cd rnd s pw = Inr tok"
    using assms(2) by (auto simp: encodeFileKeyringItem_def split: sum.splits)
  then have "jose_Decode cd tok pw = Inr s"
    using assms(1) unfolding codec_ok_def by blast
  moreover have "\<exists>p'. json_Unmarshal cd s = Inr p' \<and> pi_Data p' = pi_Data p"
    using assms(1) s(1) unfolding codec_ok_def by blast
  ultimately show ?thesis
    by (auto simp: decodeFileKeyringItem_def)
qed

lemma open_error_item:
  assumes "file_exact cd env b" "nameable cd i"
  shows "open_error (step (fb_fs b)) (item_path cd env b i) = None"
proof -
  have abs: "filepath_IsAbs (base_dir env b)" and dir: "is_dir (fb_fs b) (base_dir env b)"
    using assms(1) by (simp_all add: file_exact_def file_good_def)
  have parent: "filepath_Dir (item_path cd env b i) = filepath_Clean (base_dir env b)"
    using assms(2) filepath_Dir_Join [OF abs] by (simp add: item_path_def nameable_def)
  have "is_dir (fb_fs b) (filepath_Clean (base_dir env b))"
    using dir node_at_cong [OF filepath_Clean_idem(1) [OF abs]] by (simp add: is_dir_def)
  moreover from exact_good [OF assms(1)] assms(2) have "\<not> is_dir (fb_fs b) (item_path cd env b i)"
    by (cases rule: entry_cases) (simp_all add: is_dir_def)
  ultimately show ?thesis
    by (simp add: open_error_def parent)
qed

lemma file_set_exact:
  assumes "file_exact cd env b" "nameable cd (ki_key it)" "file_set cd env b it = (b', r)"
  shows "file_exact cd env b'" "r = None"
proof -
  define b1 where "b1 = b\<lparr>fb_fs := step (fb_fs b), fb_password := eff_password b\<rparr>"
  have b1: "file_exact cd env b1" "fb_password b1 = eff_password b1"
    using exact_unlocked [OF assms(1)] by (simp_all add: b1_def quiet_def)
  define b2 where "b2 = b1\<lparr>fb_fs := step (fb_fs b1)\<rparr>"
  have b2: "file_exact cd env b2" "eff_password b2 = eff_password b1" "fault (fb_fs b2) = (\<lambda>_. None)"
    using exact_step [OF b1(1)] b1(1) by (simp_all add: b2_def file_exact_def)
  obtain tok where tok: "encodeFileKeyringItem cd (rand (fb_fs b1) (tick (fb_fs b1))) it (fb_password b1) = Inr tok"
    using assms(1) by (cases "encodeFileKeyringItem cd (rand (fb_fs b1) (tick (fb_fs b1))) it (fb_password b1)")
      (auto simp: encodeFileKeyringItem_def file_exact_def codec_total_def split: sum.splits;
       metis sum.disc(1))+
  have "filename cd env b1 (ki_key it) = (b2, Inr (item_path cd env b2 (ki_key it)))"
    using filename_exact [OF b1(1), of cd "ki_key it"] by (simp add: b2_def item_path_def)
  moreover have "os_WriteFile (fb_fs b2) (item_path cd env b2 (ki_key it)) tok 384 =
      (put_node (item_path cd env b2 (ki_key it))
         (File (file_mode (fb_fs b2) (item_path cd env b2 (ki_key it)) 384) tok) (step (fb_fs b2)), None)"
    using open_error_item [OF b1(1) assms(2)] open_error_item [OF b2(1) assms(2)] b2(3)
    by (simp add: os_WriteFile_def fault_now_def b2_def item_path_def)
  ultimately have out: "r = None" "b' = b2\<lparr>fb_fs := put_node (item_path cd env b2 (ki_key it))
         (File (file_mode (fb_fs b2) (item_path cd env b2 (ki_key it)) 384) tok) (step (fb_fs b2))\<rparr>"
    using assms(3) unlock_exact [OF assms(1)] tok by (simp_all add: file_set_def b1_def [symmetric])
  then show "r = None" by simp
  have "\<exists>jt. decodeFileKeyringItem cd tok (eff_password b2) = Inr jt"
    using encode_decodable [OF _ tok] assms(1) b1(2) b2(2) by (simp add: file_exact_def file_good_def)
  then show "file_exact cd env b'"
    unfolding out(2) using exact_put [OF b2(1) assms(2)] by blast
qed

lemma file_remove_exact:
  assumes "file_exact cd env b" "nameable cd i" "file_remove cd env b i = (b', r)"
  shows "file_exact cd env b'"
    "r = (if file_view cd env b i = None then Some (Sentinel errKeyringItemNotFound) else None)"
proof -
  define b1 where "b1 = b\<lparr>fb_fs := step (fb_fs b)\<rparr>"
  have b1: "file_exact cd env b1" "item_path cd env b i = item_path cd env b1 i"
    "fault (fb_fs b1) = (\<lambda>_. None)" "fb_fs b1 = step (fb_fs b)"
    using exact_step [OF assms(1)] assms(1) by (simp_all add: b1_def item_path_def file_exact_def)
  note fn = filename_exact [OF assms(1), of cd i, folded b1_def]
  from exact_good [OF assms(1)] assms(2)
  have "file_exact cd env b' \<and>
    r = (if file_view cd env b i = None then Some (Sentinel errKeyringItemNotFound) else None)"
  proof (cases rule: entry_cases)
    case none
    then have "os_Remove (fb_fs b1) (item_path cd env b i) =
        (step (fb_fs b1), Some (OsNotExist (item_path cd env b i)))"
      using b1(3,4) by (simp add: os_Remove_def syscall_def fault_now_def)
    with none assms(3) fn exact_step [OF b1(1)] show ?thesis
      by (auto simp: file_remove_def os_IsNotExist_def)
  next
    case (some m token)
    then have "os_Remove (fb_fs b1) (item_path cd env b i) =
        (del_node (item_path cd env b i) (step (fb_fs b1)), None)"
      using b1(3,4) by (simp add: os_Remove_def syscall_def fault_now_def)
    with some assms(3) fn exact_del [OF b1(1) assms(2)] show ?thesis
      by (auto simp: file_remove_def b1(2))
  qed
  then show "file_exact cd env b'"
    "r = (if file_view cd env b i = None then Some (Sentinel errKeyringItemNotFound) else None)" by blast+
qed

lemma file_keys_exact:
  assumes "file_exact cd env b" "file_keys cd env b = (b', r)"
  shows "file_exact cd env b'" "\<exists>ks. r = Inr ks"
proof -
  define b1 where "b1 = b\<lparr>fb_fs := step (fb_fs b)\<rparr>"
  have b1: "file_exact cd env b1" "base_dir env b1 = base_dir env b"
    using exact_step [OF assms(1)] by (simp_all add: b1_def)
  have "is_dir (fb_fs b1) (base_dir env b)" "fault (fb_fs b1) = (\<lambda>_. None)"
    using b1 by (simp_all add: file_exact_def)
  then have "\<exists>es. os_ReadDir (fb_fs b1) (base_dir env b) = (step (fb_fs b1), Inr es)"
    by (auto simp: os_ReadDir_def syscall_def fault_now_def is_dir_def split: option.splits node.splits)
  then have "b' = b1\<lparr>fb_fs := step (fb_fs b1)\<rparr> \<and> (\<exists>ks. r = Inr ks)"
    using assms(2) resolveDir_exact [OF assms(1), folded b1_def] by (auto simp: file_keys_def)
  then show "file_exact cd env b'" "\<exists>ks. r = Inr ks"
    using exact_step [OF b1(1)] by simp_all
qed

lemma usable_exact: "file_exact cd env b \<Longrightarrow> usable (file_view cd env) b i \<Longrightarrow> nameable cd i"
  using usable_nameable exact_good by blast

interpretation filex: exact_keyring "file_ops cd env" "file_view cd env" "file_exact cd env"
  for cd :: codec and env :: getenv
proof (unfold_locales, goal_cases)
  case (1 k i k' r)
  then show ?case
    using file_get_exact(1) [of cd env k i k' r] filekr.kget_keeps [of cd env k i k' r]
      usable_exact [of cd env k i] exact_good [of cd env k] by simp
next
  case (2 k i k' it)
  then show ?case using filekr.kget_value [of cd env k i k' it] exact_good by simp
next
  case (3 k i k' e)
  then show ?case using filekr.kget_error [of cd env k i k' e] exact_good by simp
next
  case (4 k i k' r)
  then show ?case
    using file_metadata_exact(1) [of cd env k i k' r] filekr.kmeta_keeps [of cd env k i k' r]
      usable_exact [of cd env k i] exact_good [of cd env k] by simp
next
  case (5 k i k' it)
  then show ?case using filekr.kmeta_value [of cd env k i k' it] exact_good by simp
next
  case (6 k i k' e)
  then show ?case using filekr.kmeta_absent [of cd env k i k' e] exact_good by simp
next
  case (7 k it k')
  then show ?case
    using file_set_exact(1) [of cd env k it k' None] filekr.kset_ok [of cd env k it k']
      usable_exact [of cd env k "ki_key it"] exact_good [of cd env k] by simp
next
  case (8 k it k' e)
  then show ?case
    using file_set_exact(2) [of cd env k it k' "Some e"] usable_exact [of cd env k "ki_key it"] by simp
next
  case (9 k i k')
  then show ?case
    using file_remove_exact(1) [of cd env k i k' None] filekr.kremove_ok [of cd env k i k']
      usable_exact [of cd env k i] exact_good [of cd env k] by simp
next
  case (10 k i k' e)
  then show ?case
    using file_remove_exact(1) [of cd env k i k' "Some e"] filekr.kremove_fail [of cd env k i k' e]
      usable_exact [of cd env k i] exact_good [of cd env k] by simp
next
  case (11 k i k' e)
  then show ?case using filekr.kremove_absent [of cd env k i k' e] exact_good by simp
next
  case (12 k k' r)
  then show ?case
    using file_keys_exact(1) [of cd env k k' r] filekr.kkeys_keeps [of cd env k k' r] exact_good [of cd env k] by simp
next
  case (13 k k' ks)
  then show ?case using filekr.kkeys_value [of cd env k k' ks] exact_good by simp
next
  case (14 k i)
  then show ?case
    using file_get_exact(2) [of cd env k i "fst (file_get cd env k i)" "snd (file_get cd env k i)"]
      usable_exact [of cd env k i] by (simp split: option.splits)
next
  case (15 k i)
  then show ?case
    using file_metadata_exact(2) [of cd env k i "fst (file_metadata cd env k i)" "snd (file_metadata cd env k i)"]
      usable_exact [of cd env k i] by (simp split: option.splits)
next
  case (16 k it)
  then show ?case
    using file_set_exact(2) [of cd env k it "fst (file_set cd env k it)" "snd (file_set cd env k it)"]
      usable_exact [of cd env k "ki_key it"] by simp
next
  case (17 k i)
  then show ?case
    using file_remove_exact(2) [of cd env k i "fst (file_remove cd env k i)" "snd (file_remove cd env k i)"]
      usable_exact [of cd env k i] by simp
next
  case (18 k)
  then show ?case
    using file_keys_exact(2) [of cd env k "fst (file_keys cd env k)" "snd (file_keys cd env k)"] by simp
qed

end
