(* ===== verification/StoreProps.thy ===== *)
theory StoreProps
  imports StoreSpec
begin

text \<open>
  The store over the in-memory backend: the interpretation of \<open>exact_backend\<close>, and the properties
  of \<open>Store\<close> and of the bundle operations stated on the model's own definitions. Where fault hooks
  may be set (\<open>memory_good\<close>), the statements say what holds whatever a write does; without hooks
  (\<open>memory_exact\<close>) the behaviour is the abstract store's.
\<close>

definition memory_exact :: "memoryBackend \<Rightarrow> bool" where
  "memory_exact b \<longleftrightarrow>
     (case mem_m b of None \<Rightarrow> False | Some al \<Rightarrow> distinct (map fst al)) \<and>
     setHook b = None \<and> deleteHook b = None"

interpretation memx: exact_backend memory_ops memory_view memory_exact
  by unfold_locales
     (auto simp: memory_defs memory_exact_def memory_close_def call_hook_def update_conv' delete_conv'
        distinct_update distinct_delete dom_map_of_conv_image_fst split: option.splits if_splits)

lemma memory_exact_new: "memory_exact newMemoryBackend"
  by (simp add: memory_exact_def newMemoryBackend_def)

lemma memory_ok_if_exact: "memory_exact b \<Longrightarrow> memory_good b"
  by (auto simp: memory_exact_def memory_good_def call_hook_def)

definition opened :: "string \<Rightarrow> Source \<Rightarrow> (string set option \<times> string list) \<Rightarrow> memoryBackend Store" where
  "opened service src A = \<lparr>st_service = service, st_src = src, st_kind = BackendMemory,
     st_allowed = fst A, st_allowedList = snd A, st_closed = False, st_be = Some newMemoryBackend\<rparr>"

lemma normalizeAllowedKeys_Inr:
  "normalizeAllowedKeys keys = Inr (A, l) \<Longrightarrow>
     (keys = [] \<and> A = None \<and> l = []) \<or>
     (keys \<noteq> [] \<and> A = Some (set keys) \<and> (\<forall>k \<in> set keys. validSegment k) \<and>
        l = sorted_list_of_set (set keys))"
  by (auto simp: normalizeAllowedKeys_def normalizeAllowedKeys_loop_Inr split: if_splits sum.splits)

lemma opened_wf:
  assumes "normalizeAllowedKeys keys = Inr A"
  shows "store_wf memory_exact memory_view (opened service src A)"
    "store_spec memory_view (opened service src A) = \<lparr>sp_closed = False, sp_map = Map.empty\<rparr>"
proof -
  obtain B l where A: "A = (B, l)" by (cases A)
  have empty: "store_view memory_view (opened service src A) = Map.empty"
    by (simp add: opened_def store_view_def memory_view_new)
  then show "store_wf memory_exact memory_view (opened service src A)"
    using normalizeAllowedKeys_Inr [OF assms [unfolded A]]
    by (auto simp: store_wf_def store_ok_def opened_def A memory_exact_new)
  show "store_spec memory_view (opened service src A) = \<lparr>sp_closed = False, sp_map = Map.empty\<rparr>"
    using empty by (simp add: store_spec_def store_abs_def fun_eq_iff) (simp add: opened_def)
qed

section \<open>Properties\<close>

text \<open>
  C10. Whatever sequence of operations is run on a freshly opened in-memory store with a valid
  allowlist, \<open>Close\<close> and the bundle operations included, every reply is the one the abstract store
  (a map from profile and key to value with a closed flag) gives, errors by class, and the final store
  represents the final abstract one. In particular no call panics.
\<close>

theorem memory_store_refines_spec:
  assumes "normalizeAllowedKeys keys = Inr A"
    "store_run memory_ops (opened service src A) xs = (s', rs)"
  shows "\<exists>rs'. spec_run (fst A) \<lparr>sp_closed = False, sp_map = Map.empty\<rparr> xs =
      (store_spec memory_view s', rs') \<and> list_all2 reply_matches rs rs' \<and>
    Inl NilDereference \<notin> set rs"
  using memx.store_run_refines [OF opened_wf(1) [OF assms(1)] assms(2)] opened_wf(2) [OF assms(1)]
  by (simp add: opened_def)

definition example_ops :: "operation list" where
  "example_ops = [OpSet ''default'' ''token'' ''s1'' False, OpSet ''default'' ''token'' ''s2'' False,
     OpSet ''default'' ''other'' ''x'' False, OpGet ''default'' ''token'',
     OpSetBundle ''work'' [(''token'', ''w'')] True, OpListProfiles, OpDeleteBundle ''work'', OpClose,
     OpExists ''default'' ''token'']"

theorem memory_store_refines_spec_witness:
  "\<exists>s' rs rs'. store_run memory_ops (opened ''svc'' SourceAuto (Some {''token''}, [''token'']))
      example_ops = (s', rs) \<and>
    spec_run (Some {''token''}) \<lparr>sp_closed = False, sp_map = Map.empty\<rparr> example_ops =
      (store_spec memory_view s', rs') \<and> list_all2 reply_matches rs rs' \<and>
    Inl NilDereference \<notin> set rs"
proof -
  have keys: "normalizeAllowedKeys [''token''] = Inr (Some {''token''}, [''token''])"
    by (simp add: normalizeAllowedKeys_def) code_simp
  show ?thesis
    using memory_store_refines_spec [OF keys surjective_pairing,
        where service = "''svc''" and src = SourceAuto and xs = example_ops]
    by (metis fst_conv surjective_pairing)
qed



text \<open>A store holding \<open>p/a\<close>, whose backend fails every write of \<open>p/b\<close>.\<close>

definition faulty_store :: "memoryBackend Store" where
  "faulty_store = \<lparr>st_service = ''svc'', st_src = SourceExplicit, st_kind = BackendMemory,
     st_allowed = None, st_allowedList = [], st_closed = False,
     st_be = Some \<lparr>mem_m = Some [(''p/a'', ''old'')],
       setHook = Some (\<lambda>k. if k = ''p/b'' then Some (OtherError ''disk full'') else None),
       deleteHook = None\<rparr>\<rparr>"

definition faulty_run :: "memoryBackend Store \<times> Result \<times> err option" where
  "faulty_run = Store_SetBundle memory_ops faulty_store ''p''
     [(''b'', ''2''), (''a'', ''1''), (''c'', ''3'')] [WithOverwrite]"

lemma faulty_store_ok: "store_ok memory_good faulty_store"
  by (simp add: store_ok_def memory_good_def faulty_store_def call_hook_def)

lemma faulty_run_result:
  "snd (snd faulty_run) \<noteq> None \<and> fst (snd faulty_run) =
     \<lparr>Written = [], Restored = [''a''], Absent = [''b''], Untouched = [''c''], RollbackFailed = []\<rparr>"
  by code_simp


text \<open>
  C20. The allowlist is fail-closed for every backend: \<open>Set\<close> and \<open>Delete\<close> of a key outside it, and
  \<open>SetBundle\<close> of a bundle containing one, fail without calling the backend (the store they return is
  the one they got), and \<open>SetBundle\<close> reports nothing written.
\<close>

theorem allowlist_fail_closed:
  assumes "st_allowed s = Some A" "k \<notin> A"
  shows "(\<exists>e. Store_Set ops s p k v opts = (s, Some e)) \<and>
    (\<exists>e. Store_Delete ops s p k = (s, Some e)) \<and>
    (k \<in> fst ` set kv \<longrightarrow> (\<exists>e. Store_SetBundle ops s p kv opts = (s, Result_zero, Some e)))"
proof -
  obtain e where e: "checkAllowed s k = Some e"
    using assms checkAllowed_None [of s k] by auto
  have "\<exists>e. Store_SetBundle ops s p kv opts = (s, Result_zero, Some e)" if "k \<in> fst ` set kv"
  proof -
    have "SetBundle_keys s p (sort (remdups (map fst kv))) Map.empty \<noteq> Inr m" for m
      using SetBundle_keys_Inr [of s p "sort (remdups (map fst kv))" Map.empty m] e that by fastforce
    then obtain e' where "SetBundle_keys s p (sort (remdups (map fst kv))) Map.empty = Inl e'"
      by (cases "SetBundle_keys s p (sort (remdups (map fst kv))) Map.empty") auto
    moreover have "kv \<noteq> []" using that by auto
    ultimately show ?thesis
      by (auto simp: Store_SetBundle_def split: option.splits)
  qed
  with e show ?thesis
    by (auto simp: Store_Set_def Store_Delete_def split: sum.splits)
qed

theorem allowlist_fail_closed_witness:
  "\<exists>e. Store_Set memory_ops (opened ''svc'' SourceAuto (Some {''token''}, [''token''])) ''p'' ''other''
     ''v'' [] = (opened ''svc'' SourceAuto (Some {''token''}, [''token'']), Some e)"
  using allowlist_fail_closed [of "opened ''svc'' SourceAuto (Some {''token''}, [''token''])"
      "{''token''}" "''other''"]
  by (simp add: opened_def)

text \<open>
  C29. Lifecycle, for every backend: a \<open>Close\<close> that succeeds leaves a store on which every operation
  but \<open>Close\<close> is \<open>ErrStoreClosed\<close> and changes nothing, while \<open>Close\<close> itself succeeds again
  without calling the backend and \<open>Backend\<close> still reports the selection; a \<open>Close\<close> that fails
  leaves the store open, with its backend, so it can be retried.
\<close>

theorem Close_lifecycle:
  "case Store_Close ops s of
     (s', None) \<Rightarrow>
       Store_Backend s' = Store_Backend s \<and> Store_Close ops s' = (s', None) \<and>
       (\<forall>x. x \<noteq> OpClose \<longrightarrow> store_step ops s' x = (s', Inl (Sentinel ErrStoreClosed)))
   | (s', Some e) \<Rightarrow>
       \<not> st_closed s' \<and> (st_be s' = None \<longleftrightarrow> st_be s = None) \<and> Store_Backend s' = Store_Backend s"
proof -
  have closed: "store_step ops s' x = (s', Inl (Sentinel ErrStoreClosed))"
    if "st_closed s'" "x \<noteq> OpClose" for s' x
    using that
    by (cases x) (simp_all add: Store_Get_def Store_Set_def Store_Delete_def Store_Exists_def
      Store_ListBundle_def Store_ListProfiles_def Store_DeleteBundle_def Store_SetBundle_def
      err_reply_def)
  have again: "Store_Close ops s' = (s', None)" if "st_closed s'" for s'
    using that by (simp add: Store_Close_def)
  show ?thesis
  proof (cases "st_closed s")
    case True
    then show ?thesis using closed again by simp
  next
    case False
    obtain s1 r where call: "on_backend s (Some NilDereference) (be_close ops) = (s1, r)"
      by (cases "on_backend s (Some NilDereference) (be_close ops)")
    then have s1: "\<not> st_closed s1" "st_be s1 = None \<longleftrightarrow> st_be s = None" "Store_Backend s1 = Store_Backend s"
      using False by (auto simp: on_backend_def Store_Backend_def split: option.splits prod.splits)
    show ?thesis
    proof (cases r)
      case None
      with False call have out: "Store_Close ops s = (s1\<lparr>st_closed := True, st_be := None\<rparr>, None)"
        by (simp add: Store_Close_def)
      have "Store_Backend (s1\<lparr>st_closed := True, st_be := None\<rparr>) = Store_Backend s"
        using s1(3) by (simp add: Store_Backend_def)
      with out closed again show ?thesis by simp
    next
      case (Some e)
      with False call s1 show ?thesis by (simp add: Store_Close_def)
    qed
  qed
qed

theorem Close_lifecycle_witness:
  "let s' = fst (Store_Close memory_ops (opened ''svc'' SourceAuto (None, []))) in
   store_step memory_ops s' OpListProfiles = (s', Inl (Sentinel ErrStoreClosed))"
proof -
  have "snd (Store_Close memory_ops (opened ''svc'' SourceAuto (None, []))) = None"
    by code_simp
  with Close_lifecycle [where ops = memory_ops and s = "opened ''svc'' SourceAuto (None, [])"] show ?thesis
    by (auto simp: Let_def split: prod.splits option.splits)
qed

text \<open>
  C27. Entries are isolated: whatever \<open>Set\<close> or \<open>Delete\<close> at one profile and key reports, the value at
  every other profile and key is unchanged, even when the backend fails; and after a \<open>Set\<close> that
  succeeds, \<open>Get\<close> returns the value written.
\<close>

theorem Set_Delete_isolated:
  assumes "store_ok memory_good s" "Store_Set memory_ops s p k v opts = (s1, r1)"
    "Store_Delete memory_ops s p k = (s2, r2)"
  shows "(\<forall>q j. (q, j) \<noteq> (p, k) \<longrightarrow>
      store_abs memory_view s1 (q, j) = store_abs memory_view s (q, j) \<and>
      store_abs memory_view s2 (q, j) = store_abs memory_view s (q, j)) \<and>
    (r1 = None \<longrightarrow> Store_Get memory_ops s1 p k = (s1, Inr v)) \<and>
    (r2 = None \<longrightarrow> Store_Get memory_ops s2 p k = (s2, Inl (Sentinel ErrNotFound)))"
proof -
  note set = mem.Store_Set_laws [OF assms(1,2)] and del = mem.Store_Delete_laws [OF assms(1,3)]
  have get: "Store_Get memory_ops s' p k = (s', case store_abs memory_view s' (p, k) of
      None \<Rightarrow> Inl (Sentinel ErrNotFound) | Some v \<Rightarrow> Inr v)"
    if "keeps memory_good s s'" "\<not> st_closed s" "joinItemKey p k = Inr ik" for s' ik
  proof -
    from that(1,2) obtain b where "st_be s' = Some b" "memory_good b"
      using store_okD [of memory_good s'] by (auto simp: keeps_def)
    with that show ?thesis
      by (auto simp: Store_Get_def keeps_def store_abs_key store_view_open on_backend_open memory_defs
          split: option.splits)
  qed
  have 1: "\<exists>ik. \<not> st_closed s \<and> joinItemKey p k = Inr ik" if "r1 = None"
    using assms(1,2) that by (cases rule: Store_Set_cases) auto
  have 2: "\<exists>ik. \<not> st_closed s \<and> joinItemKey p k = Inr ik" if "r2 = None"
    using assms(1,3) that by (cases rule: Store_Delete_cases) auto
  show ?thesis
    using set(5) del(5) get [OF set(1)] get [OF del(1)] 1 2 set(2) del(2) by auto
qed

theorem Set_Delete_isolated_witness:
  "let s = opened ''svc'' SourceAuto (None, []) in
   Store_Get memory_ops (fst (Store_Set memory_ops s ''p'' ''k'' ''v'' [])) ''p'' ''k'' =
     (fst (Store_Set memory_ops s ''p'' ''k'' ''v'' []), Inr ''v'')"
proof -
  let ?s = "opened ''svc'' SourceAuto (None, [])"
  have "store_ok memory_good ?s"
    by (simp add: store_ok_def opened_def memory_good_new)
  note Set_Delete_isolated [OF this surjective_pairing surjective_pairing,
      where p = "''p''" and k = "''k''" and v = "''v''" and opts = "[]"]
  moreover have "snd (Store_Set memory_ops ?s ''p'' ''k'' ''v'' []) = None"
    by code_simp
  ultimately show ?thesis by (simp add: Let_def)
qed


text \<open>A store with two keys in a profile, of which one cannot be deleted.\<close>

definition sticky_store :: "memoryBackend Store" where
  "sticky_store = \<lparr>st_service = ''svc'', st_src = SourceExplicit, st_kind = BackendMemory,
     st_allowed = None, st_allowedList = [], st_closed = False,
     st_be = Some \<lparr>mem_m = Some [(''p/b'', ''2''), (''q/a'', ''3''), (''p/a'', ''1'')],
       setHook = None,
       deleteHook = Some (\<lambda>k. if k = ''p/a'' then Some (OtherError ''busy'') else None)\<rparr>\<rparr>"


end
