(* ===== verification/FileProps.thy ===== *)
theory FileProps
  imports FileExact StoreProps
begin

text \<open>
  The store over encrypted files, from the methods of \<open>Store\<close> through the adapter and the file
  keyring to the file system: what holds whatever calls fault, what holds when none does, and what a
  later process finds. The codec of the witnesses is \<open>plain_codec\<close>.
\<close>

section \<open>Agreeing replies\<close>

text \<open>Two replies agree if they carry the same payload, or errors of one class.\<close>

definition agree :: "payload result \<Rightarrow> payload result \<Rightarrow> bool" where
  "agree r1 r2 \<longleftrightarrow> (\<exists>r. reply_matches r1 r \<and> reply_matches r2 r)"

lemma agree_Inr [simp]: "agree (Inr x) (Inr y) \<longleftrightarrow> x = y" "\<not> agree (Inr x) (Inl e)" "\<not> agree (Inl e) (Inr x)"
proof -
  have "reply_matches (Inr x) r \<longleftrightarrow> r = Inr x" "reply_matches (Inl e) r \<Longrightarrow> isl r" for x e r
    by (cases r; auto)+
  then show "agree (Inr x) (Inr y) \<longleftrightarrow> x = y" "\<not> agree (Inr x) (Inl e)" "\<not> agree (Inl e) (Inr x)"
    by (auto simp: agree_def)
qed

lemma list_all2_agree:
  "list_all2 reply_matches rs1 rs \<Longrightarrow> list_all2 reply_matches rs2 rs \<Longrightarrow> list_all2 agree rs1 rs2"
  unfolding list_all2_conv_all_nth agree_def by metis

abbreviation file_store_ops :: "codec \<Rightarrow> getenv \<Rightarrow> fileKeyringBackend osKeyringBackend backend" where
  "file_store_ops cd env \<equiv> os_ops (file_ops cd env)"

abbreviation file_store_view :: "codec \<Rightarrow> getenv \<Rightarrow> fileKeyringBackend osKeyringBackend \<Rightarrow> kvmap" where
  "file_store_view cd env \<equiv> os_view (file_view cd env)"

section \<open>A codec and a store for the witnesses\<close>

definition plain_codec :: codec where
  "plain_codec = \<lparr>json_Marshal = (\<lambda>p. Inr (pi_Data p)),
     json_Unmarshal = (\<lambda>s. Inr \<lparr>pi_Key = '''', pi_Data = s, pi_Label = '''', pi_Description = '''',
       pi_KeychainNotTrustApplication = False, pi_KeychainNotSynchronizable = False\<rparr>),
     jose_Encrypt = (\<lambda>rnd s pw. Inr (pw @ ''.'' @ s)),
     jose_Decode = (\<lambda>tok pw. if prefix (pw @ ''.'') tok then Inr (drop (length pw + 1) tok)
       else Inl (OtherError ''integrity check failed'')),
     percent_Encode = (\<lambda>s cs. map (\<lambda>c. if c = CHR ''/'' then CHR ''%'' else c) s),
     percent_Decode = map (\<lambda>c. if c = CHR ''%'' then CHR ''/'' else c)\<rparr>"

lemma validSegment_percent: "validSegment s \<Longrightarrow> c \<in> set s \<Longrightarrow> c \<noteq> CHR ''%'' \<and> c \<noteq> CHR ''/''"
  using validSegment_iff by (force simp: isSegmentByte_def less_eq_char_def)

lemma plain_codec_nameable:
  assumes "is_item_key i"
  shows "nameable plain_codec i"
proof -
  obtain p k where i: "i = p @ ''/'' @ k" "validSegment p" "validSegment k"
    using assms by (auto simp: is_item_key_def)
  have "c \<in> set i \<Longrightarrow> c \<noteq> CHR ''%''" for c
    using i validSegment_percent by auto
  then have "map (\<lambda>c. if c = CHR ''%'' then CHR ''/'' else c)
      (map (\<lambda>c. if c = CHR ''/'' then CHR ''%'' else c) i) = i"
    by (simp add: map_idI)
  moreover have "CHR ''%'' \<in> set (map (\<lambda>c. if c = CHR ''/'' then CHR ''%'' else c) i)"
    using i(1) by simp
  then have "map (\<lambda>c. if c = CHR ''/'' then CHR ''%'' else c) i \<notin> {'''', ''.'', ''..''}"
    by (auto simp del: set_map)
  ultimately show ?thesis
    by (auto simp: nameable_def plain_def fileKeyringFilename_def plain_codec_def split: if_splits)
qed

lemma plain_codec_ok: "codec_ok plain_codec" "codec_total plain_codec"
  using plain_codec_nameable
  by (auto simp: codec_ok_def codec_total_def plain_codec_def foreign_error_def own_error_def split: if_splits)

text \<open>A store on an empty directory; \<open>flt\<close> tells which system calls fault.\<close>

definition file_store :: "(nat \<Rightarrow> (string \<times> nat option) option) \<Rightarrow> fileKeyringBackend osKeyringBackend Store" where
  "file_store flt = \<lparr>st_service = ''svc'', st_src = SourceExplicit, st_kind = BackendFile,
     st_allowed = None, st_allowedList = [], st_closed = False,
     st_be = Some \<lparr>os_kr = \<lparr>fb_dir = ''/k'', fb_passwordFunc = Some (\<lambda>_. Inr ''pw''), fb_password = '''',
         fb_fs = \<lparr>nodes = [(''/k'', Dir 448)], tick = 0, fault = flt, rand = (\<lambda>_. 0)\<rparr>\<rparr>,
       os_backendKind = BackendFile, os_service = ''svc''\<rparr>\<rparr>"

lemma file_store_dir: "filepath_Dir ''/k'' = ''/''" "filepath_Clean ''/k'' = ''/k''" "filepath_IsAbs ''/k''"
  by code_simp+

lemma file_store_good: "store_ok (os_good (file_good plain_codec env)) (file_store flt)"
  using plain_codec_ok file_store_dir
  by (simp add: store_ok_def file_store_def os_good_def file_good_def base_dir_def expandTilde_def
      prompt_ok_def dir_ok_def below_def)

lemma file_store_empty: "store_view (file_store_view cd env) (file_store flt) = Map.empty"
proof -
  have "below ''/k'' \<lparr>nodes = [(''/k'', Dir 448)], tick = 0, fault = flt, rand = (\<lambda>_. 0)\<rparr> = []"
    using file_store_dir by (simp add: below_def)
  then show ?thesis
    using file_store_dir(3)
    by (auto simp: store_view_def file_store_def os_view_def file_view_below base_dir_def expandTilde_def)
qed

lemma file_store_wf:
  "store_wf (os_good (file_exact plain_codec env)) (file_store_view plain_codec env) (file_store (\<lambda>_. None))"
proof -
  have "is_dir \<lparr>nodes = [(''/k'', Dir 448)], tick = 0, fault = (\<lambda>_. None), rand = (\<lambda>_. 0)\<rparr> ''/k''"
    using file_store_dir by (simp add: is_dir_def node_at_def)
  moreover have "file_good plain_codec env (os_kr (the (st_be (file_store (\<lambda>_. None)))))"
    using file_store_good [of env "\<lambda>_. None"] by (simp add: store_ok_def file_store_def os_good_def)
  ultimately have "store_ok (os_good (file_exact plain_codec env)) (file_store (\<lambda>_. None))"
    using plain_codec_ok(2) file_store_dir
    by (simp add: store_ok_def file_store_def os_good_def file_exact_def unlockable_def base_dir_def
        expandTilde_def below_def)
  then show ?thesis
    by (simp add: store_wf_def file_store_empty)
qed

section \<open>Properties\<close>

text \<open>
  C12. The store over encrypted files implements the abstract store: when no system call faults, the
  codec works and the password opens the items there, every sequence of operations, bundles and
  \<open>Close\<close> included, gets the replies of the map from profile and key to value, errors by class, and no
  call panics.
\<close>

theorem file_store_refines_spec:
  assumes "store_wf (os_good (file_exact cd env)) (file_store_view cd env) s"
    "store_run (file_store_ops cd env) s xs = (s', rs)"
  shows "\<exists>rs'. spec_run (st_allowed s) (store_spec (file_store_view cd env) s) xs =
      (store_spec (file_store_view cd env) s', rs') \<and> list_all2 reply_matches rs rs' \<and>
    Inl NilDereference \<notin> set rs"
  using filex.osx.store_run_refines [OF assms] .

theorem file_store_refines_spec_witness:
  "\<exists>s' rs rs'. store_run (file_store_ops plain_codec (\<lambda>_. '''')) (file_store (\<lambda>_. None)) example_ops = (s', rs) \<and>
    spec_run None \<lparr>sp_closed = False, sp_map = Map.empty\<rparr> example_ops =
      (store_spec (file_store_view plain_codec (\<lambda>_. '''')) s', rs') \<and> list_all2 reply_matches rs rs'"
proof -
  have "store_spec (file_store_view plain_codec (\<lambda>_. '''')) (file_store (\<lambda>_. None)) =
      \<lparr>sp_closed = False, sp_map = Map.empty\<rparr>"
    by (simp add: store_spec_def store_abs_def fun_eq_iff file_store_empty) (simp add: file_store_def)
  moreover have "st_allowed (file_store (\<lambda>_. None)) = None"
    by (simp add: file_store_def)
  ultimately show ?thesis
    using file_store_refines_spec [OF file_store_wf surjective_pairing, where xs = example_ops]
    by (metis surjective_pairing)
qed

text \<open>
  The encrypted-file store and the in-memory store are interchangeable: from equal contents,
  allowlists and lifecycle states they answer every sequence of operations alike.
\<close>

theorem file_memory_agree:
  assumes "store_wf (os_good (file_exact cd env)) (file_store_view cd env) s"
    "store_wf memory_exact memory_view m"
    "store_spec (file_store_view cd env) s = store_spec memory_view m" "st_allowed s = st_allowed m"
  shows "list_all2 agree (snd (store_run (file_store_ops cd env) s xs)) (snd (store_run memory_ops m xs)) \<and>
    store_spec (file_store_view cd env) (fst (store_run (file_store_ops cd env) s xs)) =
      store_spec memory_view (fst (store_run memory_ops m xs))"
  using filex.osx.store_run_implements [OF assms(1), of xs] memx.store_run_implements [OF assms(2), of xs]
    assms(3,4) by (auto split: prod.splits intro: list_all2_agree)

theorem file_memory_agree_witness:
  "list_all2 agree
     (snd (store_run (file_store_ops plain_codec (\<lambda>_. '''')) (file_store (\<lambda>_. None)) example_ops))
     (snd (store_run memory_ops (opened ''svc'' SourceExplicit (None, [])) example_ops))"
proof -
  have keys: "normalizeAllowedKeys [] = Inr (None, [])"
    by (simp add: normalizeAllowedKeys_def)
  have "store_spec (file_store_view plain_codec (\<lambda>_. '''')) (file_store (\<lambda>_. None)) =
      \<lparr>sp_closed = False, sp_map = Map.empty\<rparr>"
    by (simp add: store_spec_def store_abs_def fun_eq_iff file_store_empty) (simp add: file_store_def)
  then have "store_spec (file_store_view plain_codec (\<lambda>_. '''')) (file_store (\<lambda>_. None)) =
      store_spec memory_view (opened ''svc'' SourceExplicit (None, []))"
    using opened_wf(2) [OF keys] by simp
  from file_memory_agree [OF file_store_wf opened_wf(1) [OF keys] this, of example_ops] show ?thesis
    by (simp add: opened_def file_store_def)
qed

text \<open>The backend of a new process on the files another one left; the passphrase is not known yet.\<close>

definition reopened :: "promptFunc \<Rightarrow> fileKeyringBackend osKeyringBackend \<Rightarrow> fileKeyringBackend osKeyringBackend" where
  "reopened f b = b\<lparr>os_kr := (os_kr b)\<lparr>fb_passwordFunc := Some f, fb_password := ''''\<rparr>\<rparr>"

text \<open>
  C18. What a store writes, a later process reads: a store opened afresh on the same files, its
  passphrase still to be asked for, answers every further sequence of operations as the store that
  was left would have.
\<close>

theorem file_store_reopened_agree:
  assumes "store_wf (os_good (file_exact cd env)) (file_store_view cd env) s"
    "store_run (file_store_ops cd env) s xs = (s', rs)" "st_be s' = Some b"
    "f (file_prompt (os_kr b)) = Inr (eff_password (os_kr b))" "\<And>ps. \<not> isl (f ps)"
  shows "list_all2 agree
    (snd (store_run (file_store_ops cd env) (s'\<lparr>st_be := Some (reopened f b)\<rparr>) ys))
    (snd (store_run (file_store_ops cd env) s' ys))"
proof -
  let ?k = "os_kr b" and ?k' = "os_kr (reopened f b)" and ?s = "s'\<lparr>st_be := Some (reopened f b)\<rparr>"
  have wf: "store_wf (os_good (file_exact cd env)) (file_store_view cd env) s'"
    using filex.osx.store_run_implements [OF assms(1), of xs] assms(2) by simp
  then have open1: "\<not> st_closed s'" and k: "file_exact cd env ?k"
    using assms(3) by (auto simp: store_wf_def store_ok_def os_good_def)
  have k': "?k' = ?k\<lparr>fb_passwordFunc := Some f, fb_password := ''''\<rparr>" by (simp add: reopened_def)
  have same: "base_dir env ?k' = base_dir env ?k" "fb_fs ?k' = fb_fs ?k" "file_prompt ?k' = file_prompt ?k"
    by (simp_all add: k' base_dir_def file_prompt_def)
  have eff: "eff_password ?k' = eff_password ?k"
    using assms(4) same(3) by (simp only: eff_password_def [of ?k']) (simp add: k')
  have "unlockable ?k'" "prompt_ok ?k'"
    using assms(5) by (auto simp: unlockable_def prompt_ok_def k') (metis sum.disc(1))
  then have "file_exact cd env ?k'"
    using k same eff by (simp add: file_exact_def file_good_def)
  moreover have view: "file_view cd env ?k' = file_view cd env ?k"
    using same eff by (simp add: fun_eq_iff file_view_def item_path_def)
  then have "store_view (file_store_view cd env) ?s = store_view (file_store_view cd env) s'"
    using assms(3) by (simp add: store_view_def os_view_def)
  moreover from this have "store_spec (file_store_view cd env) ?s = store_spec (file_store_view cd env) s'"
    by (simp add: store_spec_def store_abs_def fun_eq_iff)
  ultimately have "store_wf (os_good (file_exact cd env)) (file_store_view cd env) ?s"
    "store_spec (file_store_view cd env) ?s = store_spec (file_store_view cd env) s'"
    using wf open1 by (auto simp: store_wf_def store_ok_def os_good_def split: option.splits)
  then show ?thesis
    using filex.osx.store_run_implements [of cd env ?s ys] filex.osx.store_run_implements [OF wf, of ys]
    by (auto split: prod.splits intro: list_all2_agree)
qed

definition left_behind :: "fileKeyringBackend osKeyringBackend Store" where
  "left_behind = fst (store_run (file_store_ops plain_codec (\<lambda>_. '''')) (file_store (\<lambda>_. None))
     [OpSet ''p'' ''k'' ''v'' False])"

lemma left_behind_be:
  "map_option (eff_password \<circ> os_kr) (st_be left_behind) = Some ''pw''"
  by code_simp

theorem file_store_reopened_agree_witness:
  "list_all2 agree
    (snd (store_run (file_store_ops plain_codec (\<lambda>_. ''''))
       (left_behind\<lparr>st_be := Some (reopened (\<lambda>_. Inr ''pw'') (the (st_be left_behind)))\<rparr>)
       [OpGet ''p'' ''k'', OpListProfiles]))
    (snd (store_run (file_store_ops plain_codec (\<lambda>_. '''')) left_behind [OpGet ''p'' ''k'', OpListProfiles]))"
proof -
  obtain b where b: "st_be left_behind = Some b" "eff_password (os_kr b) = ''pw''"
    using left_behind_be by auto
  have run: "store_run (file_store_ops plain_codec (\<lambda>_. '''')) (file_store (\<lambda>_. None))
      [OpSet ''p'' ''k'' ''v'' False] = (left_behind, snd (store_run (file_store_ops plain_codec (\<lambda>_. ''''))
        (file_store (\<lambda>_. None)) [OpSet ''p'' ''k'' ''v'' False]))"
    by (simp add: left_behind_def)
  show ?thesis
    using file_store_reopened_agree [OF file_store_wf run b(1), of "\<lambda>_. Inr ''pw''"
        "[OpGet ''p'' ''k'', OpListProfiles]"] b(2)
    by (simp only: b(1) option.sel sum.disc simp_thms)
qed

text \<open>
  \<open>SetBundle\<close> over encrypted files, any system call of which may fault, a write also half done:
  on success the bundle is exactly what was asked and nothing else changed; on failure nothing outside
  \<open>RollbackFailed\<close> has changed, nothing counts as written, and the slices partition the keys.
\<close>

theorem file_SetBundle_all_or_nothing:
  assumes "store_ok (os_good (file_good cd env)) s"
    "Store_SetBundle (file_store_ops cd env) s p kv opts = (s', res, err)"
  shows "store_ok (os_good (file_good cd env)) s' \<and>
    (let V = store_view (file_store_view cd env) s; V' = store_view (file_store_view cd env) s';
         keys = sort (remdups (map fst kv)) in
     case err of
       None \<Rightarrow>
         Written res = keys \<and>
         (\<forall>k \<in> fst ` set kv. V' (p @ ''/'' @ k) = map_of kv k) \<and>
         (\<forall>ik. ik \<notin> (\<lambda>k. p @ ''/'' @ k) ` fst ` set kv \<longrightarrow> V' ik = V ik)
     | Some e \<Rightarrow>
         (\<forall>ik. ik \<notin> (\<lambda>k. p @ ''/'' @ k) ` set (RollbackFailed res) \<longrightarrow> V' ik = V ik) \<and>
         Written res = [] \<and>
         (res = Result_zero \<or>
          mset keys = mset (Restored res) + mset (Absent res) + mset (Untouched res) +
            mset (RollbackFailed res) \<and>
          (\<forall>k \<in> set (Restored res). V (p @ ''/'' @ k) \<noteq> None) \<and>
          (\<forall>k \<in> set (Absent res). V (p @ ''/'' @ k) = None)))"
  by (rule filekr.os.Store_SetBundle_contract [OF assms])

text \<open>The disk fills up in the middle of the second write; the files are gone again afterwards.\<close>

definition full_disk_run :: "fileKeyringBackend osKeyringBackend Store \<times> Result \<times> err option" where
  "full_disk_run = Store_SetBundle (file_store_ops plain_codec (\<lambda>_. ''''))
     (file_store (\<lambda>n. if n = 13 then Some (''no space left on device'', Some 2) else None))
     ''p'' [(''b'', ''2''), (''a'', ''1'')] []"

lemma full_disk_result:
  "RollbackFailed (fst (snd full_disk_run)) = [] \<and> Absent (fst (snd full_disk_run)) = [''a'', ''b''] \<and>
   \<not> Option.is_none (snd (snd full_disk_run))"
  by code_simp

theorem file_SetBundle_all_or_nothing_witness:
  "store_view (file_store_view plain_codec (\<lambda>_. '''')) (fst full_disk_run) = Map.empty \<and>
   Absent (fst (snd full_disk_run)) = [''a'', ''b'']"
proof -
  have "Store_SetBundle (file_store_ops plain_codec (\<lambda>_. ''''))
      (file_store (\<lambda>n. if n = 13 then Some (''no space left on device'', Some 2) else None))
      ''p'' [(''b'', ''2''), (''a'', ''1'')] [] =
      (fst full_disk_run, fst (snd full_disk_run), snd (snd full_disk_run))"
    by (simp add: full_disk_run_def)
  from file_SetBundle_all_or_nothing [OF file_store_good this] full_disk_result show ?thesis
    by (auto simp: Let_def file_store_empty fun_eq_iff Option.is_none_def split: option.splits)
qed

end
