(* ===== verification/Sessions.thy ===== *)
theory Sessions
  imports FileProps
begin

text \<open>
  What the abstract store says of whole sessions, and with it every store over an exact backend: profiles do not
  see one another's operations, and a store that is open does not get stuck.
\<close>

section \<open>Profiles do not interfere\<close>

text \<open>The profile an operation is on, where it is on one.\<close>

primrec op_profile :: "operation \<Rightarrow> string option" where
  "op_profile (OpGet p k) = Some p"
| "op_profile (OpSet p k v ow) = Some p"
| "op_profile (OpDelete p k) = Some p"
| "op_profile (OpExists p k) = Some p"
| "op_profile (OpListBundle p) = Some p"
| "op_profile OpListProfiles = None"
| "op_profile (OpDeleteBundle p) = Some p"
| "op_profile (OpSetBundle p kv ow) = Some p"
| "op_profile OpClose = None"

definition replies_on :: "string \<Rightarrow> operation list \<Rightarrow> 'r list \<Rightarrow> 'r list" where
  "replies_on p xs rs = map snd (filter (\<lambda>(x, r). op_profile x = Some p) (zip xs rs))"

lemma replies_on_simps [simp]:
  "replies_on p [] rs = []"
  "replies_on p (x # xs) (r # rs) = (if op_profile x = Some p then r # replies_on p xs rs else replies_on p xs rs)"
  by (simp_all add: replies_on_def)

definition same_on :: "string \<Rightarrow> spec \<Rightarrow> spec \<Rightarrow> bool" where
  "same_on p sp1 sp2 \<longleftrightarrow> sp_closed sp1 = sp_closed sp2 \<and> (\<forall>k. sp_map sp1 (p, k) = sp_map sp2 (p, k))"

lemma same_on_bundle: "same_on p sp1 sp2 \<Longrightarrow> bundle_of (sp_map sp1) p = bundle_of (sp_map sp2) p"
  by (simp add: same_on_def bundle_of_def)

text \<open>An operation on the profile sees and changes nothing else; one on another profile leaves it alone.\<close>

lemma step_on:
  assumes "op_profile x = Some p" "same_on p sp1 sp2"
  shows "snd (spec_step A sp1 x) = snd (spec_step A sp2 x) \<and> same_on p (fst (spec_step A sp1 x)) (fst (spec_step A sp2 x))"
  using assms same_on_bundle [OF assms(2)]
  by (cases x) (auto simp: spec_step_def guarded_def same_on_def put_bundle_def Let_def split: option.splits)

lemma step_off:
  assumes "op_profile x \<noteq> Some p" "x \<noteq> OpClose"
  shows "same_on p (fst (spec_step A sp x)) sp"
  using assms
  by (cases x) (auto simp: spec_step_def guarded_def same_on_def put_bundle_def Let_def split: option.splits)

lemma same_on_trans: "same_on p sp1 sp2 \<Longrightarrow> same_on p sp2 sp3 \<Longrightarrow> same_on p sp1 sp3"
  by (simp add: same_on_def)

lemma spec_run_on:
  assumes "OpClose \<notin> set xs" "same_on p sp1 sp2"
  shows "replies_on p xs (snd (spec_run A sp1 xs)) = snd (spec_run A sp2 (filter (\<lambda>x. op_profile x = Some p) xs))"
  using assms
proof (induction xs arbitrary: sp1 sp2)
  case (Cons x xs)
  obtain sp1' r1 where s1: "spec_step A sp1 x = (sp1', r1)" by (cases "spec_step A sp1 x")
  show ?case
  proof (cases "op_profile x = Some p")
    case True
    obtain sp2' r2 where s2: "spec_step A sp2 x = (sp2', r2)" by (cases "spec_step A sp2 x")
    have "r1 = r2" "same_on p sp1' sp2'" using step_on [OF True Cons.prems(2), of A] s1 s2 by simp_all
    with Cons.IH [of sp1' sp2'] Cons.prems(1) True s1 s2 show ?thesis
      by (auto split: prod.splits)
  next
    case False
    with step_off [of x p A sp1] s1 Cons.prems have "same_on p sp1' sp2" by (auto intro: same_on_trans)
    with Cons.IH [of sp1' sp2] Cons.prems(1) False s1 show ?thesis
      by (auto split: prod.splits)
  qed
qed simp

lemma replies_on_list_all2:
  "list_all2 P rs rs' \<Longrightarrow> list_all2 P (replies_on p xs rs) (replies_on p xs rs')"
proof (induction rs rs' arbitrary: xs rule: list_all2_induct)
  case (Cons r rs r' rs')
  then show ?case by (cases xs) simp_all
qed (simp add: replies_on_def)

section \<open>Progress\<close>

lemma spec_run_append:
  "spec_run A sp (xs @ ys) =
     (case spec_run A sp xs of (sp1, rs) \<Rightarrow> (case spec_run A sp1 ys of (sp2, rs') \<Rightarrow> (sp2, rs @ rs')))"
  by (induction xs arbitrary: sp) (simp_all split: prod.split)

lemma spec_run_length: "length (snd (spec_run A sp xs)) = length xs"
  by (induction xs arbitrary: sp) (simp_all add: case_prod_beta)

lemma spec_step_open: "x \<noteq> OpClose \<Longrightarrow> \<not> sp_closed sp \<Longrightarrow> \<not> sp_closed (fst (spec_step A sp x))"
  by (cases x) (auto simp: spec_step_def guarded_def Let_def split: option.splits)

lemma spec_run_open: "OpClose \<notin> set xs \<Longrightarrow> \<not> sp_closed sp \<Longrightarrow> \<not> sp_closed (fst (spec_run A sp xs))"
proof (induction xs arbitrary: sp)
  case (Cons x xs)
  obtain sp1 r where s: "spec_step A sp x = (sp1, r)" by (cases "spec_step A sp x")
  then have "\<not> sp_closed sp1" using spec_step_open [of x sp A] Cons.prems by auto
  with Cons.IH [of sp1] Cons.prems(1) s show ?case by (auto split: prod.splits)
qed simp

text \<open>A bundle a store may write: a valid profile, and valid keys on the allowlist.\<close>

definition writable :: "string set option \<Rightarrow> string \<Rightarrow> string set \<Rightarrow> bool" where
  "writable A p ks \<longleftrightarrow> validSegment p \<and> (\<forall>k \<in> ks. validSegment k \<and> (\<forall>B. A = Some B \<longrightarrow> k \<in> B))"

lemma writable_spec:
  assumes "writable A p (set ks)"
  shows "spec_segment p = None" "spec_write_keys A p ks = None" "k \<in> set ks \<Longrightarrow> spec_key p k = None"
proof -
  have p: "spec_segment p = None" using assms validSegment_nonempty [of p] by (simp add: writable_def spec_segment_def)
  then show "spec_segment p = None" .
  show key: "spec_key p k = None" if "k \<in> set ks" for k
    using assms p validSegment_nonempty [of k] that by (simp add: writable_def spec_key_def spec_segment_def)
  have "spec_write_key A p k = None" if "k \<in> set ks" for k
    using assms key [OF that] that by (auto simp: writable_def spec_write_key_def)
  then show "spec_write_keys A p ks = None" by (induction ks) simp_all
qed

lemma spec_progress:
  assumes "\<not> sp_closed sp" "writable A p (fst ` set kv)" "map_of kv k = Some v"
  shows "snd (spec_run A sp [OpSetBundle p kv True, OpGet p k]) =
    [Inr (Names (sorted_list_of_set (fst ` set kv))), Inr (Value v)]"
proof -
  have "writable A p (set (sorted_list_of_set (fst ` set kv)))" using assms(2) by simp
  note w = writable_spec [OF this]
  have "k \<in> fst ` set kv" using map_of_SomeD [OF assms(3)] by force
  with assms(1,3) w show ?thesis by (simp add: spec_step_def put_bundle_def)
qed

section \<open>Over an exact backend\<close>

context exact_backend
begin

lemma sessions_isolated:
  assumes wf: "store_wf good view s" and open1: "OpClose \<notin> set xs"
  shows "list_all2 agree (replies_on p xs (snd (store_run ops s xs)))
    (snd (store_run ops s (filter (\<lambda>x. op_profile x = Some p) xs)))"
proof -
  let ?ys = "filter (\<lambda>x. op_profile x = Some p) xs"
  have matches: "list_all2 reply_matches (snd (store_run ops s zs)) (snd (spec_run (st_allowed s) (store_spec view s) zs))" for zs
    using store_run_refines [OF wf, of zs] by (cases "store_run ops s zs") auto
  have "same_on p (store_spec view s) (store_spec view s)" by (simp add: same_on_def)
  note spec_run_on [OF open1 this, of "st_allowed s"]
  with replies_on_list_all2 [OF matches [of xs], of p xs] matches [of ?ys] show ?thesis
    by (auto intro: list_all2_agree)
qed

lemma sessions_progress:
  assumes wf: "store_wf good view s" and op: "\<not> st_closed s" and open1: "OpClose \<notin> set xs"
    and w: "writable (st_allowed s) p (fst ` set kv)" and v: "map_of kv k = Some v"
  shows "drop (length xs) (snd (store_run ops s (xs @ [OpSetBundle p kv True, OpGet p k]))) =
    [Inr (Names (sorted_list_of_set (fst ` set kv))), Inr (Value v)]"
proof -
  let ?ys = "[OpSetBundle p kv True, OpGet p k]" and ?A = "st_allowed s" and ?sp = "store_spec view s"
  obtain s' rs where run: "store_run ops s (xs @ ?ys) = (s', rs)" by (cases "store_run ops s (xs @ ?ys)")
  have m: "list_all2 reply_matches rs (snd (spec_run ?A ?sp (xs @ ?ys)))"
    using store_run_refines [OF wf run] by auto
  have "\<not> sp_closed (fst (spec_run ?A ?sp xs))"
    using spec_run_open [OF open1] op by (simp add: store_spec_def)
  note spec_progress [OF this w v]
  then have "drop (length xs) (snd (spec_run ?A ?sp (xs @ ?ys))) = [Inr (Names (sorted_list_of_set (fst ` set kv))), Inr (Value v)]"
    using spec_run_length [of ?A ?sp xs] unfolding spec_run_append by (auto split: prod.splits)
  with list_all2_dropI [OF m, of "length xs"]
  have "list_all2 reply_matches (drop (length xs) rs) [Inr (Names (sorted_list_of_set (fst ` set kv))), Inr (Value v)]" by simp
  moreover have "reply_matches r (Inr y) \<longleftrightarrow> r = Inr y" for r y by (cases r) auto
  ultimately show ?thesis unfolding run by (auto simp: list_all2_Cons2)
qed

end

end
