(* ===== verification/Threads.thy ===== *)
theory Threads
  imports Replay Sessions
begin

text \<open>
  A store shared by threads. Each method of \<open>Store\<close> takes \<open>s.mu\<close> before it reads \<open>s.closed\<close> and gives it back
  when it returns (\<open>s.mu.Lock(); defer s.mu.Unlock()\<close>); what happens between is its calls of the backend, one
  at a time, with any other thread free to move in between. The steps are the relation \<open>sys_step\<close>; the theorems
  hold of every run, over any backend: the store and the replies are those of some order of the methods, the
  order of each thread and of real time among them, and every run ends with every method returned.
\<close>

section \<open>Threads\<close>

text \<open>
  A thread is between methods, before \<open>Lock\<close>, in the body of a method after some answers of the backend, or
  about to get its result. \<open>th_done\<close> is what it has had.
\<close>

datatype phase =
    Idle
  | Blocked operation
  | Running operation "answer list"
  | Leaving operation "payload result"

record thread =
  th_phase :: phase
  th_todo :: "operation list"
  th_done :: "(operation \<times> payload result) list"

text \<open>\<open>sys_mu\<close> is the thread that holds the mutex; \<open>sys_log\<close> lists the methods in the order of their bodies.\<close>

type_synonym entry = "nat \<times> operation \<times> payload result"

record 'b system =
  sys_store :: "'b Store"
  sys_mu :: "nat option"
  sys_threads :: "thread list"
  sys_log :: "entry list"

definition thread_at :: "'b system \<Rightarrow> nat \<Rightarrow> thread \<Rightarrow> bool" where
  "thread_at c i t \<longleftrightarrow> i < length (sys_threads c) \<and> sys_threads c ! i = t"

definition put_thread :: "nat \<Rightarrow> thread \<Rightarrow> 'b system \<Rightarrow> 'b system" where
  "put_thread i t c = c\<lparr>sys_threads := (sys_threads c)[i := t]\<rparr>"

inductive sys_step :: "'b backend \<Rightarrow> 'b system \<Rightarrow> 'b system \<Rightarrow> bool" for ops :: "'b backend" where
  call: "thread_at c i \<lparr>th_phase = Idle, th_todo = x # xs, th_done = d\<rparr> \<Longrightarrow>
    sys_step ops c (put_thread i \<lparr>th_phase = Blocked x, th_todo = xs, th_done = d\<rparr> c)"
| lock: "thread_at c i \<lparr>th_phase = Blocked x, th_todo = xs, th_done = d\<rparr> \<Longrightarrow> sys_mu c = None \<Longrightarrow>
    sys_step ops c (put_thread i \<lparr>th_phase = Running x [], th_todo = xs, th_done = d\<rparr> (c\<lparr>sys_mu := Some i\<rparr>))"
| ask: "thread_at c i \<lparr>th_phase = Running x as, th_todo = xs, th_done = d\<rparr> \<Longrightarrow>
    next_call (sys_store c) x as = Inl ca \<Longrightarrow> st_be (sys_store c) = Some b \<Longrightarrow> perform ops ca b = (b', a) \<Longrightarrow>
    sys_step ops c (put_thread i \<lparr>th_phase = Running x (as @ [a]), th_todo = xs, th_done = d\<rparr>
      (c\<lparr>sys_store := (sys_store c)\<lparr>st_be := Some b'\<rparr>\<rparr>))"
| return: "thread_at c i \<lparr>th_phase = Running x as, th_todo = xs, th_done = d\<rparr> \<Longrightarrow>
    next_call (sys_store c) x as = Inr (s', r) \<Longrightarrow>
    sys_step ops c (put_thread i \<lparr>th_phase = Leaving x r, th_todo = xs, th_done = d\<rparr>
      (c\<lparr>sys_store := s', sys_mu := None, sys_log := sys_log c @ [(i, x, r)]\<rparr>))"
| leave: "thread_at c i \<lparr>th_phase = Leaving x r, th_todo = xs, th_done = d\<rparr> \<Longrightarrow>
    sys_step ops c (put_thread i \<lparr>th_phase = Idle, th_todo = xs, th_done = d @ [(x, r)]\<rparr> c)"

definition start :: "'b Store \<Rightarrow> operation list list \<Rightarrow> 'b system" where
  "start s progs =
     \<lparr>sys_store = s, sys_mu = None,
      sys_threads = map (\<lambda>xs. \<lparr>th_phase = Idle, th_todo = xs, th_done = []\<rparr>) progs, sys_log = []\<rparr>"

inductive sys_steps :: "'b backend \<Rightarrow> 'b system \<Rightarrow> 'b system \<Rightarrow> bool" for ops :: "'b backend" where
  stay: "sys_steps ops c c"
| more: "sys_steps ops c c1 \<Longrightarrow> sys_step ops c1 c2 \<Longrightarrow> sys_steps ops c c2"

definition finished :: "'b system \<Rightarrow> bool" where
  "finished c \<longleftrightarrow> sys_mu c = None \<and> (\<forall>t \<in> set (sys_threads c). th_phase t = Idle \<and> th_todo t = [])"

section \<open>A schedule\<close>

text \<open>One step of one thread, if it can move, and the threads in a given order.\<close>

definition turn :: "'b backend \<Rightarrow> nat \<Rightarrow> 'b system \<Rightarrow> 'b system" where
  "turn ops i c =
     (if i < length (sys_threads c) then
        (let t = sys_threads c ! i in
         case th_phase t of
           Idle \<Rightarrow>
             (case th_todo t of
                [] \<Rightarrow> c
              | x # xs \<Rightarrow> put_thread i (t\<lparr>th_phase := Blocked x, th_todo := xs\<rparr>) c)
         | Blocked x \<Rightarrow>
             (if sys_mu c = None then put_thread i (t\<lparr>th_phase := Running x []\<rparr>) (c\<lparr>sys_mu := Some i\<rparr>) else c)
         | Running x as \<Rightarrow>
             (case next_call (sys_store c) x as of
                Inl ca \<Rightarrow>
                  (case st_be (sys_store c) of
                     None \<Rightarrow> c
                   | Some b \<Rightarrow>
                       (case perform ops ca b of
                          (b', a) \<Rightarrow> put_thread i (t\<lparr>th_phase := Running x (as @ [a])\<rparr>)
                            (c\<lparr>sys_store := (sys_store c)\<lparr>st_be := Some b'\<rparr>\<rparr>)))
              | Inr (s', r) \<Rightarrow> put_thread i (t\<lparr>th_phase := Leaving x r\<rparr>)
                  (c\<lparr>sys_store := s', sys_mu := None, sys_log := sys_log c @ [(i, x, r)]\<rparr>))
         | Leaving x r \<Rightarrow> put_thread i (t\<lparr>th_phase := Idle, th_done := th_done t @ [(x, r)]\<rparr>) c)
      else c)"

definition schedule :: "'b backend \<Rightarrow> nat list \<Rightarrow> 'b system \<Rightarrow> 'b system" where
  "schedule ops is c = fold (turn ops) is c"

lemma thread_eta: "t = \<lparr>th_phase = th_phase t, th_todo = th_todo t, th_done = th_done t\<rparr>"
  by simp

lemma turn_step: "turn ops i c = c \<or> sys_step ops c (turn ops i c)"
proof (cases "i < length (sys_threads c)")
  case True
  obtain ph xs d where t: "sys_threads c ! i = \<lparr>th_phase = ph, th_todo = xs, th_done = d\<rparr>"
    by (cases "sys_threads c ! i") auto
  then have at: "thread_at c i \<lparr>th_phase = ph, th_todo = xs, th_done = d\<rparr>" using True by (simp add: thread_at_def)
  show ?thesis
  proof (cases ph)
    case Idle
    with at t True show ?thesis by (cases xs) (auto simp: turn_def intro: sys_step.call)
  next
    case (Blocked x)
    with at t True show ?thesis by (auto simp: turn_def intro: sys_step.lock)
  next
    case (Running x as)
    with at t True show ?thesis
      by (auto simp: turn_def Let_def split: sum.split option.split prod.split intro: sys_step.ask sys_step.return)
  next
    case (Leaving x r)
    with at t True show ?thesis by (auto simp: turn_def intro: sys_step.leave)
  qed
qed (simp add: turn_def)

lemma steps_trans: "sys_steps ops c2 c3 \<Longrightarrow> sys_steps ops c1 c2 \<Longrightarrow> sys_steps ops c1 c3"
  by (induction rule: sys_steps.induct) (auto intro: sys_steps.more)

lemma schedule_steps: "sys_steps ops c (schedule ops is c)"
proof (induction "is" arbitrary: c)
  case (Cons i js)
  have "sys_steps ops c (turn ops i c)" using turn_step [of ops i c] by (metis sys_steps.stay sys_steps.more)
  moreover have "schedule ops (i # js) c = schedule ops js (turn ops i c)" by (simp add: schedule_def)
  ultimately show ?case using Cons.IH [of "turn ops i c"] steps_trans by metis
qed (simp add: schedule_def sys_steps.stay)

section \<open>A method halfway\<close>

lemma follows_det: "follows ops b tr b1 \<Longrightarrow> follows ops b tr b2 \<Longrightarrow> b1 = b2"
  by (induction tr arbitrary: b) (auto split: prod.splits)

text \<open>
  The method \<open>x\<close> was begun on the store \<open>s0\<close> and has had the answers \<open>as\<close>: the first ones of its script, on a
  store that differs in the state of the backend only.
\<close>

definition midway :: "'b backend \<Rightarrow> 'b Store \<Rightarrow> operation \<Rightarrow> answer list \<Rightarrow> 'b Store \<Rightarrow> bool" where
  "midway ops s0 x as s \<longleftrightarrow>
     (\<exists>tr1 tr2. script_of ops s0 x = tr1 @ tr2 \<and> as = map snd tr1 \<and>
        (case st_be s0 of
           None \<Rightarrow> s = s0
         | Some b \<Rightarrow> (\<exists>b1. follows ops b tr1 b1 \<and> s = s0\<lparr>st_be := Some b1\<rparr>)))"

lemma midway_start: "midway ops s0 x [] s0"
  unfolding midway_def by (rule exI [where x = "[]"], rule exI [where x = "script_of ops s0 x"]) (simp split: option.split)

lemma midway_nil: "midway ops s0 x as s \<Longrightarrow> st_be s0 = None \<Longrightarrow> next_call s x as = Inr (store_step ops s0 x)"
  using next_call_nil(1) [of s0 ops x] next_call_nil(2) [of s0 x ops] by (auto simp: midway_def)

lemma midway_cases:
  assumes mid: "midway ops s0 x as s" and b: "st_be s0 = Some b"
  obtains (more) b1 b2 a ca where "s = s0\<lparr>st_be := Some b1\<rparr>" "next_call s x as = Inl ca" "perform ops ca b1 = (b2, a)"
      "midway ops s0 x (as @ [a]) (s\<lparr>st_be := Some b2\<rparr>)" "length as < length (script_of ops s0 x)"
  | (over) "next_call s x as = Inr (store_step ops s0 x)"
proof -
  obtain tr1 tr2 b1 where tr: "script_of ops s0 x = tr1 @ tr2" "as = map snd tr1"
    and b1: "follows ops b tr1 b1" "s = s0\<lparr>st_be := Some b1\<rparr>"
    using mid b by (auto simp: midway_def)
  obtain b' where b': "follows ops b (script_of ops s0 x) b'"
    and done1: "next_call (s0\<lparr>st_be := Some b'\<rparr>) x (map snd (script_of ops s0 x)) = Inr (store_step ops s0 x)"
    by (rule next_call_done [OF b])
  show thesis
  proof (cases tr2)
    case Nil
    with tr b1 b' done1 have "next_call s x as = Inr (store_step ops s0 x)" using follows_det [OF b1(1), of b'] by simp
    then show thesis by (rule over)
  next
    case (Cons ca tr3)
    from b' obtain b3 where b3: "follows ops b tr1 b3" "follows ops b3 (ca # tr3) b'"
      unfolding tr Cons follows_append by blast
    obtain b2 where b2: "perform ops (fst ca) b1 = (b2, snd ca)"
      using b3(2) follows_det [OF b3(1) b1(1)] by (auto split: prod.splits)
    have "follows ops b (tr1 @ [ca]) b2" using follows_snoc [OF b1(1) b2] by simp
    moreover have "s\<lparr>st_be := Some b2\<rparr> = s0\<lparr>st_be := Some b2\<rparr>" by (simp add: b1(2))
    ultimately have "midway ops s0 x (as @ [snd ca]) (s\<lparr>st_be := Some b2\<rparr>)"
      unfolding midway_def b option.case by (intro exI conjI) (use tr Cons in \<open>auto\<close>)
    with next_call_scripted [OF b tr(1) [unfolded Cons], of b1] show thesis
      using tr Cons by (intro more [OF b1(2) _ b2]) (simp_all add: b1(2))
  qed
qed

lemma midway_ask:
  assumes "midway ops s0 x as s" "next_call s x as = Inl ca" "st_be s = Some b" "perform ops ca b = (b', a)"
  shows "midway ops s0 x (as @ [a]) (s\<lparr>st_be := Some b'\<rparr>) \<and> length as < length (script_of ops s0 x)"
proof (cases "st_be s0")
  case None
  with midway_nil [OF assms(1)] assms(2) show ?thesis by simp
next
  case (Some b0)
  from assms(1) Some show ?thesis by (cases rule: midway_cases) (use assms in auto)
qed

lemma midway_return:
  assumes "midway ops s0 x as s" "next_call s x as = Inr (s', r)"
  shows "store_step ops s0 x = (s', r)"
proof (cases "st_be s0")
  case None
  with midway_nil [OF assms(1)] assms(2) show ?thesis by simp
next
  case (Some b0)
  from assms(1) Some show ?thesis by (cases rule: midway_cases) (use assms in auto)
qed

text \<open>A method that is running can always go on.\<close>

lemma midway_moves:
  assumes "midway ops s0 x as s"
  shows "(\<exists>s' r. next_call s x as = Inr (s', r)) \<or> (\<exists>ca b b' a. next_call s x as = Inl ca \<and> st_be s = Some b \<and> perform ops ca b = (b', a))"
proof (cases "st_be s0")
  case None
  with midway_nil [OF assms] show ?thesis by (cases "store_step ops s0 x") simp
next
  case (Some b0)
  from assms Some show ?thesis
  proof (cases rule: midway_cases)
    case over
    then show ?thesis by (cases "store_step ops s0 x") simp
  qed auto
qed

section \<open>The invariant\<close>

text \<open>The methods of one thread, and what the log leaves when its methods run one after the other.\<close>

definition own :: "nat \<Rightarrow> entry list \<Rightarrow> (operation \<times> payload result) list" where
  "own i log = map snd (filter (\<lambda>e. fst e = i) log)"

definition log_ops :: "entry list \<Rightarrow> operation list" where
  "log_ops log = map (\<lambda>e. fst (snd e)) log"

definition log_replies :: "entry list \<Rightarrow> payload result list" where
  "log_replies log = map (\<lambda>e. snd (snd e)) log"

lemma log_simps [simp]:
  "own i [] = []" "own i (log @ [(j, xr)]) = (if i = j then own i log @ [xr] else own i log)"
  "log_ops [] = []" "log_ops (log @ [(j, x, r)]) = log_ops log @ [x]"
  "log_replies [] = []" "log_replies (log @ [(j, x, r)]) = log_replies log @ [r]"
  by (simp_all add: own_def log_ops_def log_replies_def)

primrec in_flight :: "phase \<Rightarrow> operation list" where
  "in_flight Idle = []"
| "in_flight (Blocked x) = [x]"
| "in_flight (Running x as) = [x]"
| "in_flight (Leaving x r) = []"

primrec returning :: "phase \<Rightarrow> (operation \<times> payload result) list" where
  "returning Idle = []"
| "returning (Blocked x) = []"
| "returning (Running x as) = []"
| "returning (Leaving x r) = [(x, r)]"

definition thread_ok :: "entry list \<Rightarrow> nat option \<Rightarrow> operation list \<Rightarrow> nat \<Rightarrow> thread \<Rightarrow> bool" where
  "thread_ok log mu prog i t \<longleftrightarrow>
     own i log = th_done t @ returning (th_phase t) \<and>
     prog = map fst (own i log) @ in_flight (th_phase t) @ th_todo t \<and>
     (\<forall>x as. th_phase t = Running x as \<longrightarrow> mu = Some i)"

definition held_ok :: "'b backend \<Rightarrow> 'b Store \<Rightarrow> 'b system \<Rightarrow> bool" where
  "held_ok ops s0 c \<longleftrightarrow>
     (case sys_mu c of
        None \<Rightarrow> sys_store c = s0
      | Some j \<Rightarrow> j < length (sys_threads c) \<and>
          (\<exists>x as. th_phase (sys_threads c ! j) = Running x as \<and> midway ops s0 x as (sys_store c)))"

definition consistent :: "'b backend \<Rightarrow> 'b Store \<Rightarrow> operation list list \<Rightarrow> 'b system \<Rightarrow> bool" where
  "consistent ops s progs c \<longleftrightarrow>
     snd (store_run ops s (log_ops (sys_log c))) = log_replies (sys_log c) \<and>
     held_ok ops (fst (store_run ops s (log_ops (sys_log c)))) c \<and>
     length (sys_threads c) = length progs \<and> (\<forall>e \<in> set (sys_log c). fst e < length progs) \<and>
     (\<forall>i < length progs. thread_ok (sys_log c) (sys_mu c) (progs ! i) i (sys_threads c ! i))"

lemma store_run_snoc:
  "store_run ops s (xs @ [x]) =
     (fst (store_step ops (fst (store_run ops s xs)) x),
      snd (store_run ops s xs) @ [snd (store_step ops (fst (store_run ops s xs)) x)])"
  by (induction xs arbitrary: s) (simp_all add: case_prod_beta)

lemma put_thread_simps [simp]:
  "sys_store (put_thread i t c) = sys_store c" "sys_mu (put_thread i t c) = sys_mu c"
  "sys_log (put_thread i t c) = sys_log c" "sys_threads (put_thread i t c) = (sys_threads c)[i := t]"
  by (simp_all add: put_thread_def)

lemma consistent_start: "consistent ops s progs (start s progs)"
  by (simp add: consistent_def start_def held_ok_def thread_ok_def)

text \<open>One thread changes; the others are as they were.\<close>

lemma consistent_put:
  assumes c: "consistent ops s progs c" and at: "thread_at c i t" and threads: "sys_threads c' = sys_threads c"
    and log: "snd (store_run ops s (log_ops (sys_log c'))) = log_replies (sys_log c')"
    and held: "held_ok ops (fst (store_run ops s (log_ops (sys_log c')))) (put_thread i t' c')"
    and entries: "set (sys_log c') \<subseteq> set (sys_log c) \<union> {i} \<times> UNIV"
    and ok: "thread_ok (sys_log c) (sys_mu c) (progs ! i) i t \<Longrightarrow> thread_ok (sys_log c') (sys_mu c') (progs ! i) i t'"
    and others: "\<And>j u. j \<noteq> i \<Longrightarrow> thread_ok (sys_log c) (sys_mu c) (progs ! j) j u \<Longrightarrow>
      thread_ok (sys_log c') (sys_mu c') (progs ! j) j u"
  shows "consistent ops s progs (put_thread i t' c')"
proof -
  have "thread_ok (sys_log c') (sys_mu c') (progs ! j) j ((sys_threads c)[i := t'] ! j)" if "j < length progs" for j
    using c at that ok others by (cases "j = i") (auto simp: consistent_def thread_at_def)
  with c log held threads entries at show ?thesis by (auto simp: consistent_def thread_at_def)
qed

lemma held_put:
  assumes "held_ok ops s0 c" "thread_at c i t" "\<forall>x as. th_phase t \<noteq> Running x as"
  shows "held_ok ops s0 (put_thread i t' c)"
  using assms by (auto simp: held_ok_def thread_at_def nth_list_update split: option.splits)

lemma consistent_step:
  assumes "sys_step ops c c'" "consistent ops s progs c"
  shows "consistent ops s progs c'"
  using assms
proof (cases rule: sys_step.cases)
  case (call i x xs d)
  show ?thesis unfolding call(1)
    by (rule consistent_put [OF assms(2) call(2) refl])
      (use assms(2) call(2) in \<open>auto simp: consistent_def thread_ok_def intro!: held_put\<close>)
next
  case (lock i x xs d)
  show ?thesis unfolding lock(1)
    by (rule consistent_put [OF assms(2) lock(2)])
      (use assms(2) lock(2,3) in \<open>auto simp: consistent_def thread_ok_def held_ok_def thread_at_def midway_start\<close>)
next
  case (ask i x as xs d ca b b' a)
  have mu: "sys_mu c = Some i"
    using assms(2) ask(2) by (auto simp: consistent_def thread_at_def thread_ok_def)
  have log: "snd (store_run ops s (log_ops (sys_log c))) = log_replies (sys_log c)"
    and held: "midway ops (fst (store_run ops s (log_ops (sys_log c)))) x as (sys_store c)"
    using assms(2) ask(2) mu by (auto simp: consistent_def held_ok_def thread_at_def)
  have next1: "midway ops (fst (store_run ops s (log_ops (sys_log c)))) x (as @ [a]) ((sys_store c)\<lparr>st_be := Some b'\<rparr>)"
    by (rule midway_ask [OF held ask(3-5), THEN conjunct1])
  show ?thesis unfolding ask(1)
    by (rule consistent_put [OF assms(2) ask(2)])
      (use ask(2) mu log next1 in \<open>auto simp: thread_ok_def held_ok_def thread_at_def\<close>)
next
  case (return i x as xs d s' r)
  have mu: "sys_mu c = Some i"
    using assms(2) return(2) by (auto simp: consistent_def thread_at_def thread_ok_def)
  have log: "snd (store_run ops s (log_ops (sys_log c))) = log_replies (sys_log c)"
    and held: "midway ops (fst (store_run ops s (log_ops (sys_log c)))) x as (sys_store c)"
    using assms(2) return(2) mu by (auto simp: consistent_def held_ok_def thread_at_def)
  have over: "store_step ops (fst (store_run ops s (log_ops (sys_log c)))) x = (s', r)"
    by (rule midway_return [OF held return(3)])
  show ?thesis unfolding return(1)
    by (rule consistent_put [OF assms(2) return(2)])
      (use mu log over in \<open>auto simp: thread_ok_def held_ok_def store_run_snoc\<close>)
next
  case (leave i x r xs d)
  show ?thesis unfolding leave(1)
    by (rule consistent_put [OF assms(2) leave(2) refl])
      (use assms(2) leave(2) in \<open>auto simp: consistent_def thread_ok_def intro!: held_put\<close>)
qed

lemma consistent_steps: "sys_steps ops c c' \<Longrightarrow> consistent ops s progs c \<Longrightarrow> consistent ops s progs c'"
  by (induction rule: sys_steps.induct) (auto intro: consistent_step)

lemmas reached_consistent = consistent_steps [OF _ consistent_start]

lemma consistent_thread:
  assumes "consistent ops s progs c" "i < length progs"
  shows "own i (sys_log c) = th_done (sys_threads c ! i) @ returning (th_phase (sys_threads c ! i))"
    "progs ! i = map fst (own i (sys_log c)) @ in_flight (th_phase (sys_threads c ! i)) @ th_todo (sys_threads c ! i)"
  using assms by (auto simp: consistent_def thread_ok_def)

lemma step_log: "sys_step ops c c' \<Longrightarrow> prefix (sys_log c) (sys_log c')"
  by (induction rule: sys_step.induct) simp_all

lemma steps_log: "sys_steps ops c c' \<Longrightarrow> prefix (sys_log c) (sys_log c')"
  by (induction rule: sys_steps.induct) (auto dest: step_log intro: prefix_order.trans)

section \<open>Every run ends\<close>

lemma threads_move:
  assumes c: "consistent ops s progs c" and unfinished: "\<not> finished c"
  shows "\<exists>c'. sys_step ops c c'"
proof (cases "sys_mu c")
  case (Some j)
  then obtain x as where j: "j < length (sys_threads c)" "th_phase (sys_threads c ! j) = Running x as"
    and mid: "midway ops (fst (store_run ops s (log_ops (sys_log c)))) x as (sys_store c)"
    using c by (auto simp: consistent_def held_ok_def)
  have at: "thread_at c j \<lparr>th_phase = Running x as, th_todo = th_todo (sys_threads c ! j), th_done = th_done (sys_threads c ! j)\<rparr>"
    using j by (simp add: thread_at_def flip: j(2))
  from midway_moves [OF mid] show ?thesis using sys_step.ask [OF at] sys_step.return [OF at] by blast
next
  case None
  then obtain i where i: "i < length (sys_threads c)"
    and idle: "\<not> (th_phase (sys_threads c ! i) = Idle \<and> th_todo (sys_threads c ! i) = [])"
    using unfinished by (auto simp: finished_def in_set_conv_nth)
  obtain ph xs d where t: "sys_threads c ! i = \<lparr>th_phase = ph, th_todo = xs, th_done = d\<rparr>"
    by (cases "sys_threads c ! i") auto
  then have at: "thread_at c i \<lparr>th_phase = ph, th_todo = xs, th_done = d\<rparr>" using i by (simp add: thread_at_def)
  show ?thesis
  proof (cases ph)
    case Idle
    with idle t at show ?thesis by (cases xs) (auto intro: sys_step.call)
  next
    case (Running x as)
    with t i c None show ?thesis by (auto simp: consistent_def thread_ok_def)
  qed (use at None in \<open>auto intro: sys_step.lock sys_step.leave\<close>)
qed

text \<open>
  The steps a thread has left, counting a method's calls as one; and the calls the method that holds the mutex
  has left.
\<close>

primrec phase_weight :: "phase \<Rightarrow> nat" where
  "phase_weight Idle = 0"
| "phase_weight (Blocked x) = 3"
| "phase_weight (Running x as) = 2"
| "phase_weight (Leaving x r) = 1"

definition weight :: "thread \<Rightarrow> nat" where
  "weight t = 4 * length (th_todo t) + phase_weight (th_phase t)"

definition work :: "'b system \<Rightarrow> nat" where
  "work c = sum_list (map weight (sys_threads c))"

definition calls_left :: "'b backend \<Rightarrow> 'b Store \<Rightarrow> 'b system \<Rightarrow> nat" where
  "calls_left ops s c =
     (case sys_mu c of
        None \<Rightarrow> 0
      | Some j \<Rightarrow>
          (case th_phase (sys_threads c ! j) of
             Running x as \<Rightarrow> length (script_of ops (fst (store_run ops s (log_ops (sys_log c)))) x) - length as
           | _ \<Rightarrow> 0))"

lemma work_put:
  assumes "thread_at c i t" "sys_threads c' = sys_threads c"
  shows "work (put_thread i t' c') + weight t = work c + weight t'"
proof -
  have i: "i < length (map weight (sys_threads c))" using assms(1) by (simp add: thread_at_def)
  have "weight t \<le> work c" using elem_le_sum_list [OF i] assms(1) by (simp add: work_def thread_at_def)
  then show ?thesis
    using sum_list_update [OF i, of "weight t'"] assms by (simp add: work_def map_update thread_at_def)
qed

lemma work_less:
  "thread_at c i t \<Longrightarrow> sys_threads c' = sys_threads c \<Longrightarrow> weight t' < weight t \<Longrightarrow> work (put_thread i t' c') < work c"
  using work_put [of c i t c' t'] by simp

lemma work_lexI: "work c' < work c \<Longrightarrow> ((work c', n'), (work c, n)) \<in> less_than <*lex*> less_than"
  by simp

lemma step_decreases:
  assumes c: "consistent ops s progs c" and move: "sys_step ops c c'"
  shows "((work c', calls_left ops s c'), (work c, calls_left ops s c)) \<in> less_than <*lex*> less_than"
  using move
proof (cases rule: sys_step.cases)
  case (ask i x as xs d ca b b' a)
  have mu: "sys_mu c = Some i"
    using c ask(2) by (auto simp: consistent_def thread_at_def thread_ok_def)
  have held: "midway ops (fst (store_run ops s (log_ops (sys_log c)))) x as (sys_store c)"
    using c ask(2) mu by (auto simp: consistent_def held_ok_def thread_at_def)
  have "work c' + weight \<lparr>th_phase = Running x as, th_todo = xs, th_done = d\<rparr> =
      work c + weight \<lparr>th_phase = Running x (as @ [a]), th_todo = xs, th_done = d\<rparr>"
    unfolding ask(1) by (rule work_put [OF ask(2)]) simp
  then have "work c' = work c" by (simp add: weight_def)
  moreover have "calls_left ops s c' < calls_left ops s c"
    using midway_ask [OF held ask(3-5)] mu ask(2) unfolding ask(1) calls_left_def by (auto simp: thread_at_def)
  ultimately show ?thesis by simp
next
  case (call i x xs d)
  show ?thesis unfolding call(1) by (rule work_lexI, rule work_less [OF call(2)]) (simp_all add: weight_def)
next
  case (lock i x xs d)
  show ?thesis unfolding lock(1) by (rule work_lexI, rule work_less [OF lock(2)]) (simp_all add: weight_def)
next
  case (return i x as xs d s' r)
  show ?thesis unfolding return(1) by (rule work_lexI, rule work_less [OF return(2)]) (simp_all add: weight_def)
next
  case (leave i x r xs d)
  show ?thesis unfolding leave(1) by (rule work_lexI, rule work_less [OF leave(2)]) (simp_all add: weight_def)
qed

lemma no_infinite_run: "\<not> (\<exists>f. f 0 = start s progs \<and> (\<forall>n. sys_step ops (f n) (f (Suc n))))"
proof
  assume "\<exists>f. f 0 = start s progs \<and> (\<forall>n. sys_step ops (f n) (f (Suc n)))"
  then obtain f where f: "f 0 = start s progs" "\<And>n. sys_step ops (f n) (f (Suc n))" by blast
  have "consistent ops s progs (f n)" for n
    by (induction n) (auto simp: f(1) consistent_start intro: consistent_step f(2))
  note down = step_decreases [OF this f(2)]
  define g where "g n = (work (f n), calls_left ops s (f n))" for n
  have "(g (Suc n), g n) \<in> less_than <*lex*> less_than" for n unfolding g_def by (rule down)
  moreover have "wf (less_than <*lex*> less_than)" by (intro wf_lex_prod wf_less_than)
  ultimately show False unfolding wf_iff_no_infinite_down_chain by blast
qed

lemma finished_thread:
  assumes c: "consistent ops s progs c" and fin: "finished c" and i: "i < length progs"
  shows "th_done (sys_threads c ! i) = own i (sys_log c)" "map fst (own i (sys_log c)) = progs ! i"
proof -
  have "th_phase (sys_threads c ! i) = Idle" "th_todo (sys_threads c ! i) = []"
    using c fin i by (auto simp: finished_def consistent_def)
  with consistent_thread [OF c i] show "th_done (sys_threads c ! i) = own i (sys_log c)" "map fst (own i (sys_log c)) = progs ! i"
    by simp_all
qed

text \<open>So every run can be brought to its end.\<close>

lemma finishing_run:
  assumes "consistent ops s progs c"
  obtains c' where "sys_steps ops c c'" "finished c'"
proof -
  have "wf (inv_image (less_than <*lex*> less_than) (\<lambda>c. (work c, calls_left ops s c)))"
    by (intro wf_inv_image wf_lex_prod wf_less_than)
  then have "consistent ops s progs c \<Longrightarrow> \<exists>c'. sys_steps ops c c' \<and> finished c'"
  proof (induction c rule: wf_induct_rule)
    case (less c)
    show ?case
    proof (cases "finished c")
      case False
      obtain c1 where c1: "sys_step ops c c1" using threads_move [OF less.prems False] by blast
      then obtain c' where "sys_steps ops c1 c'" "finished c'"
        using less.IH [of c1] step_decreases [OF less.prems c1] consistent_step [OF c1 less.prems] by auto
      with c1 show ?thesis using steps_trans sys_steps.more [OF sys_steps.stay c1] by blast
    qed (use sys_steps.stay in blast)
  qed
  with assms that show thesis by blast
qed

section \<open>Threads on an exact backend\<close>

lemma entry_own:
  assumes c: "consistent ops s progs c" and e: "(j, x, r) \<in> set (sys_log c)"
  shows "j < length progs" "x \<in> set (progs ! j)" "(x, r) \<in> set (own j (sys_log c))"
proof -
  show j: "j < length progs" using c e by (force simp: consistent_def)
  show own: "(x, r) \<in> set (own j (sys_log c))" using e by (force simp: own_def)
  then have "x \<in> set (map fst (own j (sys_log c)))" by force
  with consistent_thread(2) [OF c j] show "x \<in> set (progs ! j)" by (metis Un_iff set_append)
qed

text \<open>Where one thread alone is on a profile, the log on that profile is the thread's.\<close>

lemma log_on_profile:
  assumes "\<forall>(j, x, r) \<in> set log. (op_profile x = Some p) = (j = i)"
  shows "filter (\<lambda>x. op_profile x = Some p) (log_ops log) = map fst (own i log)"
    "replies_on p (log_ops log) (log_replies log) = map snd (own i log)"
  using assms by (induction log) (auto simp: log_ops_def log_replies_def own_def)

lemma store_run_length: "length (snd (store_run ops s xs)) = length xs"
  by (induction xs arbitrary: s) (simp_all add: case_prod_beta)

lemma store_run_take: "snd (store_run ops s xs) = take (length xs) (snd (store_run ops s (xs @ ys)))"
  by (induction xs arbitrary: s) (simp_all add: case_prod_beta)

context exact_backend
begin

lemma threads_isolated:
  assumes wf: "store_wf good view s" and run: "sys_steps ops (start s progs) c"
    and open1: "\<forall>xs \<in> set progs. OpClose \<notin> set xs" and i: "i < length progs"
    and own1: "\<forall>x \<in> set (progs ! i). op_profile x = Some p"
    and other: "\<forall>j < length progs. j \<noteq> i \<longrightarrow> (\<forall>x \<in> set (progs ! j). op_profile x \<noteq> Some p)"
  shows "list_all2 agree (map snd (th_done (sys_threads c ! i)))
    (snd (store_run ops s (map fst (th_done (sys_threads c ! i)))))"
proof -
  note c = reached_consistent [OF run]
  let ?log = "sys_log c" and ?d = "th_done (sys_threads c ! i)"
  have on: "\<forall>(j, x, r) \<in> set ?log. (op_profile x = Some p) = (j = i)"
    using entry_own(1,2) [OF c] own1 other by blast
  have "OpClose \<notin> set (log_ops ?log)"
    using entry_own(1,2) [OF c] open1 by (force simp: log_ops_def)
  note iso = sessions_isolated [OF wf this, of p, unfolded log_on_profile(1) [OF on]]
  have "snd (store_run ops s (log_ops ?log)) = log_replies ?log" using c by (simp add: consistent_def)
  from iso [unfolded this log_on_profile(2) [OF on] consistent_thread(1) [OF c i]]
  have "list_all2 agree (map snd ?d @ map snd (returning (th_phase (sys_threads c ! i))))
      (snd (store_run ops s (map fst ?d @ map fst (returning (th_phase (sys_threads c ! i))))))" by simp
  from list_all2_takeI [OF this, of "length ?d"] show ?thesis
    using store_run_take [of ops s "map fst ?d"] by simp
qed

end

text \<open>Several writes of one absent key, none of which overwrites: the first succeeds, the others find it there.\<close>

lemma spec_race:
  assumes "\<not> sp_closed sp" "writable A p {k}" "sp_map sp (p, k) = None"
  shows "spec_run A sp (OpSet p k v False # map (\<lambda>v. OpSet p k v False) vs) =
    (sp\<lparr>sp_map := (sp_map sp)((p, k) \<mapsto> v)\<rparr>, Inr Done # replicate (length vs) (Inl ErrExists))"
proof -
  have key: "spec_write_key A p k = None"
    using writable_spec [of A p "[k]"] assms(2) by (simp split: option.splits)
  have "spec_run A sp1 (map (\<lambda>v. OpSet p k v False) vs) = (sp1, replicate (length vs) (Inl ErrExists))"
    if "\<not> sp_closed sp1" "sp_map sp1 (p, k) \<noteq> None" for sp1
  proof -
    from that(2) obtain v0 where "sp_map sp1 (p, k) = Some v0" by blast
    with that(1) show ?thesis by (induction vs) (simp_all add: spec_step_def key)
  qed
  then show ?thesis using assms by (simp add: spec_step_def key)
qed

context exact_backend
begin

lemma threads_race:
  assumes wf: "store_wf good view s" and op: "\<not> st_closed s"
    and w: "writable (st_allowed s) p {k}" and absent: "store_abs view s (p, k) = None"
    and vs: "vs \<noteq> []" and run: "sys_steps ops (start s (map (\<lambda>v. [OpSet p k v False]) vs)) c" and fin: "finished c"
  shows "\<exists>i < length vs. th_done (sys_threads c ! i) = [(OpSet p k (vs ! i) False, Inr Done)] \<and>
    store_abs view (sys_store c) (p, k) = Some (vs ! i) \<and>
    (\<forall>j < length vs. j \<noteq> i \<longrightarrow>
       (\<exists>e. th_done (sys_threads c ! j) = [(OpSet p k (vs ! j) False, Inl e)] \<and> errors_Is e ErrExists))"
proof -
  let ?progs = "map (\<lambda>v. [OpSet p k v False]) vs" and ?log = "sys_log c"
  note c = reached_consistent [OF run]
  have th: "th_done (sys_threads c ! i) = own i ?log" "map fst (own i ?log) = [OpSet p k (vs ! i) False]" if "i < length vs" for i
    using finished_thread [OF c fin, of i] that by simp_all
  have set1: "j < length vs \<and> x = OpSet p k (vs ! j) False" if "(j, x, r) \<in> set ?log" for j x r
    using entry_own [OF c that] by auto
  obtain i x r rest where log: "?log = (i, x, r) # rest"
  proof (cases ?log)
    case Nil
    with th(2) [of 0] vs show thesis by simp
  next
    case (Cons e rest)
    then show thesis using that by (cases e) auto
  qed
  define ws where "ws = map (\<lambda>e. vs ! fst e) rest"
  have i: "i < length vs" and x: "x = OpSet p k (vs ! i) False" using set1 [of i x r] log by simp_all
  have "fst (snd e) = OpSet p k (vs ! fst e) False" if "e \<in> set rest" for e
    using set1 [of "fst e" "fst (snd e)" "snd (snd e)"] that log by simp
  then have rest: "log_ops rest = map (\<lambda>v. OpSet p k v False) ws"
    by (simp add: log_ops_def ws_def)
  have "log_ops ?log = OpSet p k (vs ! i) False # map (\<lambda>v. OpSet p k v False) ws"
    using rest by (simp add: log x log_ops_def)
  then have spec: "spec_run (st_allowed s) (store_spec view s) (log_ops ?log) =
      ((store_spec view s)\<lparr>sp_map := (store_abs view s)((p, k) \<mapsto> vs ! i)\<rparr>, Inr Done # replicate (length ws) (Inl ErrExists))"
    using spec_race [of "store_spec view s" "st_allowed s" p k "vs ! i" ws] op w absent by (simp add: store_spec_def)
  have ran: "store_run ops s (log_ops ?log) = (sys_store c, log_replies ?log)"
    using c fin by (auto simp: consistent_def held_ok_def finished_def prod_eq_iff)
  from store_run_refines [OF wf ran] spec
  have abs: "(store_spec view s)\<lparr>sp_map := (store_abs view s)((p, k) \<mapsto> vs ! i)\<rparr> = store_spec view (sys_store c)"
    and m: "list_all2 reply_matches (log_replies ?log) (Inr Done # replicate (length ws) (Inl ErrExists))" by auto
  have r: "r = Inr Done" using m by (cases r) (simp_all add: log log_replies_def)
  have lost: "\<exists>e. q = Inl e \<and> errors_Is e ErrExists" if "(j, y, q) \<in> set rest" for j y q
  proof -
    have "list_all2 reply_matches (log_replies rest) (replicate (length ws) (Inl ErrExists))"
      using m by (simp add: log log_replies_def)
    moreover have "q \<in> set (log_replies rest)" using that by (force simp: log_replies_def)
    ultimately have "reply_matches q (Inl ErrExists)"
      by (auto simp: list_all2_conv_all_nth in_set_conv_nth)
    then show ?thesis by (cases q) simp_all
  qed
  show ?thesis
  proof (intro exI [where x = i] conjI allI impI)
    show "i < length vs" by (rule i)
    have "own i ?log = (x, r) # own i rest" by (simp add: log own_def)
    with th [OF i] x r show "th_done (sys_threads c ! i) = [(OpSet p k (vs ! i) False, Inr Done)]" by simp
    show "store_abs view (sys_store c) (p, k) = Some (vs ! i)"
      using fun_cong [OF arg_cong [OF abs, of sp_map], of "(p, k)"] by simp
  next
    fix j assume j: "j < length vs" "j \<noteq> i"
    then have "own j ?log = own j rest" by (simp add: log own_def)
    with th(2) [OF j(1)] obtain q where q: "own j rest = [(OpSet p k (vs ! j) False, q)]" by auto
    then have "(j, OpSet p k (vs ! j) False, q) \<in> set rest" by (auto simp: own_def filter_eq_Cons_iff)
    from lost [OF this] obtain e where e: "q = Inl e" "errors_Is e ErrExists" by blast
    with th(1) [OF j(1)] q \<open>own j ?log = own j rest\<close>
    show "\<exists>e. th_done (sys_threads c ! j) = [(OpSet p k (vs ! j) False, Inl e)] \<and> errors_Is e ErrExists" by simp
  qed
qed

end

end
