(* ===== verification/ThreadProps.thy ===== *)
theory ThreadProps
  imports Threads StoreProps
begin

text \<open>
  The properties of a store shared by threads that hold over any backend, whatever its calls answer, with the
  in-memory store as their witness.
\<close>

section \<open>After Close\<close>

lemma step_closed:
  "st_closed s \<Longrightarrow> store_step ops s x = (s, if x = OpClose then Inr Done else Inl (Sentinel ErrStoreClosed))"
  by (cases x) (simp_all add: Store_Get_def Store_Set_def Store_Delete_def Store_Exists_def Store_ListBundle_def
    Store_ListProfiles_def Store_DeleteBundle_def Store_SetBundle_def Store_Close_def err_reply_def)

lemma step_closes: "store_step ops s OpClose = (s', Inr Done) \<Longrightarrow> st_closed s'"
  by (auto simp: Store_Close_def err_reply_def split: if_splits prod.splits option.splits)

lemma run_append:
  "store_run ops s (xs @ ys) =
     (fst (store_run ops (fst (store_run ops s xs)) ys),
      snd (store_run ops s xs) @ snd (store_run ops (fst (store_run ops s xs)) ys))"
  by (induction xs arbitrary: s) (simp_all add: case_prod_beta)

lemma run_closed:
  "st_closed s \<Longrightarrow> store_run ops s xs = (s, map (\<lambda>x. if x = OpClose then Inr Done else Inl (Sentinel ErrStoreClosed)) xs)"
  by (induction xs) (simp_all add: step_closed)

lemma log_append [simp]:
  "log_ops (log @ log') = log_ops log @ log_ops log'" "log_replies (log @ log') = log_replies log @ log_replies log'"
  by (simp_all add: log_ops_def log_replies_def)

lemma log_Cons [simp]:
  "log_ops ((j, x, r) # log) = x # log_ops log" "log_replies ((j, x, r) # log) = r # log_replies log"
  "length (log_ops log) = length (log_replies log)"
  by (simp_all add: log_ops_def log_replies_def)

lemma log_closed:
  assumes run: "snd (store_run ops s (log_ops log)) = log_replies log" and close: "(i, OpClose, Inr Done) \<in> set log"
  shows "st_closed (fst (store_run ops s (log_ops log)))"
proof -
  obtain log1 log2 where log: "log = log1 @ (i, OpClose, Inr Done) # log2" using split_list [OF close] by blast
  let ?s1 = "fst (store_run ops s (log_ops log1))"
  obtain s2 r where step1: "store_step ops ?s1 OpClose = (s2, r)" by (cases "store_step ops ?s1 OpClose")
  have r: "r = Inr Done"
    using run by (simp add: log run_append step1 case_prod_beta store_run_length del: store_step.simps)
  have "st_closed s2" by (rule step_closes [OF step1 [unfolded r]])
  then show ?thesis by (simp add: log run_append step1 case_prod_beta run_closed del: store_step.simps)
qed

lemma midway_closed: "midway ops s0 x as s \<Longrightarrow> st_closed s = st_closed s0"
  by (auto simp: midway_def split: option.splits)

lemma consistent_closed:
  assumes c: "consistent ops s progs c" and closed: "st_closed (fst (store_run ops s (log_ops (sys_log c))))"
  shows "st_closed (sys_store c)"
  using assms by (auto simp: consistent_def held_ok_def midway_closed split: option.splits)

section \<open>Properties\<close>

text \<open>
  C3. A store shared by threads is linearizable, over any backend: at any moment of any run, the methods whose
  bodies have run, in the order they ran, give one after the other the replies the threads got and, when the
  mutex is free, the store that is there. Each thread's methods stand in that order as the thread called
  them, and those that had run at an earlier moment come before all others, so that a method that returned
  before another was called comes first. No two threads are inside a method at a time.
\<close>

theorem threads_linearizable:
  assumes earlier: "sys_steps ops (start s progs) c" and later: "sys_steps ops c c'"
  shows "\<exists>s'. store_run ops s (log_ops (sys_log c')) = (s', log_replies (sys_log c')) \<and>
     (sys_mu c' = None \<longrightarrow> sys_store c' = s') \<and> prefix (sys_log c) (sys_log c') \<and>
     (\<forall>i < length progs.
        own i (sys_log c') = th_done (sys_threads c' ! i) @ returning (th_phase (sys_threads c' ! i)) \<and>
        progs ! i = map fst (own i (sys_log c')) @ in_flight (th_phase (sys_threads c' ! i)) @ th_todo (sys_threads c' ! i) \<and>
        (\<forall>x as. th_phase (sys_threads c' ! i) = Running x as \<longrightarrow> sys_mu c' = Some i))"
proof -
  note c = consistent_steps [OF later reached_consistent [OF earlier]]
  show ?thesis
    using c steps_log [OF later]
    by (intro exI [where x = "fst (store_run ops s (log_ops (sys_log c')))"])
      (auto simp: consistent_def held_ok_def thread_ok_def prod_eq_iff)
qed

text \<open>Two threads on the in-memory store: one writes a bundle while the other waits for the mutex.\<close>

definition two_threads :: "memoryBackend system" where
  "two_threads = start (opened ''svc'' SourceExplicit (None, []))
     [[OpSetBundle ''p'' [(''b'', ''2''), (''a'', ''1'')] False], [OpSet ''p'' ''a'' ''9'' False, OpClose]]"

definition midst :: "memoryBackend system" where
  "midst = schedule memory_ops [0, 1, 0, 0, 1, 0, 0] two_threads"

definition both_done :: "memoryBackend system" where
  "both_done = schedule memory_ops [1, 0, 1, 0, 0, 1, 1, 1, 1, 1, 1, 1, 1, 1, 1] midst"

lemma midst_phases:
  "map th_phase (sys_threads midst) =
     [Running (OpSetBundle ''p'' [(''b'', ''2''), (''a'', ''1'')] False) [Flag (Inr False), Flag (Inr False), Outcome None],
      Blocked (OpSet ''p'' ''a'' ''9'' False)]"
  by code_simp

lemma both_done_log:
  "map (\<lambda>(i, x, r). (i, x, isl r)) (sys_log both_done) =
     [(0, OpSetBundle ''p'' [(''b'', ''2''), (''a'', ''1'')] False, False), (1, OpSet ''p'' ''a'' ''9'' False, True),
      (1, OpClose, False)]"
  by code_simp

theorem threads_linearizable_witness:
  "\<exists>s'. store_run memory_ops (opened ''svc'' SourceExplicit (None, [])) (log_ops (sys_log both_done)) =
       (s', log_replies (sys_log both_done)) \<and> sys_store both_done = s' \<and>
     log_ops (sys_log both_done) =
       [OpSetBundle ''p'' [(''b'', ''2''), (''a'', ''1'')] False, OpSet ''p'' ''a'' ''9'' False, OpClose]"
proof -
  have "sys_steps memory_ops two_threads midst" "sys_steps memory_ops midst both_done"
    unfolding midst_def both_done_def by (rule schedule_steps)+
  note all = threads_linearizable [OF this [unfolded two_threads_def]]
  moreover have "sys_mu both_done = None" by code_simp
  moreover have "log_ops (sys_log both_done) =
      [OpSetBundle ''p'' [(''b'', ''2''), (''a'', ''1'')] False, OpSet ''p'' ''a'' ''9'' False, OpClose]" by code_simp
  ultimately show ?thesis by auto
qed

text \<open>
  C8. Threads that share a store neither deadlock nor run for ever: in every state a run can reach some thread
  can move unless all methods have returned, and there is no infinite run.
\<close>

theorem threads_finish:
  "(\<forall>c. sys_steps ops (start s progs) c \<longrightarrow> finished c \<or> (\<exists>c'. sys_step ops c c')) \<and>
   \<not> (\<exists>f. f 0 = start s progs \<and> (\<forall>n. sys_step ops (f n) (f (Suc n))))"
  using threads_move reached_consistent no_infinite_run by blast

theorem threads_finish_witness:
  "\<not> finished midst \<and> (\<exists>c'. sys_step memory_ops midst c')"
proof -
  have "sys_steps memory_ops two_threads midst" unfolding midst_def by (rule schedule_steps)
  moreover have "\<not> finished midst" by code_simp
  ultimately show ?thesis
    using threads_finish [of memory_ops, THEN conjunct1, rule_format] unfolding two_threads_def by blast
qed

text \<open>
  C9. Once a \<open>Close\<close> has returned without an error to any thread, the store stays closed, and every method that
  runs its body after that, in whichever thread, is refused with \<open>ErrStoreClosed\<close>; another \<open>Close\<close> does nothing.
\<close>

theorem threads_closed:
  assumes earlier: "sys_steps ops (start s progs) c" and later: "sys_steps ops c c'"
    and i: "i < length progs" and close: "(OpClose, Inr Done) \<in> set (th_done (sys_threads c ! i))"
  shows "st_closed (sys_store c') \<and>
    (\<exists>log. sys_log c' = sys_log c @ log \<and>
       (\<forall>(j, x, r) \<in> set log. r = (if x = OpClose then Inr Done else Inl (Sentinel ErrStoreClosed))))"
proof -
  note c = reached_consistent [OF earlier] and c' = consistent_steps [OF later reached_consistent [OF earlier]]
  have "(OpClose, Inr Done) \<in> set (own i (sys_log c))" using consistent_thread(1) [OF c i] close by simp
  then have entry: "(i, OpClose, Inr Done) \<in> set (sys_log c)" by (auto simp: own_def)
  obtain log where log: "sys_log c' = sys_log c @ log" using steps_log [OF later] by (auto simp: prefix_def)
  have run: "snd (store_run ops s (log_ops (sys_log c))) = log_replies (sys_log c)"
    and run': "snd (store_run ops s (log_ops (sys_log c'))) = log_replies (sys_log c')"
    using c c' by (simp_all add: consistent_def)
  note closed = log_closed [OF run entry]
  have "log_replies log = map (\<lambda>x. if x = OpClose then Inr Done else Inl (Sentinel ErrStoreClosed)) (log_ops log)"
    using run' run by (simp add: log run_append run_closed [OF closed])
  then have "\<forall>(j, x, r) \<in> set log. r = (if x = OpClose then Inr Done else Inl (Sentinel ErrStoreClosed))"
    by (induction log) (auto simp: log_ops_def log_replies_def)
  moreover have "st_closed (sys_store c')"
    by (rule consistent_closed [OF c']) (simp add: log run_append run_closed [OF closed] closed)
  ultimately show ?thesis using log by blast
qed

text \<open>One thread closes the store while another, whose call it overtakes, waits.\<close>

definition closing :: "memoryBackend system" where
  "closing = start (opened ''svc'' SourceExplicit (None, [])) [[OpClose], [OpGet ''p'' ''a'', OpClose]]"

theorem threads_closed_witness:
  "map th_done (sys_threads (schedule memory_ops [1, 0, 0, 0, 0, 0, 1, 1, 1, 1, 1, 1] closing)) =
     [[(OpClose, Inr Done)], [(OpGet ''p'' ''a'', Inl (Sentinel ErrStoreClosed))]] \<and>
   st_closed (sys_store (schedule memory_ops [1, 0, 0, 0, 0, 0, 1, 1, 1, 1, 1, 1] closing))"
proof -
  let ?c = "schedule memory_ops [1, 0, 0, 0, 0, 0] closing" and ?c' = "schedule memory_ops [1, 0, 0, 0, 0, 0, 1, 1, 1, 1, 1, 1] closing"
  have steps: "sys_steps memory_ops closing ?c" "sys_steps memory_ops ?c (schedule memory_ops [1, 1, 1, 1, 1, 1] ?c)"
    by (rule schedule_steps)+
  have c': "schedule memory_ops [1, 1, 1, 1, 1, 1] ?c = ?c'" by (simp add: schedule_def)
  have "th_done (sys_threads ?c ! 0) = [(OpClose, Inr Done)]" by code_simp
  then have "(OpClose, Inr Done) \<in> set (th_done (sys_threads ?c ! 0))" by simp
  from threads_closed [OF steps [unfolded closing_def c' [unfolded closing_def]] _ this [unfolded closing_def]]
  have "st_closed (sys_store ?c')" by (simp add: closing_def)
  moreover have "map th_done (sys_threads ?c') = [[(OpClose, Inr Done)], [(OpGet ''p'' ''a'', Inl (Sentinel ErrStoreClosed))]]"
    by code_simp
  ultimately show ?thesis by simp
qed

end
