(* ===== verification/Redaction.thy ===== *)
theory Redaction
  imports Errors
begin

text \<open>
  The redaction helpers of \<open>credstore/redaction.go\<close>. A \<open>Redactor\<close> is the list of its secrets;
  its lock makes \<open>Add\<close> and \<open>snapshot\<close> atomic. \<open>redactWith\<close> keeps the loops of the source:
  the search that collects every occurrence as a half-open interval, the sort by start, and the merging
  loop with its builder, \<open>prev\<close> and current interval. \<open>sort.Slice\<close> is not stable; the lemmas show
  that the order of intervals with the same start does not matter. The downstream writer is an argument.
\<close>

section \<open>The Redactor\<close>

record Redactor =
  secrets :: "string list"

definition Redactor_Add :: "Redactor \<Rightarrow> string \<Rightarrow> Redactor" where
  "Redactor_Add r secret =
     (if secret = '''' then r
      else if secret \<in> set (secrets r) then r
      else r\<lparr>secrets := secrets r @ [secret]\<rparr>)"

fun NewRedactor_loop :: "string list \<Rightarrow> Redactor \<Rightarrow> Redactor" where
  "NewRedactor_loop [] r = r"
| "NewRedactor_loop (s # ss) r = NewRedactor_loop ss (Redactor_Add r s)"

definition NewRedactor :: "string list \<Rightarrow> Redactor" where
  "NewRedactor ss = NewRedactor_loop ss \<lparr>secrets = []\<rparr>"

definition Redactor_snapshot :: "Redactor \<Rightarrow> string list" where
  "Redactor_snapshot r = secrets r"

section \<open>Redact\<close>

definition redactedPlaceholder :: "nat \<Rightarrow> string" where
  "redactedPlaceholder n = ''<redacted, len='' @ show_nat n @ ''>''"

fun containsAnySecret :: "string \<Rightarrow> string list \<Rightarrow> bool" where
  "containsAnySecret s [] = False"
| "containsAnySecret s (sec # secs) = (if strings_Contains s sec then True else containsAnySecret s secs)"

definition safeReplacement :: "nat \<Rightarrow> string list \<Rightarrow> string" where
  "safeReplacement n secs =
     (let rep = redactedPlaceholder n in if containsAnySecret rep secs then '''' else rep)"

type_synonym span = "nat \<times> nat"

text \<open>The occurrences of one secret from offset \<open>i\<close> on; \<open>i <= len(s) - len(sec)\<close> is over signed ints.\<close>

function find_spans :: "string \<Rightarrow> string \<Rightarrow> nat \<Rightarrow> span list \<Rightarrow> span list" where
  "find_spans s sec i spans =
     (if i + length sec \<le> length s then
        (case strings_Index (drop i s) sec of
           None \<Rightarrow> spans
         | Some j \<Rightarrow>
             (let start = i + j in
              find_spans s sec (start + 1) (spans @ [(start, start + length sec)])))
      else spans)"
  by pat_completeness auto

termination
  by (relation "measure (\<lambda>(s, sec, i, spans). Suc (length s) - i)") auto

declare find_spans.simps [simp del]

fun collect_spans :: "string \<Rightarrow> string list \<Rightarrow> span list \<Rightarrow> span list" where
  "collect_spans s [] spans = spans"
| "collect_spans s (sec # secs) spans = collect_spans s secs (find_spans s sec 0 spans)"

definition slice :: "string \<Rightarrow> nat \<Rightarrow> nat \<Rightarrow> string" where
  "slice s i j = take (j - i) (drop i s)"

text \<open>The state of the merging loop: the builder's contents, \<open>prev\<close>, \<open>curStart\<close>, \<open>curEnd\<close>.\<close>

definition flush :: "string \<Rightarrow> string list \<Rightarrow> string \<Rightarrow> nat \<Rightarrow> nat \<Rightarrow> nat \<Rightarrow> string" where
  "flush s secs b prev curStart curEnd =
     b @ slice s prev curStart @ safeReplacement (curEnd - curStart) secs"

fun merge_loop :: "string \<Rightarrow> string list \<Rightarrow> span list \<Rightarrow> string \<Rightarrow> nat \<Rightarrow> nat \<Rightarrow> nat \<Rightarrow> string" where
  "merge_loop s secs [] b prev curStart curEnd =
     flush s secs b prev curStart curEnd @ drop curEnd s"
| "merge_loop s secs ((start, end1) # spans) b prev curStart curEnd =
     (if start < curEnd then
        merge_loop s secs spans b prev curStart (if end1 > curEnd then end1 else curEnd)
      else merge_loop s secs spans (flush s secs b prev curStart curEnd) curEnd start end1)"

definition redactWith :: "string \<Rightarrow> string list \<Rightarrow> string" where
  "redactWith s secs =
     (if s = '''' then s
      else if secs = [] then s
      else
        (case sort_key fst (collect_spans s secs []) of
           [] \<Rightarrow> s
         | (curStart, curEnd) # spans \<Rightarrow>
             (let out = merge_loop s secs spans '''' 0 curStart curEnd in
              if containsAnySecret out secs then '''' else out)))"

definition Redactor_Redact :: "Redactor \<Rightarrow> string \<Rightarrow> string" where
  "Redactor_Redact r s = redactWith s (Redactor_snapshot r)"

section \<open>Headers and writers\<close>

definition alwaysRedactHeaders :: "string set" where
  "alwaysRedactHeaders = {''authorization'', ''cookie'', ''set-cookie''}"

text \<open>
  An \<open>http.Header\<close> is an association list from names to value lists, \<open>None\<close> when nil, returned
  as the call leaves it; \<open>uni\<close> is the Unicode part of \<open>strings.ToLower\<close>.
\<close>

type_synonym Header = "(string \<times> string list) list"

definition RedactHeaders :: "(string \<Rightarrow> string) \<Rightarrow> Redactor \<Rightarrow> Header option \<Rightarrow> Header option" where
  "RedactHeaders uni r h =
     (case h of
        None \<Rightarrow> None
      | Some hs \<Rightarrow>
          (let secs = Redactor_snapshot r in
           Some (map (\<lambda>(name, values).
             (name,
              if strings_ToLower uni name \<in> alwaysRedactHeaders then
                map (\<lambda>v. safeReplacement (length v) secs) values
              else map (\<lambda>v. redactWith v secs) values)) hs)))"

text \<open>
  An \<open>io.Writer\<close> takes its state and a buffer to its new state, the count it reports and an error.
\<close>

type_synonym 'w writer = "'w \<Rightarrow> string \<Rightarrow> 'w \<times> int \<times> err option"

record 'w redactWriter =
  rw_r :: Redactor
  rw_w :: "'w writer"

definition Redactor_RedactWriter :: "Redactor \<Rightarrow> 'w writer \<Rightarrow> 'w redactWriter" where
  "Redactor_RedactWriter r w = \<lparr>rw_r = r, rw_w = w\<rparr>"

definition redactWriter_Write :: "'w redactWriter \<Rightarrow> 'w \<Rightarrow> string \<Rightarrow> 'w \<times> int \<times> err option" where
  "redactWriter_Write rw w p =
     (let red = Redactor_Redact (rw_r rw) p in
      case rw_w rw w red of
        (w', n, Some e) \<Rightarrow> (w', 0, Some e)
      | (w', n, None) \<Rightarrow>
          (if n \<noteq> int (length red) then (w', 0, Some (Sentinel ErrShortWrite))
           else (w', int (length p), None)))"

section \<open>NoLeakAssertion\<close>

definition safeErrorText :: "string \<Rightarrow> string list \<Rightarrow> string" where
  "safeErrorText msg secs =
     (if \<not> containsAnySecret msg secs then msg
      else
        (let generic = ''credstore: a loaded value leaked into output (details withheld to avoid echoing it)'' in
         if \<not> containsAnySecret generic secs then generic else ''''))"

fun NoLeak_loop ::
  "string \<Rightarrow> nat \<Rightarrow> string list \<Rightarrow> string list \<Rightarrow> string list \<Rightarrow> string list \<times> string list"
where
  "NoLeak_loop output i [] leaked nonEmpty = (leaked, nonEmpty)"
| "NoLeak_loop output i (sec # secs) leaked nonEmpty =
     (if sec = '''' then NoLeak_loop output (i + 1) secs leaked nonEmpty
      else
        NoLeak_loop output (i + 1) secs
          (if strings_Contains output sec then
             leaked @ [''secret #'' @ show_nat (i + 1) @ '' (len='' @ show_nat (length sec) @ '')'']
           else leaked)
          (nonEmpty @ [sec]))"

definition NoLeakAssertion :: "string \<Rightarrow> string list \<Rightarrow> err option" where
  "NoLeakAssertion output secs =
     (case NoLeak_loop output 0 secs [] [] of
        (leaked, nonEmpty) \<Rightarrow>
          (if leaked = [] then None
           else
             (let msg = ''credstore: secret material leaked into output: '' @ strings_Join leaked '', '' in
              Some (leakError (safeErrorText msg nonEmpty)))))"

section \<open>Lemmas: occurrences\<close>

lemma containsAnySecret_iff: "containsAnySecret s secs \<longleftrightarrow> (\<exists>sec \<in> set secs. sublist sec s)"
  by (induction secs) (auto simp: str_simps)

text \<open>An occurrence of \<open>sec\<close> in \<open>s\<close> as an interval.\<close>

definition occ :: "string \<Rightarrow> string \<Rightarrow> nat \<Rightarrow> bool" where
  "occ s sec a \<longleftrightarrow> a + length sec \<le> length s \<and> prefix sec (drop a s)"

definition occ_spans :: "string \<Rightarrow> string list \<Rightarrow> span set" where
  "occ_spans s secs = {(a, a + length sec) | a sec. sec \<in> set secs \<and> occ s sec a}"

lemma find_spans_set:
  "set (find_spans s sec i spans) = set spans \<union> {(a, a + length sec) | a. i \<le> a \<and> occ s sec a}"
proof (induction s sec i spans rule: find_spans.induct)
  case (1 s sec i spans)
  show ?case
  proof (cases "i + length sec \<le> length s")
    case False
    then show ?thesis
      by (subst find_spans.simps) (auto simp: occ_def)
  next
    case in_range: True
    show ?thesis
    proof (cases "strings_Index (drop i s) sec")
      case None
      have "\<not> prefix sec (drop a s)" if "i \<le> a" for a
        using strings_Index_None [OF None, of "a - i"] that by simp
      with in_range None show ?thesis
        by (subst find_spans.simps) (auto simp: occ_def)
    next
      case (Some j)
      have here: "occ s sec (i + j)"
        using strings_Index_Some [OF Some] in_range by (auto simp: occ_def add.commute)
      have before: "\<not> occ s sec a" if "i \<le> a" "a < i + j" for a
        using strings_Index_least [OF Some, of "a - i"] that by (auto simp: occ_def)
      have "{(a, a + length sec) | a. i \<le> a \<and> occ s sec a} =
          insert (i + j, i + j + length sec) {(a, a + length sec) | a. i + j + 1 \<le> a \<and> occ s sec a}"
      proof -
        have "a = i + j \<or> i + j + 1 \<le> a" if "i \<le> a" "occ s sec a" for a
          using before [of a] that by (cases "a < i + j") auto
        then show ?thesis
          using here by auto
      qed
      with 1 [OF in_range Some refl] in_range Some show ?thesis
        by (subst find_spans.simps) (simp add: Let_def)
    qed
  qed
qed

lemma collect_spans_set: "set (collect_spans s secs spans) = set spans \<union> occ_spans s secs"
proof (induction secs arbitrary: spans)
  case (Cons sec secs)
  have "occ_spans s (sec # secs) = {(a, a + length sec) | a. occ s sec a} \<union> occ_spans s secs"
    by (auto simp: occ_spans_def)
  with Cons show ?case
    by (auto simp: find_spans_set)
qed (simp add: occ_spans_def)

lemma occ_spans_empty_iff: "occ_spans s secs = {} \<longleftrightarrow> \<not> containsAnySecret s secs"
proof -
  have "sublist sec s \<longleftrightarrow> (\<exists>a. occ s sec a)" for sec
  proof
    assume "sublist sec s"
    then obtain ps ss where "s = ps @ sec @ ss" by (auto simp: sublist_def)
    then have "occ s sec (length ps)" by (simp add: occ_def)
    then show "\<exists>a. occ s sec a" ..
  next
    assume "\<exists>a. occ s sec a"
    then obtain a where "prefix sec (drop a s)" by (auto simp: occ_def)
    then show "sublist sec s"
      by (meson prefix_imp_sublist sublist_order.order.trans suffix_drop suffix_imp_sublist)
  qed
  then show ?thesis
    by (auto simp: occ_spans_def containsAnySecret_iff)
qed

section \<open>Lemmas: merging\<close>

text \<open>The merging loop as a list of blocks, and the text they yield.\<close>

fun merge_spans :: "nat \<Rightarrow> nat \<Rightarrow> span list \<Rightarrow> span list" where
  "merge_spans cs ce [] = [(cs, ce)]"
| "merge_spans cs ce ((a, b) # xs) =
     (if a < ce then merge_spans cs (if b > ce then b else ce) xs else (cs, ce) # merge_spans a b xs)"

fun emit :: "string \<Rightarrow> string list \<Rightarrow> nat \<Rightarrow> span list \<Rightarrow> string" where
  "emit s secs prev [] = drop prev s"
| "emit s secs prev ((a, b) # bs) =
     slice s prev a @ safeReplacement (b - a) secs @ emit s secs b bs"

lemma merge_loop_emit:
  "merge_loop s secs xs b prev cs ce = b @ emit s secs prev (merge_spans cs ce xs)"
  by (induction s secs xs b prev cs ce rule: merge_loop.induct) (simp_all add: flush_def)

text \<open>
  What the blocks are: \<open>q\<close> is crossed when an interval has bytes on both sides of it, and a block is
  a maximal stretch between two uncrossed positions, begun by an interval.
\<close>

definition crossed :: "span set \<Rightarrow> nat \<Rightarrow> bool" where
  "crossed S q \<longleftrightarrow> (\<exists>(a, b) \<in> S. a < q \<and> q < b)"

definition components :: "span set \<Rightarrow> span set" where
  "components S = {(a, b). a < b \<and> (\<exists>y. (a, y) \<in> S) \<and> \<not> crossed S a \<and> \<not> crossed S b \<and>
     (\<forall>q. a < q \<and> q < b \<longrightarrow> crossed S q)}"

lemma crossed_Un: "crossed (S \<union> T) q \<longleftrightarrow> crossed S q \<or> crossed T q"
  by (auto simp: crossed_def)

text \<open>The intervals merged so far make up one block.\<close>

definition block_of :: "span set \<Rightarrow> nat \<Rightarrow> nat \<Rightarrow> bool" where
  "block_of P cs ce \<longleftrightarrow> cs < ce \<and> (\<exists>y. (cs, y) \<in> P) \<and> (\<forall>(a, b) \<in> P. cs \<le> a \<and> a < b \<and> b \<le> ce) \<and>
     (\<forall>q. cs < q \<and> q < ce \<longrightarrow> crossed P q)"

lemma block_of_components: "block_of P cs ce \<Longrightarrow> components P = {(cs, ce)}"
proof -
  assume P: "block_of P cs ce"
  have un: "\<not> crossed P cs" "\<not> crossed P ce"
    using P by (fastforce simp: block_of_def crossed_def)+
  have "(a, b) \<in> components P \<longleftrightarrow> a = cs \<and> b = ce" for a b
  proof
    assume ab: "(a, b) \<in> components P"
    then have "cs \<le> a" "a < ce"
      using P by (force simp: components_def block_of_def)+
    then have "a = cs"
      using P ab by (auto simp: components_def block_of_def le_less)
    moreover have "b = ce"
      using P ab un \<open>a = cs\<close> by (auto simp: components_def block_of_def) (metis linorder_neqE_nat)
    ultimately show "a = cs \<and> b = ce" ..
  qed (use P un in \<open>auto simp: components_def block_of_def\<close>)
  then show ?thesis by auto
qed

text \<open>A block whose end no later interval reaches over stands by itself.\<close>

lemma components_split:
  assumes P: "block_of P cs ce" and X: "\<forall>(a, b) \<in> X. ce \<le> a \<and> a < b"
  shows "components (P \<union> X) = insert (cs, ce) (components X)"
proof -
  have low: "crossed X q \<Longrightarrow> ce < q" for q
    using X by (fastforce simp: crossed_def)
  have high: "crossed P q \<Longrightarrow> cs < q \<and> q < ce" for q
    using P by (fastforce simp: crossed_def block_of_def)
  have below: "crossed (P \<union> X) q = crossed P q" if "q \<le> ce" for q
    using low [of q] that by (auto simp: crossed_Un)
  have above: "crossed (P \<union> X) q = crossed X q" if "ce \<le> q" for q
    using high [of q] that by (auto simp: crossed_Un)
  have "(a, b) \<in> components (P \<union> X) \<longleftrightarrow> (a, b) \<in> components P \<or> (a, b) \<in> components X" for a b
  proof (cases "a < ce")
    case True
    have noX: "(a, y) \<notin> X" for y
      using True X by fastforce
    show ?thesis
    proof (cases "b \<le> ce")
      case le: True
      with True noX below show ?thesis
        by (simp add: components_def)
    next
      case False
      then have "(a, b) \<notin> components (P \<union> X)" "(a, b) \<notin> components P"
        using True below [of ce] high [of ce] by (auto simp: components_def)
      moreover have "(a, b) \<notin> components X"
        using noX by (simp add: components_def)
      ultimately show ?thesis
        by blast
    qed
  next
    case False
    have noP: "(a, y) \<notin> P" for y
      using False P by (fastforce simp: block_of_def)
    have "crossed (P \<union> X) q = crossed X q" if "a \<le> q" for q
      using that False by (intro above) simp
    then show ?thesis
      using noP by (auto simp: components_def)
  qed
  then show ?thesis
    using block_of_components [OF P] by auto
qed

lemma merge_spans_components:
  assumes "block_of P cs ce" "sorted (map fst xs)" "\<forall>(a, b) \<in> set xs. cs \<le> a \<and> a < b"
  shows "set (merge_spans cs ce xs) = components (P \<union> set xs) \<and>
    sorted_wrt (\<lambda>x y. snd x \<le> fst y) (merge_spans cs ce xs) \<and>
    (\<forall>(a, b) \<in> set (merge_spans cs ce xs). cs \<le> a \<and> a < b)"
  using assms
proof (induction cs ce xs arbitrary: P rule: merge_spans.induct)
  case (1 cs ce)
  then show ?case
    by (auto simp: block_of_components) (auto simp: block_of_def)
next
  case (2 cs ce a b xs)
  show ?case
  proof (cases "a < ce")
    case True
    have "block_of (insert (a, b) P) cs (if b > ce then b else ce)"
    proof -
      have "crossed (insert (a, b) P) q" if "cs < q" "q < (if b > ce then b else ce)" for q
      proof (cases "q < ce")
        case True
        then have "crossed P q" using 2(3) that by (auto simp: block_of_def)
        then show ?thesis by (auto simp: crossed_def)
      next
        case False
        with \<open>a < ce\<close> that show ?thesis by (auto simp: crossed_def split: if_splits)
      qed
      moreover have "\<forall>(c, d) \<in> insert (a, b) P. cs \<le> c \<and> c < d \<and> d \<le> (if b > ce then b else ce)"
        using 2(3,5) by (auto simp: block_of_def)
      moreover have "cs < (if b > ce then b else ce)" "\<exists>y. (cs, y) \<in> insert (a, b) P"
        using 2(3) by (auto simp: block_of_def)
      ultimately show ?thesis
        unfolding block_of_def by blast
    qed
    with 2(1) [OF True this] 2(4,5) True show ?thesis
      by simp
  next
    case False
    have b: "block_of {(a, b)} a b"
      using 2(5) by (auto simp: block_of_def crossed_def)
    have rest: "\<forall>(c, d) \<in> set xs. a \<le> c \<and> c < d"
      using 2(4,5) by auto
    note IH = 2(2) [OF False b _ rest]
    have "components (P \<union> set ((a, b) # xs)) = insert (cs, ce) (components ({(a, b)} \<union> set xs))"
      using components_split [OF 2(3), of "{(a, b)} \<union> set xs"] rest 2(5) False by fastforce
    moreover have "cs < ce" using 2(3) by (simp add: block_of_def)
    ultimately show ?thesis
      using False IH 2(4,5) by fastforce
  qed
qed

text \<open>A list of disjoint blocks in order is determined by the set of its blocks.\<close>

lemma blocks_unique:
  assumes "sorted_wrt (\<lambda>x y. snd x \<le> fst y) xs" "sorted_wrt (\<lambda>x y. snd x \<le> fst y) ys"
    "\<forall>x \<in> set xs. fst x < (snd x :: nat)" "set xs = set ys"
  shows "xs = ys"
  using assms
proof (induction xs arbitrary: ys)
  case (Cons x xs)
  then obtain y ys' where ys: "ys = y # ys'" by (cases ys) auto
  have y: "fst y < snd y"
    using Cons.prems(3) unfolding Cons.prems(4) ys by simp
  have notin: "x \<notin> set xs" "y \<notin> set ys'"
    using Cons.prems(1-3) ys y by fastforce+
  have "x = y"
  proof (rule ccontr)
    assume "x \<noteq> y"
    then have "y \<in> set xs" "x \<in> set ys'"
      using Cons.prems(4) ys by auto
    then have "snd x \<le> fst y" "snd y \<le> fst x"
      using Cons.prems(1,2) ys by auto
    then show False
      using Cons.prems(3) y by fastforce
  qed
  moreover from this notin Cons.prems(4) ys have "set xs = set ys'"
    by auto
  ultimately show ?case
    using Cons.IH [of ys'] Cons.prems(1-3) ys by simp
qed simp

section \<open>Lemmas: Redact\<close>

lemma NewRedactor_loop_secrets:
  "distinct (secrets r) \<Longrightarrow> distinct (secrets (NewRedactor_loop ss r)) \<and>
     set (secrets (NewRedactor_loop ss r)) = set (secrets r) \<union> (set ss - {[]})"
proof (induction ss arbitrary: r)
  case (Cons s ss)
  have "distinct (secrets (Redactor_Add r s))"
      "set (secrets (Redactor_Add r s)) = set (secrets r) \<union> ({s} - {[]})"
    using Cons.prems by (auto simp: Redactor_Add_def)
  with Cons.IH [of "Redactor_Add r s"] show ?case
    by auto
qed simp

lemma NewRedactor_secrets [simp]: "set (Redactor_snapshot (NewRedactor ss)) = set ss - {[]}"
  using NewRedactor_loop_secrets [of "\<lparr>secrets = []\<rparr>" ss]
  by (simp add: NewRedactor_def Redactor_snapshot_def)

lemma occ_spans_less: "[] \<notin> set secs \<Longrightarrow> (a, b) \<in> occ_spans s secs \<Longrightarrow> a < b"
  by (cases "a < b") (auto simp: occ_spans_def)

lemma components_empty [simp]: "components {} = {}"
  by (simp add: components_def)

lemma redactWith_blocks:
  assumes "[] \<notin> set secs"
  obtains bs where "set bs = components (occ_spans s secs)"
    "sorted_wrt (\<lambda>x y. snd x \<le> fst y) bs" "\<forall>x \<in> set bs. fst x < snd x"
    "redactWith s secs = (let out = emit s secs 0 bs in if containsAnySecret out secs then '''' else out)"
proof (cases "occ_spans s secs = {}")
  case True
  then have "collect_spans s secs [] = []"
    using collect_spans_set [of s secs "[]"] by simp
  moreover have "\<not> containsAnySecret s secs"
    using True by (simp add: occ_spans_empty_iff)
  ultimately have "redactWith s secs =
      (let out = emit s secs 0 [] in if containsAnySecret out secs then '''' else out)"
    by (simp add: redactWith_def)
  with True that [of "[]"] show thesis by simp
next
  case False
  define sp where "sp = sort_key fst (collect_spans s secs [])"
  have sp: "set sp = occ_spans s secs" "sorted (map fst sp)"
    using collect_spans_set [of s secs "[]"] by (simp_all add: sp_def)
  with False obtain cs ce xs where cons: "sp = (cs, ce) # xs"
    by (cases sp) auto
  have nonempty: "s \<noteq> []" "secs \<noteq> []"
    using False assms by (auto simp: occ_spans_def occ_def)
  have less: "\<forall>(a, b) \<in> set sp. a < b"
    using occ_spans_less [OF assms] sp(1) by auto
  have "block_of {(cs, ce)} cs ce"
    using less cons by (auto simp: block_of_def crossed_def)
  moreover have "sorted (map fst xs)" "\<forall>(a, b) \<in> set xs. cs \<le> a \<and> a < b"
    using sp(2) less cons by auto
  ultimately have "set (merge_spans cs ce xs) = components ({(cs, ce)} \<union> set xs) \<and>
      sorted_wrt (\<lambda>x y. snd x \<le> fst y) (merge_spans cs ce xs) \<and>
      (\<forall>(a, b) \<in> set (merge_spans cs ce xs). cs \<le> a \<and> a < b)"
    by (rule merge_spans_components)
  moreover have "{(cs, ce)} \<union> set xs = occ_spans s secs"
    using sp(1) cons by auto
  moreover have "redactWith s secs = (let out = emit s secs 0 (merge_spans cs ce xs) in
      if containsAnySecret out secs then '''' else out)"
    using nonempty cons by (simp add: redactWith_def sp_def merge_loop_emit Let_def)
  ultimately show thesis
    by (intro that [of "merge_spans cs ce xs"]) (auto simp: case_prod_unfold)
qed

lemma redactWith_clean:
  assumes "[] \<notin> set secs"
  shows "\<not> containsAnySecret (redactWith s secs) secs"
proof -
  have "\<not> containsAnySecret '''' secs"
    using assms by (auto simp: containsAnySecret_iff)
  then show ?thesis
    by (rule_tac redactWith_blocks [OF assms, of s]) (auto simp: Let_def)
qed

lemma redactWith_unchanged: "\<not> containsAnySecret s secs \<Longrightarrow> redactWith s secs = s"
  using collect_spans_set [of s secs "[]"] by (simp add: redactWith_def occ_spans_empty_iff [symmetric])

lemma containsAnySecret_cong: "set xs = set ys \<Longrightarrow> containsAnySecret s xs = containsAnySecret s ys"
  by (simp add: containsAnySecret_iff)

lemma emit_cong: "set xs = set ys \<Longrightarrow> emit s xs prev bs = emit s ys prev bs"
proof (induction bs arbitrary: prev)
  case (Cons x bs)
  then have "containsAnySecret u xs = containsAnySecret u ys" for u
    by (intro containsAnySecret_cong) simp
  with Cons show ?case
    by (cases x) (simp add: safeReplacement_def)
qed simp

lemma redactWith_cong:
  assumes "set xs = set ys" "[] \<notin> set xs"
  shows "redactWith s xs = redactWith s ys"
proof -
  obtain bs where bs: "set bs = components (occ_spans s xs)"
      "sorted_wrt (\<lambda>x y. snd x \<le> fst y) bs" "\<forall>x \<in> set bs. fst x < snd x"
      "redactWith s xs = (let out = emit s xs 0 bs in if containsAnySecret out xs then '''' else out)"
    using assms(2) by (rule redactWith_blocks)
  obtain cs where cs: "set cs = components (occ_spans s ys)"
      "sorted_wrt (\<lambda>x y. snd x \<le> fst y) cs"
      "redactWith s ys = (let out = emit s ys 0 cs in if containsAnySecret out ys then '''' else out)"
    using assms by (metis redactWith_blocks)
  have "occ_spans s xs = occ_spans s ys"
    using assms(1) by (simp add: occ_spans_def)
  with bs cs have "bs = cs"
    by (intro blocks_unique) simp_all
  then show ?thesis
    using bs(4) cs(3) emit_cong [OF assms(1), of s 0 bs] containsAnySecret_cong [OF assms(1)]
    by (simp add: Let_def)
qed

lemma safeReplacement_clean:
  "[] \<notin> set secs \<Longrightarrow> \<not> containsAnySecret (safeReplacement n secs) secs"
  by (auto simp: safeReplacement_def Let_def) (auto simp: containsAnySecret_iff)

lemma NoLeak_loop_result:
  "NoLeak_loop output i secs leaked ne = (leaked', ne') \<Longrightarrow>
     set ne' = set ne \<union> (set secs - {[]}) \<and>
     (leaked' = [] \<longleftrightarrow> leaked = [] \<and> (\<forall>sec \<in> set secs. sec \<noteq> [] \<longrightarrow> \<not> sublist sec output))"
  by (induction secs arbitrary: i leaked ne) (auto simp: str_simps split: if_splits)

lemma safeErrorText_clean:
  "[] \<notin> set secs \<Longrightarrow> \<not> containsAnySecret (safeErrorText msg secs) secs"
  by (auto simp: safeErrorText_def Let_def) (auto simp: containsAnySecret_iff)

lemma snapshot_nonempty [simp]: "[] \<notin> set (Redactor_snapshot (NewRedactor ss))"
  by simp

lemma containsAnySecret_New:
  "containsAnySecret s (Redactor_snapshot (NewRedactor ss)) \<longleftrightarrow>
     (\<exists>sec \<in> set ss. sec \<noteq> [] \<and> sublist sec s)"
  by (auto simp: containsAnySecret_iff)

section \<open>Properties\<close>

text \<open>
  C13. Redacted text contains none of the loaded secrets, whatever they look like (one that is part of
  the placeholder included), it differs from the input exactly when the input contains one, and
  redacting it again changes nothing.
\<close>

theorem Redact_secret_free:
  "(\<forall>sec \<in> set ss. sec \<noteq> [] \<longrightarrow> \<not> sublist sec (Redactor_Redact (NewRedactor ss) s)) \<and>
   (Redactor_Redact (NewRedactor ss) s = s \<longleftrightarrow> (\<forall>sec \<in> set ss. sec \<noteq> [] \<longrightarrow> \<not> sublist sec s)) \<and>
   Redactor_Redact (NewRedactor ss) (Redactor_Redact (NewRedactor ss) s) =
     Redactor_Redact (NewRedactor ss) s"
proof -
  let ?secs = "Redactor_snapshot (NewRedactor ss)"
  have clean: "\<not> containsAnySecret (Redactor_Redact (NewRedactor ss) u) ?secs" for u
    unfolding Redactor_Redact_def by (rule redactWith_clean) simp
  have same: "Redactor_Redact (NewRedactor ss) u = u \<longleftrightarrow> \<not> containsAnySecret u ?secs" for u
    using clean [of u] redactWith_unchanged [of u ?secs] by (auto simp: Redactor_Redact_def)
  from clean [of s] have "\<forall>sec \<in> set ss. sec \<noteq> [] \<longrightarrow>
      \<not> sublist sec (Redactor_Redact (NewRedactor ss) s)"
    unfolding containsAnySecret_New by blast
  moreover from same [of s] have "Redactor_Redact (NewRedactor ss) s = s \<longleftrightarrow>
      (\<forall>sec \<in> set ss. sec \<noteq> [] \<longrightarrow> \<not> sublist sec s)"
    unfolding containsAnySecret_New by blast
  moreover have "Redactor_Redact (NewRedactor ss) (Redactor_Redact (NewRedactor ss) s) =
      Redactor_Redact (NewRedactor ss) s"
    using same clean by blast
  ultimately show ?thesis by blast
qed

theorem Redact_secret_free_witness:
  "\<not> sublist ''ab'' (Redactor_Redact (NewRedactor [''X'', ''len'', ''ab'']) ''aXb'') \<and>
   Redactor_Redact (NewRedactor [''X'', ''len'', ''ab'']) ''aXb'' \<noteq> ''aXb'' \<and>
   Redactor_Redact (NewRedactor [''s3cret'']) ''token=s3cret;'' = ''token=<redacted, len=6>;''"
proof (intro conjI)
  show "\<not> sublist ''ab'' (Redactor_Redact (NewRedactor [''X'', ''len'', ''ab'']) ''aXb'')"
    using Redact_secret_free [of "[''X'', ''len'', ''ab'']" "''aXb''"] by simp
  have "sublist ''X'' ''aXb''"
    by code_simp
  then show "Redactor_Redact (NewRedactor [''X'', ''len'', ''ab'']) ''aXb'' \<noteq> ''aXb''"
    using Redact_secret_free [of "[''X'', ''len'', ''ab'']" "''aXb''"] by force
  show "Redactor_Redact (NewRedactor [''s3cret'']) ''token=s3cret;'' = ''token=<redacted, len=6>;''"
    by code_simp
qed

text \<open>
  C21. What is redacted is exactly the union of all occurrences, overlapping ones of different secrets
  or of one secret included: the output is the input with each maximal block of it (adjacent
  occurrences that do not overlap stay separate) replaced by the placeholder for the block's length,
  or by nothing where the placeholder would itself contain a secret; if a secret still shows up in the
  result, the result is empty.
\<close>

theorem Redact_blocks:
  "\<exists>bs. set bs = components (occ_spans s (Redactor_snapshot (NewRedactor ss))) \<and>
     sorted_wrt (\<lambda>x y. snd x \<le> fst y) bs \<and>
     Redactor_Redact (NewRedactor ss) s =
       (let out = emit s (Redactor_snapshot (NewRedactor ss)) 0 bs in
        if containsAnySecret out (Redactor_snapshot (NewRedactor ss)) then '''' else out)"
  unfolding Redactor_Redact_def
  by (rule redactWith_blocks [of "Redactor_snapshot (NewRedactor ss)" s]) (simp, blast)

text \<open>
  The order in which the secrets were loaded, and how often each was, does not matter: two
  redactors loaded with the same set redact every text alike.
\<close>

theorem Redact_order_independent:
  assumes "set ss = set ss'"
  shows "Redactor_Redact (NewRedactor ss) s = Redactor_Redact (NewRedactor ss') s"
  unfolding Redactor_Redact_def by (rule redactWith_cong) (use assms in simp_all)

theorem Redact_order_independent_witness:
  "Redactor_Redact (NewRedactor [''abc'', ''bcd'', ''abc'', '''']) ''xabcdx'' =
     Redactor_Redact (NewRedactor ['''', ''bcd'', ''abc'']) ''xabcdx''"
  by (rule Redact_order_independent) auto


text \<open>
  \<open>Write\<close> hands the downstream writer one buffer without any loaded secret and keeps the writer
  contract for the caller's buffer: its full length and no error exactly when the downstream writer
  took the whole redacted buffer, otherwise nothing written and an error.
\<close>

theorem redactWriter_Write_contract:
  "let red = Redactor_Redact (NewRedactor ss) p in
   \<not> containsAnySecret red (Redactor_snapshot (NewRedactor ss)) \<and>
   redactWriter_Write (Redactor_RedactWriter (NewRedactor ss) write) w p =
     (case write w red of (w', n, e) \<Rightarrow>
        if e = None \<and> n = int (length red) then (w', int (length p), None)
        else (w', 0, Some (case e of None \<Rightarrow> Sentinel ErrShortWrite | Some e' \<Rightarrow> e')))"
proof -
  have "\<not> containsAnySecret (Redactor_Redact (NewRedactor ss) p) (Redactor_snapshot (NewRedactor ss))"
    unfolding Redactor_Redact_def by (rule redactWith_clean) simp
  then show ?thesis
    by (auto simp: redactWriter_Write_def Redactor_RedactWriter_def Let_def split: prod.split option.split)
qed

text \<open>
  C34. \<open>NoLeakAssertion\<close> is nil exactly when no non-empty secret occurs in the output, and its error
  matches \<open>ErrSecretLeaked\<close> while its text contains none of the secrets.
\<close>

theorem NoLeakAssertion_sound:
  "(NoLeakAssertion output ss = None \<longleftrightarrow> \<not> containsAnySecret output (filter (\<lambda>x. x \<noteq> []) ss)) \<and>
   (case NoLeakAssertion output ss of
      None \<Rightarrow> True
    | Some e \<Rightarrow> errors_Is e ErrSecretLeaked \<and>
        \<not> containsAnySecret (err_text q e) (filter (\<lambda>x. x \<noteq> []) ss))"
proof -
  obtain leaked ne where run: "NoLeak_loop output 0 ss [] [] = (leaked, ne)"
    by (cases "NoLeak_loop output 0 ss [] []")
  from NoLeak_loop_result [OF run]
  have ne: "set ne = set (filter (\<lambda>x. x \<noteq> []) ss)"
    and leaked: "leaked = [] \<longleftrightarrow> \<not> containsAnySecret output (filter (\<lambda>x. x \<noteq> []) ss)"
    by (auto simp: containsAnySecret_iff)
  then have "\<not> containsAnySecret (safeErrorText msg ne) (filter (\<lambda>x. x \<noteq> []) ss)" for msg
    using safeErrorText_clean [of ne msg] containsAnySecret_cong [OF ne] by simp
  with run leaked show ?thesis
    by (auto simp: NoLeakAssertion_def Let_def errors_Is_defs)
qed

end
