(* ===== verification/Config.thy ===== *)
theory Config
  imports Select Env
begin

text \<open>
  From the selected backend to its construction config: \<open>backendConfig\<close>, \<open>buildKeyringConfig\<close>, the
  preflight checks, the directory and the passphrase of the file backend (\<open>osbackend_core.go\<close>), and the
  build-tagged 1Password guard (\<open>osbackend_1password_*.go\<close>). A \<open>host\<close> is what the code reads of the
  machine: \<open>runtime.GOOS\<close>, the process environment, \<open>exec.LookPath\<close>, and whether the build has the tag
  \<open>keyring_no1password\<close>. The lemmas say where a service's files go and where its passphrase comes from.
\<close>

record host =
  host_GOOS :: string
  host_env :: getenv
  host_lookPath :: "string \<Rightarrow> err option"
  host_no1password :: bool

record backendConfig =
  serviceName :: string
  allowedBackend :: Backend
  keychainTrustApplication :: bool
  fileDir :: string
  filePassword :: "promptFunc option"
  passDir :: string
  passCmd :: string
  passPrefix :: string
  opTimeout :: int
  opVaultID :: string
  opItemTitlePrefix :: string
  opItemTag :: string
  opItemFieldTitle :: string
  opConnectHost :: string
  opConnectTokenEnv :: string
  opTokenEnv :: string
  opDesktopAccountID :: string

definition backendConfig_zero :: backendConfig where
  "backendConfig_zero = \<lparr>serviceName = '''', allowedBackend = '''', keychainTrustApplication = False,
     fileDir = '''', filePassword = None, passDir = '''', passCmd = '''', passPrefix = '''',
     opTimeout = 0, opVaultID = '''', opItemTitlePrefix = '''', opItemTag = '''',
     opItemFieldTitle = '''', opConnectHost = '''', opConnectTokenEnv = '''', opTokenEnv = '''',
     opDesktopAccountID = ''''\<rparr>"

section \<open>Guards before construction\<close>

definition unsupportedOnePasswordBackendInBuild :: "host \<Rightarrow> Backend \<Rightarrow> err option" where
  "unsupportedOnePasswordBackendInBuild h kind =
     (if host_no1password h \<and> (kind = BackendOP \<or> kind = BackendOPConnect \<or> kind = BackendOPDesktop) then
        Some (Wrapf [] (Sentinel ErrBackendNotImplemented)
          [Lit '': backend '', Quoted kind, Lit '' was compiled out of this build via keyring_no1password''])
      else None)"

definition preflightOSBackend :: "host \<Rightarrow> Backend \<Rightarrow> err option" where
  "preflightOSBackend h kind =
     (if kind = BackendPass then
        (if host_GOOS h = ''windows'' then
           Some (Errorf [Lit ''the pass backend is not supported on Windows; use --backend wincred (default) or --backend file''])
         else
           (case host_lookPath h ''pass'' of
              Some _ \<Rightarrow> Some (Errorf [Lit ''the pass(1) CLI is not on $PATH; install it (e.g. `apt install pass` / `brew install pass`) and run `pass init <gpg-key-id>` before selecting --backend pass''])
            | None \<Rightarrow> None))
      else None)"

section \<open>The file backend's directory and passphrase\<close>

definition fileKeyringDir :: "host \<Rightarrow> string \<Rightarrow> getenv \<Rightarrow> string result" where
  "fileKeyringDir h service getenv =
     (let base = getenv ''XDG_DATA_HOME'' in
      if base = '''' then
        (case os_UserHomeDir (host_GOOS h) (host_env h) of
           Inl e \<Rightarrow> Inl (Wrapf [Lit ''credstore: cannot resolve a file keyring directory; set XDG_DATA_HOME: ''] e [])
         | Inr home \<Rightarrow> Inr (filepath_Join [filepath_Join [home, ''.local'', ''share''], service, ''keyring'']))
      else Inr (filepath_Join [base, service, ''keyring'']))"

definition fixedStringPrompt :: "string \<Rightarrow> promptFunc" where
  "fixedStringPrompt v = (\<lambda>_. Inr v)"

definition filePasswordFunc :: "runtime \<Rightarrow> string \<Rightarrow> Options option \<Rightarrow> getenv \<Rightarrow> promptFunc result" where
  "filePasswordFunc rt service opts getenv =
     (let envVar = envServicePrefix rt service @ ''_KEYRING_PASSPHRASE'' in
      if getenv envVar \<noteq> '''' then Inr (fixedStringPrompt (getenv envVar))
      else
        (case Option.bind opts FilePassphrase of
           Some fn \<Rightarrow> Inr (\<lambda>_. case fn () of
               Inl e \<Rightarrow> Inl (Wrapf [Lit ''credstore: file keyring passphrase prompt failed: ''] e [])
             | Inr s \<Rightarrow> Inr s)
         | None \<Rightarrow> Inl (Wrapf [] (Sentinel ErrFilePassphraseRequired)
             [Lit '': set '', Lit envVar, Lit '' or supply Options.FilePassphrase''])))"

section \<open>buildKeyringConfig\<close>

text \<open>The 1Password fields: defaults from the service, then what the options set.\<close>

definition op_config :: "Backend \<Rightarrow> string \<Rightarrow> Options option \<Rightarrow> backendConfig \<Rightarrow> backendConfig" where
  "op_config kind service opts cfg =
     (let cfg1 = cfg\<lparr>opItemTitlePrefix := service, opItemTag := service\<rparr>;
          cfg2 = (if kind = BackendOP \<or> kind = BackendOPDesktop then cfg1\<lparr>opTimeout := DefaultOnePasswordTimeout\<rparr>
                  else cfg1) in
      case Option.bind opts OnePassword of
        None \<Rightarrow> cfg2
      | Some p1 \<Rightarrow>
          cfg2\<lparr>opTimeout := (if Timeout p1 \<noteq> 0 then Timeout p1 else opTimeout cfg2),
            opVaultID := VaultID p1,
            opItemTitlePrefix := (if ItemTitlePrefix p1 \<noteq> '''' then ItemTitlePrefix p1 else opItemTitlePrefix cfg2),
            opItemTag := (if ItemTag p1 \<noteq> '''' then ItemTag p1 else opItemTag cfg2),
            opItemFieldTitle := ItemFieldTitle p1,
            opConnectHost := ConnectHost p1,
            opConnectTokenEnv := ConnectTokenEnv p1,
            opTokenEnv := ServiceTokenEnv p1,
            opDesktopAccountID := DesktopAccountID p1\<rparr>)"

definition buildKeyringConfig ::
  "runtime \<Rightarrow> host \<Rightarrow> Backend \<Rightarrow> string \<Rightarrow> Options option \<Rightarrow> getenv \<Rightarrow> backendConfig result"
where
  "buildKeyringConfig rt h kind service opts getenv =
     (let cfg = backendConfig_zero\<lparr>serviceName := service, allowedBackend := kind\<rparr> in
      if kind = BackendFile then
        (case fileKeyringDir h service getenv of
           Inl e \<Rightarrow> Inl e
         | Inr dir \<Rightarrow>
             (case filePasswordFunc rt service opts getenv of
                Inl e \<Rightarrow> Inl e
              | Inr pwFunc \<Rightarrow> Inr (cfg\<lparr>fileDir := dir, filePassword := Some pwFunc\<rparr>)))
      else if kind = BackendPass then Inr (cfg\<lparr>passPrefix := service\<rparr>)
      else if kind = BackendKeychain \<or> kind = BackendWinCred \<or> kind = BackendSecretService then
        Inr (if kind = BackendKeychain then cfg\<lparr>keychainTrustApplication := True\<rparr> else cfg)
      else if kind = BackendOP \<or> kind = BackendOPConnect \<or> kind = BackendOPDesktop then
        Inr (op_config kind service opts cfg)
      else Inr cfg)"

section \<open>Where the files of a service go\<close>

lemma validSegment_plain: "validSegment s \<Longrightarrow> plain s"
  using validSegment_iff [of s] validSegment_no_slash [of s]
  by (auto simp: plain_def isSegmentByte_def less_eq_char_def)

definition keyring_base :: "host \<Rightarrow> getenv \<Rightarrow> string result" where
  "keyring_base h getenv =
     (if getenv ''XDG_DATA_HOME'' \<noteq> '''' then Inr (getenv ''XDG_DATA_HOME'')
      else map_sum id (\<lambda>home. filepath_Join [home, ''.local'', ''share''])
        (os_UserHomeDir (host_GOOS h) (host_env h)))"

lemma os_UserHomeDir_nonempty: "os_UserHomeDir goos env = Inr home \<Longrightarrow> home \<noteq> ''''"
  by (auto simp: os_UserHomeDir_def Let_def split: if_splits)

lemma unparts_snoc_nonempty: "v \<noteq> [] \<Longrightarrow> unparts r (xs @ [v]) \<noteq> []"
  by (cases "xs = []") (auto simp: unparts_def strings_Join_append)

lemma keyring_base_nonempty:
  assumes "keyring_base h getenv = Inr base"
  shows "base \<noteq> ''''"
proof (cases "getenv ''XDG_DATA_HOME'' = ''''")
  case True
  with assms obtain home where "os_UserHomeDir (host_GOOS h) (host_env h) = Inr home"
    "base = filepath_Join [home, ''.local'', ''share'']"
    by (cases "os_UserHomeDir (host_GOOS h) (host_env h)") (auto simp: keyring_base_def)
  then show ?thesis
    using os_UserHomeDir_nonempty filepath_Join_plain2 [of home "''.local''" "''share''"]
      unparts_snoc_nonempty [of "''share''" "filepath_IsAbs home" "clean_parts home @ [''.local'']"]
    by (simp add: plain_def)
qed (use assms in \<open>auto simp: keyring_base_def\<close>)

text \<open>The directory of a service is its own component below the base.\<close>

lemma fileKeyringDir_shape:
  assumes "fileKeyringDir h service getenv = Inr d" "validSegment service"
  obtains base where "keyring_base h getenv = Inr base"
    "d = unparts (filepath_IsAbs base) (clean_parts base @ [service, ''keyring''])"
proof -
  obtain base where base: "keyring_base h getenv = Inr base" "d = filepath_Join [base, service, ''keyring'']"
    using assms(1) that
    by (cases "os_UserHomeDir (host_GOOS h) (host_env h)")
       (auto simp: fileKeyringDir_def keyring_base_def Let_def split: if_splits)
  with that assms(2) show ?thesis
    using keyring_base_nonempty [OF base(1)] filepath_Join_plain2 [of base service "''keyring''"]
      validSegment_plain by (simp add: plain_def)
qed

lemma clean_stack_base:
  "validSegment s \<Longrightarrow> clean_stack (filepath_IsAbs base) (clean_parts base @ [s, ''keyring''])"
  using clean_parts_stack [of base] validSegment_plain [of s] by (auto simp: clean_stack_def plain_def)

text \<open>
  C36. Services do not share encrypted files: for two valid service names and an absolute base the
  keyring directories differ, and no file directly in one is a file directly in the other.
\<close>

theorem fileKeyringDir_isolated:
  assumes "validSegment s1" "validSegment s2" "s1 \<noteq> s2"
    "fileKeyringDir h s1 getenv = Inr d1" "fileKeyringDir h s2 getenv = Inr d2"
    "filepath_IsAbs d1" "plain v" "plain w"
  shows "filepath_IsAbs d2 \<and> d1 \<noteq> d2 \<and> filepath_Join [d1, v] \<noteq> filepath_Join [d2, w]"
proof -
  from assms(4,1) obtain base where base: "keyring_base h getenv = Inr base"
    and d1: "d1 = unparts (filepath_IsAbs base) (clean_parts base @ [s1, ''keyring''])"
    by (rule fileKeyringDir_shape)
  from assms(5,2) base have d2: "d2 = unparts (filepath_IsAbs base) (clean_parts base @ [s2, ''keyring''])"
    by (auto elim: fileKeyringDir_shape)
  note st = clean_stack_base [OF assms(1), of base] clean_stack_base [OF assms(2), of base]
  have abs: "filepath_IsAbs base"
    using assms(6) filepath_IsAbs_unparts [OF st(1)] d1 by simp
  have abs2: "filepath_IsAbs d2"
    using abs filepath_IsAbs_unparts [OF st(2)] d2 by simp
  have parts: "clean_parts d1 = clean_parts base @ [s1, ''keyring'']" "clean_parts d2 = clean_parts base @ [s2, ''keyring'']"
    using clean_parts_unparts [OF st(1)] clean_parts_unparts [OF st(2)] d1 d2 abs by simp_all
  then have ne: "d1 \<noteq> d2" using assms(3) by auto
  have "filepath_Dir (filepath_Join [d1, v]) = d1" "filepath_Dir (filepath_Join [d2, w]) = d2"
    using filepath_Dir_Join [OF assms(6,7)] filepath_Dir_Join [OF abs2 assms(8)] parts d1 d2 abs assms(6) abs2
    by (simp_all add: filepath_Clean_def)
  with ne abs2 show ?thesis by metis
qed

definition home_host :: host where
  "home_host = \<lparr>host_GOOS = ''linux'', host_env = (\<lambda>v. if v = ''HOME'' then ''/home/u'' else ''''),
     host_lookPath = (\<lambda>_. None), host_no1password = False\<rparr>"

theorem fileKeyringDir_isolated_witness:
  "\<exists>d1 d2. fileKeyringDir home_host ''jtk'' (\<lambda>_. '''') = Inr d1 \<and>
     fileKeyringDir home_host ''cfl'' (\<lambda>_. '''') = Inr d2 \<and>
     filepath_Join [d1, ''x''] \<noteq> filepath_Join [d2, ''x'']"
proof -
  have d: "fileKeyringDir home_host ''jtk'' (\<lambda>_. '''') = Inr ''/home/u/.local/share/jtk/keyring''"
    "fileKeyringDir home_host ''cfl'' (\<lambda>_. '''') = Inr ''/home/u/.local/share/cfl/keyring''"
    "validSegment ''jtk''" "validSegment ''cfl''" "filepath_IsAbs ''/home/u/.local/share/jtk/keyring''" "plain ''x''"
    by code_simp+
  from fileKeyringDir_isolated [OF d(3,4) _ d(1,2,5,6,6)] d(1,2) show ?thesis by simp
qed

lemma op_config_keeps [simp]:
  "serviceName (op_config kind service opts cfg) = serviceName cfg"
  "allowedBackend (op_config kind service opts cfg) = allowedBackend cfg"
  "fileDir (op_config kind service opts cfg) = fileDir cfg"
  "filePassword (op_config kind service opts cfg) = filePassword cfg"
  by (simp_all add: op_config_def Let_def split: option.split)

lemma filepath_Clean_nonempty: "filepath_Clean p \<noteq> ''''"
proof -
  have "\<forall>c \<in> set (clean_parts p). CHR ''/'' \<notin> set c \<and> c \<noteq> []"
    using clean_stack_parts [OF clean_parts_stack] by blast
  then show ?thesis
    using strings_Join_head(2) by (simp add: filepath_Clean_def unparts_def)
qed

lemma fileKeyringDir_nonempty: "fileKeyringDir h service getenv = Inr d \<Longrightarrow> d \<noteq> ''''"
  using filepath_Clean_nonempty
  by (auto simp: fileKeyringDir_def Let_def filepath_Join_def split: if_splits sum.splits list.splits)

lemma buildKeyringConfig_names:
  "buildKeyringConfig rt h kind service opts getenv = Inr cfg \<Longrightarrow>
     serviceName cfg = service \<and> allowedBackend cfg = kind"
  by (auto simp: buildKeyringConfig_def backendConfig_zero_def Let_def split: if_splits sum.splits)

text \<open>
  The encrypted-file backend always has a passphrase: the per-service environment variable if it
  is set, else the callback of the options, whose failure is reported, and with neither the
  construction fails with \<open>ErrFilePassphraseRequired\<close>; no other backend's config carries one.
\<close>

theorem buildKeyringConfig_passphrase:
  "let envVar = envServicePrefix rt service @ ''_KEYRING_PASSPHRASE'' in
   case buildKeyringConfig rt h kind service opts getenv of
     Inr cfg \<Rightarrow>
       serviceName cfg = service \<and> allowedBackend cfg = kind \<and> (kind = BackendFile \<longleftrightarrow> fileDir cfg \<noteq> '''') \<and>
       (case filePassword cfg of
          None \<Rightarrow> kind \<noteq> BackendFile
        | Some f \<Rightarrow> kind = BackendFile \<and>
            (if getenv envVar \<noteq> '''' then f ps = Inr (getenv envVar)
             else \<exists>fn. Option.bind opts FilePassphrase = Some fn \<and>
               (case fn () of Inr s \<Rightarrow> f ps = Inr s | Inl e \<Rightarrow> \<exists>qs. f ps = Inl (Wrapf qs e []))))
   | Inl e \<Rightarrow> kind = BackendFile \<and>
       (isl (keyring_base h getenv) \<or>
        getenv envVar = '''' \<and> Option.bind opts FilePassphrase = None \<and> errors_Is e ErrFilePassphraseRequired)"
proof (cases "kind = BackendFile")
  case True
  have "fileKeyringDir h service getenv = Inl e \<Longrightarrow> isl (keyring_base h getenv)" for e
    by (cases "os_UserHomeDir (host_GOOS h) (host_env h)")
       (auto simp: fileKeyringDir_def keyring_base_def Let_def split: if_splits)
  then show ?thesis
    using True fileKeyringDir_nonempty [of h service getenv]
    by (cases "Option.bind opts FilePassphrase"; cases "fileKeyringDir h service getenv")
       (auto simp: buildKeyringConfig_def filePasswordFunc_def fixedStringPrompt_def backendConfig_zero_def
         Let_def split: sum.split)
next
  case False
  then have "\<exists>cfg. buildKeyringConfig rt h kind service opts getenv = Inr cfg \<and> serviceName cfg = service \<and>
      allowedBackend cfg = kind \<and> fileDir cfg = '''' \<and> filePassword cfg = None"
    by (auto simp: buildKeyringConfig_def backendConfig_zero_def Let_def)
  with False show ?thesis by auto
qed

end
