(* ===== verification/Open.thy ===== *)
theory Open
  imports FileProps Config
begin

text \<open>
  Opening a store: \<open>Open\<close> and \<open>openWithDeps\<close> of \<open>store.go\<close>, \<open>openOSBackend\<close>, and the build-tagged
  \<open>openKeyringBackend\<close> of the static Unix builds (\<open>osbackend_nocgo_unix.go\<close>) and of the platforms with no
  keyring (\<open>osbackend_nocgo_unsupported.go\<close>). The opener of a build is an argument of \<open>openOSBackend\<close>;
  the openers of the other keyrings of a static build are arguments of its opener.
\<close>

section \<open>The keyring openers\<close>

text \<open>The dynamic type of a keyring in a static build: the file keyring or one of the others.\<close>

type_synonym 'x staticKeyring = "fileKeyringBackend + 'x"

abbreviation (input) FileKeyring :: "fileKeyringBackend \<Rightarrow> 'x staticKeyring" where
  "FileKeyring \<equiv> Inl"

abbreviation (input) OtherKeyring :: "'x \<Rightarrow> 'x staticKeyring" where
  "OtherKeyring \<equiv> Inr"

definition openFileBackend :: "fs \<Rightarrow> backendConfig \<Rightarrow> fileKeyringBackend result" where
  "openFileBackend w cfg =
     Inr \<lparr>fb_dir = fileDir cfg, fb_passwordFunc = filePassword cfg, fb_password = '''', fb_fs = w\<rparr>"

abbreviation not_supported :: "piece list \<Rightarrow> err" where
  "not_supported ps \<equiv> Wrapf [] (Sentinel ErrBackendNotImplemented) ps"

definition openKeyringBackend_nocgo ::
  "host \<Rightarrow> fs \<Rightarrow> (backendConfig \<Rightarrow> 'x result) \<Rightarrow> (backendConfig \<Rightarrow> 'x result) \<Rightarrow>
     Backend \<Rightarrow> backendConfig \<Rightarrow> 'x staticKeyring result"
where
  "openKeyringBackend_nocgo h w openPassBackend openSecretServiceBackend kind cfg =
     (if kind = BackendFile then map_sum id FileKeyring (openFileBackend w cfg)
      else if kind = BackendPass then map_sum id OtherKeyring (openPassBackend cfg)
      else if kind = BackendSecretService then
        (if host_GOOS h \<noteq> ''linux'' then Inl (not_supported [Lit '': secret-service is only supported on Linux''])
         else map_sum id OtherKeyring (openSecretServiceBackend cfg))
      else if kind = BackendKeychain then Inl (not_supported [Lit '': keychain requires CGO''])
      else if kind = BackendWinCred then Inl (not_supported [Lit '': wincred is only supported on Windows''])
      else if kind = BackendMemory then
        Inl (not_supported [Lit '': memory backend is opened before OS backend construction''])
      else Inl (not_supported [Lit '': backend '', Quoted kind, Lit '' is not supported in no-CGO Unix builds'']))"

definition openKeyringBackend_unsupported :: "Backend \<Rightarrow> backendConfig \<Rightarrow> 'x result" where
  "openKeyringBackend_unsupported kind cfg =
     Inl (not_supported [Lit '': backend '', Quoted kind, Lit '' is not supported in no-CGO builds for this platform''])"

section \<open>openOSBackend\<close>

definition opening_error :: "Backend \<Rightarrow> string \<Rightarrow> err \<Rightarrow> err" where
  "opening_error kind service e =
     Wrapf [Lit ''credstore: opening '', Lit kind, Lit '' backend for service '', Quoted service, Lit '': ''] e []"

definition openOSBackend ::
  "runtime \<Rightarrow> host \<Rightarrow> (Backend \<Rightarrow> backendConfig \<Rightarrow> 'k result) \<Rightarrow>
     Backend \<Rightarrow> string \<Rightarrow> Options option \<Rightarrow> getenv \<Rightarrow> 'k osKeyringBackend result"
where
  "openOSBackend rt h openKeyringBackend kind service opts getenv =
     (case unsupportedOnePasswordBackendInBuild h kind of
        Some e \<Rightarrow> Inl (opening_error kind service e)
      | None \<Rightarrow>
          (case preflightOSBackend h kind of
             Some e \<Rightarrow> Inl (opening_error kind service e)
           | None \<Rightarrow>
               (case buildKeyringConfig rt h kind service opts getenv of
                  Inl e \<Rightarrow> Inl e
                | Inr cfg \<Rightarrow>
                    (case openKeyringBackend kind cfg of
                       Inl e \<Rightarrow> Inl (opening_error kind service e)
                     | Inr kr \<Rightarrow> Inr \<lparr>os_kr = kr, os_backendKind = kind, os_service = service\<rparr>))))"

section \<open>Open\<close>

text \<open>The dynamic type of a store's backend: in memory (\<open>Inl\<close>) or the adapter of a keyring (\<open>Inr\<close>).\<close>

definition openWithDeps ::
  "runtime \<Rightarrow> host \<Rightarrow> (Backend \<Rightarrow> backendConfig \<Rightarrow> 'k result) \<Rightarrow>
     string \<Rightarrow> Options option \<Rightarrow> getenv \<Rightarrow> string \<Rightarrow> (string \<Rightarrow> getenv \<Rightarrow> err option) \<Rightarrow>
     (memoryBackend + 'k osKeyringBackend) Store result"
where
  "openWithDeps rt h openKeyringBackend service opts0 getenv goos probe =
     (if service = '''' then Inl (ref_error RefErrorEmpty ''service'' '''')
      else if \<not> validSegment service then Inl (ref_error RefErrorInvalidChar ''service'' service)
      else
        (let opts = (case opts0 of None \<Rightarrow> Options_zero | Some o1 \<Rightarrow> o1) in
         case normalizeAllowedKeys (AllowedKeys opts) of
           Inl e \<Rightarrow> Inl e
         | Inr (allowed, allowedList) \<Rightarrow>
             (case resolveBackend rt service (Some opts) getenv goos probe of
                Inl e \<Rightarrow> Inl e
              | Inr (kind, src) \<Rightarrow>
                  (case (if kind = BackendMemory then Inr (Inl newMemoryBackend)
                         else map_sum id Inr (openOSBackend rt h openKeyringBackend kind service (Some opts) getenv)) of
                     Inl e \<Rightarrow> Inl e
                   | Inr be \<Rightarrow>
                       Inr \<lparr>st_service = service, st_src = src, st_kind = kind, st_allowed = allowed,
                         st_allowedList = allowedList, st_closed = False, st_be = Some be\<rparr>))))"

definition Open ::
  "runtime \<Rightarrow> host \<Rightarrow> (Backend \<Rightarrow> backendConfig \<Rightarrow> 'k result) \<Rightarrow> (string \<Rightarrow> getenv \<Rightarrow> err option) \<Rightarrow>
     string \<Rightarrow> Options option \<Rightarrow> (memoryBackend + 'k osKeyringBackend) Store result"
where
  "Open rt h openKeyringBackend probeSecretService service opts =
     openWithDeps rt h openKeyringBackend service opts (host_env h) (host_GOOS h) probeSecretService"

section \<open>Properties\<close>

lemma map_sum_Inr_iff: "map_sum f g x = Inr y \<longleftrightarrow> (\<exists>b. x = Inr b \<and> y = g b)"
  by (cases x) auto

lemma openWithDeps_cases:
  assumes "openWithDeps rt h opn service opts0 getenv goos probe = Inr s"
  defines "opts \<equiv> (case opts0 of None \<Rightarrow> Options_zero | Some o1 \<Rightarrow> o1)"
  obtains be where "validSegment service" "normalizeAllowedKeys (AllowedKeys opts) = Inr (st_allowed s, st_allowedList s)"
    "resolveBackend rt service (Some opts) getenv goos probe = Inr (st_kind s, st_src s)"
    "st_service s = service" "\<not> st_closed s" "st_be s = Some be"
    "case be of Inl m \<Rightarrow> st_kind s = BackendMemory \<and> m = newMemoryBackend
     | Inr b \<Rightarrow> st_kind s \<noteq> BackendMemory \<and>
         openOSBackend rt h opn (st_kind s) service (Some opts) getenv = Inr b"
  using assms
  by (auto simp: openWithDeps_def Let_def map_sum_Inr_iff split: if_splits sum.splits prod.splits)

lemma openOSBackend_cases:
  assumes "openOSBackend rt h opn kind service opts getenv = Inr b"
  obtains cfg where "unsupportedOnePasswordBackendInBuild h kind = None" "preflightOSBackend h kind = None"
    "buildKeyringConfig rt h kind service opts getenv = Inr cfg" "opn kind cfg = Inr (os_kr b)"
    "os_backendKind b = kind" "os_service b = service"
  using assms by (auto simp: openOSBackend_def split: option.splits sum.splits)


text \<open>The store over the file keyring, as the other theories have it.\<close>

definition over :: "'b Store \<Rightarrow> 'c \<Rightarrow> 'c Store" where
  "over s b = \<lparr>st_service = st_service s, st_src = st_src s, st_kind = st_kind s, st_allowed = st_allowed s,
     st_allowedList = st_allowedList s, st_closed = st_closed s, st_be = Some b\<rparr>"

lemma expandTilde_abs: "filepath_IsAbs d \<Longrightarrow> expandTilde env d = Inr d"
  by (cases d) (auto simp: expandTilde_def filepath_IsAbs_def)

lemma filePasswordFunc_foreign:
  assumes "filePasswordFunc rt service opts getenv = Inr f" "f ps = Inl e"
    "\<And>fn e. Option.bind opts FilePassphrase = Some fn \<Longrightarrow> fn () = Inl e \<Longrightarrow> foreign_error e"
  shows "foreign_error e"
  using assms(1,2) assms(3) [of _ "case e of Wrapf qs e' rs \<Rightarrow> e'"]
  by (auto simp: filePasswordFunc_def fixedStringPrompt_def Let_def foreign_error_def own_error_def
      split: if_splits option.splits sum.splits)

lemma opened_file_keyring:
  assumes "buildKeyringConfig rt h BackendFile service opts getenv = Inr cfg" "openFileBackend w cfg = Inr b"
    "fileKeyringDir h service getenv = Inr d" "filepath_IsAbs d" "codec_ok cd" "dir_ok cd d w"
    "\<And>fn e. Option.bind opts FilePassphrase = Some fn \<Longrightarrow> fn () = Inl e \<Longrightarrow> foreign_error e"
  shows "fb_fs b = w" "base_dir (host_env h) b = d" "fb_password b = ''''" "file_good cd (host_env h) b"
proof -
  obtain f where f: "filePasswordFunc rt service opts getenv = Inr f" "fileDir cfg = d" "filePassword cfg = Some f"
    using assms(1,3) by (auto simp: buildKeyringConfig_def Let_def split: sum.splits)
  then have b: "b = \<lparr>fb_dir = d, fb_passwordFunc = Some f, fb_password = '''', fb_fs = w\<rparr>"
    using assms(2) by (simp add: openFileBackend_def)
  have "foreign_error e" if "f ps = Inl e" for ps e
    by (rule filePasswordFunc_foreign [OF f(1) that assms(7)])
  then show "fb_fs b = w" "base_dir (host_env h) b = d" "fb_password b = ''''" "file_good cd (host_env h) b"
    using assms(4-6) expandTilde_abs [OF assms(4)] by (auto simp: file_good_def prompt_ok_def base_dir_def b)
qed

text \<open>
  A store that opens on the file backend in a static build, chosen by the user or by the fallback
  of Linux, works on its service's own directory and satisfies the invariant of the file keyring, so
  all that is proved of file stores holds of it, with the contents the directory has.
\<close>

theorem openWithDeps_file_good:
  assumes "openWithDeps rt h (openKeyringBackend_nocgo h w openPass openSS) service opts getenv goos probe = Inr s"
    "st_kind s = BackendFile" "fileKeyringDir h service getenv = Inr d" "filepath_IsAbs d"
    "codec_ok cd" "dir_ok cd d w"
    "\<And>o1 fn e. opts = Some o1 \<Longrightarrow> FilePassphrase o1 = Some fn \<Longrightarrow> fn () = Inl e \<Longrightarrow> foreign_error e"
  shows "\<exists>b. st_be s = Some (Inr \<lparr>os_kr = FileKeyring b, os_backendKind = BackendFile, os_service = service\<rparr>) \<and>
    fb_fs b = w \<and> base_dir (host_env h) b = d \<and> fb_password b = '''' \<and>
    store_ok (os_good (file_good cd (host_env h)))
      (over s \<lparr>os_kr = b, os_backendKind = BackendFile, os_service = service\<rparr>)"
  using assms(1)
proof (cases rule: openWithDeps_cases)
  case (1 be)
  let ?o = "case opts of None \<Rightarrow> Options_zero | Some o1 \<Rightarrow> o1"
  from 1(7) assms(2) obtain ob where ob: "be = Inr ob"
    "openOSBackend rt h (openKeyringBackend_nocgo h w openPass openSS) BackendFile service (Some ?o) getenv = Inr ob"
    by (auto simp: Backend_defs split: sum.splits)
  from ob(2) obtain cfg where cfg: "buildKeyringConfig rt h BackendFile service (Some ?o) getenv = Inr cfg"
    "openKeyringBackend_nocgo h w openPass openSS BackendFile cfg = Inr (os_kr ob)"
    "os_backendKind ob = BackendFile" "os_service ob = service"
    by (rule openOSBackend_cases)
  obtain b where b: "openFileBackend w cfg = Inr b" "os_kr ob = FileKeyring b"
    using cfg(2) by (auto simp: openKeyringBackend_nocgo_def openFileBackend_def)
  have "foreign_error e" if "Option.bind (Some ?o) FilePassphrase = Some fn" "fn () = Inl e" for fn e
    using assms(7) that by (cases opts) (auto simp: Options_zero_def)
  note good = opened_file_keyring [OF cfg(1) b(1) assms(3-6) this]
  have ok: "case st_allowed s of None \<Rightarrow> st_allowedList s = []
      | Some A \<Rightarrow> finite A \<and> A \<noteq> {} \<and> (\<forall>k \<in> A. validSegment k) \<and> st_allowedList s = sorted_list_of_set A"
    using normalizeAllowedKeys_Inr [OF 1(2)] by (auto split: option.split)
  have "ob = \<lparr>os_kr = FileKeyring b, os_backendKind = BackendFile, os_service = service\<rparr>"
    using b(2) cfg(3,4) by (cases ob) simp
  with 1(5,6) ob(1) good ok show ?thesis
    by (cases "st_allowed s") (auto simp: store_ok_def over_def os_good_def)
qed

text \<open>Linux without a Secret Service: the automatic choice falls back to the file backend.\<close>

definition no_tables :: runtime where
  "no_tables = \<lparr>unicode_upper = id, unicode_lower = id, quote = id\<rparr>"

definition fallback_open :: "(memoryBackend + unit staticKeyring osKeyringBackend) Store result" where
  "fallback_open = openWithDeps no_tables home_host
     (openKeyringBackend_nocgo home_host \<lparr>nodes = [], tick = 0, fault = (\<lambda>_. None), rand = (\<lambda>_. 0)\<rparr>
        (\<lambda>_. Inl (OtherError '''')) (\<lambda>_. Inl (OtherError '''')))
     ''jtk'' None (\<lambda>v. if v = ''JTK_KEYRING_PASSPHRASE'' then ''pw'' else '''') ''linux''
     (\<lambda>_ _. Some (DBusError ''org.freedesktop.DBus.Error.ServiceUnknown'' ''''))"

lemma fallback_open_file:
  "map_sum (\<lambda>_. ()) (\<lambda>s. (st_kind s, st_src s)) fallback_open = Inr (BackendFile, SourceAuto)"
  by code_simp

theorem openWithDeps_file_good_witness:
  "\<exists>s b. fallback_open = Inr s \<and> base_dir (host_env home_host) b = ''/home/u/.local/share/jtk/keyring'' \<and>
     store_ok (os_good (file_good plain_codec (host_env home_host)))
       (over s \<lparr>os_kr = b, os_backendKind = BackendFile, os_service = ''jtk''\<rparr>)"
proof -
  obtain s where s: "fallback_open = Inr s" "st_kind s = BackendFile"
    using fallback_open_file by (auto simp: map_sum_Inr_iff)
  have dir: "fileKeyringDir home_host ''jtk'' (\<lambda>v. if v = ''JTK_KEYRING_PASSPHRASE'' then ''pw'' else '''') =
      Inr ''/home/u/.local/share/jtk/keyring''" "filepath_IsAbs ''/home/u/.local/share/jtk/keyring''"
    by code_simp+
  have "dir_ok plain_codec d \<lparr>nodes = [], tick = 0, fault = (\<lambda>_. None), rand = (\<lambda>_. 0)\<rparr>" for d
    by (simp add: dir_ok_def below_def)
  from openWithDeps_file_good [OF s(1) [unfolded fallback_open_def] s(2) dir plain_codec_ok(1) this] s(1)
  show ?thesis by auto
qed

end
