(* ===== verification/FsOps.thy ===== *)
theory FsOps
  imports Fs
begin

text \<open>
  More of package \<open>os\<close> on the tree of \<open>Fs\<close>: temporary files, writing and closing an open file,
  \<open>Chmod\<close> and \<open>Rename\<close>; and what \<open>MkdirAll\<close> and these calls do to every path, whichever of them
  faults. An open file is named by its path. Faults from some tick on, without partial effect, also
  stand for a process that dies there: the tree stays as it was left.
\<close>

section \<open>Calls\<close>

text \<open>
  \<open>os.CreateTemp\<close> for a pattern split at its star: up to 10000 exclusive creations, each with a new
  random number, until one does not find the name taken.
\<close>

fun create_temp_loop :: "nat \<Rightarrow> fs \<Rightarrow> string \<Rightarrow> string \<Rightarrow> string \<Rightarrow> fs \<times> string result" where
  "create_temp_loop 0 w dir pre suf = (w, Inl (OtherError ''file exists''))"
| "create_temp_loop (Suc n) w dir pre suf =
     (let p = filepath_Join [dir, pre @ show_nat (rand w (tick w)) @ suf] in
      case fault_now w of
        Some (msg, _) \<Rightarrow> (step w, Inl (OtherError msg))
      | None \<Rightarrow>
          (if node_at w p \<noteq> None then create_temp_loop n (step w) dir pre suf
           else (case open_error w p of
                   Some e \<Rightarrow> (step w, Inl e)
                 | None \<Rightarrow> (put_node p (File 384 '''') (step w), Inr p))))"

definition os_CreateTemp :: "fs \<Rightarrow> string \<Rightarrow> string \<Rightarrow> string \<Rightarrow> fs \<times> string result" where
  "os_CreateTemp w dir pre suf = create_temp_loop 10000 w dir pre suf"

text \<open>A write to a file opened empty; a failed one may leave a part of the data.\<close>

definition file_Write :: "fs \<Rightarrow> string \<Rightarrow> string \<Rightarrow> fs \<times> err option" where
  "file_Write w p data =
     (case node_at w p of
        Some (File m old) \<Rightarrow>
          (case fault_now w of
             None \<Rightarrow> (put_node p (File m (old @ data)) (step w), None)
           | Some (msg, None) \<Rightarrow> (step w, Some (OtherError msg))
           | Some (msg, Some n) \<Rightarrow> (put_node p (File m (old @ take n data)) (step w), Some (OtherError msg)))
      | _ \<Rightarrow> (step w, Some (OtherError ''bad file descriptor'')))"

definition file_Close :: "fs \<Rightarrow> fs \<times> err option" where
  "file_Close w =
     (case fault_now w of None \<Rightarrow> (step w, None) | Some (msg, _) \<Rightarrow> (step w, Some (OtherError msg)))"

definition os_Chmod :: "fs \<Rightarrow> string \<Rightarrow> nat \<Rightarrow> fs \<times> err option" where
  "os_Chmod w p mode =
     (case fault_now w of
        Some (msg, _) \<Rightarrow> (step w, Some (OtherError msg))
      | None \<Rightarrow>
          (case node_at w p of
             None \<Rightarrow> (step w, Some (OsNotExist p))
           | Some (File _ c) \<Rightarrow> (put_node p (File mode c) (step w), None)
           | Some (Dir _) \<Rightarrow> (put_node p (Dir mode) (step w), None)))"

text \<open>\<open>os.Rename\<close> of a file: it takes the place of a file, not of a directory, in one step.\<close>

definition os_Rename :: "fs \<Rightarrow> string \<Rightarrow> string \<Rightarrow> fs \<times> err option" where
  "os_Rename w old new =
     (case fault_now w of
        Some (msg, _) \<Rightarrow> (step w, Some (OtherError msg))
      | None \<Rightarrow>
          (case node_at w old of
             None \<Rightarrow> (step w, Some (OsNotExist old))
           | Some n \<Rightarrow>
               (case open_error w new of
                  Some e \<Rightarrow> (step w, Some e)
                | None \<Rightarrow> (put_node new n (del_node old (step w)), None))))"

section \<open>Creating directories\<close>

text \<open>What creating directories does to a file system: new ones at the given paths, and nothing else.\<close>

definition only_dirs_added :: "nat \<Rightarrow> string set \<Rightarrow> fs \<Rightarrow> fs \<Rightarrow> bool" where
  "only_dirs_added perm A w w' \<longleftrightarrow>
     (\<forall>p. node_at w' p = node_at w p \<or>
        node_at w p = None \<and> node_at w' p = Some (Dir perm) \<and> filepath_Clean p \<in> A)"

lemma only_dirs_refl [simp, intro]: "only_dirs_added perm A w w" "only_dirs_added perm A w (step w)"
  by (simp_all add: only_dirs_added_def)

lemma only_dirs_trans:
  "only_dirs_added perm A w1 w2 \<Longrightarrow> only_dirs_added perm A w2 w3 \<Longrightarrow> only_dirs_added perm A w1 w3"
  unfolding only_dirs_added_def by metis

lemma only_dirs_mono: "only_dirs_added perm A w w' \<Longrightarrow> A \<subseteq> B \<Longrightarrow> only_dirs_added perm B w w'"
  unfolding only_dirs_added_def by blast

lemma only_dirs_is_dir: "only_dirs_added perm A w w' \<Longrightarrow> is_dir w p \<Longrightarrow> is_dir w' p"
  unfolding only_dirs_added_def is_dir_def by (metis option.simps(4))

lemma absent_proper: "node_at w p = None \<Longrightarrow> proper p"
  by (auto simp: node_at_def proper_def Let_def split: if_splits)

lemma os_Mkdir_laws:
  assumes "os_Mkdir w p perm = (w', r)"
  shows "only_dirs_added perm {filepath_Clean p} w w'" "r = None \<Longrightarrow> is_dir w' p"
proof -
  have put: "only_dirs_added perm {filepath_Clean p} w (put_node p (Dir perm) (step w)) \<and>
      is_dir (put_node p (Dir perm) (step w)) p" if "node_at w p = None"
  proof -
    have "node_at (put_node p (Dir perm) (step w)) q = (if filepath_Clean q = filepath_Clean p then Some (Dir perm) else node_at w q)" for q
      using absent_proper [OF that] by simp
    moreover have "filepath_Clean q = filepath_Clean p \<Longrightarrow> node_at w q = None" for q
      using that node_at_cong by metis
    ultimately show ?thesis
      by (simp add: only_dirs_added_def is_dir_def)
  qed
  show "only_dirs_added perm {filepath_Clean p} w w'" "r = None \<Longrightarrow> is_dir w' p"
    using assms put by (auto simp: os_Mkdir_def split: option.splits prod.splits if_splits)
qed

lemma os_Stat_dirs: "os_Stat w p = (w', r) \<Longrightarrow> only_dirs_added perm A w w' \<and> (r = Inr (Dir m) \<longrightarrow> is_dir w' p)"
  by (auto simp: os_Stat_def syscall_def is_dir_def split: option.splits)

lemma mkdir_one_laws:
  assumes "mkdir_one w q perm = (w', r)"
  shows "only_dirs_added perm {filepath_Clean q} w w' \<and> (r = None \<longrightarrow> is_dir w' q)"
proof -
  let ?A = "{filepath_Clean q}"
  obtain w1 s1 where 1: "os_Stat w q = (w1, s1)" by (cases "os_Stat w q")
  obtain w2 r2 where 2: "os_Mkdir w1 q perm = (w2, r2)" by (cases "os_Mkdir w1 q perm")
  obtain w3 s3 where 3: "os_Stat w2 q = (w3, s3)" by (cases "os_Stat w2 q")
  note a = os_Stat_dirs [OF 1, of perm ?A] os_Mkdir_laws [OF 2] os_Stat_dirs [OF 3, of perm ?A]
  have "only_dirs_added perm ?A w w1" "only_dirs_added perm ?A w w2" "only_dirs_added perm ?A w w3"
    using a only_dirs_trans by blast+
  with a 1 2 3 assms show ?thesis
    by (auto simp: mkdir_one_def split: sum.splits node.splits option.splits)
qed

lemma mkdir_loop_laws:
  "mkdir_loop w qs perm = (w', r) \<Longrightarrow>
     only_dirs_added perm (filepath_Clean ` set qs) w w' \<and> (r = None \<longrightarrow> (\<forall>q \<in> set qs. is_dir w' q))"
proof (induction qs arbitrary: w)
  case (Cons q qs)
  let ?A = "filepath_Clean ` set (q # qs)"
  obtain w1 r1 where 1: "mkdir_one w q perm = (w1, r1)" by (cases "mkdir_one w q perm")
  have one: "only_dirs_added perm ?A w w1 \<and> (r1 = None \<longrightarrow> is_dir w1 q)"
    using mkdir_one_laws [OF 1] only_dirs_mono [of perm "{filepath_Clean q}" w w1 ?A] by simp
  show ?case
  proof (cases r1)
    case None
    with Cons.prems 1 have "mkdir_loop w1 qs perm = (w', r)" by simp
    note rest = Cons.IH [OF this]
    then have "only_dirs_added perm ?A w1 w'"
      using only_dirs_mono [of perm "filepath_Clean ` set qs" w1 w' ?A] by auto
    with one None rest show ?thesis
      using only_dirs_trans [of perm ?A w w1 w'] only_dirs_is_dir [of perm ?A w1 w' q] by auto
  next
    case (Some e)
    with Cons.prems 1 one show ?thesis by auto
  qed
qed simp

lemma is_dir_clean: "is_dir w (filepath_Clean p) \<Longrightarrow> filepath_IsAbs p \<Longrightarrow> is_dir w p"
  using node_at_cong [of "filepath_Clean p" p w] filepath_Clean_idem(1) [of p] by (simp add: is_dir_def)

lemma ancestors_parts:
  assumes "filepath_IsAbs p" "q \<in> set (ancestors p)"
  shows "filepath_Clean q = q \<and> length (clean_parts q) \<le> length (clean_parts p)"
proof -
  from assms obtain i where q: "q = unparts True (take i (clean_parts p))"
    by (auto simp: ancestors_def Let_def simp del: upt_Suc)
  have st: "clean_stack True (take i (clean_parts p))"
    using clean_parts_stack [of p] assms(1) by (auto simp: clean_stack_def dest: in_set_takeD)
  from clean_parts_unparts [OF st] filepath_IsAbs_unparts [OF st] show ?thesis
    by (simp add: q filepath_Clean_def)
qed

lemma os_MkdirAll_laws:
  assumes "os_MkdirAll w p perm = (w', r)" "filepath_IsAbs p"
  shows "only_dirs_added perm (set (ancestors p)) w w'" "r = None \<Longrightarrow> is_dir w' p"
proof -
  note loop = mkdir_loop_laws [OF assms(1) [unfolded os_MkdirAll_def]]
  have "filepath_Clean ` set (ancestors p) = set (ancestors p)"
    using ancestors_parts [OF assms(2)] by (simp add: image_cong)
  with loop show "only_dirs_added perm (set (ancestors p)) w w'" by simp
  assume r: "r = None"
  show "is_dir w' p"
  proof (cases "clean_parts p = []")
    case True
    then have "filepath_Clean p = ''/''"
      using assms(2) by (simp add: filepath_Clean_def unparts_def)
    then show ?thesis by (simp add: is_dir_def node_at_def)
  next
    case False
    then have "Suc 0 \<le> length (clean_parts p)"
      by (cases "clean_parts p") simp_all
    then have "filepath_Clean p \<in> set (ancestors p)"
      by (auto simp: ancestors_def Let_def filepath_Clean_def image_iff simp del: upt_Suc
          intro!: bexI [of _ "length (clean_parts p)"])
    then show ?thesis
      using loop r is_dir_clean [OF _ assms(2)] by blast
  qed
qed

section \<open>Calls at one path\<close>

text \<open>A step that changes nothing but what is at the given paths.\<close>

definition only_at :: "string set \<Rightarrow> fs \<Rightarrow> fs \<Rightarrow> bool" where
  "only_at P w w' \<longleftrightarrow>
     fault w' = fault w \<and> rand w' = rand w \<and>
     (\<forall>q. (\<forall>p \<in> P. filepath_Clean q \<noteq> filepath_Clean p) \<longrightarrow> node_at w' q = node_at w q)"

lemma step_fields [simp]:
  "fault (step w) = fault w" "rand (step w) = rand w"
  "fault (put_node p n w) = fault w" "rand (put_node p n w) = rand w"
  "fault (del_node p w) = fault w" "rand (del_node p w) = rand w"
  by (simp_all add: step_def put_node_def del_node_def)

lemma only_at_refl [simp, intro]: "only_at P w w" "only_at P w (step w)"
  by (simp_all add: only_at_def)

lemma only_at_trans: "only_at P w1 w2 \<Longrightarrow> only_at P w2 w3 \<Longrightarrow> only_at P w1 w3"
  by (simp add: only_at_def)

lemma only_at_mono: "only_at P w w' \<Longrightarrow> P \<subseteq> Q \<Longrightarrow> only_at Q w w'"
  unfolding only_at_def by blast

lemma only_at_put: "proper p \<Longrightarrow> only_at {p} w (put_node p n (step w))"
  by (simp add: only_at_def)

lemma only_at_del: "proper p \<Longrightarrow> only_at {p} w (del_node p (step w))"
  by (simp add: only_at_def)

lemma file_Write_laws:
  assumes "file_Write w p data = (w', r)" "proper p"
  shows "only_at {p} w w'" "r = None \<Longrightarrow> node_at w p = Some (File m old) \<Longrightarrow> node_at w' p = Some (File m (old @ data))"
  using assms only_at_put [OF assms(2)] by (auto simp: file_Write_def split: option.splits node.splits)

lemma file_Close_laws: "file_Close w = (w', r) \<Longrightarrow> w' = step w"
  by (auto simp: file_Close_def split: option.splits)

lemma os_Chmod_laws:
  assumes "os_Chmod w p mode = (w', r)" "proper p"
  shows "only_at {p} w w'" "r = None \<Longrightarrow> node_at w p = Some (File m c) \<Longrightarrow> node_at w' p = Some (File mode c)"
  using assms only_at_put [OF assms(2)] by (auto simp: os_Chmod_def split: option.splits node.splits)

lemma os_Remove_only:
  assumes "os_Remove w p = (w', r)" "proper p"
  shows "only_at {p} w w'" "r = None \<Longrightarrow> node_at w' p = None"
  using assms only_at_del [OF assms(2)]
  by (auto simp: os_Remove_def syscall_def split: option.splits node.splits prod.splits sum.splits if_splits)

lemma os_Rename_laws:
  assumes "os_Rename w old new = (w', r)" "proper old" "proper new" "filepath_Clean old \<noteq> filepath_Clean new"
  shows "only_at {old, new} w w'" "r \<noteq> None \<Longrightarrow> w' = step w"
    "r = None \<Longrightarrow> node_at w' new = node_at w old \<and> node_at w' old = None"
proof -
  have "only_at {old, new} w (put_node new n (del_node old (step w)))" for n
    using assms(2,3) by (simp add: only_at_def)
  then show "only_at {old, new} w w'" "r \<noteq> None \<Longrightarrow> w' = step w"
    "r = None \<Longrightarrow> node_at w' new = node_at w old \<and> node_at w' old = None"
    using assms by (auto simp: os_Rename_def split: option.splits)
qed

text \<open>A temporary file is new, in the directory, and named by the pattern.\<close>

lemma create_temp_loop_laws:
  assumes "create_temp_loop n w dir pre suf = (w', r)" "filepath_IsAbs dir" "\<And>k. plain (pre @ show_nat k @ suf)"
  shows "case r of
      Inl e \<Rightarrow> only_at {} w w'
    | Inr p \<Rightarrow> \<exists>k. p = filepath_Join [dir, pre @ show_nat k @ suf] \<and> node_at w p = None \<and>
        only_at {p} w w' \<and> node_at w' p = Some (File 384 '''')"
  using assms(1)
proof (induction n arbitrary: w)
  case (Suc n)
  let ?k = "rand w (tick w)"
  let ?p = "filepath_Join [dir, pre @ show_nat ?k @ suf]"
  have proper: "proper ?p" using Join_proper assms(2,3) by blast
  show ?case
  proof (cases "fault_now w = None \<and> node_at w ?p \<noteq> None")
    case True
    then have "create_temp_loop n (step w) dir pre suf = (w', r)"
      using Suc.prems by (simp add: Let_def)
    from Suc.IH [OF this] show ?thesis
      by (auto split: sum.splits simp: only_at_def)
  next
    case False
    then show ?thesis
      using Suc.prems proper only_at_put [OF proper]
      by (auto simp: Let_def split: option.splits)
  qed
qed auto

lemmas os_CreateTemp_laws = create_temp_loop_laws [where n = 10000, folded os_CreateTemp_def]

end
