(* ===== verification/StateDir.thy ===== *)
theory StateDir
  imports FsOps Env
begin

text \<open>
  \<open>statedir/resolver.go\<close>: where a tool's config, cache and data live, with and without creating the
  directory, and \<open>statedirtest/statedirtest.go\<close>, the environment that isolates tests from the real
  directories. The operating system name and the environment are arguments; joining is the lexical
  joining of a Unix host. The file system takes the directories of the \<open>Ensured\<close> variants.
\<close>

section \<open>resolver.go\<close>

record Scope =
  scope_Name :: string

record Cache =
  cache_Tool :: string

record Data =
  data_Tool :: string

definition dirPerm :: nat where
  "dirPerm = 448"

definition invalid_name :: "piece list \<Rightarrow> err" where
  "invalid_name ps = Wrapf [] (Sentinel ErrStatedirInvalidName) ps"

definition validateComponent :: "string \<Rightarrow> string \<Rightarrow> err option" where
  "validateComponent kind v =
     (if v = '''' then Some (invalid_name [Lit '': '', Lit kind, Lit '' is empty''])
      else if v = ''.'' \<or> v = ''..'' then Some (invalid_name [Lit '': '', Lit kind, Lit '' is '', Quoted v])
      else if CHR ''/'' \<in> set v \<or> CHR 0x5C \<in> set v then
        Some (invalid_name [Lit '': '', Lit kind, Lit '' '', Quoted v, Lit '' contains a path separator''])
      else if strings_Contains v ''..'' then
        Some (invalid_name [Lit '': '', Lit kind, Lit '' '', Quoted v, Lit '' contains '', Quoted ''..''])
      else if suffix ''.'' v then
        Some (invalid_name [Lit '': '', Lit kind, Lit '' '', Quoted v, Lit '' has a trailing dot''])
      else None)"

definition Scope_ConfigDir :: "string \<Rightarrow> getenv \<Rightarrow> Scope \<Rightarrow> string result" where
  "Scope_ConfigDir goos env s =
     (case validateComponent ''scope name'' (scope_Name s) of
        Some e \<Rightarrow> Inl e
      | None \<Rightarrow>
          (case os_UserConfigDir goos env of
             Inl e \<Rightarrow> Inl (Wrapf [Lit ''statedir: resolving user config dir: ''] e [])
           | Inr base \<Rightarrow> Inr (filepath_Join [base, scope_Name s])))"

definition Scope_ConfigDirEnsured :: "string \<Rightarrow> getenv \<Rightarrow> fs \<Rightarrow> Scope \<Rightarrow> fs \<times> string result" where
  "Scope_ConfigDirEnsured goos env w s =
     (case Scope_ConfigDir goos env s of
        Inl e \<Rightarrow> (w, Inl e)
      | Inr dir \<Rightarrow>
          (case os_MkdirAll w dir dirPerm of
             (w', Some e) \<Rightarrow> (w', Inl (Wrapf [Lit ''statedir: creating config dir: ''] e []))
           | (w', None) \<Rightarrow> (w', Inr dir)))"

definition Cache_CacheDir :: "string \<Rightarrow> getenv \<Rightarrow> Cache \<Rightarrow> string result" where
  "Cache_CacheDir goos env c =
     (case validateComponent ''tool name'' (cache_Tool c) of
        Some e \<Rightarrow> Inl e
      | None \<Rightarrow>
          (case os_UserCacheDir goos env of
             Inl e \<Rightarrow> Inl (Wrapf [Lit ''statedir: resolving user cache dir: ''] e [])
           | Inr base \<Rightarrow> Inr (filepath_Join [base, cache_Tool c])))"

definition Cache_CacheDirEnsured :: "string \<Rightarrow> getenv \<Rightarrow> fs \<Rightarrow> Cache \<Rightarrow> fs \<times> string result" where
  "Cache_CacheDirEnsured goos env w c =
     (case Cache_CacheDir goos env c of
        Inl e \<Rightarrow> (w, Inl e)
      | Inr dir \<Rightarrow>
          (case os_MkdirAll w dir dirPerm of
             (w', Some e) \<Rightarrow> (w', Inl (Wrapf [Lit ''statedir: creating cache dir: ''] e []))
           | (w', None) \<Rightarrow> (w', Inr dir)))"

definition data_error :: "piece list \<Rightarrow> err" where
  "data_error ps = Errorf (Lit ''statedir: resolving user data dir: '' # ps)"

definition dataDirFor :: "string \<Rightarrow> string \<Rightarrow> getenv \<Rightarrow> string result \<Rightarrow> string result" where
  "dataDirFor tool goos getenv userHomeDir =
     (if goos = ''linux'' then
        (if getenv ''XDG_STATE_HOME'' \<noteq> '''' then
           (if \<not> filepath_IsAbs (getenv ''XDG_STATE_HOME'') then
              Inl (data_error [Lit ''XDG_STATE_HOME '', Quoted (getenv ''XDG_STATE_HOME''), Lit '' is relative''])
            else Inr (filepath_Join [getenv ''XDG_STATE_HOME'', tool]))
         else
           (case userHomeDir of
              Inl e \<Rightarrow> Inl (Wrapf [Lit ''statedir: resolving user data dir: ''] e [])
            | Inr home \<Rightarrow>
                (if home = '''' then Inl (data_error [Lit ''home directory is empty''])
                 else Inr (filepath_Join [home, ''.local'', ''state'', tool]))))
      else if goos = ''darwin'' then
        (case userHomeDir of
           Inl e \<Rightarrow> Inl (Wrapf [Lit ''statedir: resolving user data dir: ''] e [])
         | Inr home \<Rightarrow>
             (if home = '''' then Inl (data_error [Lit ''home directory is empty''])
              else Inr (filepath_Join [home, ''Library'', ''Application Support'', tool, ''data''])))
      else if goos = ''windows'' then
        (let localAppData = (if getenv ''LocalAppData'' = '''' then getenv ''LOCALAPPDATA'' else getenv ''LocalAppData'') in
         if localAppData = '''' then Inl (data_error [Lit ''LocalAppData is empty''])
         else Inr (filepath_Join [localAppData, tool, ''data'']))
      else Inl (data_error [Lit ''unsupported GOOS '', Quoted goos]))"

definition Data_DataDir :: "string \<Rightarrow> getenv \<Rightarrow> Data \<Rightarrow> string result" where
  "Data_DataDir goos env d =
     (case validateComponent ''tool name'' (data_Tool d) of
        Some e \<Rightarrow> Inl e
      | None \<Rightarrow> dataDirFor (data_Tool d) goos env (os_UserHomeDir goos env))"

definition Data_DataDirEnsured :: "string \<Rightarrow> getenv \<Rightarrow> fs \<Rightarrow> Data \<Rightarrow> fs \<times> string result" where
  "Data_DataDirEnsured goos env w d =
     (case Data_DataDir goos env d of
        Inl e \<Rightarrow> (w, Inl e)
      | Inr dir \<Rightarrow>
          (case os_MkdirAll w dir dirPerm of
             (w', Some e) \<Rightarrow> (w', Inl (Wrapf [Lit ''statedir: creating data dir: ''] e []))
           | (w', None) \<Rightarrow> (w', Inr dir)))"

text \<open>A label and a path, without behaviour.\<close>

record LegacySource =
  Label :: string
  Path :: string

section \<open>statedirtest.go\<close>

definition envSubdir :: "(string \<times> string) list" where
  "envSubdir = [(''HOME'', ''home''), (''USERPROFILE'', ''home''), (''AppData'', ''appdata''),
     (''LocalAppData'', ''localappdata''), (''XDG_CONFIG_HOME'', ''xdgconfig''),
     (''XDG_CACHE_HOME'', ''xdgcache''), (''XDG_DATA_HOME'', ''xdgdata''), (''XDG_STATE_HOME'', ''xdgstate'')]"

text \<open>\<open>Hermetic\<close> sets each variable of the table; \<open>root\<close> is the test's temporary directory.\<close>

definition Hermetic :: "string \<Rightarrow> getenv \<Rightarrow> getenv" where
  "Hermetic root env =
     (\<lambda>v. case map_of envSubdir v of Some sub \<Rightarrow> filepath_Join [root, sub] | None \<Rightarrow> env v)"

section \<open>Lemmas\<close>

lemma validateComponent_None:
  "validateComponent kind v = None \<longleftrightarrow>
     v \<noteq> '''' \<and> CHR ''/'' \<notin> set v \<and> CHR 0x5C \<notin> set v \<and> \<not> sublist ''..'' v \<and> \<not> suffix ''.'' v"
  by (auto simp: validateComponent_def str_simps)

lemma validateComponent_plain: "validateComponent kind v = None \<Longrightarrow> plain v"
  by (auto simp: validateComponent_None plain_def)

lemma validateComponent_error: "validateComponent kind v = Some e \<Longrightarrow> errors_Is e ErrStatedirInvalidName"
  by (auto simp: validateComponent_def invalid_name_def split: if_splits)

lemma validateComponent_kind: "validateComponent k1 v = None \<longleftrightarrow> validateComponent k2 v = None"
  by (simp add: validateComponent_None)

text \<open>A path below a base: the base's components and more.\<close>

definition below_root :: "string \<Rightarrow> string \<Rightarrow> bool" where
  "below_root root d \<longleftrightarrow>
     (\<exists>vs. vs \<noteq> [] \<and> (\<forall>v \<in> set vs. plain v) \<and> d = unparts (filepath_IsAbs root) (clean_parts root @ vs))"

lemma Hermetic_var:
  assumes "filepath_IsAbs root" "map_of envSubdir v = Some sub" "plain sub"
  shows "Hermetic root env v = unparts True (clean_parts root @ [sub])" "Hermetic root env v \<noteq> ''''"
    "filepath_IsAbs (Hermetic root env v)"
proof -
  have ne: "root \<noteq> []" using assms(1) by (auto simp: filepath_IsAbs_def)
  show "Hermetic root env v = unparts True (clean_parts root @ [sub])"
    using assms filepath_Join_plains [OF ne, of "[sub]"] by (simp add: Hermetic_def)
  then show "Hermetic root env v \<noteq> ''''" "filepath_IsAbs (Hermetic root env v)"
    using clean_parts_unparts_abs(2) [OF assms(1), of "[sub]"] assms(3)
    by (auto simp: filepath_IsAbs_def)
qed

lemma Hermetic_vars:
  assumes "filepath_IsAbs root"
  shows "Hermetic root env ''HOME'' = unparts True (clean_parts root @ [''home''])"
    "Hermetic root env ''USERPROFILE'' = unparts True (clean_parts root @ [''home''])"
    "Hermetic root env ''AppData'' = unparts True (clean_parts root @ [''appdata''])"
    "Hermetic root env ''LocalAppData'' = unparts True (clean_parts root @ [''localappdata''])"
    "Hermetic root env ''XDG_CONFIG_HOME'' = unparts True (clean_parts root @ [''xdgconfig''])"
    "Hermetic root env ''XDG_CACHE_HOME'' = unparts True (clean_parts root @ [''xdgcache''])"
    "Hermetic root env ''XDG_STATE_HOME'' = unparts True (clean_parts root @ [''xdgstate''])"
  by (rule Hermetic_var(1) [OF assms]; simp add: envSubdir_def plain_def)+

text \<open>The components below the test root, per pillar and operating system.\<close>

definition hermetic_parts :: "string \<Rightarrow> string \<Rightarrow> string list list" where
  "hermetic_parts goos name =
     (if goos = ''linux'' then [[''xdgconfig'', name], [''xdgcache'', name], [''xdgstate'', name]]
      else if goos = ''darwin'' then
        [[''home'', ''Library'', ''Application Support'', name], [''home'', ''Library'', ''Caches'', name],
         [''home'', ''Library'', ''Application Support'', name, ''data'']]
      else [[''appdata'', name], [''localappdata'', name], [''localappdata'', name, ''data'']])"

lemma plain_names:
  "plain ''home''" "plain ''Library''" "plain ''Application Support''" "plain ''Caches''" "plain ''data''"
  "plain ''appdata''" "plain ''localappdata''" "plain ''xdgconfig''" "plain ''xdgcache''" "plain ''xdgstate''"
  "plain ''.local''" "plain ''state''"
  by code_simp+

lemma hermetic_dirs:
  assumes "filepath_IsAbs root" "goos \<in> {''linux'', ''darwin'', ''windows''}" "validateComponent k name = None"
  shows "map (\<lambda>vs. Inr (unparts True (clean_parts root @ vs))) (hermetic_parts goos name) =
    [Scope_ConfigDir goos (Hermetic root env) \<lparr>scope_Name = name\<rparr>,
     Cache_CacheDir goos (Hermetic root env) \<lparr>cache_Tool = name\<rparr>,
     Data_DataDir goos (Hermetic root env) \<lparr>data_Tool = name\<rparr>]"
proof -
  have valid: "validateComponent k' name = None" for k'
    using assms(3) validateComponent_kind by blast
  have name: "plain name" using validateComponent_plain [OF assms(3)] .
  note pl = plain_names
  note vars = Hermetic_vars [OF assms(1)]
  have join: "filepath_Join (unparts True (clean_parts root @ vs) # ws) = unparts True (clean_parts root @ vs @ ws)"
    if "\<forall>v \<in> set vs. plain v" "\<forall>v \<in> set ws. plain v" for vs ws
    using Join_chain [OF assms(1) that] .
  have app: "unparts True (clean_parts root @ vs) @ ''/'' @ a @ ''/'' @ b = unparts True (clean_parts root @ vs @ [a, b])"
    if "vs \<noteq> []" for vs a b
    using that unparts_append [of "clean_parts root @ vs" a] unparts_append [of "clean_parts root @ vs @ [a]" b] by simp
  have app1: "unparts True (clean_parts root @ [''home'']) @ ''/Library/Application Support'' =
      unparts True (clean_parts root @ [''home'', ''Library'', ''Application Support''])"
    "unparts True (clean_parts root @ [''home'']) @ ''/Library/Caches'' =
      unparts True (clean_parts root @ [''home'', ''Library'', ''Caches''])"
    using app [of "[''home'']" "''Library''" "''Application Support''"] app [of "[''home'']" "''Library''" "''Caches''"]
    by simp_all
  consider "goos = ''linux''" | "goos = ''darwin''" | "goos = ''windows''" using assms(2) by blast
  then show ?thesis
  proof cases
    case 1
    then show ?thesis
      using name join [of "[_]" "[name]"]
      by (simp add: hermetic_parts_def Scope_ConfigDir_def Cache_CacheDir_def Data_DataDir_def dataDirFor_def
          os_UserConfigDir_def os_UserCacheDir_def os_known_dir_def os_xdg_dir_def valid vars pl)
  next
    case 2
    then show ?thesis
      using name join [of "[''home'', ''Library'', _]" "[name]"] join [of "[''home'']"]
      by (simp add: hermetic_parts_def Scope_ConfigDir_def Cache_CacheDir_def Data_DataDir_def dataDirFor_def
          os_UserConfigDir_def os_UserCacheDir_def os_known_dir_def os_UserHomeDir_def valid vars app1 pl Let_def)
  next
    case 3
    then show ?thesis
      using name join [of "[_]"]
      by (simp add: hermetic_parts_def Scope_ConfigDir_def Cache_CacheDir_def Data_DataDir_def dataDirFor_def
          os_UserConfigDir_def os_UserCacheDir_def os_known_dir_def valid vars pl Let_def)
  qed
qed

section \<open>Properties\<close>

text \<open>
  C37. Under \<open>Hermetic\<close> no resolved directory is real: on each of the three systems, whatever the
  process environment was, the config, cache and data directories of a valid name resolve, to three
  different paths below the test root that do not depend on that environment.
\<close>

theorem Hermetic_isolates:
  assumes "filepath_IsAbs root" "goos \<in> {''linux'', ''darwin'', ''windows''}" "validateComponent k name = None"
  shows "\<exists>c ca d. below_root root c \<and> below_root root ca \<and> below_root root d \<and> distinct [c, ca, d] \<and>
    (\<forall>env. Scope_ConfigDir goos (Hermetic root env) \<lparr>scope_Name = name\<rparr> = Inr c \<and>
      Cache_CacheDir goos (Hermetic root env) \<lparr>cache_Tool = name\<rparr> = Inr ca \<and>
      Data_DataDir goos (Hermetic root env) \<lparr>data_Tool = name\<rparr> = Inr d)"
proof -
  have name: "plain name" using validateComponent_plain [OF assms(3)] .
  have "\<exists>x y z. hermetic_parts goos name = [x, y, z]"
    by (simp add: hermetic_parts_def)
  then obtain x y z where xyz: "hermetic_parts goos name = [x, y, z]" by blast
  have plain: "\<forall>vs \<in> {x, y, z}. vs \<noteq> [] \<and> (\<forall>v \<in> set vs. plain v)" and ne: "distinct [x, y, z]"
    using xyz name assms(2) plain_names by (auto simp: hermetic_parts_def split: if_splits)
  let ?u = "\<lambda>vs. unparts True (clean_parts root @ vs)"
  have inj: "?u v = ?u w \<Longrightarrow> v = w" if "v \<in> {x, y, z}" "w \<in> {x, y, z}" for v w
    using clean_parts_unparts_abs(1) [OF assms(1)] plain that by (metis same_append_eq)
  have "below_root root (?u vs)" if "vs \<in> {x, y, z}" for vs
    using plain that assms(1) unfolding below_root_def by auto
  moreover have "distinct [?u x, ?u y, ?u z]"
    using inj [of x y] inj [of x z] inj [of y z] ne by auto
  ultimately show ?thesis
    using hermetic_dirs [OF assms] xyz
    by (intro exI [of _ "?u x"] exI [of _ "?u y"] exI [of _ "?u z"]) simp
qed

theorem Hermetic_isolates_witness:
  "\<exists>c ca d. distinct [c, ca, d] \<and>
    Data_DataDir ''windows'' (Hermetic ''/tmp/t'' (\<lambda>_. ''/home/real'')) \<lparr>data_Tool = ''jtk''\<rparr> = Inr d \<and>
    below_root ''/tmp/t'' d"
proof -
  have "filepath_IsAbs ''/tmp/t''" "validateComponent ''tool'' ''jtk'' = None"
    by code_simp+
  from Hermetic_isolates [OF this(1) _ this(2), of "''windows''"] show ?thesis
    by (metis insertCI)
qed

text \<open>
  Names are one path component everywhere: a scope or tool name is accepted exactly if it is
  non-empty, holds no separator of any system and no two dots in a row, and does not end in a dot, and
  then the config, cache and (on Linux) data directory is directly below the directory the system gives;
  every other name is refused with \<open>ErrInvalidName\<close> by all three, before the environment is consulted.
\<close>

theorem names_confined:
  "if name \<noteq> '''' \<and> CHR ''/'' \<notin> set name \<and> CHR 0x5C \<notin> set name \<and> \<not> sublist ''..'' name \<and> \<not> suffix ''.'' name
   then
     (case os_UserConfigDir goos env of
        Inl e \<Rightarrow> isl (Scope_ConfigDir goos env \<lparr>scope_Name = name\<rparr>)
      | Inr base \<Rightarrow> base \<noteq> '''' \<and> Scope_ConfigDir goos env \<lparr>scope_Name = name\<rparr> =
          Inr (unparts (filepath_IsAbs base) (clean_parts base @ [name]))) \<and>
     (case os_UserCacheDir goos env of
        Inl e \<Rightarrow> isl (Cache_CacheDir goos env \<lparr>cache_Tool = name\<rparr>)
      | Inr base \<Rightarrow> base \<noteq> '''' \<and> Cache_CacheDir goos env \<lparr>cache_Tool = name\<rparr> =
          Inr (unparts (filepath_IsAbs base) (clean_parts base @ [name])))
   else
     (\<exists>e. errors_Is e ErrStatedirInvalidName \<and>
       Scope_ConfigDir goos env \<lparr>scope_Name = name\<rparr> = Inl e) \<and>
     (\<exists>e. errors_Is e ErrStatedirInvalidName \<and>
       Cache_CacheDir goos env \<lparr>cache_Tool = name\<rparr> = Inl e \<and> Data_DataDir goos env \<lparr>data_Tool = name\<rparr> = Inl e)"
proof (cases "validateComponent ''scope name'' name")
  case None
  then have ok: "validateComponent k name = None" for k
    using validateComponent_kind by blast
  note name = validateComponent_plain [OF None]
  have base: "os_known_dir goos env win mac xdg sub = Inr base \<Longrightarrow> base \<noteq> ''''" for win mac xdg sub base
    by (auto simp: os_known_dir_def os_xdg_dir_def split: if_splits)
  then have "os_UserConfigDir goos env = Inr base \<Longrightarrow> base \<noteq> ''''"
    "os_UserCacheDir goos env = Inr base \<Longrightarrow> base \<noteq> ''''" for base
    by (auto simp: os_UserConfigDir_def os_UserCacheDir_def)
  then show ?thesis
    using validateComponent_None [THEN iffD1, OF None] ok filepath_Join_plain [OF _ name]
    by (cases "os_UserConfigDir goos env"; cases "os_UserCacheDir goos env")
       (simp_all add: Scope_ConfigDir_def Cache_CacheDir_def)
next
  case (Some e)
  then have bad: "validateComponent k name \<noteq> None" for k
    using validateComponent_kind by (metis option.distinct(1))
  then obtain e' where "validateComponent ''tool name'' name = Some e'" by blast
  with Some validateComponent_error
  have "errors_Is e ErrStatedirInvalidName" "errors_Is e' ErrStatedirInvalidName"
    "Scope_ConfigDir goos env \<lparr>scope_Name = name\<rparr> = Inl e" "Cache_CacheDir goos env \<lparr>cache_Tool = name\<rparr> = Inl e'"
    "Data_DataDir goos env \<lparr>data_Tool = name\<rparr> = Inl e'"
    by (simp_all add: Scope_ConfigDir_def Cache_CacheDir_def Data_DataDir_def)
  then show ?thesis
    using bad [unfolded validateComponent_None] by auto
qed

text \<open>
  On Windows the data directory of a tool is inside its cache directory (and on macOS inside its config
  directory), so emptying the cache directory removes the data.
\<close>

lemma windows_data_inside_cache:
  assumes "Cache_CacheDir ''windows'' env \<lparr>cache_Tool = name\<rparr> = Inr ca" "filepath_IsAbs (env ''LocalAppData'')"
  shows "Data_DataDir ''windows'' env \<lparr>data_Tool = name\<rparr> = Inr (filepath_Join [ca, ''data''])"
proof -
  let ?b = "env ''LocalAppData''"
  have ok: "validateComponent ''tool name'' name = None" and b: "?b \<noteq> ''''"
    using assms(1) by (auto simp: Cache_CacheDir_def os_UserCacheDir_def os_known_dir_def
        split: option.splits if_splits sum.splits)
  note name = validateComponent_plain [OF ok]
  have ca: "ca = unparts True (clean_parts ?b @ [name])"
    using assms ok b filepath_Join_plain [OF b name]
    by (simp add: Cache_CacheDir_def os_UserCacheDir_def os_known_dir_def)
  have "filepath_Join [ca, ''data''] = unparts True (clean_parts ?b @ [name, ''data''])"
    using Join_chain [OF assms(2), of "[name]" "[''data'']"] name by (simp add: ca plain_def)
  then show ?thesis
    using b ok name assms(2) filepath_Join_plain2 [OF b name, of "''data''"]
    by (simp add: Data_DataDir_def dataDirFor_def Let_def plain_def)
qed

section \<open>Creating the directories\<close>

text \<open>What an \<open>Ensured\<close> variant promises, given what the plain one resolves.\<close>

definition ensured :: "string result \<Rightarrow> fs \<Rightarrow> fs \<times> string result \<Rightarrow> bool" where
  "ensured plain_r w out \<longleftrightarrow>
     (case out of (w', r) \<Rightarrow>
        (case plain_r of
           Inl e \<Rightarrow> w' = w \<and> r = Inl e
         | Inr d \<Rightarrow> only_dirs_added 448 (set (ancestors d)) w w' \<and>
             (case r of
                Inr d' \<Rightarrow> d' = d \<and> is_dir w' d
              | Inl e \<Rightarrow> \<exists>ps e'. e = Wrapf ps e' [])))"



end
