(* ===== verification/ResourceCache.thy ===== *)
theory ResourceCache
  imports FsOps Env
begin

text \<open>
  The tier-1 cache of package \<open>cache\<close>: locations (\<open>locator.go\<close>), envelopes and their atomic writes
  (\<open>envelope.go\<close>) over the file system with faults, freshness (\<open>freshness.go\<close>). A time is its distance in
  nanoseconds from the zero time, the clock an argument; a duration is a 64-bit number of nanoseconds.
  The JSON encoding, which depends on the type of the data, is the parameter \<open>jcodec\<close>, and
  \<open>time.ParseDuration\<close>, whose fractions go through floating point, the parameter \<open>parseDuration\<close>.
\<close>

section \<open>locator.go\<close>

definition is_alnum :: "char \<Rightarrow> bool" where
  "is_alnum c \<longleftrightarrow> CHR ''A'' \<le> c \<and> c \<le> CHR ''Z'' \<or> CHR ''a'' \<le> c \<and> c \<le> CHR ''z'' \<or> CHR ''0'' \<le> c \<and> c \<le> CHR ''9''"

text \<open>The expression \<open>^[A-Za-z0-9][A-Za-z0-9._\-]*$\<close>.\<close>

fun safeComponent :: "string \<Rightarrow> bool" where
  "safeComponent [] = False"
| "safeComponent (c # cs) = (is_alnum c \<and> list_all (\<lambda>d. is_alnum d \<or> d \<in> {CHR ''.'', CHR ''_'', CHR ''-''}) cs)"

definition validComponent :: "string \<Rightarrow> bool" where
  "validComponent s \<longleftrightarrow> safeComponent s \<and> \<not> strings_Contains s ''..'' \<and> \<not> suffix ''.'' s"

record Locator =
  Root :: string
  InstanceKey :: string

definition resourceFile :: "Locator \<Rightarrow> string \<Rightarrow> string result" where
  "resourceFile l name =
     (if Root l = '''' \<or> \<not> filepath_IsAbs (Root l) then
        Inl (Wrapf [] (Sentinel ErrInvalidRoot) [Lit '': '', Quoted (Root l)])
      else if \<not> validComponent (InstanceKey l) then
        Inl (Wrapf [] (Sentinel ErrCacheInvalidName) [Lit '': instance key '', Quoted (InstanceKey l)])
      else if \<not> validComponent name then
        Inl (Wrapf [] (Sentinel ErrCacheInvalidName) [Lit '': resource name '', Quoted name])
      else Inr (filepath_Join [Root l, InstanceKey l, name @ ''.json'']))"

section \<open>envelope.go\<close>

type_synonym time = int

definition Version :: int where
  "Version = 1"

record 't Envelope =
  Resource :: string
  Instance :: string
  FetchedAt :: time
  TTL :: string
  ev_Version :: int
  ev_Data :: 't

record 't jcodec =
  json_MarshalIndent :: "'t Envelope \<Rightarrow> string result"
  json_UnmarshalEnv :: "string \<Rightarrow> 't Envelope result"

definition ReadResource :: "'t jcodec \<Rightarrow> fs \<Rightarrow> Locator \<Rightarrow> string \<Rightarrow> fs \<times> 't Envelope result" where
  "ReadResource jc w loc name =
     (case resourceFile loc name of
        Inl e \<Rightarrow> (w, Inl e)
      | Inr path \<Rightarrow>
          (case os_ReadFile w path of
             (w', Inl e) \<Rightarrow>
               (w', Inl (if os_IsNotExist e then Sentinel ErrCacheMiss
                         else Wrapf [Lit ''cache: reading resource file: ''] e []))
           | (w', Inr bytes) \<Rightarrow>
               (w', case json_UnmarshalEnv jc bytes of
                  Inl e \<Rightarrow> Inl (Wrapf [Lit ''cache: parsing resource file: ''] e [])
                | Inr env \<Rightarrow>
                    (if ev_Version env \<noteq> Version \<or> Resource env \<noteq> name \<or> Instance env \<noteq> InstanceKey loc then
                       Inl (Sentinel ErrCacheMiss)
                     else Inr env))))"

text \<open>A step that failed: the temporary file is removed, whatever comes of that.\<close>

definition discard :: "fs \<Rightarrow> string \<Rightarrow> string \<Rightarrow> err \<Rightarrow> fs \<times> err option" where
  "discard w tmpPath what e = (fst (os_Remove w tmpPath), Some (Wrapf [Lit what] e []))"

text \<open>From the temporary file on: write, close, mode, rename.\<close>

definition fill_and_rename :: "fs \<Rightarrow> string \<Rightarrow> string \<Rightarrow> string \<Rightarrow> fs \<times> err option" where
  "fill_and_rename w tmpPath jsonData path =
     (case file_Write w tmpPath jsonData of
        (w1, Some e) \<Rightarrow> discard (fst (file_Close w1)) tmpPath ''cache: writing temp file: '' e
      | (w1, None) \<Rightarrow>
          (case file_Close w1 of
             (w2, Some e) \<Rightarrow> discard w2 tmpPath ''cache: closing temp file: '' e
           | (w2, None) \<Rightarrow>
               (case os_Chmod w2 tmpPath 384 of
                  (w3, Some e) \<Rightarrow> discard w3 tmpPath ''cache: setting file mode: '' e
                | (w3, None) \<Rightarrow>
                    (case os_Rename w3 tmpPath path of
                       (w4, Some e) \<Rightarrow> discard w4 tmpPath ''cache: moving temp file to final path: '' e
                     | (w4, None) \<Rightarrow> (w4, None)))))"

definition atomicWriteEnvelope :: "'t jcodec \<Rightarrow> fs \<Rightarrow> Locator \<Rightarrow> string \<Rightarrow> 't Envelope \<Rightarrow> fs \<times> err option" where
  "atomicWriteEnvelope jc w loc name env =
     (case resourceFile loc name of
        Inl e \<Rightarrow> (w, Some e)
      | Inr path \<Rightarrow>
          (let dir = filepath_Dir path in
           case os_MkdirAll w dir 448 of
             (w1, Some e) \<Rightarrow> (w1, Some (Wrapf [Lit ''cache: creating cache directory: ''] e []))
           | (w1, None) \<Rightarrow>
               (case json_MarshalIndent jc env of
                  Inl e \<Rightarrow> (w1, Some (Wrapf [Lit ''cache: marshaling envelope: ''] e []))
                | Inr jsonData \<Rightarrow>
                    (case os_CreateTemp w1 dir (name @ ''-'') ''.json.tmp'' of
                       (w2, Inl e) \<Rightarrow> (w2, Some (Wrapf [Lit ''cache: creating temp file: ''] e []))
                     | (w2, Inr tmpPath) \<Rightarrow> fill_and_rename w2 tmpPath jsonData path))))"

definition WriteEnvelope :: "'t jcodec \<Rightarrow> fs \<Rightarrow> Locator \<Rightarrow> 't Envelope \<Rightarrow> fs \<times> err option" where
  "WriteEnvelope jc w loc env =
     (if Instance env \<noteq> InstanceKey loc then
        (w, Some (Wrapf [] (Sentinel ErrInstanceMismatch)
           [Lit '': envelope instance '', Quoted (Instance env), Lit '' != locator instance '', Quoted (InstanceKey loc)]))
      else atomicWriteEnvelope jc w loc (Resource env) env)"

definition WriteResource ::
  "'t jcodec \<Rightarrow> fs \<Rightarrow> time \<Rightarrow> Locator \<Rightarrow> string \<Rightarrow> string \<Rightarrow> 't \<Rightarrow> fs \<times> err option"
where
  "WriteResource jc w now loc name ttl data =
     WriteEnvelope jc w loc \<lparr>Resource = name, Instance = InstanceKey loc, FetchedAt = now, TTL = ttl,
       ev_Version = Version, ev_Data = data\<rparr>"

section \<open>freshness.go\<close>

type_synonym Status = int

definition StatusUninitialized :: Status where "StatusUninitialized = 0"
definition StatusFresh :: Status where "StatusFresh = 1"
definition StatusStale :: Status where "StatusStale = 2"
definition StatusManual :: Status where "StatusManual = 3"
definition StatusUnavailable :: Status where "StatusUnavailable = 4"

lemmas Status_defs =
  StatusUninitialized_def StatusFresh_def StatusStale_def StatusManual_def StatusUnavailable_def

definition Status_String :: "Status \<Rightarrow> string" where
  "Status_String s =
     (if s = StatusUninitialized then ''uninitialized''
      else if s = StatusFresh then ''fresh''
      else if s = StatusStale then ''stale''
      else if s = StatusManual then ''manual''
      else if s = StatusUnavailable then ''unavailable''
      else ''unknown'')"

definition ttlManual :: string where
  "ttlManual = ''manual''"

definition parseTTL :: "(string \<Rightarrow> int result) \<Rightarrow> string \<Rightarrow> (int \<times> bool) result" where
  "parseTTL parseDuration ttl =
     (if ttl = ttlManual then Inr (0, True)
      else
        (case parseDuration ttl of
           Inl e \<Rightarrow> Inl (Wrapf [Lit ''cache: parsing TTL '', Quoted ttl, Lit '': ''] e [])
         | Inr d \<Rightarrow> Inr (d, False)))"

text \<open>\<open>Time.Sub\<close> saturates at the bounds of a 64-bit duration.\<close>

definition maxDuration :: int where "maxDuration = 2 ^ 63 - 1"
definition minDuration :: int where "minDuration = - (2 ^ 63)"

definition time_Sub :: "time \<Rightarrow> time \<Rightarrow> int" where
  "time_Sub t u = max minDuration (min maxDuration (t - u))"

definition time_IsZero :: "time \<Rightarrow> bool" where
  "time_IsZero t = (t = 0)"

definition Classify :: "(string \<Rightarrow> int result) \<Rightarrow> time \<Rightarrow> string \<Rightarrow> time \<Rightarrow> Status" where
  "Classify parseDuration fetchedAt ttl now =
     (case parseTTL parseDuration ttl of
        Inl e \<Rightarrow> StatusStale
      | Inr (d, manual) \<Rightarrow>
          (if manual then StatusManual
           else if time_IsZero fetchedAt \<or> time_Sub now fetchedAt \<ge> d then StatusStale
           else StatusFresh))"

definition Second :: int where "Second = 1000000000"
definition Minute :: int where "Minute = 60 * Second"
definition Hour :: int where "Hour = 60 * Minute"

definition Age :: "time \<Rightarrow> time \<Rightarrow> string" where
  "Age fetchedAt now =
     (if time_IsZero fetchedAt then ''-''
      else
        (let d0 = time_Sub now fetchedAt; delta = (if d0 < 0 then 0 else d0) in
         if delta \<ge> 24 * Hour then show_nat (nat (delta div (24 * Hour))) @ ''d''
         else if delta \<ge> Hour then show_nat (nat (delta div Hour)) @ ''h''
         else if delta \<ge> Minute then show_nat (nat (delta div Minute)) @ ''m''
         else show_nat (nat (delta div Second)) @ ''s''))"

section \<open>Paths\<close>

lemma show_nat_digits: "c \<in> set (show_nat n) \<Longrightarrow> CHR ''0'' \<le> c \<and> c \<le> CHR ''9''"
proof (induction n rule: show_nat.induct)
  case (1 n)
  have digit: "CHR ''0'' \<le> char_of (48 + m) \<and> char_of (48 + m) \<le> CHR ''9''" if "m < 10" for m :: nat
    using that by (simp add: less_eq_char_def)
  show ?case
  proof (cases "n < 10")
    case True
    with 1 digit show ?thesis by (simp add: show_nat.simps [of n])
  next
    case False
    with 1 digit [of "n mod 10"] show ?thesis by (auto simp: show_nat.simps [of n])
  qed
qed

lemma safeComponent_chars:
  "safeComponent s \<Longrightarrow> s \<noteq> [] \<and> (\<forall>c \<in> set s. is_alnum c \<or> c \<in> {CHR ''.'', CHR ''_'', CHR ''-''})"
  by (cases s) (auto simp: list_all_iff)

lemma not_alnum: "\<not> is_alnum (CHR ''/'')" "\<not> is_alnum (CHR ''.'')"
  by (simp_all add: is_alnum_def less_eq_char_def)

lemma validComponent_no_slash: "validComponent s \<Longrightarrow> CHR ''/'' \<notin> set s"
  using safeComponent_chars not_alnum by (fastforce simp: validComponent_def)

lemma validComponent_plain:
  assumes "validComponent s"
  shows "plain s" "plain (s @ ''.json'')" "plain ((s @ ''-'') @ show_nat k @ ''.json.tmp'')"
proof -
  have s: "safeComponent s" "CHR ''/'' \<notin> set s"
    using assms validComponent_no_slash by (auto simp: validComponent_def)
  have "hd s \<noteq> CHR ''.''" "s \<noteq> []"
    using s(1) not_alnum by (cases s; auto)+
  then show "plain s" "plain (s @ ''.json'')"
    using s(2) by (auto simp: plain_def)
  have "CHR ''/'' \<notin> set (show_nat k)"
    using show_nat_digits [of "CHR ''/''" k] by (auto simp: less_eq_char_def)
  then show "plain ((s @ ''-'') @ show_nat k @ ''.json.tmp'')"
    using s(2) \<open>s \<noteq> []\<close> by (auto simp: plain_def)
qed

text \<open>The directory of an instance, and the file of a resource in it.\<close>

definition instance_dir :: "Locator \<Rightarrow> string" where
  "instance_dir l = filepath_Join [Root l, InstanceKey l]"

lemma resourceFile_Inr:
  assumes "resourceFile l name = Inr path"
  shows "filepath_IsAbs (Root l)" "validComponent (InstanceKey l)" "validComponent name"
    "filepath_IsAbs (instance_dir l)" "path = filepath_Join [instance_dir l, name @ ''.json'']"
    "filepath_Dir path = instance_dir l"
    "path = unparts True (clean_parts (Root l) @ [InstanceKey l, name @ ''.json''])"
proof -
  show abs: "filepath_IsAbs (Root l)" and k: "validComponent (InstanceKey l)" and n: "validComponent name"
    using assms by (auto simp: resourceFile_def split: if_splits)
  have ne: "Root l \<noteq> []" using abs by (auto simp: filepath_IsAbs_def)
  note pk = validComponent_plain(1) [OF k] and pn = validComponent_plain(2) [OF n]
  have path: "path = filepath_Join [Root l, InstanceKey l, name @ ''.json'']"
    using assms by (auto simp: resourceFile_def split: if_splits)
  then show u: "path = unparts True (clean_parts (Root l) @ [InstanceKey l, name @ ''.json''])"
    using filepath_Join_plain2 [OF ne pk pn] abs by simp
  have st: "clean_stack True (clean_parts (Root l) @ [InstanceKey l])"
    using clean_parts_stack [of "Root l"] abs pk by (auto simp: clean_stack_def)
  have d: "instance_dir l = unparts True (clean_parts (Root l) @ [InstanceKey l])"
    using filepath_Join_plain [OF ne pk] abs by (simp add: instance_dir_def)
  show absd: "filepath_IsAbs (instance_dir l)"
    using d by (simp add: unparts_def filepath_IsAbs_def)
  have cp: "clean_parts (instance_dir l) = clean_parts (Root l) @ [InstanceKey l]"
    using clean_parts_unparts [OF st] d by simp
  have "instance_dir l \<noteq> []" using absd by (auto simp: filepath_IsAbs_def)
  then show p: "path = filepath_Join [instance_dir l, name @ ''.json'']"
    using filepath_Join_plain [OF _ pn] absd cp u by simp
  show "filepath_Dir path = instance_dir l"
    using filepath_Dir_Join [OF absd pn] p cp d absd by (simp add: filepath_Clean_def)
qed

lemma resourceFile_inj:
  assumes "resourceFile l1 n1 = Inr p" "resourceFile l2 n2 = Inr p" "Root l1 = Root l2"
  shows "InstanceKey l1 = InstanceKey l2 \<and> n1 = n2"
proof -
  have cp: "clean_parts (unparts True (clean_parts (Root l) @ [InstanceKey l, n @ ''.json''])) =
      clean_parts (Root l) @ [InstanceKey l, n @ ''.json'']" if "resourceFile l n = Inr p'" for l n p'
  proof -
    have "clean_stack True (clean_parts (Root l) @ [InstanceKey l, n @ ''.json''])"
      using clean_parts_stack [of "Root l"] resourceFile_Inr(1-3) [OF that] validComponent_plain(1,2)
      by (auto simp: clean_stack_def)
    from clean_parts_unparts [OF this] show ?thesis by simp
  qed
  have "clean_parts (Root l1) @ [InstanceKey l1, n1 @ ''.json''] = clean_parts (Root l2) @ [InstanceKey l2, n2 @ ''.json'']"
    using cp [OF assms(1)] cp [OF assms(2)] resourceFile_Inr(7) [OF assms(1)] resourceFile_Inr(7) [OF assms(2)] by simp
  with assms(3) show ?thesis by simp
qed

text \<open>A temporary file is never taken for a resource.\<close>

lemma temp_not_resource: "(s @ ''-'') @ show_nat k @ ''.json.tmp'' \<noteq> n @ ''.json''"
proof
  assume "(s @ ''-'') @ show_nat k @ ''.json.tmp'' = n @ ''.json''"
  then have "last ((s @ ''-'') @ show_nat k @ ''.json.tmp'') = last (n @ ''.json'')" by simp
  then show False by simp
qed

section \<open>The write\<close>

lemma discard_laws:
  assumes "discard w p what e = (w', r)" "proper p"
  shows "only_at {p} w w'" "r \<noteq> None"
  using assms os_Remove_only(1) [of w p] by (cases "os_Remove w p"; auto simp: discard_def)+

text \<open>
  Filling and renaming a fresh temporary file: the target is as before, or it is the new content whole
  with mode 0600 and the temporary file is gone.
\<close>

lemma fill_and_rename_laws:
  assumes "fill_and_rename w t json p = (w', r)" "proper t" "proper p" "filepath_Clean t \<noteq> filepath_Clean p"
    "node_at w t = Some (File m '''')"
  shows "only_at {t, p} w w' \<and>
    (case r of
       None \<Rightarrow> node_at w' p = Some (File 384 json) \<and> node_at w' t = None
     | Some e \<Rightarrow> node_at w' p = node_at w p)"
proof -
  obtain w1 r1 where 1: "file_Write w t json = (w1, r1)" by (cases "file_Write w t json")
  obtain w2 r2 where 2: "file_Close w1 = (w2, r2)" by (cases "file_Close w1")
  obtain w3 r3 where 3: "os_Chmod w2 t 384 = (w3, r3)" by (cases "os_Chmod w2 t 384")
  obtain w4 r4 where 4: "os_Rename w3 t p = (w4, r4)" by (cases "os_Rename w3 t p")
  note W = file_Write_laws [OF 1 assms(2)] and C = file_Close_laws [OF 2]
    and M = os_Chmod_laws [OF 3 assms(2)] and R = os_Rename_laws [OF 4 assms(2,3,4)]
  have o1: "only_at {t} w w1" using W(1) .
  have o2: "only_at {t} w w2" using only_at_trans [OF o1] C by auto
  have o3: "only_at {t} w w3" using only_at_trans [OF o2 M(1)] .
  have give_up: "only_at {t, p} w w' \<and> node_at w' p = node_at w p \<and> r \<noteq> None"
    if "only_at {t} w v" "discard v t what e = (w', r)" for v what e
  proof -
    have "only_at {t} w w'" using only_at_trans [OF that(1) discard_laws(1) [OF that(2) assms(2)]] .
    with discard_laws(2) [OF that(2) assms(2)] assms(4) only_at_mono [of "{t}" w w' "{t, p}"] show ?thesis
      by (auto simp: only_at_def)
  qed
  show ?thesis
  proof (cases "r1 = None \<and> r2 = None \<and> r3 = None \<and> r4 = None")
    case True
    then have out: "w' = w4" "r = None"
      using assms(1) 1 2 3 4 by (simp_all add: fill_and_rename_def)
    have "node_at w1 t = Some (File m json)" using W(2) [of m "''''"] True assms(5) by simp
    then have "node_at w3 t = Some (File 384 json)" using M(2) [of m json] True C by simp
    moreover have "only_at {t, p} w w4"
      using only_at_trans [OF only_at_mono [OF o3] R(1)] by blast
    ultimately show ?thesis using R(3) True out by simp
  next
    case False
    then obtain v what e where "only_at {t} w v" "discard v t what e = (w', r)"
    proof (cases r1)
      case (Some e)
      with assms(1) 1 2 o2 that show ?thesis by (auto simp: fill_and_rename_def)
    next
      case r1: None
      show ?thesis
      proof (cases r2)
        case (Some e)
        with r1 assms(1) 1 2 o2 that show ?thesis by (auto simp: fill_and_rename_def)
      next
        case r2: None
        show ?thesis
        proof (cases r3)
          case (Some e)
          with r1 r2 assms(1) 1 2 3 o3 that show ?thesis by (auto simp: fill_and_rename_def)
        next
          case None
          with False r1 r2 obtain e where e: "r4 = Some e" by auto
          then have "w4 = step w3" using R(2) by simp
          then have "only_at {t} w w4" using only_at_trans [OF o3] by blast
          with None e r1 r2 assms(1) 1 2 3 4 that show ?thesis by (auto simp: fill_and_rename_def)
        qed
      qed
    qed
    from give_up [OF this] show ?thesis by (cases r) auto
  qed
qed

text \<open>What a write leaves elsewhere: new directories, and at worst the temporary file.\<close>

definition elsewhere :: "string \<Rightarrow> string \<Rightarrow> string \<Rightarrow> fs \<Rightarrow> fs \<Rightarrow> bool" where
  "elsewhere D name p w w' \<longleftrightarrow>
     (\<forall>q. filepath_Clean q \<noteq> filepath_Clean p \<longrightarrow>
        node_at w' q = node_at w q \<or>
        node_at w q = None \<and>
          (node_at w' q = Some (Dir 448) \<and> filepath_Clean q \<in> set (ancestors D) \<or>
           (\<exists>k. filepath_Clean q = filepath_Join [D, (name @ ''-'') @ show_nat k @ ''.json.tmp''])))"

lemma atomicWrite_laws:
  assumes "atomicWriteEnvelope jc w loc name env = (w', r)" "resourceFile loc name = Inr p"
  shows "elsewhere (instance_dir loc) name p w w'"
    "case r of
       None \<Rightarrow> (\<exists>json. json_MarshalIndent jc env = Inr json \<and> node_at w' p = Some (File 384 json)) \<and>
         only_dirs_added 448 (set (ancestors (instance_dir loc))) (put_node p (File 384 '''') w) (put_node p (File 384 '''') w')
     | Some e \<Rightarrow> node_at w' p = node_at w p"
proof -
  let ?D = "instance_dir loc"
  note P = resourceFile_Inr [OF assms(2)]
  note pn = validComponent_plain [OF P(3)]
  have prp: "proper p" using Join_proper [OF P(4) pn(2)] P(5) by simp
  have clp: "filepath_Clean p = p" using filepath_Join_clean(1) [OF P(4) pn(2)] P(5) by simp
  obtain w1 r1 where 1: "os_MkdirAll w ?D 448 = (w1, r1)" by (cases "os_MkdirAll w ?D 448")
  have dirs: "only_dirs_added 448 (set (ancestors ?D)) w w1" using os_MkdirAll_laws(1) [OF 1 P(4)] .
  have "below ?D w1 = below ?D w" using os_MkdirAll_below [OF P(4), of w 448] 1 by simp
  then have p1: "node_at w1 p = node_at w p"
    using node_at_below [OF P(4) pn(2)] P(5) by simp
  have quiet: "elsewhere ?D name p w v \<and> node_at v p = node_at w p" if "only_at {} w1 v" for v
    using that dirs p1 by (auto simp: elsewhere_def only_at_def only_dirs_added_def)
  have all: "elsewhere ?D name p w w' \<and>
    (case r of
       None \<Rightarrow> (\<exists>json. json_MarshalIndent jc env = Inr json \<and> node_at w' p = Some (File 384 json)) \<and>
         only_dirs_added 448 (set (ancestors (instance_dir loc))) (put_node p (File 384 '''') w) (put_node p (File 384 '''') w')
     | Some e \<Rightarrow> node_at w' p = node_at w p)"
  proof (cases "r1 = None \<and> \<not> isl (json_MarshalIndent jc env)")
    case False
    then have "w' = w1" "r \<noteq> None"
      using assms 1 P(6) by (auto simp: atomicWriteEnvelope_def Let_def split: option.splits sum.splits)
    with quiet [of w1] show ?thesis by auto
  next
    case True
    then obtain json where json: "json_MarshalIndent jc env = Inr json"
      by (cases "json_MarshalIndent jc env") auto
    obtain w2 t where 2: "os_CreateTemp w1 ?D (name @ ''-'') ''.json.tmp'' = (w2, t)"
      by (cases "os_CreateTemp w1 ?D (name @ ''-'') ''.json.tmp''")
    note T = os_CreateTemp_laws [OF 2 P(4) pn(3)]
    show ?thesis
    proof (cases t)
      case (Inl e)
      with True json 1 2 assms P(6) have "w' = w2" "r \<noteq> None"
        by (auto simp: atomicWriteEnvelope_def)
      with quiet [of w2] T Inl show ?thesis by auto
    next
      case (Inr tp)
      with True json 1 2 assms P(6) have fr: "fill_and_rename w2 tp json p = (w', r)"
        by (simp add: atomicWriteEnvelope_def)
      from T Inr obtain k where k: "tp = filepath_Join [?D, (name @ ''-'') @ show_nat k @ ''.json.tmp'']"
        "node_at w1 tp = None" "only_at {tp} w1 w2" "node_at w2 tp = Some (File 384 '''')" by auto
      have prt: "proper tp" and clt: "filepath_Clean tp = tp"
        using Join_proper [OF P(4) pn(3)] filepath_Join_clean(1) [OF P(4) pn(3)] k(1) by simp_all
      have "?D \<noteq> []" using P(4) by (auto simp: filepath_IsAbs_def)
      then have ne: "tp \<noteq> p"
        using filepath_Join_plain_inj [OF _ pn(3) pn(2)] temp_not_resource k(1) P(5) by metis
      note F = fill_and_rename_laws [OF fr prt prp _ k(4)]
      have o: "only_at {tp, p} w1 w'"
        using only_at_trans [OF only_at_mono [OF k(3)]] F ne clt clp by (metis insert_is_Un sup_ge1)
      have e: "elsewhere ?D name p w w'"
        unfolding elsewhere_def
      proof (intro allI impI)
        fix q assume q: "filepath_Clean q \<noteq> filepath_Clean p"
        show "node_at w' q = node_at w q \<or> node_at w q = None \<and>
            (node_at w' q = Some (Dir 448) \<and> filepath_Clean q \<in> set (ancestors ?D) \<or>
             (\<exists>k. filepath_Clean q = filepath_Join [?D, (name @ ''-'') @ show_nat k @ ''.json.tmp'']))"
        proof (cases "filepath_Clean q = tp")
          case True
          then have "node_at w q = None"
            using k(2) dirs node_at_cong [of q tp] clt unfolding only_dirs_added_def by (metis option.distinct(1))
          with True k(1) show ?thesis by auto
        next
          case False
          with q o clt clp have "node_at w' q = node_at w1 q" by (auto simp: only_at_def)
          with dirs show ?thesis by (auto simp: only_dirs_added_def)
        qed
      qed
      show ?thesis
      proof (cases r)
        case (Some x)
        have "node_at w2 p = node_at w1 p"
          using k(3) ne clt clp by (auto simp: only_at_def)
        with F Some ne clt clp p1 e show ?thesis by auto
      next
        case None
        have "node_at w' q = node_at w1 q" if "filepath_Clean q \<noteq> p" for q
        proof (cases "filepath_Clean q = tp")
          case True
          with F None ne clt clp k(2) show ?thesis using node_at_cong [of q tp] by auto
        next
          case False
          with that o clt clp show ?thesis by (auto simp: only_at_def)
        qed
        with dirs prp clp have "only_dirs_added 448 (set (ancestors (instance_dir loc))) (put_node p (File 384 '''') w) (put_node p (File 384 '''') w')"
          by (auto simp: only_dirs_added_def)
        with F None ne clt clp json e show ?thesis by auto
      qed
    qed
  qed
  then show "elsewhere ?D name p w w'" by blast
  from all show "case r of
       None \<Rightarrow> (\<exists>json. json_MarshalIndent jc env = Inr json \<and> node_at w' p = Some (File 384 json)) \<and>
         only_dirs_added 448 (set (ancestors (instance_dir loc))) (put_node p (File 384 '''') w) (put_node p (File 384 '''') w')
     | Some e \<Rightarrow> node_at w' p = node_at w p" by blast
qed

end
