(* ===== verification/CacheProps.thy ===== *)
theory CacheProps
  imports ResourceCache
begin

text \<open>
  What callers of package \<open>cache\<close> rely on: locations are confined and distinct, a write is atomic under
  any faults or a crash, a read returns what the last write of that resource stored and nothing else,
  and the freshness verdict is the comparison of instants it stands for.
\<close>

section \<open>Paths of resources\<close>

lemma resourceFile_parts:
  assumes "resourceFile l n = Inr p"
  shows "clean_parts p = clean_parts (Root l) @ [InstanceKey l, n @ ''.json'']" "filepath_IsAbs p"
    "filepath_Clean p = p"
proof -
  note P = resourceFile_Inr [OF assms]
  have st: "clean_stack True (clean_parts (Root l) @ [InstanceKey l, n @ ''.json''])"
    using clean_parts_stack [of "Root l"] P(1-3) validComponent_plain(1,2)
    by (auto simp: clean_stack_def)
  from clean_parts_unparts [OF st] P(7)
  show "clean_parts p = clean_parts (Root l) @ [InstanceKey l, n @ ''.json'']" by simp
  show "filepath_IsAbs p" using P(7) by (simp add: unparts_def filepath_IsAbs_def)
  show "filepath_Clean p = p"
    using filepath_Join_clean(1) [OF P(4) validComponent_plain(2) [OF P(3)]] P(5) by simp
qed

lemma instance_dir_parts:
  assumes "resourceFile l n = Inr p"
  shows "clean_parts (instance_dir l) = clean_parts (Root l) @ [InstanceKey l]"
proof -
  note P = resourceFile_Inr [OF assms]
  have ne: "instance_dir l \<noteq> []" using P(4) by (auto simp: filepath_IsAbs_def)
  have "clean_parts p = clean_parts (instance_dir l) @ [n @ ''.json'']"
  proof -
    have "clean_stack True (clean_parts (instance_dir l) @ [n @ ''.json''])"
      using clean_parts_stack [of "instance_dir l"] P(4) validComponent_plain(2) [OF P(3)]
      by (auto simp: clean_stack_def)
    from clean_parts_unparts [OF this] show ?thesis
      using filepath_Join_plain [OF ne validComponent_plain(2) [OF P(3)]] P(4,5) by simp
  qed
  with resourceFile_parts(1) [OF assms] show ?thesis by simp
qed

lemma temp_parts:
  assumes "resourceFile l n = Inr p"
  shows "clean_parts (filepath_Join [instance_dir l, (n @ ''-'') @ show_nat k @ ''.json.tmp'']) =
    clean_parts (Root l) @ [InstanceKey l, (n @ ''-'') @ show_nat k @ ''.json.tmp'']"
proof -
  note P = resourceFile_Inr [OF assms] and D = instance_dir_parts [OF assms]
  let ?t = "(n @ ''-'') @ show_nat k @ ''.json.tmp''"
  have ne: "instance_dir l \<noteq> []" using P(4) by (auto simp: filepath_IsAbs_def)
  have "clean_stack True (clean_parts (instance_dir l) @ [?t])"
    using clean_parts_stack [of "instance_dir l"] P(4) validComponent_plain(3) [OF P(3)]
    by (auto simp: clean_stack_def)
  from clean_parts_unparts [OF this] show ?thesis
    using filepath_Join_plain [OF ne validComponent_plain(3) [OF P(3), of k]] P(4) D by simp
qed

text \<open>A write leaves the file of every other resource below the same root alone.\<close>

lemma elsewhere_other:
  assumes "elsewhere (instance_dir loc) name p w w'" "resourceFile loc name = Inr p"
    "resourceFile loc' name' = Inr p'" "Root loc' = Root loc" "(InstanceKey loc', name') \<noteq> (InstanceKey loc, name)"
  shows "node_at w' p' = node_at w p'"
proof -
  note p = resourceFile_parts [OF assms(2)] and p' = resourceFile_parts [OF assms(3)]
  have ne: "filepath_Clean p' \<noteq> filepath_Clean p"
    using p p' assms(4,5) by auto
  have "filepath_Clean p' \<notin> set (ancestors (instance_dir loc))"
    using ancestors_parts [OF resourceFile_Inr(4) [OF assms(2)], of p'] p' instance_dir_parts [OF assms(2)] assms(4)
    by auto
  moreover have "filepath_Clean p' \<noteq> filepath_Join [instance_dir loc, (name @ ''-'') @ show_nat k @ ''.json.tmp'']" for k
  proof
    assume "filepath_Clean p' = filepath_Join [instance_dir loc, (name @ ''-'') @ show_nat k @ ''.json.tmp'']"
    then have "clean_parts p' = clean_parts (Root loc) @ [InstanceKey loc, (name @ ''-'') @ show_nat k @ ''.json.tmp'']"
      using temp_parts [OF assms(2), of k] p'(3) by (simp only:)
    then have "(name @ ''-'') @ show_nat k @ ''.json.tmp'' = name' @ ''.json''"
      using p'(1) assms(4) by (simp only: append_same_eq same_append_eq list.inject)
    then show False by (simp only: temp_not_resource)
  qed
  ultimately show ?thesis
    using assms(1) ne unfolding elsewhere_def by blast
qed

section \<open>A concrete cache\<close>

text \<open>An encoder of one envelope, for the witnesses: its JSON text and back.\<close>

definition demo_env :: "string Envelope" where
  "demo_env = \<lparr>Resource = ''users'', Instance = ''acme'', FetchedAt = 5, TTL = ''8h'', ev_Version = 1, ev_Data = ''[1,2]''\<rparr>"

definition demo_json :: string where
  "demo_json = ''{\"resource\": \"users\", \"data\": [1,2]}''"

definition demo_codec :: "string jcodec" where
  "demo_codec = \<lparr>json_MarshalIndent = (\<lambda>e. if e = demo_env then Inr demo_json else Inl (OtherError ''unsupported'')),
     json_UnmarshalEnv = (\<lambda>s. if s = demo_json then Inr demo_env else Inl (OtherError ''syntax error''))\<rparr>"

definition demo_fs :: "nat \<Rightarrow> fs" where
  "demo_fs n = \<lparr>nodes = [(''/var'', Dir 493)], tick = 0,
     fault = (\<lambda>t. if t \<ge> n then Some (''input/output error'', Some 3) else None), rand = (\<lambda>t. t)\<rparr>"

definition demo_loc :: Locator where
  "demo_loc = \<lparr>Root = ''/var/cache'', InstanceKey = ''acme''\<rparr>"

section \<open>The write\<close>

text \<open>
  C15. A cache write is atomic, whatever calls fail and wherever the process dies: a refused location or a
  foreign instance leaves the file system as it was; otherwise the resource's file holds the whole new
  encoding with mode 0600 exactly when the write reports success, and is untouched when it reports an
  error. A success adds nothing else but missing directories of the instance, with mode 0700; a failure adds
  besides at most a temporary file of that resource, which no read takes for an envelope. Nothing else changes.
\<close>

theorem cache_write_atomic:
  assumes "WriteEnvelope jc w loc env = (w', r)"
  shows "case resourceFile loc (Resource env) of
      Inl e \<Rightarrow> w' = w \<and> r \<noteq> None
    | Inr p \<Rightarrow>
        (if Instance env \<noteq> InstanceKey loc then w' = w \<and> r \<noteq> None
         else if r = None then
           (\<exists>json. json_MarshalIndent jc env = Inr json \<and> node_at w' p = Some (File 384 json)) \<and>
           (\<forall>q. filepath_Clean q \<noteq> filepath_Clean p \<longrightarrow>
              node_at w' q = node_at w q \<or>
              node_at w q = None \<and> node_at w' q = Some (Dir 448) \<and>
                filepath_Clean q \<in> set (ancestors (instance_dir loc)))
         else node_at w' p = node_at w p \<and> elsewhere (instance_dir loc) (Resource env) p w w')"
proof (cases "resourceFile loc (Resource env)")
  case (Inl e)
  with assms show ?thesis by (auto simp: WriteEnvelope_def atomicWriteEnvelope_def split: if_splits)
next
  case (Inr p)
  show ?thesis
  proof (cases "Instance env = InstanceKey loc")
    case True
    with assms have a: "atomicWriteEnvelope jc w loc (Resource env) env = (w', r)"
      by (simp add: WriteEnvelope_def)
    note laws = atomicWrite_laws [OF a Inr]
    have other: "node_at w' q = node_at w q \<or> node_at w q = None \<and> node_at w' q = Some (Dir 448) \<and>
        filepath_Clean q \<in> set (ancestors (instance_dir loc))"
      if "r = None" "filepath_Clean q \<noteq> filepath_Clean p" for q
    proof -
      have "proper p" using resourceFile_Inr [OF Inr] Join_proper validComponent_plain(2) by metis
      moreover have "only_dirs_added 448 (set (ancestors (instance_dir loc)))
          (put_node p (File 384 '''') w) (put_node p (File 384 '''') w')"
        using laws(2) that(1) by simp
      ultimately show ?thesis
        using that(2) unfolding only_dirs_added_def by (auto dest: spec [of _ q])
    qed
    from True Inr laws other show ?thesis by (cases r) auto
  next
    case False
    with assms Inr show ?thesis by (auto simp: WriteEnvelope_def)
  qed
qed

lemma demo_cut: "snd (WriteEnvelope demo_codec (demo_fs 7) demo_loc demo_env) \<noteq> None"
proof -
  have "Option.is_none (snd (WriteEnvelope demo_codec (demo_fs 7) demo_loc demo_env)) = False" by code_simp
  then show ?thesis by (auto simp: Option.is_none_def)
qed

theorem cache_write_atomic_witness:
  "case resourceFile demo_loc ''users'' of
      Inl e \<Rightarrow> False
    | Inr p \<Rightarrow>
        node_at (fst (WriteEnvelope demo_codec (demo_fs 100) demo_loc demo_env)) p = Some (File 384 demo_json) \<and>
        node_at (fst (WriteEnvelope demo_codec (demo_fs 7) demo_loc demo_env)) p = node_at (demo_fs 7) p"
proof -
  have facts: "\<not> isl (resourceFile demo_loc ''users'')" "Resource demo_env = ''users''" "Instance demo_env = InstanceKey demo_loc"
    "json_MarshalIndent demo_codec demo_env = Inr demo_json" by code_simp+
  have "snd (WriteEnvelope demo_codec (demo_fs 100) demo_loc demo_env) = None" by code_simp
  then have ok: "WriteEnvelope demo_codec (demo_fs 100) demo_loc demo_env =
      (fst (WriteEnvelope demo_codec (demo_fs 100) demo_loc demo_env), None)"
    by (simp add: prod_eq_iff)
  obtain e where "snd (WriteEnvelope demo_codec (demo_fs 7) demo_loc demo_env) = Some e"
    using demo_cut by auto
  then have cut: "WriteEnvelope demo_codec (demo_fs 7) demo_loc demo_env =
      (fst (WriteEnvelope demo_codec (demo_fs 7) demo_loc demo_env), Some e)"
    by (simp add: prod_eq_iff)
  show ?thesis
    using cache_write_atomic [OF ok] cache_write_atomic [OF cut] facts
    by (cases "resourceFile demo_loc ''users''") (auto simp: isl_def)
qed

section \<open>The read\<close>

lemma ReadResource_snd:
  assumes "fault_now w = None"
  shows "snd (ReadResource jc w loc name) =
    (case resourceFile loc name of
       Inl e \<Rightarrow> Inl e
     | Inr p \<Rightarrow>
         (case node_at w p of
            None \<Rightarrow> Inl (Sentinel ErrCacheMiss)
          | Some (Dir _) \<Rightarrow> Inl (Wrapf [Lit ''cache: reading resource file: ''] (OtherError ''is a directory'') [])
          | Some (File _ bytes) \<Rightarrow>
              (case json_UnmarshalEnv jc bytes of
                 Inl e \<Rightarrow> Inl (Wrapf [Lit ''cache: parsing resource file: ''] e [])
               | Inr env \<Rightarrow>
                   (if ev_Version env = Version \<and> Resource env = name \<and> Instance env = InstanceKey loc
                    then Inr env else Inl (Sentinel ErrCacheMiss)))))"
  using assms
  by (simp add: ReadResource_def os_ReadFile_def syscall_def os_IsNotExist_def split: sum.split option.split node.split)

text \<open>
  C16. The cache of one root is a map from instance and resource to envelopes: after \<open>WriteEnvelope\<close> a read of
  the written resource yields the envelope when the write succeeded (the encoding of this envelope being
  read back by the decoder), and a miss instead when its schema version is not the current one; a read of any
  other resource or instance, and any read after a failed write, yields what it did before.
\<close>

theorem cache_read_after_write:
  assumes "WriteEnvelope jc w loc env = (w', r)"
    and json: "\<And>s. json_MarshalIndent jc env = Inr s \<Longrightarrow> json_UnmarshalEnv jc s = Inr env"
    and "fault_now w = None" "fault_now w' = None" "Root loc' = Root loc"
  shows "snd (ReadResource jc w' loc' name) =
    (if r = None \<and> InstanceKey loc' = InstanceKey loc \<and> name = Resource env then
       (if ev_Version env = Version then Inr env else Inl (Sentinel ErrCacheMiss))
     else snd (ReadResource jc w loc' name))"
proof -
  have same: "snd (ReadResource jc w' loc' name) = snd (ReadResource jc w loc' name)"
    if "\<And>p. resourceFile loc' name = Inr p \<Longrightarrow> node_at w' p = node_at w p"
    using that assms(3,4) by (simp add: ReadResource_snd split: sum.split)
  show ?thesis
  proof (cases "w' = w \<and> r \<noteq> None")
    case True
    with same show ?thesis by auto
  next
    case False
    then obtain p where p: "resourceFile loc (Resource env) = Inr p" and key: "Instance env = InstanceKey loc"
      and a: "atomicWriteEnvelope jc w loc (Resource env) env = (w', r)"
      using assms(1) by (auto simp: WriteEnvelope_def atomicWriteEnvelope_def split: if_splits sum.splits)
    note laws = atomicWrite_laws [OF a p]
    show ?thesis
    proof (cases "InstanceKey loc' = InstanceKey loc \<and> name = Resource env")
      case True
      with assms(5) have loc: "loc' = loc" "name = Resource env" by simp_all
      show ?thesis
      proof (cases r)
        case None
        with laws(2) obtain s where "json_MarshalIndent jc env = Inr s" "node_at w' p = Some (File 384 s)" by auto
        with None loc p key json assms(4) show ?thesis by (simp add: ReadResource_snd)
      next
        case (Some e)
        with laws(2) loc p same show ?thesis by auto
      qed
    next
      case False
      with same elsewhere_other [OF laws(1) p _ assms(5)] show ?thesis by auto
    qed
  qed
qed

theorem cache_read_after_write_witness:
  "snd (ReadResource demo_codec (fst (WriteEnvelope demo_codec (demo_fs 100) demo_loc demo_env)) demo_loc ''users'') = Inr demo_env"
proof -
  let ?w = "fst (WriteEnvelope demo_codec (demo_fs 100) demo_loc demo_env)"
  have "snd (WriteEnvelope demo_codec (demo_fs 100) demo_loc demo_env) = None" by code_simp
  then have ok: "WriteEnvelope demo_codec (demo_fs 100) demo_loc demo_env = (?w, None)"
    by (simp add: prod_eq_iff)
  have quiet: "fault_now (demo_fs 100) = None" "fault_now ?w = None" by code_simp+
  have json: "json_UnmarshalEnv demo_codec s = Inr demo_env" if "json_MarshalIndent demo_codec demo_env = Inr s" for s
    using that by (simp add: demo_codec_def)
  have facts: "Resource demo_env = ''users''" "ev_Version demo_env = Version" by code_simp+
  show ?thesis
    using cache_read_after_write [OF ok json quiet refl, of "''users''"] facts by simp
qed

text \<open>
  C35. What a read returns, exactly: an envelope only if the file's bytes decode to it and its version, resource
  and instance are those asked for; a miss exactly when there is no file or its envelope is another one;
  otherwise an error, and an unsafe location is refused before any call. The file system is never changed.
\<close>

theorem ReadResource_exact:
  "(snd (ReadResource jc w loc name) = Inr env \<longleftrightarrow>
      fault_now w = None \<and> (\<exists>p m bytes. resourceFile loc name = Inr p \<and> node_at w p = Some (File m bytes) \<and>
        json_UnmarshalEnv jc bytes = Inr env \<and>
        (ev_Version env, Resource env, Instance env) = (Version, name, InstanceKey loc))) \<and>
   (snd (ReadResource jc w loc name) = Inl (Sentinel ErrCacheMiss) \<longleftrightarrow>
      fault_now w = None \<and> (\<exists>p. resourceFile loc name = Inr p \<and>
        (node_at w p = None \<or>
         (\<exists>m bytes other. node_at w p = Some (File m bytes) \<and> json_UnmarshalEnv jc bytes = Inr other \<and>
            (ev_Version other, Resource other, Instance other) \<notin> {(Version, name, InstanceKey loc)})))) \<and>
   fst (ReadResource jc w loc name) = (if isl (resourceFile loc name) then w else step w)"
proof (cases "resourceFile loc name")
  case (Inl e)
  then have "e \<noteq> Sentinel ErrCacheMiss"
    by (auto simp: resourceFile_def split: if_splits)
  with Inl show ?thesis by (auto simp: ReadResource_def)
next
  case (Inr p)
  show ?thesis
  proof (cases "fault_now w")
    case None
    with Inr show ?thesis
      by (auto simp: ReadResource_snd split: option.splits node.splits sum.splits if_splits)
        (auto simp: ReadResource_def os_ReadFile_def syscall_def split: option.splits node.splits sum.splits)
  next
    case (Some f)
    with Inr show ?thesis
      by (cases f) (auto simp: ReadResource_def os_ReadFile_def syscall_def os_IsNotExist_def)
  qed
qed

text \<open>
  C39. Locations: a path is composed exactly for a non-empty absolute root and two safe names, and it lies
  below the root, two names deeper, in cleaned form, so that a resource determines its path and the path its
  resource; any other input is refused with the error of the first part at fault, the root before the
  instance before the name.
\<close>

theorem resourceFile_confined:
  "(case resourceFile l name of
      Inr p \<Rightarrow> filepath_IsAbs (Root l) \<and> validComponent (InstanceKey l) \<and> validComponent name \<and>
        filepath_IsAbs p \<and> filepath_Clean p = p \<and>
        clean_parts p = clean_parts (Root l) @ [InstanceKey l, name @ ''.json''] \<and>
        list_all (\<lambda>s. s \<notin> {'''', ''.'', ''..''} \<and> CHR ''/'' \<notin> set s) [InstanceKey l, name @ ''.json'']
    | Inl e \<Rightarrow>
        errors_Is e (if filepath_IsAbs (Root l) then ErrCacheInvalidName else ErrInvalidRoot) \<and>
        \<not> errors_Is e (if filepath_IsAbs (Root l) then ErrInvalidRoot else ErrCacheInvalidName) \<and>
        \<not> (filepath_IsAbs (Root l) \<and> validComponent (InstanceKey l) \<and> validComponent name))"
proof (cases "resourceFile l name")
  case (Inl e)
  then show ?thesis
    by (auto simp: resourceFile_def filepath_IsAbs_def split: if_splits)
next
  case (Inr p)
  note P = resourceFile_Inr [OF Inr]
  have "list_all (\<lambda>s. s \<notin> {'''', ''.'', ''..''} \<and> CHR ''/'' \<notin> set s) [InstanceKey l, name @ ''.json'']"
    using validComponent_plain(1) [OF P(2)] validComponent_plain(2) [OF P(3)] by (auto simp: plain_def)
  with Inr P resourceFile_parts [OF Inr] show ?thesis by simp
qed

section \<open>Freshness\<close>

text \<open>
  For a duration strictly above the smallest one, \<open>Classify\<close> says fresh exactly when the data was fetched and the
  instant lies before fetch time plus duration, as unbounded integers, although the subtraction saturates
  at 64 bits; so a stale envelope is never fresh again as time passes. \<open>manual\<close> never expires, a TTL that does not
  parse is stale, and no other status is ever returned.
\<close>

theorem Classify_exact:
  assumes "minDuration < d" "d \<le> maxDuration" "pd ttl = Inr d" "ttl \<noteq> ''manual''" "now \<le> later"
  shows "(Classify pd fetched ttl now = StatusFresh \<longleftrightarrow> fetched \<noteq> 0 \<and> now < fetched + d) \<and>
    Classify pd fetched ttl now \<in> {StatusFresh, StatusStale} \<and>
    (Classify pd fetched ttl now = StatusStale \<longrightarrow> Classify pd fetched ttl later = StatusStale) \<and>
    Classify pd fetched ''manual'' now = StatusManual \<and>
    Classify (pd(ttl := Inl e)) fetched ttl now = StatusStale"
proof -
  have sub: "time_Sub t fetched \<ge> d \<longleftrightarrow> t \<ge> fetched + d" for t
    using assms(1,2) by (auto simp: time_Sub_def)
  show ?thesis
    using assms by (auto simp: Classify_def parseTTL_def ttlManual_def time_IsZero_def sub Status_defs)
qed

theorem Classify_exact_witness:
  "(Classify (\<lambda>s. if s = ''90s'' then Inr (90 * Second) else Inl (OtherError s)) 5 ''90s'' 7 = StatusFresh \<longleftrightarrow>
      (5::int) \<noteq> 0 \<and> 7 < 5 + 90 * Second) \<and>
    Classify (\<lambda>s. if s = ''90s'' then Inr (90 * Second) else Inl (OtherError s)) 5 ''90s'' 7 \<in> {StatusFresh, StatusStale}"
  using Classify_exact [of "90 * Second" "\<lambda>s. if s = ''90s'' then Inr (90 * Second) else Inl (OtherError s)" "''90s''" 7 8 5]
  by (simp add: minDuration_def maxDuration_def Second_def)

text \<open>
  \<open>Age\<close> of a fetched envelope names the age, clamped at zero and saturated, rounded down in the largest
  unit that is not above it, days, hours, minutes or seconds: so at most 23 hours, 59 minutes or
  59 seconds, and at most 106751 days.
\<close>

theorem Age_bounds:
  assumes "fetched \<noteq> 0"
  shows "\<exists>k u s top. Age fetched now = show_nat k @ [s] \<and>
    (u, s, top) \<in> {(24 * Hour, CHR ''d'', 106751), (Hour, CHR ''h'', 23), (Minute, CHR ''m'', 59), (Second, CHR ''s'', 59)} \<and>
    int k * u \<le> max 0 (time_Sub now fetched) \<and> max 0 (time_Sub now fetched) < (int k + 1) * u \<and> k \<le> (top :: nat)"
proof -
  define \<delta> where "\<delta> = max 0 (time_Sub now fetched)"
  have top: "0 \<le> \<delta>" "\<delta> < 2 ^ 63" by (auto simp: \<delta>_def time_Sub_def maxDuration_def minDuration_def)
  have part: "int (nat (\<delta> div u)) * u \<le> \<delta> \<and> \<delta> < (int (nat (\<delta> div u)) + 1) * u \<and> nat (\<delta> div u) \<le> t"
    if u: "0 < u" "\<delta> < (int t + 1) * u" for u t
  proof -
    obtain q m where qm: "\<delta> div u = q" "\<delta> = q * u + m" "0 \<le> m" "m < u"
      by (rule that [of "\<delta> div u" "\<delta> mod u"]) (use u in simp_all)
    have "0 \<le> q" unfolding qm(1) [symmetric] using top(1) u(1) by (simp add: pos_imp_zdiv_nonneg_iff)
    moreover have "q < int t + 1"
    proof (rule ccontr)
      assume "\<not> q < int t + 1"
      then have "(int t + 1) * u \<le> q * u" using u(1) by (intro mult_right_mono) simp_all
      with u(2) qm show False by linarith
    qed
    ultimately show ?thesis using qm by (simp add: distrib_right)
  qed
  have ex: "\<exists>k u s top. Age fetched now = show_nat k @ [s] \<and> (u, s, top) \<in> {(24 * Hour, CHR ''d'', 106751), (Hour, CHR ''h'', 23), (Minute, CHR ''m'', 59), (Second, CHR ''s'', 59)} \<and>
      int k * u \<le> max 0 (time_Sub now fetched) \<and> max 0 (time_Sub now fetched) < (int k + 1) * u \<and> k \<le> (top :: nat)"
    if "Age fetched now = show_nat k @ [s]" "(u, s, top) \<in> {(24 * Hour, CHR ''d'', 106751), (Hour, CHR ''h'', 23), (Minute, CHR ''m'', 59), (Second, CHR ''s'', 59)}"
      "int k * u \<le> \<delta>" "\<delta> < (int k + 1) * u" "k \<le> top" for k s u and top :: nat
    using that unfolding \<delta>_def by blast
  have age: "Age fetched now = (if \<delta> \<ge> 24 * Hour then show_nat (nat (\<delta> div (24 * Hour))) @ ''d''
         else if \<delta> \<ge> Hour then show_nat (nat (\<delta> div Hour)) @ ''h''
         else if \<delta> \<ge> Minute then show_nat (nat (\<delta> div Minute)) @ ''m''
         else show_nat (nat (\<delta> div Second)) @ ''s'')"
    using assms by (auto simp: Age_def time_IsZero_def \<delta>_def Let_def max_def)
  consider "24 * Hour \<le> \<delta>" | "Hour \<le> \<delta>" "\<delta> < 24 * Hour" | "Minute \<le> \<delta>" "\<delta> < Hour" | "\<delta> < Minute"
    by linarith
  then show ?thesis
  proof cases
    case 1
    then have p: "int (nat (\<delta> div (24 * Hour))) * (24 * Hour) \<le> \<delta> \<and> \<delta> < (int (nat (\<delta> div (24 * Hour))) + 1) * (24 * Hour) \<and> nat (\<delta> div (24 * Hour)) \<le> 106751"
      by (intro part) (use top in \<open>simp_all add: Hour_def Minute_def Second_def\<close>)
    show ?thesis
      by (rule ex [of "nat (\<delta> div (24 * Hour))" "CHR ''d''" "(24 * Hour)" 106751])
        (use age p 1 in \<open>auto simp: Hour_def Minute_def Second_def\<close>)
  next
    case 2
    then have p: "int (nat (\<delta> div Hour)) * Hour \<le> \<delta> \<and> \<delta> < (int (nat (\<delta> div Hour)) + 1) * Hour \<and> nat (\<delta> div Hour) \<le> 23"
      by (intro part) (use top in \<open>simp_all add: Hour_def Minute_def Second_def\<close>)
    show ?thesis
      by (rule ex [of "nat (\<delta> div Hour)" "CHR ''h''" "Hour" 23])
        (use age p 2 in \<open>auto simp: Hour_def Minute_def Second_def\<close>)
  next
    case 3
    then have p: "int (nat (\<delta> div Minute)) * Minute \<le> \<delta> \<and> \<delta> < (int (nat (\<delta> div Minute)) + 1) * Minute \<and> nat (\<delta> div Minute) \<le> 59"
      by (intro part) (use top in \<open>simp_all add: Hour_def Minute_def Second_def\<close>)
    show ?thesis
      by (rule ex [of "nat (\<delta> div Minute)" "CHR ''m''" "Minute" 59])
        (use age p 3 in \<open>auto simp: Hour_def Minute_def Second_def\<close>)
  next
    case 4
    then have p: "int (nat (\<delta> div Second)) * Second \<le> \<delta> \<and> \<delta> < (int (nat (\<delta> div Second)) + 1) * Second \<and> nat (\<delta> div Second) \<le> 59"
      by (intro part) (use top in \<open>simp_all add: Hour_def Minute_def Second_def\<close>)
    show ?thesis
      by (rule ex [of "nat (\<delta> div Second)" "CHR ''s''" "Second" 59])
        (use age p 4 in \<open>auto simp: Hour_def Minute_def Second_def\<close>)
  qed
qed

theorem Age_bounds_witness:
  "\<exists>k u s top. Age 1 (3 * Hour + 1) = show_nat k @ [s] \<and>
    (u, s, top) \<in> {(24 * Hour, CHR ''d'', 106751), (Hour, CHR ''h'', 23), (Minute, CHR ''m'', 59), (Second, CHR ''s'', 59)} \<and>
    int k * u \<le> max 0 (time_Sub (3 * Hour + 1) 1) \<and> max 0 (time_Sub (3 * Hour + 1) 1) < (int k + 1) * u \<and> k \<le> (top :: nat)"
  by (rule Age_bounds) simp

end
