(* ===== verification/KeyringLaws.thy ===== *)
theory KeyringLaws
  imports FileExact
begin

text \<open>
  The contract of a keyring, call by call: what one call does to the map the keyring holds, as a predicate
  on the call's outcome. \<open>keyring_lawsI\<close> and \<open>exact_keyringI\<close> give the locales of \<open>OsBackend\<close> and
  \<open>FileExact\<close> from these, \<open>keyring_laws.calls\<close> and \<open>exact_keyring.exact_calls\<close> go back; a keyring that
  passes its calls on to another one is lawful by unfolding.
\<close>

definition get_law :: "('k \<Rightarrow> kvmap) \<Rightarrow> ('k \<Rightarrow> bool) \<Rightarrow> 'k \<Rightarrow> string \<Rightarrow> 'k \<times> keyringItem result \<Rightarrow> bool" where
  "get_law view good k i out \<longleftrightarrow>
     (case out of (k', r) \<Rightarrow>
        good k' \<and> view k' = view k \<and>
        (case r of
           Inr it \<Rightarrow> view k i = Some (ki_data it)
         | Inl e \<Rightarrow> own_error e \<and> (errors_Is e errKeyringItemNotFound \<longrightarrow> view k i = None)))"

definition metadata_law :: "('k \<Rightarrow> kvmap) \<Rightarrow> ('k \<Rightarrow> bool) \<Rightarrow> 'k \<Rightarrow> string \<Rightarrow> 'k \<times> keyringItem result \<Rightarrow> bool" where
  "metadata_law view good k i out \<longleftrightarrow>
     (case out of (k', r) \<Rightarrow>
        good k' \<and> view k' = view k \<and>
        (case r of
           Inr it \<Rightarrow> view k i \<noteq> None
         | Inl e \<Rightarrow> errors_Is e errKeyringItemNotFound \<longrightarrow> view k i = None))"

definition set_law :: "('k \<Rightarrow> kvmap) \<Rightarrow> ('k \<Rightarrow> bool) \<Rightarrow> 'k \<Rightarrow> string \<Rightarrow> string \<Rightarrow> 'k \<times> err option \<Rightarrow> bool" where
  "set_law view good k i v out \<longleftrightarrow>
     (case out of (k', r) \<Rightarrow>
        good k' \<and>
        (case r of
           None \<Rightarrow> view k' = (view k)(i \<mapsto> v)
         | Some e \<Rightarrow> same_except {i} (view k) (view k') \<and> own_error e))"

definition remove_law :: "('k \<Rightarrow> kvmap) \<Rightarrow> ('k \<Rightarrow> bool) \<Rightarrow> 'k \<Rightarrow> string \<Rightarrow> 'k \<times> err option \<Rightarrow> bool" where
  "remove_law view good k i out \<longleftrightarrow>
     (case out of (k', r) \<Rightarrow>
        good k' \<and>
        (case r of
           None \<Rightarrow> view k' = (view k)(i := None) \<and> view k i \<noteq> None
         | Some e \<Rightarrow> same_except {i} (view k) (view k') \<and> own_error e \<and>
             (errors_Is e errKeyringItemNotFound \<longrightarrow> view k i = None \<and> view k' = view k)))"

definition keys_law :: "('k \<Rightarrow> kvmap) \<Rightarrow> ('k \<Rightarrow> bool) \<Rightarrow> 'k \<Rightarrow> 'k \<times> string list result \<Rightarrow> bool" where
  "keys_law view good k out \<longleftrightarrow>
     (case out of (k', r) \<Rightarrow>
        good k' \<and> view k' = view k \<and>
        (case r of Inr ks \<Rightarrow> distinct ks \<and> set ks = dom (view k) | Inl e \<Rightarrow> True))"

lemmas call_laws = get_law_def metadata_law_def set_law_def remove_law_def keys_law_def

lemma keyring_lawsI:
  assumes "\<And>k i. good k \<Longrightarrow> usable view k i \<Longrightarrow> get_law view good k i (kr_get kro k i)"
    and "\<And>k i. good k \<Longrightarrow> usable view k i \<Longrightarrow> metadata_law view good k i (kr_metadata kro k i)"
    and "\<And>k it. good k \<Longrightarrow> usable view k (ki_key it) \<Longrightarrow> set_law view good k (ki_key it) (ki_data it) (kr_set kro k it)"
    and "\<And>k i. good k \<Longrightarrow> usable view k i \<Longrightarrow> remove_law view good k i (kr_remove kro k i)"
    and "\<And>k. good k \<Longrightarrow> keys_law view good k (kr_keys kro k)"
  shows "keyring_laws kro view good"
proof (unfold_locales, goal_cases)
  case (1 k i k' r)
  then show ?case using assms(1) [of k i] by (simp add: call_laws)
next
  case (2 k i k' it)
  then show ?case using assms(1) [of k i] by (simp add: call_laws)
next
  case (3 k i k' e)
  then show ?case using assms(1) [of k i] by (simp add: call_laws)
next
  case (4 k i k' r)
  then show ?case using assms(2) [of k i] by (simp add: call_laws)
next
  case (5 k i k' it)
  then show ?case using assms(2) [of k i] by (simp add: call_laws)
next
  case (6 k i k' e)
  then show ?case using assms(2) [of k i] by (simp add: call_laws)
next
  case (7 k it k')
  then show ?case using assms(3) [of k it] by (simp add: call_laws)
next
  case (8 k it k' e)
  then show ?case using assms(3) [of k it] by (simp add: call_laws)
next
  case (9 k i k')
  then show ?case using assms(4) [of k i] by (simp add: call_laws)
next
  case (10 k i k' e)
  then show ?case using assms(4) [of k i] by (simp add: call_laws)
next
  case (11 k i k' e)
  then show ?case using assms(4) [of k i] by (simp add: call_laws)
next
  case (12 k k' r)
  then show ?case using assms(5) [of k] by (simp add: call_laws)
next
  case (13 k k' ks)
  then show ?case using assms(5) [of k] by (simp add: call_laws)
qed

context keyring_laws
begin

lemma calls:
  assumes "kgood k"
  shows "usable kview k i \<Longrightarrow> get_law kview kgood k i (kr_get kro k i)"
    "usable kview k i \<Longrightarrow> metadata_law kview kgood k i (kr_metadata kro k i)"
    "usable kview k (ki_key it) \<Longrightarrow> set_law kview kgood k (ki_key it) (ki_data it) (kr_set kro k it)"
    "usable kview k i \<Longrightarrow> remove_law kview kgood k i (kr_remove kro k i)"
    "keys_law kview kgood k (kr_keys kro k)"
  using kget_keeps [OF assms, of i] kget_value [OF assms, of i] kget_error [OF assms, of i]
    kmeta_keeps [OF assms, of i] kmeta_value [OF assms, of i] kmeta_absent [OF assms, of i]
    kset_ok [OF assms, of it] kset_fail [OF assms, of it]
    kremove_ok [OF assms, of i] kremove_fail [OF assms, of i] kremove_absent [OF assms, of i]
    kkeys_keeps [OF assms] kkeys_value [OF assms]
  by (auto simp: call_laws split: prod.split sum.split option.split)

lemma as_backend_laws: "backend_laws (os_ops kro) (os_view kview) (os_good kgood)"
  by unfold_locales

end

text \<open>What every method keeps can be asked of a state beside the rest.\<close>

lemma keyring_laws_keeping:
  assumes laws: "keyring_laws kro view good"
    and "\<And>k i. good k \<Longrightarrow> extra k \<Longrightarrow> usable view k i \<Longrightarrow> extra (fst (kr_get kro k i))"
    and "\<And>k i. good k \<Longrightarrow> extra k \<Longrightarrow> usable view k i \<Longrightarrow> extra (fst (kr_metadata kro k i))"
    and "\<And>k it. good k \<Longrightarrow> extra k \<Longrightarrow> usable view k (ki_key it) \<Longrightarrow> extra (fst (kr_set kro k it))"
    and "\<And>k i. good k \<Longrightarrow> extra k \<Longrightarrow> usable view k i \<Longrightarrow> extra (fst (kr_remove kro k i))"
    and "\<And>k. good k \<Longrightarrow> extra k \<Longrightarrow> extra (fst (kr_keys kro k))"
  shows "keyring_laws kro view (\<lambda>k. good k \<and> extra k)"
proof (rule keyring_lawsI, goal_cases)
  case (1 k i)
  with keyring_laws.calls(1) [OF laws, of k i] assms(2) [of k i] show ?case by (simp add: get_law_def case_prod_beta)
next
  case (2 k i)
  with keyring_laws.calls(2) [OF laws, of k i] assms(3) [of k i] show ?case by (simp add: metadata_law_def case_prod_beta)
next
  case (3 k it)
  with keyring_laws.calls(3) [OF laws, of k it] assms(4) [of k it] show ?case by (simp add: set_law_def case_prod_beta)
next
  case (4 k i)
  with keyring_laws.calls(4) [OF laws, of k i] assms(5) [of k i] show ?case by (simp add: remove_law_def case_prod_beta)
next
  case (5 k)
  with keyring_laws.calls(5) [OF laws, of k] assms(6) [of k] show ?case by (simp add: keys_law_def case_prod_beta)
qed

section \<open>Exact keyrings\<close>

text \<open>A call that failed, failed for want of the item.\<close>

definition found_or_absent :: "'k \<times> 'r result \<Rightarrow> bool" where
  "found_or_absent out \<longleftrightarrow> (case snd out of Inr _ \<Rightarrow> True | Inl e \<Rightarrow> e = Sentinel errKeyringItemNotFound)"

definition removed_or_absent :: "'k \<times> err option \<Rightarrow> bool" where
  "removed_or_absent out \<longleftrightarrow> snd out \<in> {None, Some (Sentinel errKeyringItemNotFound)}"

lemma exact_keyringI:
  assumes laws: "keyring_laws kro view good"
    and "\<And>k i. good k \<Longrightarrow> usable view k i \<Longrightarrow> found_or_absent (kr_get kro k i)"
    and "\<And>k i. good k \<Longrightarrow> usable view k i \<Longrightarrow> found_or_absent (kr_metadata kro k i)"
    and "\<And>k it. good k \<Longrightarrow> usable view k (ki_key it) \<Longrightarrow> snd (kr_set kro k it) = None"
    and "\<And>k i. good k \<Longrightarrow> usable view k i \<Longrightarrow> removed_or_absent (kr_remove kro k i)"
    and "\<And>k. good k \<Longrightarrow> \<not> isl (snd (kr_keys kro k))"
  shows "exact_keyring kro view good"
proof (rule exact_keyring.intro [OF laws], rule exact_keyring_axioms.intro, goal_cases)
  case (1 k i)
  then show ?case
    using keyring_laws.calls(1) [OF laws, of k i] assms(2) [of k i]
    by (auto simp: get_law_def found_or_absent_def split: prod.splits sum.splits option.splits)
next
  case (2 k i)
  then show ?case
    using keyring_laws.calls(2) [OF laws, of k i] assms(3) [of k i]
    by (auto simp: metadata_law_def found_or_absent_def split: prod.splits sum.splits option.splits)
next
  case (3 k it)
  then show ?case by (rule assms(4))
next
  case (4 k i)
  then show ?case
    using keyring_laws.calls(4) [OF laws, of k i] assms(5) [of k i]
    by (auto simp: remove_law_def removed_or_absent_def split: prod.splits option.splits)
next
  case (5 k)
  then show ?case using assms(6) [of k] by (cases "snd (kr_keys kro k)") auto
qed

context exact_keyring
begin

lemma exact_calls:
  assumes "kgood k"
  shows "usable kview k i \<Longrightarrow> found_or_absent (kr_get kro k i)"
    "usable kview k i \<Longrightarrow> found_or_absent (kr_metadata kro k i)"
    "usable kview k (ki_key it) \<Longrightarrow> snd (kr_set kro k it) = None"
    "usable kview k i \<Longrightarrow> removed_or_absent (kr_remove kro k i)"
    "\<not> isl (snd (kr_keys kro k))"
  using kget_exact [OF assms, of i] kmeta_exact [OF assms, of i] kset_exact [OF assms, of it]
    kremove_exact [OF assms, of i] kkeys_exact [OF assms]
  by (auto simp: found_or_absent_def removed_or_absent_def split: option.splits)

lemma as_exact_backend: "exact_backend (os_ops kro) (os_view kview) (os_good kgood)"
  by unfold_locales

end

lemma usable_comp [simp]: "usable (\<lambda>b. view (f b)) b i = usable view (f b) i"
  by (simp add: usable_def)

lemma not_found_own [simp]: "own_error (Sentinel errKeyringItemNotFound)" "own_error (Sentinel errKeyringMetadataUnsupported)"
  by (simp_all add: own_error_def)

end
