(* ===== verification/Hex.thy ===== *)
theory Hex
  imports Prelude
begin

text \<open>
  \<open>encoding/hex\<close>: \<open>DecodeString\<close>, which takes digits of either case and refuses an odd length or
  another byte, and its inverse on the digits of one case.
\<close>

definition hex_value :: "char \<Rightarrow> nat option" where
  "hex_value c =
     (let n = of_char c in
      if 48 \<le> n \<and> n \<le> 57 then Some (n - 48)
      else if 97 \<le> n \<and> n \<le> 102 then Some (n - 87)
      else if 65 \<le> n \<and> n \<le> 70 then Some (n - 55)
      else None)"

fun hex_Decode :: "string \<Rightarrow> string option" where
  "hex_Decode [] = Some []"
| "hex_Decode [c] = None"
| "hex_Decode (c # d # s) =
     (case hex_value c of
        None \<Rightarrow> None
      | Some a \<Rightarrow>
          (case hex_value d of
             None \<Rightarrow> None
           | Some b \<Rightarrow> map_option ((#) (char_of (16 * a + b))) (hex_Decode s)))"

definition hex_digit :: "bool \<Rightarrow> nat \<Rightarrow> char" where
  "hex_digit upper n = char_of (if n < 10 then 48 + n else if upper then 55 + n else 87 + n)"

fun hex_Encode :: "bool \<Rightarrow> string \<Rightarrow> string" where
  "hex_Encode upper [] = []"
| "hex_Encode upper (c # s) =
     hex_digit upper (of_char c div 16) # hex_digit upper (of_char c mod 16) # hex_Encode upper s"

lemma hex_value_digit [simp]: "n < 16 \<Longrightarrow> hex_value (hex_digit upper n) = Some n"
  by (auto simp: hex_value_def hex_digit_def Let_def)

theorem hex_Decode_Encode [simp]: "hex_Decode (hex_Encode upper s) = Some s"
proof (induction s)
  case (Cons c s)
  have "of_char c < (256 :: nat)" by simp
  then have "of_char c div 16 < (16 :: nat)" by linarith
  moreover have "char_of (16 * (of_char c div 16) + of_char c mod 16 :: nat) = c" by simp
  ultimately show ?case using Cons by simp
qed simp

lemma hex_Encode_chars: "c \<in> set (hex_Encode upper s) \<Longrightarrow> hex_value c \<noteq> None"
proof (induction s)
  case (Cons d s)
  have "of_char d < (256 :: nat)" by simp
  then have "of_char d div 16 < (16 :: nat)" by linarith
  with Cons show ?case by auto
qed simp

lemma hex_Encode_Nil [simp]: "hex_Encode upper s = [] \<longleftrightarrow> s = []"
  by (cases s) simp_all

end
