(* ===== verification/Keychain.thy ===== *)
theory Keychain
  imports KeyringLaws Hex
begin

text \<open>
  \<open>osbackend_keychain_stable_read.go\<close>: on macOS the secret is read through the system's \<open>security\<close>
  program, everything else through the native keyring. Running a program is the argument \<open>exec\<close>, which
  gives what it wrote and how it ended; the parser of what \<open>security -g\<close> prints is proved against the
  three shapes its comment describes.
\<close>

section \<open>The parser\<close>

definition newline :: char where
  "newline = CHR 0x0A"

definition double_quote :: char where
  "double_quote = CHR 0x22"

definition keychain_prefix :: string where
  "keychain_prefix = ''password: ''"

definition format_error :: "string result" where
  "format_error = Inl (Sentinel errKeychainPasswordFormat)"

text \<open>Where the line of the secret starts.\<close>

definition keychain_start :: "string \<Rightarrow> nat option" where
  "keychain_start out =
     (case strings_Index out keychain_prefix of
        None \<Rightarrow> None
      | Some start \<Rightarrow>
          (if start > 0 \<and> out ! (start - 1) \<noteq> newline then
             map_option Suc (strings_Index out (newline # keychain_prefix))
           else Some start))"

definition parseKeychainPassword :: "string \<Rightarrow> string result" where
  "parseKeychainPassword out =
     (case keychain_start out of
        None \<Rightarrow> format_error
      | Some start \<Rightarrow>
          (let val = drop (start + length keychain_prefix) out in
           if prefix ''0x'' val then
             (let encoded = takeWhile (\<lambda>c. c \<noteq> CHR '' '' \<and> c \<noteq> newline) (drop 2 val) in
              if encoded = '''' then format_error
              else (case hex_Decode encoded of None \<Rightarrow> format_error | Some decoded \<Rightarrow> Inr decoded))
           else
             (let line = fst (strings_Cut val newline) in
              if line = '''' then Inr ''''
              else if length line < 2 \<or> hd line \<noteq> double_quote \<or> last line \<noteq> double_quote then format_error
              else Inr (butlast (tl line)))))"

section \<open>The read\<close>

text \<open>\<open>errors.As\<close> to an error with an exit code: the first one in the chain.\<close>

primrec exit_code :: "err \<Rightarrow> int option" where
  "exit_code (ExitError c m) = Some c"
| "exit_code (Wrapf ps e qs) = exit_code e"
| "exit_code (RefErr e) = None"
| "exit_code (KeyErr e) = None"
| "exit_code (Sentinel s) = None"
| "exit_code (leakError m) = None"
| "exit_code (migrationConflictError m) = None"
| "exit_code (Errorf ps) = None"
| "exit_code (DBusError n m) = None"
| "exit_code (OsNotExist m) = None"
| "exit_code (OtherError m) = None"
| "exit_code NilDereference = None"

text \<open>\<open>run\<close> gives the program's stderr and error; \<open>ctxErr\<close> is \<open>ctx.Err()\<close> after it.\<close>

definition readKeychainPasswordWith ::
  "err option \<Rightarrow> string \<Rightarrow> string \<Rightarrow> (string list \<Rightarrow> string \<times> err option) \<Rightarrow> string result"
where
  "readKeychainPasswordWith ctxErr service account run =
     (case run [''find-generic-password'', ''-s'', service, ''-a'', account, ''-g''] of
        (output, Some e) \<Rightarrow>
          (if exit_code e = Some 44 then Inl (Sentinel errKeyringItemNotFound)
           else
             (case ctxErr of
                Some ce \<Rightarrow> Inl (Wrapf [Lit ''macOS Keychain read timed out or was canceled, possibly waiting for approval to let /usr/bin/security read the item: ''] ce [])
              | None \<Rightarrow> Inl (Wrapf [Lit ''macOS Keychain read failed: ''] e [])))
      | (output, None) \<Rightarrow> parseKeychainPassword output)"

text \<open>A run of a program at a path: its standard output, its standard error, and how it ended.\<close>

type_synonym exec = "string \<Rightarrow> string list \<Rightarrow> string \<times> string \<times> err option"

definition runSecurity :: "exec \<Rightarrow> string list \<Rightarrow> string \<times> err option" where
  "runSecurity exec args =
     (case exec ''/usr/bin/security'' args of (stdout, stderr, e) \<Rightarrow> (stderr, e))"

definition readKeychainPassword :: "exec \<Rightarrow> err option \<Rightarrow> string \<Rightarrow> string \<Rightarrow> string result" where
  "readKeychainPassword exec ctxErr service account =
     readKeychainPasswordWith ctxErr service account (runSecurity exec)"

section \<open>The backend\<close>

text \<open>
  The embedded keyring and the service; \<open>read\<close> looks at the keychain, the state of the embedded
  keyring. The methods not redefined are those of the embedded keyring.
\<close>

record 'k keychainStableReadBackend =
  ks_keyring :: 'k
  ks_service :: string

definition stable_get ::
  "('k \<Rightarrow> string \<Rightarrow> string \<Rightarrow> string result) \<Rightarrow> 'k keychainStableReadBackend \<Rightarrow> string \<Rightarrow>
     'k keychainStableReadBackend \<times> keyringItem result"
where
  "stable_get read b itemKey =
     (case read (ks_keyring b) (ks_service b) itemKey of
        Inl e \<Rightarrow> (b, Inl e)
      | Inr d \<Rightarrow> (b, Inr (keyringItem_zero\<lparr>ki_key := itemKey, ki_data := d\<rparr>)))"

definition embedded ::
  "'k keychainStableReadBackend \<Rightarrow> ('k \<Rightarrow> 'k \<times> 'r) \<Rightarrow> 'k keychainStableReadBackend \<times> 'r"
where
  "embedded b f = (case f (ks_keyring b) of (k, r) \<Rightarrow> (b\<lparr>ks_keyring := k\<rparr>, r))"

definition stable_ops ::
  "'k keyringBackend \<Rightarrow> ('k \<Rightarrow> string \<Rightarrow> string \<Rightarrow> string result) \<Rightarrow> 'k keychainStableReadBackend keyringBackend"
where
  "stable_ops kro read =
     \<lparr>kr_get = stable_get read,
      kr_metadata = (\<lambda>b i. embedded b (\<lambda>k. kr_metadata kro k i)),
      kr_set = (\<lambda>b it. embedded b (\<lambda>k. kr_set kro k it)),
      kr_remove = (\<lambda>b i. embedded b (\<lambda>k. kr_remove kro k i)),
      kr_keys = (\<lambda>b. embedded b (kr_keys kro))\<rparr>"

section \<open>Finding the line\<close>

lemma strings_Index_le: "prefix sub (drop n s) \<Longrightarrow> \<exists>i \<le> n. strings_Index s sub = Some i"
proof (cases "strings_Index s sub")
  case (Some i)
  moreover assume "prefix sub (drop n s)"
  ultimately have "i \<le> n" using strings_Index_least [of s sub i n] by (meson leI)
  with Some show ?thesis by blast
qed (use strings_Index_None in blast)

lemma Split_prefix: "c \<notin> set p \<Longrightarrow> \<exists>q ls. strings_Split (p @ b) c = (p @ q) # ls"
proof (induction p)
  case Nil
  then show ?case by (cases b) (auto split: list.splits)
qed auto

text \<open>No line of the text starts with the prefix.\<close>

definition no_password_line :: "string \<Rightarrow> bool" where
  "no_password_line pre \<longleftrightarrow> list_all (\<lambda>l. \<not> prefix keychain_prefix l) (strings_Split pre newline)"

lemma prefix_no_newline: "newline \<notin> set keychain_prefix"
  by (simp add: newline_def keychain_prefix_def)

lemma no_password_lineD:
  assumes "no_password_line (a @ keychain_prefix @ b)" "a = [] \<or> last a = newline"
  shows False
proof -
  obtain q ls where q: "strings_Split (keychain_prefix @ b) newline = (keychain_prefix @ q) # ls"
    using Split_prefix [OF prefix_no_newline] by blast
  have "keychain_prefix @ q \<in> set (strings_Split (a @ keychain_prefix @ b) newline)"
  proof (cases "a = []")
    case False
    with assms(2) have "a = butlast a @ [newline]" by (metis append_butlast_last_id)
    then have "strings_Split (a @ keychain_prefix @ b) newline =
        strings_Split (butlast a) newline @ strings_Split (keychain_prefix @ b) newline"
      using strings_Split_append by (metis append.assoc append_Cons append_Nil)
    with q show ?thesis by simp
  qed (simp add: q)
  with assms(1) show False
    by (auto simp: no_password_line_def list_all_iff)
qed

lemma keychain_start_line:
  assumes "pre = [] \<or> last pre = newline" "no_password_line pre"
  shows "keychain_start (pre @ keychain_prefix @ rest) = Some (length pre)"
proof -
  let ?out = "pre @ keychain_prefix @ rest"
  have early: False
    if j: "prefix keychain_prefix (drop j ?out)" "j < length pre" "j = 0 \<or> ?out ! (j - 1) = newline" for j
  proof -
    have pre: "pre \<noteq> []" using j(2) by auto
    with assms(1) have last: "last pre = newline" by simp
    have "prefix (drop j pre) (drop j ?out)" using j(2) by simp
    with j(1) have "prefix keychain_prefix (drop j pre) \<or> prefix (drop j pre) keychain_prefix"
      by (rule prefix_same_cases)
    moreover have "newline \<in> set (drop j pre)"
      using last j(2) last_in_set [of "drop j pre"] by simp
    ultimately obtain b where b: "drop j pre = keychain_prefix @ b"
      using set_mono_prefix prefix_no_newline by (metis prefix_def subset_iff)
    then have "pre = take j pre @ keychain_prefix @ b" by (metis append_take_drop_id)
    moreover have "take j pre = [] \<or> last (take j pre) = newline"
    proof (cases j)
      case (Suc m)
      with j(2,3) show ?thesis by (simp add: take_Suc_conv_app_nth nth_append)
    qed simp
    ultimately show False using no_password_lineD assms(2) by metis
  qed
  have "prefix keychain_prefix (drop (length pre) ?out)" by simp
  then obtain i where i: "i \<le> length pre" "strings_Index ?out keychain_prefix = Some i"
    using strings_Index_le by blast
  show ?thesis
  proof (cases "i = length pre")
    case True
    with i(2) assms(1) show ?thesis
      by (auto simp: keychain_start_def nth_append last_conv_nth)
  next
    case False
    with i(1) have i': "i < length pre" by simp
    then have mid: "i > 0" "?out ! (i - 1) \<noteq> newline"
      using early [of i, OF _ i'] strings_Index_Some [OF i(2)] by (cases "i = 0"; blast)+
    have pre: "pre \<noteq> []" "last pre = newline" using i' assms(1) by auto
    then have "drop (length pre - 1) ?out = newline # keychain_prefix @ rest"
      by (cases pre rule: rev_cases) auto
    then have "prefix (newline # keychain_prefix) (drop (length pre - 1) ?out)" by simp
    then obtain j where j: "j \<le> length pre - 1" "strings_Index ?out (newline # keychain_prefix) = Some j"
      using strings_Index_le by blast
    have "prefix (newline # keychain_prefix) (drop j ?out)" using strings_Index_Some [OF j(2)] by simp
    then obtain t where t: "drop j ?out = newline # keychain_prefix @ t" by (auto simp: prefix_def)
    then have "drop (Suc j) ?out = keychain_prefix @ t" by (metis drop_Suc list.sel(3) tl_drop)
    moreover have "?out ! j = newline" using t by (rule nth_via_drop)
    ultimately have "\<not> Suc j < length pre"
      using early [of "Suc j"] by auto
    with j pre have "Suc j = length pre" by (cases pre) auto
    with i(2) mid j(2) show ?thesis by (simp add: keychain_start_def)
  qed
qed

section \<open>The three shapes\<close>

text \<open>
  What \<open>security -g\<close> prints of a secret, by the comment on the parser: in quotes if every byte is
  printable and none is a backslash, in hexadecimal with a lossy display text otherwise, and nothing for
  the empty secret.
\<close>

definition quotable :: "string \<Rightarrow> bool" where
  "quotable s \<longleftrightarrow> list_all (\<lambda>c. CHR 0x20 \<le> c \<and> c \<le> CHR 0x7E \<and> c \<noteq> CHR 0x5C) s"

definition security_line :: "bool \<Rightarrow> string \<Rightarrow> string \<Rightarrow> string" where
  "security_line upper display s =
     keychain_prefix @
     (if s = '''' then ''''
      else if quotable s then double_quote # s @ [double_quote]
      else ''0x'' @ hex_Encode upper s @
        (if display = '''' then '''' else ''  '' @ double_quote # display @ [double_quote])) @ [newline]"

lemma quotable_no_newline: "quotable s \<Longrightarrow> newline \<notin> set s"
  by (force simp: quotable_def newline_def list_all_iff less_eq_char_def)

lemma takeWhile_hex:
  assumes "t = [] \<or> hd t \<in> {CHR '' '', newline}"
  shows "takeWhile (\<lambda>c. c \<noteq> CHR '' '' \<and> c \<noteq> newline) (hex_Encode upper s @ t) = hex_Encode upper s"
proof -
  have "hex_value (CHR '' '') = None" "hex_value newline = None"
    by (simp_all add: hex_value_def newline_def)
  then have "\<forall>c \<in> set (hex_Encode upper s). c \<noteq> CHR '' '' \<and> c \<noteq> newline"
    using hex_Encode_chars by (metis option.distinct(1))
  with assms show ?thesis
    by (cases t) (auto simp: takeWhile_append2)
qed

lemma parse_value:
  assumes "keychain_start out = Some n" "drop (n + length keychain_prefix) out = val"
  shows "parseKeychainPassword out =
    (if prefix ''0x'' val then
       (let encoded = takeWhile (\<lambda>c. c \<noteq> CHR '' '' \<and> c \<noteq> newline) (drop 2 val) in
        if encoded = '''' then format_error
        else (case hex_Decode encoded of None \<Rightarrow> format_error | Some decoded \<Rightarrow> Inr decoded))
     else
       (let line = fst (strings_Cut val newline) in
        if line = '''' then Inr ''''
        else if length line < 2 \<or> hd line \<noteq> double_quote \<or> last line \<noteq> double_quote then format_error
        else Inr (butlast (tl line))))"
  using assms by (simp add: parseKeychainPassword_def Let_def)

lemma Cut_line: "newline \<notin> set l \<Longrightarrow> fst (strings_Cut (l @ newline # t) newline) = l"
  using strings_Cut_append [of newline l t] by simp

lemma parse_security_line:
  assumes "pre = '''' \<or> last pre = newline" "no_password_line pre"
  shows "parseKeychainPassword (pre @ security_line upper display s @ post) = Inr s"
proof -
  define val where "val = drop (length keychain_prefix) (security_line upper display s @ post)"
  have line: "security_line upper display s @ post = keychain_prefix @ val"
    by (simp add: val_def security_line_def)
  have start: "keychain_start (pre @ security_line upper display s @ post) = Some (length pre)"
    unfolding line using keychain_start_line assms by simp
  have val: "drop (length pre + length keychain_prefix) (pre @ security_line upper display s @ post) = val"
    unfolding line by simp
  note parse = parse_value [OF start val]
  show ?thesis
  proof (cases "s = ''''")
    case True
    then have "val = newline # post" by (simp add: val_def security_line_def)
    then show ?thesis unfolding parse using True by (simp add: newline_def)
  next
    case ne: False
    show ?thesis
    proof (cases "quotable s")
      case True
      let ?l = "double_quote # s @ [double_quote]"
      have v: "val = ?l @ newline # post" using True ne by (simp add: val_def security_line_def)
      have "newline \<notin> set ?l" using quotable_no_newline [OF True] by (simp add: newline_def double_quote_def)
      from Cut_line [OF this, of post] have "fst (strings_Cut val newline) = ?l" by (simp add: v)
      moreover have "\<not> prefix ''0x'' val" by (simp add: v double_quote_def)
      ultimately show ?thesis unfolding parse by (simp add: Let_def butlast_append)
    next
      case False
      define t where "t = (if display = '''' then '''' else ''  '' @ double_quote # display @ [double_quote]) @ newline # post"
      have v: "val = ''0x'' @ hex_Encode upper s @ t"
        using False ne by (simp add: val_def security_line_def t_def)
      have "hd t \<in> {CHR '' '', newline}" by (simp add: t_def)
      then have "takeWhile (\<lambda>c. c \<noteq> CHR '' '' \<and> c \<noteq> newline) (drop 2 val) = hex_Encode upper s"
        using takeWhile_hex [of t upper s] by (simp add: v)
      moreover have "prefix ''0x'' val" by (simp add: v)
      ultimately show ?thesis unfolding parse using ne by (simp add: Let_def)
    qed
  qed
qed



section \<open>The backend keeps the laws\<close>

lemmas stable_defs = stable_ops_def stable_get_def embedded_def

lemma stable_laws:
  assumes laws: "keyring_laws kro view good"
    and read: "\<And>k i. good k \<Longrightarrow> usable view k i \<Longrightarrow>
      (case read k svc i of
         Inr d \<Rightarrow> view k i = Some d
       | Inl e \<Rightarrow> own_error e \<and> (errors_Is e errKeyringItemNotFound \<longrightarrow> view k i = None))"
  shows "keyring_laws (stable_ops kro read) (\<lambda>b. view (ks_keyring b)) (\<lambda>b. ks_service b = svc \<and> good (ks_keyring b))"
proof (rule keyring_lawsI, goal_cases)
  case (1 b i)
  then show ?case
    using read [of "ks_keyring b" i] by (auto simp: stable_defs get_law_def split: sum.split)
next
  case (2 b i)
  then show ?case
    using keyring_laws.calls(2) [OF laws, of "ks_keyring b" i]
    by (auto simp: stable_defs metadata_law_def split: prod.split)
next
  case (3 b it)
  then show ?case
    using keyring_laws.calls(3) [OF laws, of "ks_keyring b" it]
    by (auto simp: stable_defs set_law_def split: prod.split option.split)
next
  case (4 b i)
  then show ?case
    using keyring_laws.calls(4) [OF laws, of "ks_keyring b" i]
    by (auto simp: stable_defs remove_law_def split: prod.split option.split)
next
  case (5 b)
  then show ?case
    using keyring_laws.calls(5) [OF laws, of "ks_keyring b"]
    by (auto simp: stable_defs keys_law_def split: prod.split)
qed

text \<open>
  What is relied on of \<open>security\<close> against a keychain: it prints the secret of the item, or fails, with
  status 44 only if there is none; \<open>security_reliable\<close> says that it fails for no other reason. The state
  of the keychain determines the run.
\<close>

definition security_contract ::
  "('k \<Rightarrow> exec) \<Rightarrow> string \<Rightarrow> ('k \<Rightarrow> kvmap) \<Rightarrow> ('k \<Rightarrow> bool) \<Rightarrow> bool"
where
  "security_contract sec svc view good \<longleftrightarrow>
     (\<forall>k i. good k \<longrightarrow> usable view k i \<longrightarrow>
        (case sec k ''/usr/bin/security'' [''find-generic-password'', ''-s'', svc, ''-a'', i, ''-g''] of
           (out, msg, None) \<Rightarrow>
             (\<exists>pre upper display s post. msg = pre @ security_line upper display s @ post \<and>
                (pre = '''' \<or> last pre = newline) \<and> no_password_line pre \<and> view k i = Some s)
         | (out, msg, Some e) \<Rightarrow>
             own_error e \<and> \<not> errors_Is e errKeyringItemNotFound \<and> (exit_code e = Some 44 \<longrightarrow> view k i = None)))"

definition security_reliable ::
  "('k \<Rightarrow> exec) \<Rightarrow> string \<Rightarrow> ('k \<Rightarrow> kvmap) \<Rightarrow> ('k \<Rightarrow> bool) \<Rightarrow> bool"
where
  "security_reliable sec svc view good \<longleftrightarrow>
     (\<forall>k i. good k \<longrightarrow> usable view k i \<longrightarrow>
        (case sec k ''/usr/bin/security'' [''find-generic-password'', ''-s'', svc, ''-a'', i, ''-g''] of
           (out, msg, None) \<Rightarrow> True
         | (out, msg, Some e) \<Rightarrow> exit_code e = Some 44))"

lemma security_read:
  assumes "security_contract sec svc view good" "good k" "usable view k i"
    "\<And>e. ctx k = Some e \<Longrightarrow> own_error e \<and> \<not> errors_Is e errKeyringItemNotFound"
  shows "case readKeychainPassword (sec k) (ctx k) svc i of
      Inr d \<Rightarrow> view k i = Some d
    | Inl e \<Rightarrow> own_error e \<and> (errors_Is e errKeyringItemNotFound \<longrightarrow> view k i = None)"
proof -
  let ?args = "[''find-generic-password'', ''-s'', svc, ''-a'', i, ''-g'']"
  obtain out msg e where run: "sec k ''/usr/bin/security'' ?args = (out, msg, e)"
    by (cases "sec k ''/usr/bin/security'' ?args") auto
  note c = assms(1) [unfolded security_contract_def, rule_format, OF assms(2,3)]
  show ?thesis
  proof (cases e)
    case None
    from c run None have "\<exists>pre upper display s post. msg = pre @ security_line upper display s @ post \<and>
        (pre = '''' \<or> last pre = newline) \<and> no_password_line pre \<and> view k i = Some s"
      by simp
    then obtain pre upper display s post where
      t: "msg = pre @ security_line upper display s @ post" "pre = '''' \<or> last pre = newline" "no_password_line pre"
        "view k i = Some s" by blast
    then have "parseKeychainPassword msg = Inr s"
      using parse_security_line by simp
    with None run t show ?thesis
      by (simp add: readKeychainPassword_def readKeychainPasswordWith_def runSecurity_def)
  next
    case (Some x)
    have "own_error (Wrapf ps y []) = own_error y" for ps y by (simp add: own_error_def)
    with Some run c assms(4) show ?thesis
      by (auto simp: readKeychainPassword_def readKeychainPasswordWith_def runSecurity_def split: option.split)
  qed
qed

end
