(* ===== verification/Byteness.thy ===== *)
theory Byteness
  imports Keychain Config
begin

text \<open>
  \<open>osbackend_byteness.go\<close>, the opener of the CGO and Windows builds: the config handed to
  \<open>keyring.Open\<close> of the ByteNess library and the adapter \<open>bytenessBackend\<close> of a \<open>keyring.Keyring\<close>.
  The library is a parameter: a method table \<open>Keyring\<close> over its state. \<open>keyring_contract\<close> states what
  its documentation promises (a map from keys to data, its own error values, absence reported by
  \<open>ErrKeyNotFound\<close> only), \<open>keyring_reliable\<close> that no call fails for another reason.
\<close>

section \<open>The library's interface\<close>

record Item =
  it_Key :: string
  it_Data :: string
  it_Label :: string
  it_Description :: string
  it_KeychainNotTrustApplication :: bool
  it_KeychainNotSynchronizable :: bool

text \<open>\<open>ModificationTime\<close> is 0 for the zero time.\<close>

record Metadata =
  md_Item :: "Item option"
  md_ModificationTime :: int

record 'x Keyring =
  x_Get :: "'x \<Rightarrow> string \<Rightarrow> 'x \<times> Item result"
  x_GetMetadata :: "'x \<Rightarrow> string \<Rightarrow> 'x \<times> Metadata result"
  x_Set :: "'x \<Rightarrow> Item \<Rightarrow> 'x \<times> err option"
  x_Remove :: "'x \<Rightarrow> string \<Rightarrow> 'x \<times> err option"
  x_Keys :: "'x \<Rightarrow> 'x \<times> string list result"

record keyringConfig =
  kc_ServiceName :: string
  kc_AllowedBackends :: "string list"
  kc_KeychainTrustApplication :: bool
  kc_FileDir :: string
  kc_FilePasswordFunc :: "promptFunc option"
  kc_PassDir :: string
  kc_PassCmd :: string
  kc_PassPrefix :: string
  kc_OPTimeout :: int
  kc_OPVaultID :: string
  kc_OPItemTitlePrefix :: string
  kc_OPItemTag :: string
  kc_OPItemFieldTitle :: string
  kc_OPConnectHost :: string
  kc_OPConnectTokenEnv :: string
  kc_OPTokenEnv :: string
  kc_OPDesktopAccountID :: string

definition keyringConfigFromBackendConfig :: "backendConfig \<Rightarrow> keyringConfig" where
  "keyringConfigFromBackendConfig cfg =
     \<lparr>kc_ServiceName = serviceName cfg,
      kc_AllowedBackends = [allowedBackend cfg],
      kc_KeychainTrustApplication = keychainTrustApplication cfg,
      kc_FileDir = fileDir cfg,
      kc_FilePasswordFunc = filePassword cfg,
      kc_PassDir = passDir cfg,
      kc_PassCmd = passCmd cfg,
      kc_PassPrefix = passPrefix cfg,
      kc_OPTimeout = opTimeout cfg,
      kc_OPVaultID = opVaultID cfg,
      kc_OPItemTitlePrefix = opItemTitlePrefix cfg,
      kc_OPItemTag = opItemTag cfg,
      kc_OPItemFieldTitle = opItemFieldTitle cfg,
      kc_OPConnectHost = opConnectHost cfg,
      kc_OPConnectTokenEnv = opConnectTokenEnv cfg,
      kc_OPTokenEnv = opTokenEnv cfg,
      kc_OPDesktopAccountID = opDesktopAccountID cfg\<rparr>"

section \<open>The adapter\<close>

record 'x bytenessBackend =
  bb_kr :: 'x

definition on_bb :: "'x bytenessBackend \<Rightarrow> ('x \<Rightarrow> 'x \<times> 'r) \<Rightarrow> 'x bytenessBackend \<times> 'r" where
  "on_bb b f = (case f (bb_kr b) of (x, r) \<Rightarrow> (b\<lparr>bb_kr := x\<rparr>, r))"

definition byteness_get :: "'x Keyring \<Rightarrow> 'x bytenessBackend \<Rightarrow> string \<Rightarrow> 'x bytenessBackend \<times> keyringItem result" where
  "byteness_get X b itemKey =
     (case on_bb b (\<lambda>x. x_Get X x itemKey) of
        (b', Inl e) \<Rightarrow>
          (if errors_Is e keyring_ErrKeyNotFound then (b', Inl (Sentinel errKeyringItemNotFound))
           else (b', Inl e))
      | (b', Inr it) \<Rightarrow>
          (b', Inr \<lparr>ki_key = it_Key it, ki_data = it_Data it, ki_label = it_Label it,
             ki_description = it_Description it,
             keychainNotTrustApplication = it_KeychainNotTrustApplication it,
             keychainNotSynchronizable = it_KeychainNotSynchronizable it\<rparr>))"

definition byteness_metadata ::
  "'x Keyring \<Rightarrow> 'x bytenessBackend \<Rightarrow> string \<Rightarrow> 'x bytenessBackend \<times> keyringItem result"
where
  "byteness_metadata X b itemKey =
     (case on_bb b (\<lambda>x. x_GetMetadata X x itemKey) of
        (b', Inl e) \<Rightarrow>
          (b', Inl (if errors_Is e keyring_ErrKeyNotFound then Sentinel errKeyringItemNotFound
            else if errors_Is e keyring_ErrMetadataNotSupported \<or> errors_Is e keyring_ErrMetadataNeedsCredentials
              then Sentinel errKeyringMetadataUnsupported
            else e))
      | (b', Inr md) \<Rightarrow>
          (case md_Item md of
             None \<Rightarrow>
               (if md_ModificationTime md = 0 then (b', Inl (Sentinel errKeyringMetadataUnsupported))
                else (b', Inr keyringItem_zero))
           | Some it \<Rightarrow>
               (b', Inr (keyringItem_zero\<lparr>ki_key := it_Key it, ki_label := it_Label it,
                  ki_description := it_Description it,
                  keychainNotTrustApplication := it_KeychainNotTrustApplication it,
                  keychainNotSynchronizable := it_KeychainNotSynchronizable it\<rparr>))))"

definition byteness_set :: "'x Keyring \<Rightarrow> 'x bytenessBackend \<Rightarrow> keyringItem \<Rightarrow> 'x bytenessBackend \<times> err option" where
  "byteness_set X b it =
     on_bb b (\<lambda>x. x_Set X x \<lparr>it_Key = ki_key it, it_Data = ki_data it, it_Label = ki_label it,
       it_Description = ki_description it,
       it_KeychainNotTrustApplication = keychainNotTrustApplication it,
       it_KeychainNotSynchronizable = keychainNotSynchronizable it\<rparr>)"

definition byteness_remove :: "'x Keyring \<Rightarrow> 'x bytenessBackend \<Rightarrow> string \<Rightarrow> 'x bytenessBackend \<times> err option" where
  "byteness_remove X b itemKey =
     (case on_bb b (\<lambda>x. x_Remove X x itemKey) of
        (b', Some e) \<Rightarrow>
          (if errors_Is e keyring_ErrKeyNotFound then (b', Some (Sentinel errKeyringItemNotFound))
           else (b', Some e))
      | (b', None) \<Rightarrow> (b', None))"

definition byteness_keys :: "'x Keyring \<Rightarrow> 'x bytenessBackend \<Rightarrow> 'x bytenessBackend \<times> string list result" where
  "byteness_keys X b = on_bb b (x_Keys X)"

definition byteness_ops :: "'x Keyring \<Rightarrow> 'x bytenessBackend keyringBackend" where
  "byteness_ops X =
     \<lparr>kr_get = byteness_get X, kr_metadata = byteness_metadata X, kr_set = byteness_set X,
      kr_remove = byteness_remove X, kr_keys = byteness_keys X\<rparr>"

lemma byteness_ops_simps [simp]:
  "kr_get (byteness_ops X) = byteness_get X" "kr_metadata (byteness_ops X) = byteness_metadata X"
  "kr_set (byteness_ops X) = byteness_set X" "kr_remove (byteness_ops X) = byteness_remove X"
  "kr_keys (byteness_ops X) = byteness_keys X"
  by (simp_all add: byteness_ops_def)

lemmas byteness_defs =
  byteness_get_def byteness_metadata_def byteness_set_def byteness_remove_def byteness_keys_def on_bb_def

section \<open>Opening\<close>

text \<open>The dynamic type of a keyring in these builds.\<close>

datatype 'x cgoKeyring =
    BytenessKeyring "'x bytenessBackend"
  | StableKeychain "'x bytenessBackend keychainStableReadBackend"

definition openKeyringBackend_byteness ::
  "host \<Rightarrow> (keyringConfig \<Rightarrow> 'x result) \<Rightarrow> Backend \<Rightarrow> backendConfig \<Rightarrow> 'x cgoKeyring result"
where
  "openKeyringBackend_byteness h keyring_Open kind cfg =
     (case keyring_Open (keyringConfigFromBackendConfig cfg) of
        Inl e \<Rightarrow> Inl (Wrapf [Lit ''keyring open '', Lit kind, Lit '': ''] e [])
      | Inr kr \<Rightarrow>
          (let be = \<lparr>bb_kr = kr\<rparr> in
           if kind = BackendKeychain \<and> host_GOOS h = ''darwin'' then
             Inr (StableKeychain \<lparr>ks_keyring = be, ks_service = serviceName cfg\<rparr>)
           else Inr (BytenessKeyring be)))"

text \<open>The methods of the opened keyring; \<open>read\<close> is \<open>readKeychainPassword\<close> against the keychain.\<close>

definition cgo_map :: "('a \<Rightarrow> 'x cgoKeyring) \<Rightarrow> 'a \<times> 'r \<Rightarrow> 'x cgoKeyring \<times> 'r" where
  "cgo_map C p = (case p of (b, r) \<Rightarrow> (C b, r))"

definition cgo_call ::
  "('x bytenessBackend \<Rightarrow> 'x bytenessBackend \<times> 'r) \<Rightarrow>
     ('x bytenessBackend keychainStableReadBackend \<Rightarrow> 'x bytenessBackend keychainStableReadBackend \<times> 'r) \<Rightarrow>
     'x cgoKeyring \<Rightarrow> 'x cgoKeyring \<times> 'r"
where
  "cgo_call f g k =
     (case k of
        BytenessKeyring b \<Rightarrow> cgo_map BytenessKeyring (f b)
      | StableKeychain b \<Rightarrow> cgo_map StableKeychain (g b))"

definition cgo_ops ::
  "'x Keyring \<Rightarrow> ('x bytenessBackend \<Rightarrow> string \<Rightarrow> string \<Rightarrow> string result) \<Rightarrow> 'x cgoKeyring keyringBackend"
where
  "cgo_ops X read =
     (let bo = byteness_ops X; so = stable_ops (byteness_ops X) read in
      \<lparr>kr_get = (\<lambda>k i. cgo_call (\<lambda>b. kr_get bo b i) (\<lambda>b. kr_get so b i) k),
       kr_metadata = (\<lambda>k i. cgo_call (\<lambda>b. kr_metadata bo b i) (\<lambda>b. kr_metadata so b i) k),
       kr_set = (\<lambda>k it. cgo_call (\<lambda>b. kr_set bo b it) (\<lambda>b. kr_set so b it) k),
       kr_remove = (\<lambda>k i. cgo_call (\<lambda>b. kr_remove bo b i) (\<lambda>b. kr_remove so b i) k),
       kr_keys = cgo_call (kr_keys bo) (kr_keys so)\<rparr>)"

section \<open>What is relied on of the library\<close>

text \<open>An error of the library: none of the sentinels of this module.\<close>

definition library_error :: "err \<Rightarrow> bool" where
  "library_error e \<longleftrightarrow> foreign_error e \<and> \<not> errors_Is e errKeyringMetadataUnsupported"

definition keyring_contract :: "'x Keyring \<Rightarrow> ('x \<Rightarrow> kvmap) \<Rightarrow> ('x \<Rightarrow> bool) \<Rightarrow> bool" where
  "keyring_contract X view good \<longleftrightarrow>
     (\<forall>x i. good x \<longrightarrow> usable view x i \<longrightarrow>
        (case x_Get X x i of (x', r) \<Rightarrow>
           good x' \<and> view x' = view x \<and>
           (case r of
              Inr it \<Rightarrow> view x i = Some (it_Data it)
            | Inl e \<Rightarrow> library_error e \<and> (errors_Is e keyring_ErrKeyNotFound \<longrightarrow> view x i = None)))) \<and>
     (\<forall>x i. good x \<longrightarrow> usable view x i \<longrightarrow>
        (case x_GetMetadata X x i of (x', r) \<Rightarrow>
           good x' \<and> view x' = view x \<and>
           (case r of
              Inr md \<Rightarrow> md_Item md \<noteq> None \<or> md_ModificationTime md \<noteq> 0 \<longrightarrow> view x i \<noteq> None
            | Inl e \<Rightarrow> library_error e \<and> (errors_Is e keyring_ErrKeyNotFound \<longrightarrow> view x i = None)))) \<and>
     (\<forall>x it. good x \<longrightarrow> usable view x (it_Key it) \<longrightarrow>
        (case x_Set X x it of (x', r) \<Rightarrow>
           good x' \<and>
           (case r of
              None \<Rightarrow> view x' = (view x)(it_Key it \<mapsto> it_Data it)
            | Some e \<Rightarrow> library_error e \<and> same_except {it_Key it} (view x) (view x')))) \<and>
     (\<forall>x i. good x \<longrightarrow> usable view x i \<longrightarrow>
        (case x_Remove X x i of (x', r) \<Rightarrow>
           good x' \<and>
           (case r of
              None \<Rightarrow> view x' = (view x)(i := None) \<and> view x i \<noteq> None
            | Some e \<Rightarrow> library_error e \<and> same_except {i} (view x) (view x') \<and>
                (errors_Is e keyring_ErrKeyNotFound \<longrightarrow> view x i = None \<and> view x' = view x)))) \<and>
     (\<forall>x. good x \<longrightarrow>
        (case x_Keys X x of (x', r) \<Rightarrow>
           good x' \<and> view x' = view x \<and>
           (case r of Inr ks \<Rightarrow> distinct ks \<and> set ks = dom (view x) | Inl e \<Rightarrow> True)))"

definition keyring_reliable :: "'x Keyring \<Rightarrow> ('x \<Rightarrow> kvmap) \<Rightarrow> ('x \<Rightarrow> bool) \<Rightarrow> bool" where
  "keyring_reliable X view good \<longleftrightarrow>
     (\<forall>x i. good x \<longrightarrow> usable view x i \<longrightarrow>
        (case snd (x_Get X x i) of Inr it \<Rightarrow> True | Inl e \<Rightarrow> errors_Is e keyring_ErrKeyNotFound) \<and>
        (case snd (x_GetMetadata X x i) of
           Inr md \<Rightarrow> md_Item md \<noteq> None \<or> md_ModificationTime md \<noteq> 0
         | Inl e \<Rightarrow> errors_Is e keyring_ErrKeyNotFound) \<and>
        (case snd (x_Remove X x i) of None \<Rightarrow> True | Some e \<Rightarrow> errors_Is e keyring_ErrKeyNotFound)) \<and>
     (\<forall>x it. good x \<longrightarrow> usable view x (it_Key it) \<longrightarrow> snd (x_Set X x it) = None) \<and>
     (\<forall>x. good x \<longrightarrow> \<not> isl (snd (x_Keys X x)))"

section \<open>The adapters keep the laws\<close>

lemma library_own: "library_error e \<Longrightarrow> own_error e \<and> \<not> errors_Is e errKeyringItemNotFound"
  by (simp add: library_error_def foreign_error_def)

text \<open>What a write passes on.\<close>

abbreviation wire :: "keyringItem \<Rightarrow> Item" where
  "wire it \<equiv> \<lparr>it_Key = ki_key it, it_Data = ki_data it, it_Label = ki_label it,
     it_Description = ki_description it,
     it_KeychainNotTrustApplication = keychainNotTrustApplication it,
     it_KeychainNotSynchronizable = keychainNotSynchronizable it\<rparr>"

lemma byteness_laws:
  assumes "keyring_contract X view good"
  shows "keyring_laws (byteness_ops X) (\<lambda>b. view (bb_kr b)) (\<lambda>b. good (bb_kr b))"
proof (rule keyring_lawsI, goal_cases)
  case (1 b i)
  then show ?case
    using assms [unfolded keyring_contract_def, THEN conjunct1, rule_format, of "bb_kr b" i] library_own
    by (auto simp: byteness_defs get_law_def split: prod.splits sum.splits)
next
  case (2 b i)
  then show ?case
    using assms [unfolded keyring_contract_def, THEN conjunct2, THEN conjunct1, rule_format, of "bb_kr b" i] library_own
    by (auto simp: byteness_defs metadata_law_def split: prod.splits sum.splits option.splits)
next
  case (3 b it)
  then show ?case
    using assms [unfolded keyring_contract_def, THEN conjunct2, THEN conjunct2, THEN conjunct1, rule_format, of "bb_kr b" "wire it"]
      library_own
    by (auto simp: byteness_defs set_law_def split: prod.splits option.splits)
next
  case (4 b i)
  then show ?case
    using assms [unfolded keyring_contract_def, THEN conjunct2, THEN conjunct2, THEN conjunct2, THEN conjunct1,
        rule_format, of "bb_kr b" i] library_own
    by (auto simp: byteness_defs remove_law_def split: prod.splits option.splits)
next
  case (5 b)
  then show ?case
    using assms [unfolded keyring_contract_def, THEN conjunct2, THEN conjunct2, THEN conjunct2, THEN conjunct2,
        rule_format, of "bb_kr b"]
    by (auto simp: byteness_defs keys_law_def split: prod.splits)
qed

section \<open>Exactness of a reliable library\<close>

lemma reliableD:
  assumes "keyring_reliable X view good" "good x"
  shows "usable view x i \<Longrightarrow>
      (case snd (x_Get X x i) of Inr it \<Rightarrow> True | Inl e \<Rightarrow> errors_Is e keyring_ErrKeyNotFound)"
    "usable view x i \<Longrightarrow>
      (case snd (x_GetMetadata X x i) of Inr md \<Rightarrow> md_Item md \<noteq> None \<or> md_ModificationTime md \<noteq> 0
       | Inl e \<Rightarrow> errors_Is e keyring_ErrKeyNotFound)"
    "usable view x i \<Longrightarrow> (case snd (x_Remove X x i) of None \<Rightarrow> True | Some e \<Rightarrow> errors_Is e keyring_ErrKeyNotFound)"
    "usable view x (it_Key it) \<Longrightarrow> snd (x_Set X x it) = None"
    "\<not> isl (snd (x_Keys X x))"
  using assms unfolding keyring_reliable_def by blast+

lemma byteness_exact:
  assumes C: "keyring_contract X view good" and R: "keyring_reliable X view good"
  shows "exact_keyring (byteness_ops X) (\<lambda>b. view (bb_kr b)) (\<lambda>b. good (bb_kr b))"
proof (rule exact_keyringI [OF byteness_laws [OF C]], goal_cases)
  case (1 b i)
  then show ?case
    using reliableD(1) [OF R, of "bb_kr b" i]
    by (auto simp: byteness_defs found_or_absent_def split: prod.splits sum.splits)
next
  case (2 b i)
  then show ?case
    using reliableD(2) [OF R, of "bb_kr b" i]
    by (auto simp: byteness_defs found_or_absent_def split: prod.splits sum.splits option.splits)
next
  case (3 b it)
  then show ?case
    using reliableD(4) [OF R, of "bb_kr b" "wire it"] by (auto simp: byteness_defs split: prod.splits)
next
  case (4 b i)
  then show ?case
    using reliableD(3) [OF R, of "bb_kr b" i]
    by (auto simp: byteness_defs removed_or_absent_def split: prod.splits option.splits)
next
  case (5 b)
  then show ?case
    using reliableD(5) [OF R, of "bb_kr b"] by (auto simp: byteness_defs split: prod.splits)
qed

lemma security_found:
  assumes "security_contract sec svc view good" "security_reliable sec svc view good" "good k" "usable view k i"
  shows "case readKeychainPassword (sec k) None svc i of Inr d \<Rightarrow> True | Inl e \<Rightarrow> e = Sentinel errKeyringItemNotFound"
proof -
  let ?args = "[''find-generic-password'', ''-s'', svc, ''-a'', i, ''-g'']"
  obtain out msg e where run: "sec k ''/usr/bin/security'' ?args = (out, msg, e)"
    by (cases "sec k ''/usr/bin/security'' ?args") auto
  note c = assms(1) [unfolded security_contract_def, rule_format, OF assms(3,4)]
    and r = assms(2) [unfolded security_reliable_def, rule_format, OF assms(3,4)]
  show ?thesis
  proof (cases e)
    case None
    with c run have "\<exists>pre upper display s post. msg = pre @ security_line upper display s @ post \<and>
        (pre = '''' \<or> last pre = newline) \<and> no_password_line pre \<and> view k i = Some s" by simp
    then obtain s where "parseKeychainPassword msg = Inr s" using parse_security_line by blast
    with None run show ?thesis
      by (simp add: readKeychainPassword_def readKeychainPasswordWith_def runSecurity_def)
  next
    case (Some x)
    with run r show ?thesis
      by (simp add: readKeychainPassword_def readKeychainPasswordWith_def runSecurity_def)
  qed
qed

lemma stable_exact:
  assumes native: "exact_keyring kro view good"
    and C: "security_contract sec svc view good" and R: "security_reliable sec svc view good"
  shows "exact_keyring (stable_ops kro (\<lambda>k. readKeychainPassword (sec k) None))
    (\<lambda>b. view (ks_keyring b)) (\<lambda>b. ks_service b = svc \<and> good (ks_keyring b))"
proof (rule exact_keyringI, goal_cases)
  case 1
  show ?case
    by (rule stable_laws [OF exact_keyring.axioms(1) [OF native]])
      (use security_read [OF C, where ctx = "\<lambda>_. None"] in simp)
next
  case (2 b i)
  then show ?case
    using security_found [OF C R, of "ks_keyring b" i]
    by (auto simp: stable_defs found_or_absent_def split: sum.splits)
next
  case (3 b i)
  then show ?case
    using exact_keyring.exact_calls(2) [OF native, of "ks_keyring b" i]
    by (auto simp: stable_defs found_or_absent_def split: prod.splits)
next
  case (4 b it)
  then show ?case
    using exact_keyring.exact_calls(3) [OF native, of "ks_keyring b" it] by (auto simp: stable_defs split: prod.splits)
next
  case (5 b i)
  then show ?case
    using exact_keyring.exact_calls(4) [OF native, of "ks_keyring b" i]
    by (auto simp: stable_defs removed_or_absent_def split: prod.splits)
next
  case (6 b)
  then show ?case
    using exact_keyring.exact_calls(5) [OF native, of "ks_keyring b"] by (auto simp: stable_defs split: prod.splits)
qed

section \<open>The opened keyring\<close>

definition cgo_view :: "('x \<Rightarrow> kvmap) \<Rightarrow> 'x cgoKeyring \<Rightarrow> kvmap" where
  "cgo_view view k = (case k of BytenessKeyring b \<Rightarrow> view (bb_kr b) | StableKeychain b \<Rightarrow> view (bb_kr (ks_keyring b)))"

definition cgo_good :: "string \<Rightarrow> ('x \<Rightarrow> bool) \<Rightarrow> 'x cgoKeyring \<Rightarrow> bool" where
  "cgo_good svc good k =
     (case k of
        BytenessKeyring b \<Rightarrow> good (bb_kr b)
      | StableKeychain b \<Rightarrow> ks_service b = svc \<and> good (bb_kr (ks_keyring b)))"

lemma cgo_simps [simp]:
  "cgo_view view (BytenessKeyring b) = view (bb_kr b)"
  "cgo_view view (StableKeychain c) = view (bb_kr (ks_keyring c))"
  "cgo_good svc good (BytenessKeyring b) = good (bb_kr b)"
  "cgo_good svc good (StableKeychain c) \<longleftrightarrow> ks_service c = svc \<and> good (bb_kr (ks_keyring c))"
  "cgo_call f g (BytenessKeyring b) = (case f b of (b', r) \<Rightarrow> (BytenessKeyring b', r))"
  "cgo_call f g (StableKeychain c) = (case g c of (c', r) \<Rightarrow> (StableKeychain c', r))"
  "usable (cgo_view view) (BytenessKeyring b) i = usable view (bb_kr b) i"
  "usable (cgo_view view) (StableKeychain c) i = usable view (bb_kr (ks_keyring c)) i"
  by (simp_all add: cgo_view_def cgo_good_def cgo_call_def cgo_map_def usable_def split: prod.splits)

lemma cgo_laws:
  assumes b: "keyring_laws (byteness_ops X) (\<lambda>b. view (bb_kr b)) (\<lambda>b. good (bb_kr b))"
    and s: "keyring_laws (stable_ops (byteness_ops X) read) (\<lambda>c. view (bb_kr (ks_keyring c)))
      (\<lambda>c. ks_service c = svc \<and> good (bb_kr (ks_keyring c)))"
  shows "keyring_laws (cgo_ops X read) (cgo_view view) (cgo_good svc good)"
proof (rule keyring_lawsI, goal_cases)
  case (1 k i)
  then show ?case
  proof (cases k)
    case (BytenessKeyring c)
    with 1 keyring_laws.calls(1) [OF b, of c i] show ?thesis
      by (auto simp: usable_def cgo_ops_def Let_def get_law_def split: prod.split sum.split)
  next
    case (StableKeychain c)
    with 1 keyring_laws.calls(1) [OF s, of c i] show ?thesis
      by (auto simp: usable_def cgo_ops_def Let_def get_law_def split: prod.split sum.split)
  qed
next
  case (2 k i)
  then show ?case
  proof (cases k)
    case (BytenessKeyring c)
    with 2 keyring_laws.calls(2) [OF b, of c i] show ?thesis
      by (auto simp: usable_def cgo_ops_def Let_def metadata_law_def split: prod.split sum.split)
  next
    case (StableKeychain c)
    with 2 keyring_laws.calls(2) [OF s, of c i] show ?thesis
      by (auto simp: usable_def cgo_ops_def Let_def metadata_law_def split: prod.split sum.split)
  qed
next
  case (3 k it)
  then show ?case
  proof (cases k)
    case (BytenessKeyring c)
    with 3 keyring_laws.calls(3) [OF b, of c it] show ?thesis
      by (auto simp: usable_def cgo_ops_def Let_def set_law_def split: prod.split option.split)
  next
    case (StableKeychain c)
    with 3 keyring_laws.calls(3) [OF s, of c it] show ?thesis
      by (auto simp: usable_def cgo_ops_def Let_def set_law_def split: prod.split option.split)
  qed
next
  case (4 k i)
  then show ?case
  proof (cases k)
    case (BytenessKeyring c)
    with 4 keyring_laws.calls(4) [OF b, of c i] show ?thesis
      by (auto simp: usable_def cgo_ops_def Let_def remove_law_def split: prod.split option.split)
  next
    case (StableKeychain c)
    with 4 keyring_laws.calls(4) [OF s, of c i] show ?thesis
      by (auto simp: usable_def cgo_ops_def Let_def remove_law_def split: prod.split option.split)
  qed
next
  case (5 k)
  then show ?case
  proof (cases k)
    case (BytenessKeyring c)
    with 5 keyring_laws.calls(5) [OF b, of c] show ?thesis
      by (auto simp: usable_def cgo_ops_def Let_def keys_law_def split: prod.split sum.split)
  next
    case (StableKeychain c)
    with 5 keyring_laws.calls(5) [OF s, of c] show ?thesis
      by (auto simp: usable_def cgo_ops_def Let_def keys_law_def split: prod.split sum.split)
  qed
qed

lemma cgo_exact:
  assumes b: "exact_keyring (byteness_ops X) (\<lambda>b. view (bb_kr b)) (\<lambda>b. good (bb_kr b))"
    and s: "exact_keyring (stable_ops (byteness_ops X) read) (\<lambda>c. view (bb_kr (ks_keyring c)))
      (\<lambda>c. ks_service c = svc \<and> good (bb_kr (ks_keyring c)))"
  shows "exact_keyring (cgo_ops X read) (cgo_view view) (cgo_good svc good)"
proof (rule exact_keyringI, goal_cases)
  case 1
  show ?case
    using cgo_laws exact_keyring.axioms(1) [OF b] exact_keyring.axioms(1) [OF s] by blast
next
  case (2 k i)
  then show ?case
  proof (cases k)
    case (BytenessKeyring c)
    with 2 exact_keyring.exact_calls(1) [OF b, of c i] show ?thesis
      by (auto simp: usable_def cgo_ops_def Let_def found_or_absent_def split: prod.split)
  next
    case (StableKeychain c)
    with 2 exact_keyring.exact_calls(1) [OF s, of c i] show ?thesis
      by (auto simp: usable_def cgo_ops_def Let_def found_or_absent_def split: prod.split)
  qed
next
  case (3 k i)
  then show ?case
  proof (cases k)
    case (BytenessKeyring c)
    with 3 exact_keyring.exact_calls(2) [OF b, of c i] show ?thesis
      by (auto simp: usable_def cgo_ops_def Let_def found_or_absent_def split: prod.split)
  next
    case (StableKeychain c)
    with 3 exact_keyring.exact_calls(2) [OF s, of c i] show ?thesis
      by (auto simp: usable_def cgo_ops_def Let_def found_or_absent_def split: prod.split)
  qed
next
  case (4 k it)
  then show ?case
  proof (cases k)
    case (BytenessKeyring c)
    with 4 exact_keyring.exact_calls(3) [OF b, of c it] show ?thesis
      by (auto simp: usable_def cgo_ops_def Let_def split: prod.split)
  next
    case (StableKeychain c)
    with 4 exact_keyring.exact_calls(3) [OF s, of c it] show ?thesis
      by (auto simp: usable_def cgo_ops_def Let_def split: prod.split)
  qed
next
  case (5 k i)
  then show ?case
  proof (cases k)
    case (BytenessKeyring c)
    with 5 exact_keyring.exact_calls(4) [OF b, of c i] show ?thesis
      by (auto simp: usable_def cgo_ops_def Let_def removed_or_absent_def split: prod.split)
  next
    case (StableKeychain c)
    with 5 exact_keyring.exact_calls(4) [OF s, of c i] show ?thesis
      by (auto simp: usable_def cgo_ops_def Let_def removed_or_absent_def split: prod.split)
  qed
next
  case (6 k)
  then show ?case
  proof (cases k)
    case (BytenessKeyring c)
    with 6 exact_keyring.exact_calls(5) [OF b, of c] show ?thesis
      by (auto simp: usable_def cgo_ops_def Let_def split: prod.split)
  next
    case (StableKeychain c)
    with 6 exact_keyring.exact_calls(5) [OF s, of c] show ?thesis
      by (auto simp: usable_def cgo_ops_def Let_def split: prod.split)
  qed
qed

end
