(* ===== verification/CgoProps.thy ===== *)
theory CgoProps
  imports Byteness Open
begin

text \<open>
  The store of the CGO and Windows builds, from \<open>Open\<close> through the adapters to the ByteNess keyring and,
  for the macOS keychain, the \<open>security\<close> program: what holds when the library and the program behave as
  documented.
\<close>

text \<open>The methods of a store opened in such a build; \<open>sec\<close> runs programs against the keychain.\<close>

abbreviation cgo_store_ops ::
  "'x Keyring \<Rightarrow> ('x bytenessBackend \<Rightarrow> exec) \<Rightarrow> 'x cgoKeyring osKeyringBackend backend"
where
  "cgo_store_ops X sec \<equiv> os_ops (cgo_ops X (\<lambda>b. readKeychainPassword (sec b) None))"

lemma cgo_opened:
  assumes "openWithDeps rt h (openKeyringBackend_byteness h keyring_Open) service opts getenv goos probe = Inr s"
    "st_be s = Some (Inr b)"
    "\<And>c x. keyring_Open c = Inr x \<Longrightarrow> good x \<and> (\<forall>ik \<in> dom (view x). is_item_key ik)"
  shows "store_wf (os_good (cgo_good service good)) (os_view (cgo_view view)) (over s b)"
  using assms(1)
proof (cases rule: openWithDeps_cases)
  case (1 be)
  with assms(2) have "openOSBackend rt h (openKeyringBackend_byteness h keyring_Open) (st_kind s) service
      (Some (case opts of None \<Rightarrow> Options_zero | Some o1 \<Rightarrow> o1)) getenv = Inr b" by simp
  then obtain cfg where cfg: "buildKeyringConfig rt h (st_kind s) service (Some (case opts of None \<Rightarrow> Options_zero | Some o1 \<Rightarrow> o1)) getenv = Inr cfg"
    "openKeyringBackend_byteness h keyring_Open (st_kind s) cfg = Inr (os_kr b)"
    by (rule openOSBackend_cases)
  have name: "serviceName cfg = service" using buildKeyringConfig_names [OF cfg(1)] by simp
  from cfg(2) obtain x where x: "keyring_Open (keyringConfigFromBackendConfig cfg) = Inr x"
    "os_kr b = BytenessKeyring \<lparr>bb_kr = x\<rparr> \<or>
     os_kr b = StableKeychain \<lparr>ks_keyring = \<lparr>bb_kr = x\<rparr>, ks_service = serviceName cfg\<rparr>"
    by (auto simp: openKeyringBackend_byteness_def Let_def eq_commute [of _ "os_kr b"] split: sum.splits if_splits)
  then have "cgo_good service good (os_kr b)" "cgo_view view (os_kr b) = view x"
    using assms(3) name by auto
  moreover note x(1)
  moreover have "case st_allowed s of None \<Rightarrow> st_allowedList s = []
      | Some A \<Rightarrow> finite A \<and> A \<noteq> {} \<and> (\<forall>k \<in> A. validSegment k) \<and> st_allowedList s = sorted_list_of_set A"
    using normalizeAllowedKeys_Inr [OF 1(2)] by (auto split: option.split)
  moreover have "\<exists>p k. joinItemKey p k = Inr ik" if "is_item_key ik" for ik
    using that by (auto simp: is_item_key_def joinItemKey_Inr)
  ultimately show ?thesis
    using 1(5) assms(3) [of "keyringConfigFromBackendConfig cfg" x]
    by (auto simp: store_wf_def store_ok_def store_view_def over_def os_good_def os_view_def split: option.splits)
qed


section \<open>A keyring for the witness\<close>

text \<open>A keyring kept in memory, and a \<open>security\<close> that prints from it.\<close>

definition demo_Keyring :: "(string \<times> string) list Keyring" where
  "demo_Keyring = \<lparr>
     x_Get = (\<lambda>x i. (x, case map_of x i of
        None \<Rightarrow> Inl (Sentinel keyring_ErrKeyNotFound)
      | Some v \<Rightarrow> Inr \<lparr>it_Key = i, it_Data = v, it_Label = '''', it_Description = '''',
          it_KeychainNotTrustApplication = False, it_KeychainNotSynchronizable = False\<rparr>)),
     x_GetMetadata = (\<lambda>x i. (x, case map_of x i of
        None \<Rightarrow> Inl (Sentinel keyring_ErrKeyNotFound)
      | Some v \<Rightarrow> Inr \<lparr>md_Item = None, md_ModificationTime = 1\<rparr>)),
     x_Set = (\<lambda>x it. (AList.update (it_Key it) (it_Data it) x, None)),
     x_Remove = (\<lambda>x i. case map_of x i of
        None \<Rightarrow> (x, Some (Sentinel keyring_ErrKeyNotFound))
      | Some v \<Rightarrow> (AList.delete i x, None)),
     x_Keys = (\<lambda>x. (x, Inr (map fst x)))\<rparr>"

definition demo_security :: "(string \<times> string) list bytenessBackend \<Rightarrow> exec" where
  "demo_security b path args =
     (case map_of (bb_kr b) (args ! 4) of
        None \<Rightarrow> ('''', '''', Some (ExitError 44 ''exit status 44''))
      | Some v \<Rightarrow> ('''', security_line True '''' v, None))"

definition mac_host :: host where
  "mac_host = \<lparr>host_GOOS = ''darwin'', host_env = (\<lambda>_. ''''), host_lookPath = (\<lambda>_. None), host_no1password = False\<rparr>"

definition mac_open :: "(memoryBackend + (string \<times> string) list cgoKeyring osKeyringBackend) Store result" where
  "mac_open = openWithDeps no_tables mac_host (openKeyringBackend_byteness mac_host (\<lambda>_. Inr []))
     ''jtk'' None (\<lambda>_. '''') ''darwin'' (\<lambda>_ _. None)"

lemma demo_contract:
  "keyring_contract demo_Keyring map_of (\<lambda>x. distinct (map fst x))"
  "keyring_reliable demo_Keyring map_of (\<lambda>x. distinct (map fst x))"
  by (auto simp: keyring_contract_def keyring_reliable_def demo_Keyring_def library_error_def foreign_error_def
      own_error_def update_conv' delete_conv' distinct_update distinct_delete dom_map_of_conv_image_fst
      split: option.split)

lemma demo_security_contract:
  "security_contract demo_security svc (\<lambda>b. map_of (bb_kr b)) (\<lambda>b. distinct (map fst (bb_kr b)))"
  "security_reliable demo_security svc (\<lambda>b. map_of (bb_kr b)) (\<lambda>b. distinct (map fst (bb_kr b)))"
proof -
  have "\<exists>pre upper display s post. security_line True '''' v = pre @ security_line upper display s @ post \<and>
      (pre = '''' \<or> last pre = newline) \<and> no_password_line pre \<and> Some v = Some s" for v
    by (intro exI [of _ "''''"] exI [of _ True] exI [of _ v])
       (simp add: no_password_line_def keychain_prefix_def)
  then show "security_contract demo_security svc (\<lambda>b. map_of (bb_kr b)) (\<lambda>b. distinct (map fst (bb_kr b)))"
    by (auto simp: security_contract_def demo_security_def own_error_def simp del: map_of_eq_Some_iff split: option.split)
  show "security_reliable demo_security svc (\<lambda>b. map_of (bb_kr b)) (\<lambda>b. distinct (map fst (bb_kr b)))"
    by (auto simp: security_reliable_def demo_security_def split: option.split)
qed


end
