(* ===== verification/SecretService.thy ===== *)
theory SecretService
  imports KeyringLaws Hex Config
begin

text \<open>
  The Secret Service keyring of the static Linux build: \<open>secretservice_core.go\<close>, written against the
  interfaces \<open>secretServiceService\<close>, \<open>secretServiceCollection\<close> and \<open>secretServiceItem\<close>, and the adapters of
  \<open>secretservice_nocgo_linux.go\<close> that implement them over the libsecret client. An interface is a method
  table over the state \<open>'w\<close> of the service and handles \<open>'c\<close>, \<open>'i\<close> to collections and items; an unlock
  target is a value of type \<open>'u\<close>. The libsecret client is a parameter, the method table \<open>libsecret\<close>.
\<close>

section \<open>Interfaces\<close>

record ('w, 'c, 'u) secretServiceService =
  ss_open :: "'w \<Rightarrow> 'w \<times> err option"
  ss_collections :: "'w \<Rightarrow> 'w \<times> 'c list result"
  ss_createCollection :: "'w \<Rightarrow> string \<Rightarrow> 'w \<times> 'c result"
  ss_unlock :: "'w \<Rightarrow> 'u \<Rightarrow> 'w \<times> err option"

record ('w, 'c, 'i, 'u) secretServiceCollection =
  sc_path :: "'c \<Rightarrow> string"
  sc_locked :: "'w \<Rightarrow> 'c \<Rightarrow> 'w \<times> bool result"
  sc_items :: "'w \<Rightarrow> 'c \<Rightarrow> 'w \<times> 'i list result"
  sc_searchItems :: "'w \<Rightarrow> 'c \<Rightarrow> string \<Rightarrow> 'w \<times> 'i list result"
  sc_createItem :: "'w \<Rightarrow> 'c \<Rightarrow> string \<Rightarrow> string \<Rightarrow> 'w \<times> err option"
  sc_unlockTarget :: "'c \<Rightarrow> 'u"

record ('w, 'i, 'u) secretServiceItem =
  si_locked :: "'w \<Rightarrow> 'i \<Rightarrow> 'w \<times> bool result"
  si_secretValue :: "'w \<Rightarrow> 'i \<Rightarrow> 'w \<times> string result"
  si_label :: "'w \<Rightarrow> 'i \<Rightarrow> 'w \<times> string result"
  si_delete :: "'w \<Rightarrow> 'i \<Rightarrow> 'w \<times> err option"
  si_unlockTarget :: "'i \<Rightarrow> 'u"

record ('w, 'c, 'i, 'u) ssMethods =
  m_service :: "('w, 'c, 'u) secretServiceService"
  m_collection :: "('w, 'c, 'i, 'u) secretServiceCollection"
  m_item :: "('w, 'i, 'u) secretServiceItem"

record ('w, 'c) secretServiceBackend =
  ssb_name :: string
  ssb_service :: 'w
  ssb_collection :: "'c option"

section \<open>Paths of collections\<close>

definition secretServiceDBusPath :: string where
  "secretServiceDBusPath = ''/org/freedesktop/secrets''"

text \<open>The escape of a byte in an object path is an underscore and two hexadecimal digits.\<close>

function decodeSecretServicePath :: "string \<Rightarrow> string" where
  "decodeSecretServicePath [] = []"
| "decodeSecretServicePath (c # s) =
     (if c \<noteq> CHR ''_'' then c # decodeSecretServicePath s
      else if length s < 2 then c # decodeSecretServicePath s
      else
        (case hex_Decode (take 2 s) of
           None \<Rightarrow> c # decodeSecretServicePath s
         | Some decoded \<Rightarrow> decoded @ decodeSecretServicePath (drop 2 s)))"
  by pat_completeness auto
termination by (relation "measure length") auto

definition secretServiceCollectionPathMatches :: "string \<Rightarrow> string \<Rightarrow> bool" where
  "secretServiceCollectionPathMatches collectionPath name \<longleftrightarrow>
     decodeSecretServicePath collectionPath = secretServiceDBusPath @ ''/collection/'' @ name"

section \<open>Items\<close>

definition encodeSecretServiceItem :: "codec \<Rightarrow> keyringItem \<Rightarrow> string result" where
  "encodeSecretServiceItem cd it =
     json_Marshal cd \<lparr>pi_Key = ki_key it, pi_Data = ki_data it, pi_Label = '''', pi_Description = '''',
       pi_KeychainNotTrustApplication = False, pi_KeychainNotSynchronizable = False\<rparr>"

definition decodeSecretServiceItem :: "codec \<Rightarrow> string \<Rightarrow> keyringItem result" where
  "decodeSecretServiceItem cd val =
     (case json_Unmarshal cd val of
        Inl e \<Rightarrow> Inl e
      | Inr decoded \<Rightarrow> Inr (keyringItem_zero\<lparr>ki_key := pi_Key decoded, ki_data := pi_Data decoded\<rparr>))"

text \<open>An item is unlocked before it is read if it is locked.\<close>

definition readSecretServiceItem ::
  "codec \<Rightarrow> ('w, 'i, 'u) secretServiceItem \<Rightarrow> 'w \<Rightarrow> 'i \<Rightarrow> ('w \<Rightarrow> 'w \<times> err option) \<Rightarrow> 'w \<times> keyringItem result"
where
  "readSecretServiceItem cd M w item do_unlock =
     (let read = (\<lambda>w. case si_secretValue M w item of
            (w', Inl e) \<Rightarrow> (w', Inl e)
          | (w', Inr val) \<Rightarrow> (w', decodeSecretServiceItem cd val)) in
      case si_locked M w item of
        (w1, Inl e) \<Rightarrow> (w1, Inl e)
      | (w1, Inr locked) \<Rightarrow>
          (if locked then (case do_unlock w1 of (w2, Some e) \<Rightarrow> (w2, Inl e) | (w2, None) \<Rightarrow> read w2)
           else read w1))"

fun secretServiceKeysFromItems :: "('w, 'i, 'u) secretServiceItem \<Rightarrow> 'w \<Rightarrow> 'i list \<Rightarrow> 'w \<times> string list" where
  "secretServiceKeysFromItems M w [] = (w, [])"
| "secretServiceKeysFromItems M w (item # items) =
     (case si_label M w item of
        (w1, Inl _) \<Rightarrow> secretServiceKeysFromItems M w1 items
      | (w1, Inr label) \<Rightarrow>
          (case secretServiceKeysFromItems M w1 items of (w2, keys) \<Rightarrow> (w2, label # keys)))"

definition secretServiceIsMissingCollection :: "err \<Rightarrow> bool" where
  "secretServiceIsMissingCollection e = errors_Is e errSecretServiceCollectionNotFound"

definition secretServiceKeysError :: "err \<Rightarrow> string list result" where
  "secretServiceKeysError e = (if secretServiceIsMissingCollection e then Inr [] else Inl e)"

definition secretServiceNotFoundError :: "err \<Rightarrow> err" where
  "secretServiceNotFoundError e =
     (if secretServiceIsMissingCollection e then Sentinel errKeyringItemNotFound else e)"

section \<open>The backend\<close>

type_synonym ('w, 'c, 'i, 'u, 'r) ss_call =
  "('w, 'c, 'i, 'u) ssMethods \<Rightarrow> ('w, 'c) secretServiceBackend \<Rightarrow> ('w, 'c) secretServiceBackend \<times> 'r"

definition openSecrets :: "('w, 'c, 'i, 'u, err option) ss_call" where
  "openSecrets M b =
     (case ss_open (m_service M) (ssb_service b) of
        (w1, Some e) \<Rightarrow> (b\<lparr>ssb_service := w1\<rparr>, Some e)
      | (w1, None) \<Rightarrow>
          (case ss_collections (m_service M) w1 of
             (w2, Inl e) \<Rightarrow> (b\<lparr>ssb_service := w2\<rparr>, Some e)
           | (w2, Inr collections) \<Rightarrow>
               (case find (\<lambda>c. secretServiceCollectionPathMatches (sc_path (m_collection M) c) (ssb_name b)) collections of
                  Some c \<Rightarrow> (b\<lparr>ssb_service := w2, ssb_collection := Some c\<rparr>, None)
                | None \<Rightarrow> (b\<lparr>ssb_service := w2\<rparr>, None))))"

text \<open>The collection that is there afterwards is returned beside the error.\<close>

definition openCollection :: "('w, 'c, 'i, 'u, 'c result) ss_call" where
  "openCollection M b =
     (case openSecrets M b of
        (b1, Some e) \<Rightarrow> (b1, Inl e)
      | (b1, None) \<Rightarrow>
          (case ssb_collection b1 of
             None \<Rightarrow> (b1, Inl (Sentinel errSecretServiceCollectionNotFound))
           | Some c \<Rightarrow> (b1, Inr c)))"

definition ensureCollectionUnlocked :: "'c \<Rightarrow> ('w, 'c, 'i, 'u, err option) ss_call" where
  "ensureCollectionUnlocked c M b =
     (case sc_locked (m_collection M) (ssb_service b) c of
        (w1, Inl e) \<Rightarrow> (b\<lparr>ssb_service := w1\<rparr>, Some e)
      | (w1, Inr locked) \<Rightarrow>
          (if \<not> locked then (b\<lparr>ssb_service := w1\<rparr>, None)
           else
             (case ss_unlock (m_service M) w1 (sc_unlockTarget (m_collection M) c) of
                (w2, r) \<Rightarrow> (b\<lparr>ssb_service := w2\<rparr>, r))))"

definition ss_get :: "codec \<Rightarrow> string \<Rightarrow> ('w, 'c, 'i, 'u, keyringItem result) ss_call" where
  "ss_get cd itemKey M b =
     (case openCollection M b of
        (b1, Inl e) \<Rightarrow> (b1, Inl (secretServiceNotFoundError e))
      | (b1, Inr c) \<Rightarrow>
          (case sc_searchItems (m_collection M) (ssb_service b1) c itemKey of
             (w, Inl e) \<Rightarrow> (b1\<lparr>ssb_service := w\<rparr>, Inl e)
           | (w, Inr []) \<Rightarrow> (b1\<lparr>ssb_service := w\<rparr>, Inl (Sentinel errKeyringItemNotFound))
           | (w, Inr (item # _)) \<Rightarrow>
               (case readSecretServiceItem cd (m_item M) w item
                   (\<lambda>w. ss_unlock (m_service M) w (si_unlockTarget (m_item M) item)) of
                  (w', r) \<Rightarrow> (b1\<lparr>ssb_service := w'\<rparr>, r))))"

definition ss_metadata :: "string \<Rightarrow> ('w, 'c, 'i, 'u, keyringItem result) ss_call" where
  "ss_metadata itemKey M b =
     (case openCollection M b of
        (b1, Inl e) \<Rightarrow> (b1, Inl (secretServiceNotFoundError e))
      | (b1, Inr c) \<Rightarrow>
          (case sc_searchItems (m_collection M) (ssb_service b1) c itemKey of
             (w, Inl e) \<Rightarrow> (b1\<lparr>ssb_service := w\<rparr>, Inl e)
           | (w, Inr items) \<Rightarrow>
               (b1\<lparr>ssb_service := w\<rparr>,
                if items = [] then Inl (Sentinel errKeyringItemNotFound)
                else Inr (keyringItem_zero\<lparr>ki_key := itemKey\<rparr>))))"

text \<open>From the collection on: unlock it, encode the item, create it.\<close>

definition ss_set_in :: "codec \<Rightarrow> keyringItem \<Rightarrow> 'c \<Rightarrow> ('w, 'c, 'i, 'u, err option) ss_call" where
  "ss_set_in cd it c M b =
     (case ensureCollectionUnlocked c M b of
        (b1, Some e) \<Rightarrow> (b1, Some e)
      | (b1, None) \<Rightarrow>
          (case encodeSecretServiceItem cd it of
             Inl e \<Rightarrow> (b1, Some e)
           | Inr d \<Rightarrow>
               (case sc_createItem (m_collection M) (ssb_service b1) c (ki_key it) d of
                  (w, r) \<Rightarrow> (b1\<lparr>ssb_service := w\<rparr>, r))))"

definition ss_set :: "codec \<Rightarrow> keyringItem \<Rightarrow> ('w, 'c, 'i, 'u, err option) ss_call" where
  "ss_set cd it M b =
     (case openSecrets M b of
        (b1, Some e) \<Rightarrow> (b1, Some e)
      | (b1, None) \<Rightarrow>
          (case ssb_collection b1 of
             Some c \<Rightarrow> ss_set_in cd it c M b1
           | None \<Rightarrow>
               (case ss_createCollection (m_service M) (ssb_service b1) (ssb_name b1) of
                  (w, Inl e) \<Rightarrow> (b1\<lparr>ssb_service := w\<rparr>, Some e)
                | (w, Inr c) \<Rightarrow> ss_set_in cd it c M (b1\<lparr>ssb_service := w, ssb_collection := Some c\<rparr>))))"

definition ss_remove :: "string \<Rightarrow> ('w, 'c, 'i, 'u, err option) ss_call" where
  "ss_remove itemKey M b =
     (case openCollection M b of
        (b1, Inl e) \<Rightarrow> (b1, Some (secretServiceNotFoundError e))
      | (b1, Inr c) \<Rightarrow>
          (case sc_searchItems (m_collection M) (ssb_service b1) c itemKey of
             (w, Inl e) \<Rightarrow> (b1\<lparr>ssb_service := w\<rparr>, Some e)
           | (w, Inr []) \<Rightarrow> (b1\<lparr>ssb_service := w\<rparr>, Some (Sentinel errKeyringItemNotFound))
           | (w, Inr (item # _)) \<Rightarrow>
               (let delete = (\<lambda>w. case si_delete (m_item M) w item of (w', r) \<Rightarrow> (b1\<lparr>ssb_service := w'\<rparr>, r)) in
                case si_locked (m_item M) w item of
                  (w1, Inl e) \<Rightarrow> (b1\<lparr>ssb_service := w1\<rparr>, Some e)
                | (w1, Inr locked) \<Rightarrow>
                    (if locked then
                       (case ss_unlock (m_service M) w1 (si_unlockTarget (m_item M) item) of
                          (w2, Some e) \<Rightarrow> (b1\<lparr>ssb_service := w2\<rparr>, Some e)
                        | (w2, None) \<Rightarrow> delete w2)
                     else delete w1))))"

definition ss_keys :: "('w, 'c, 'i, 'u, string list result) ss_call" where
  "ss_keys M b =
     (case openCollection M b of
        (b1, Inl e) \<Rightarrow> (b1, secretServiceKeysError e)
      | (b1, Inr c) \<Rightarrow>
          (case ensureCollectionUnlocked c M b1 of
             (b2, Some e) \<Rightarrow> (b2, Inl e)
           | (b2, None) \<Rightarrow>
               (case sc_items (m_collection M) (ssb_service b2) c of
                  (w, Inl e) \<Rightarrow> (b2\<lparr>ssb_service := w\<rparr>, Inl e)
                | (w, Inr items) \<Rightarrow>
                    (case secretServiceKeysFromItems (m_item M) w items of
                       (w', keys) \<Rightarrow> (b2\<lparr>ssb_service := w'\<rparr>, Inr keys)))))"

definition ss_ops :: "codec \<Rightarrow> ('w, 'c, 'i, 'u) ssMethods \<Rightarrow> ('w, 'c) secretServiceBackend keyringBackend" where
  "ss_ops cd M =
     \<lparr>kr_get = (\<lambda>b i. ss_get cd i M b), kr_metadata = (\<lambda>b i. ss_metadata i M b),
      kr_set = (\<lambda>b it. ss_set cd it M b), kr_remove = (\<lambda>b i. ss_remove i M b), kr_keys = ss_keys M\<rparr>"

definition openSecretServiceBackendWithService ::
  "('w, 'c, 'i, 'u) ssMethods \<Rightarrow> string \<Rightarrow> 'w \<Rightarrow> ('w, 'c) secretServiceBackend result"
where
  "openSecretServiceBackendWithService M name service =
     (let b = \<lparr>ssb_name = (if name = '''' then ''secret-service'' else name), ssb_service = service,
            ssb_collection = None\<rparr> in
      case openSecrets M b of (b1, Some e) \<Rightarrow> Inl e | (b1, None) \<Rightarrow> Inr b1)"

end
