(* ===== verification/SecretLaws.thy ===== *)
theory SecretLaws
  imports SecretService
begin

text \<open>
  What the Secret Service backend relies on of the service, and that the backend then is a lawful keyring,
  whichever calls fail and whichever items and collections are locked. A service is seen through \<open>ssView\<close>:
  its collections, the secret stored in a collection under a label, and which label of which collection an
  item handle stands for.
\<close>

record ('w, 'c, 'i) ssView =
  v_good :: "'w \<Rightarrow> bool"
  v_colls :: "'w \<Rightarrow> 'c list"
  v_entries :: "'w \<Rightarrow> 'c \<Rightarrow> kvmap"
  v_ref :: "'i \<Rightarrow> 'c \<times> string"

text \<open>A call that changes nothing one can see.\<close>

definition still :: "('w, 'c, 'i) ssView \<Rightarrow> 'w \<Rightarrow> 'w \<Rightarrow> bool" where
  "still V w w' \<longleftrightarrow> v_good V w' \<and> v_colls V w' = v_colls V w \<and> v_entries V w' = v_entries V w"

definition current :: "('w, 'c, 'i, 'u) ssMethods \<Rightarrow> ('w, 'c, 'i) ssView \<Rightarrow> string \<Rightarrow> 'w \<Rightarrow> 'c option" where
  "current M V nm w = find (\<lambda>c. secretServiceCollectionPathMatches (sc_path (m_collection M) c) nm) (v_colls V w)"

definition ss_error :: "err \<Rightarrow> bool" where
  "ss_error e \<longleftrightarrow> foreign_error e \<and> \<not> errors_Is e errSecretServiceCollectionNotFound"

definition fails_as :: "'r result \<Rightarrow> ('r \<Rightarrow> bool) \<Rightarrow> bool" where
  "fails_as r P \<longleftrightarrow> (case r of Inr x \<Rightarrow> P x | Inl e \<Rightarrow> ss_error e)"

definition service_ok :: "('w, 'c, 'i, 'u) ssMethods \<Rightarrow> ('w, 'c, 'i) ssView \<Rightarrow> string \<Rightarrow> 'w \<Rightarrow> bool" where
  "service_ok M V nm w \<longleftrightarrow>
     (case ss_open (m_service M) w of (w', r) \<Rightarrow> still V w w' \<and> pred_option ss_error r) \<and>
     (case ss_collections (m_service M) w of (w', r) \<Rightarrow> still V w w' \<and> fails_as r (\<lambda>cs. cs = v_colls V w)) \<and>
     (\<forall>u. case ss_unlock (m_service M) w u of (w', r) \<Rightarrow> still V w w' \<and> pred_option ss_error r) \<and>
     (case ss_createCollection (m_service M) w nm of
        (w', Inl e) \<Rightarrow> still V w w' \<and> ss_error e
      | (w', Inr c) \<Rightarrow> v_good V w' \<and>
          (current M V nm w = None \<longrightarrow> current M V nm w' = Some c \<and> v_entries V w' c = Map.empty))"

definition collection_ok :: "('w, 'c, 'i, 'u) ssMethods \<Rightarrow> ('w, 'c, 'i) ssView \<Rightarrow> 'w \<Rightarrow> 'c \<Rightarrow> bool" where
  "collection_ok M V w c \<longleftrightarrow>
     (case sc_locked (m_collection M) w c of (w', r) \<Rightarrow> still V w w' \<and> fails_as r (\<lambda>_. True)) \<and>
     (case sc_items (m_collection M) w c of (w', r) \<Rightarrow> still V w w' \<and>
        fails_as r (\<lambda>is. distinct (map (snd \<circ> v_ref V) is) \<and> set (map (snd \<circ> v_ref V) is) = dom (v_entries V w c))) \<and>
     (\<forall>k. case sc_searchItems (m_collection M) w c k of (w', r) \<Rightarrow> still V w w' \<and>
        fails_as r (\<lambda>is. case is of [] \<Rightarrow> v_entries V w c k = None | i # _ \<Rightarrow> v_ref V i = (c, k) \<and> v_entries V w c k \<noteq> None)) \<and>
     (\<forall>k d. case sc_createItem (m_collection M) w c k d of (w', r) \<Rightarrow>
        v_good V w' \<and> v_colls V w' = v_colls V w \<and>
        (case r of
           None \<Rightarrow> v_entries V w' c = (v_entries V w c)(k \<mapsto> d)
         | Some e \<Rightarrow> ss_error e \<and> same_except {k} (v_entries V w c) (v_entries V w' c)))"

definition item_ok :: "('w, 'c, 'i, 'u) ssMethods \<Rightarrow> ('w, 'c, 'i) ssView \<Rightarrow> 'w \<Rightarrow> 'i \<Rightarrow> bool" where
  "item_ok M V w i \<longleftrightarrow>
     (case v_ref V i of (c, k) \<Rightarrow>
        (case si_locked (m_item M) w i of (w', r) \<Rightarrow> still V w w' \<and> fails_as r (\<lambda>_. True)) \<and>
        (case si_secretValue (m_item M) w i of (w', r) \<Rightarrow> still V w w' \<and> fails_as r (\<lambda>v. v_entries V w c k = Some v)) \<and>
        (case si_label (m_item M) w i of (w', r) \<Rightarrow> still V w w' \<and> r = Inr k) \<and>
        (case si_delete (m_item M) w i of (w', r) \<Rightarrow>
           v_good V w' \<and> v_colls V w' = v_colls V w \<and>
           (case r of
              None \<Rightarrow> v_entries V w' c = (v_entries V w c)(k := None)
            | Some e \<Rightarrow> ss_error e \<and> same_except {k} (v_entries V w c) (v_entries V w' c))))"

text \<open>
  The contract of the service. That the label of a listed item can be read is part of it: the source leaves
  out of a listing the items whose label cannot be read.
\<close>

definition ss_contract :: "('w, 'c, 'i, 'u) ssMethods \<Rightarrow> ('w, 'c, 'i) ssView \<Rightarrow> string \<Rightarrow> bool" where
  "ss_contract M V nm \<longleftrightarrow>
     (\<forall>w. v_good V w \<longrightarrow> service_ok M V nm w \<and> (\<forall>c. collection_ok M V w c) \<and> (\<forall>i. item_ok M V w i))"

text \<open>What is relied on of \<open>encoding/json\<close>.\<close>

definition json_ok :: "codec \<Rightarrow> bool" where
  "json_ok cd \<longleftrightarrow>
     (\<forall>p s. json_Marshal cd p = Inr s \<longrightarrow> (\<exists>p'. json_Unmarshal cd s = Inr p' \<and> pi_Data p' = pi_Data p)) \<and>
     (\<forall>p e. json_Marshal cd p = Inl e \<longrightarrow> foreign_error e) \<and>
     (\<forall>s e. json_Unmarshal cd s = Inl e \<longrightarrow> foreign_error e)"

text \<open>An entry that does not decode counts as empty; reading it is an error.\<close>

definition raw_data :: "codec \<Rightarrow> string \<Rightarrow> string" where
  "raw_data cd s = (case decodeSecretServiceItem cd s of Inl _ \<Rightarrow> '''' | Inr it \<Rightarrow> ki_data it)"

definition ss_kv :: "codec \<Rightarrow> ('w, 'c, 'i, 'u) ssMethods \<Rightarrow> ('w, 'c, 'i) ssView \<Rightarrow> string \<Rightarrow> 'w \<Rightarrow> kvmap" where
  "ss_kv cd M V nm w k =
     (case current M V nm w of None \<Rightarrow> None | Some c \<Rightarrow> map_option (raw_data cd) (v_entries V w c k))"

definition ss_view ::
  "codec \<Rightarrow> ('w, 'c, 'i, 'u) ssMethods \<Rightarrow> ('w, 'c, 'i) ssView \<Rightarrow> ('w, 'c) secretServiceBackend \<Rightarrow> kvmap"
where
  "ss_view cd M V b = ss_kv cd M V (ssb_name b) (ssb_service b)"

text \<open>A collection the backend remembers is the one it would find.\<close>

definition ss_good ::
  "('w, 'c, 'i, 'u) ssMethods \<Rightarrow> ('w, 'c, 'i) ssView \<Rightarrow> string \<Rightarrow> ('w, 'c) secretServiceBackend \<Rightarrow> bool"
where
  "ss_good M V nm b \<longleftrightarrow>
     ssb_name b = nm \<and> v_good V (ssb_service b) \<and>
     (ssb_collection b \<noteq> None \<longrightarrow> ssb_collection b = current M V nm (ssb_service b))"

section \<open>Finding the collection\<close>

lemma still_trans: "still V w1 w2 \<Longrightarrow> still V w2 w3 \<Longrightarrow> still V w1 w3"
  by (simp add: still_def)

lemma still_current: "still V w w' \<Longrightarrow> current M V nm w' = current M V nm w"
  by (simp add: still_def current_def)

lemma still_kv: "still V w w' \<Longrightarrow> ss_kv cd M V nm w' = ss_kv cd M V nm w"
  by (rule ext) (auto simp: ss_kv_def still_current [of V w w'] still_def split: option.split)

lemma still_good: "still V w w' \<Longrightarrow> v_good V w'"
  by (simp add: still_def)

lemma good_still:
  "ss_good M V nm b \<Longrightarrow> still V (ssb_service b) w \<Longrightarrow> ss_good M V nm (b\<lparr>ssb_service := w\<rparr>)"
  using still_current [of V "ssb_service b" w M nm] by (auto simp: ss_good_def still_def)

lemma contractD:
  assumes "ss_contract M V nm" "v_good V w"
  shows "service_ok M V nm w" "collection_ok M V w c" "item_ok M V w i"
  using assms by (auto simp: ss_contract_def)

lemma openSecrets_laws:
  assumes C: "ss_contract M V nm" and g: "ss_good M V nm b" and run: "openSecrets M b = (b', r)"
  shows "ss_good M V nm b' \<and> still V (ssb_service b) (ssb_service b') \<and>
    (case r of None \<Rightarrow> ssb_collection b' = current M V nm (ssb_service b') | Some e \<Rightarrow> ss_error e)"
proof -
  have w: "v_good V (ssb_service b)" "ssb_name b = nm" using g by (simp_all add: ss_good_def)
  obtain w1 r1 where o: "ss_open (m_service M) (ssb_service b) = (w1, r1)" by (cases "ss_open (m_service M) (ssb_service b)")
  have s1: "still V (ssb_service b) w1" "pred_option ss_error r1"
    using contractD(1) [OF C w(1)] o by (auto simp: service_ok_def)
  show ?thesis
  proof (cases r1)
    case (Some e)
    with run o s1 good_still [OF g] show ?thesis by (auto simp: openSecrets_def)
  next
    case None
    obtain w2 r2 where c: "ss_collections (m_service M) w1 = (w2, r2)" by (cases "ss_collections (m_service M) w1")
    have s2: "still V w1 w2" "fails_as r2 (\<lambda>cs. cs = v_colls V w1)"
      using contractD(1) [OF C still_good [OF s1(1)]] c by (auto simp: service_ok_def)
    note s = still_trans [OF s1(1) s2(1)]
    show ?thesis
    proof (cases r2)
      case (Inl e)
      with None run o c s s2(2) good_still [OF g s] show ?thesis
        by (auto simp: openSecrets_def fails_as_def)
    next
      case (Inr cs)
      with s2 have "find (\<lambda>c. secretServiceCollectionPathMatches (sc_path (m_collection M) c) nm) cs = current M V nm w2"
        by (simp add: fails_as_def current_def still_def)
      with None Inr run o c w(2) s good_still [OF g s] g still_current [OF s] show ?thesis
        by (auto simp: openSecrets_def ss_good_def split: option.splits)
    qed
  qed
qed

lemma openCollection_laws:
  assumes C: "ss_contract M V nm" and g: "ss_good M V nm b" and run: "openCollection M b = (b', r)"
  shows "ss_good M V nm b' \<and> still V (ssb_service b) (ssb_service b') \<and>
    (case r of
       Inr c \<Rightarrow> current M V nm (ssb_service b') = Some c
     | Inl e \<Rightarrow> ss_error e \<or> e = Sentinel errSecretServiceCollectionNotFound \<and> current M V nm (ssb_service b') = None)"
proof -
  obtain b1 r1 where o: "openSecrets M b = (b1, r1)" by (cases "openSecrets M b")
  from openSecrets_laws [OF C g o] run o show ?thesis
    by (auto simp: openCollection_def split: option.splits)
qed

lemma view_kv: "ss_good M V nm b \<Longrightarrow> ss_view cd M V b = ss_kv cd M V nm (ssb_service b)"
  by (simp add: ss_view_def ss_good_def)

text \<open>After calls that change nothing one can see.\<close>

lemma quiet_laws:
  assumes "ss_good M V nm b" "ss_good M V nm b'" "still V (ssb_service b) (ssb_service b')" "still V (ssb_service b') w"
  shows "ss_good M V nm (b'\<lparr>ssb_service := w\<rparr>)" "ss_view cd M V (b'\<lparr>ssb_service := w\<rparr>) = ss_view cd M V b"
  using good_still [OF assms(2,4)] still_kv [OF still_trans [OF assms(3,4)], of cd M nm]
    view_kv [OF assms(1)] view_kv [OF good_still [OF assms(2,4)]] by simp_all

lemma ss_error_own: "ss_error e \<Longrightarrow> own_error e \<and> \<not> errors_Is e errKeyringItemNotFound"
  by (simp add: ss_error_def foreign_error_def)

lemma NotFoundError_laws:
  "ss_error e \<Longrightarrow> secretServiceNotFoundError e = e"
  "secretServiceNotFoundError (Sentinel errSecretServiceCollectionNotFound) = Sentinel errKeyringItemNotFound"
  by (simp_all add: secretServiceNotFoundError_def secretServiceIsMissingCollection_def ss_error_def)

lemma decode_error: "json_ok cd \<Longrightarrow> decodeSecretServiceItem cd s = Inl e \<Longrightarrow> own_error e \<and> \<not> errors_Is e errKeyringItemNotFound"
  by (auto simp: json_ok_def decodeSecretServiceItem_def foreign_error_def split: sum.splits)

section \<open>The methods\<close>

lemma searchItems_laws:
  assumes "ss_contract M V nm" "v_good V w" "sc_searchItems (m_collection M) w c k = (w', r)"
  shows "still V w w'" "r = Inl e \<Longrightarrow> ss_error e" "r = Inr [] \<Longrightarrow> v_entries V w c k = None"
    "r = Inr (i # is) \<Longrightarrow> v_ref V i = (c, k) \<and> v_entries V w c k \<noteq> None"
proof -
  have *: "case sc_searchItems (m_collection M) w c k of (w', r) \<Rightarrow> still V w w' \<and>
      fails_as r (\<lambda>is. case is of [] \<Rightarrow> v_entries V w c k = None | i # _ \<Rightarrow> v_ref V i = (c, k) \<and> v_entries V w c k \<noteq> None)"
    using contractD(2) [OF assms(1,2), of c] by (simp add: collection_ok_def)
  then show "still V w w'" "r = Inl e \<Longrightarrow> ss_error e" "r = Inr [] \<Longrightarrow> v_entries V w c k = None"
    "r = Inr (i # is) \<Longrightarrow> v_ref V i = (c, k) \<and> v_entries V w c k \<noteq> None"
    unfolding assms(3) by (auto simp: fails_as_def)
qed

lemma item_laws:
  assumes "ss_contract M V nm" "v_good V w" "v_ref V i = (c, k)"
  shows "si_locked (m_item M) w i = (w', rl) \<Longrightarrow> still V w w' \<and> fails_as rl (\<lambda>_. True)"
    "si_secretValue (m_item M) w i = (w', rv) \<Longrightarrow> still V w w' \<and> fails_as rv (\<lambda>v. v_entries V w c k = Some v)"
    "si_label (m_item M) w i = (w', rn) \<Longrightarrow> still V w w' \<and> rn = Inr k"
    "si_delete (m_item M) w i = (w', rd) \<Longrightarrow> v_good V w' \<and> v_colls V w' = v_colls V w \<and>
       (case rd of None \<Rightarrow> v_entries V w' c = (v_entries V w c)(k := None)
        | Some e \<Rightarrow> ss_error e \<and> same_except {k} (v_entries V w c) (v_entries V w' c))"
  using contractD(3) [OF assms(1,2), of i] assms(3) by (auto simp: item_ok_def)

lemma ss_unlock_laws:
  assumes "ss_contract M V nm" "v_good V w" "ss_unlock (m_service M) w u = (w', r)"
  shows "still V w w'" "r = Some e \<Longrightarrow> ss_error e"
proof -
  have "case ss_unlock (m_service M) w u of (w', r) \<Rightarrow> still V w w' \<and> pred_option ss_error r"
    using contractD(1) [OF assms(1,2)] by (simp add: service_ok_def)
  with assms(3) show "still V w w'" "r = Some e \<Longrightarrow> ss_error e" by auto
qed

lemma readItem_laws:
  assumes C: "ss_contract M V nm" and J: "json_ok cd" and g: "v_good V w" and ref: "v_ref V i = (c, k)"
    and run: "readSecretServiceItem cd (m_item M) w i (\<lambda>w. ss_unlock (m_service M) w u) = (w', r)"
  shows "still V w w' \<and>
    (case r of
       Inr it \<Rightarrow> map_option (raw_data cd) (v_entries V w c k) = Some (ki_data it)
     | Inl e \<Rightarrow> own_error e \<and> \<not> errors_Is e errKeyringItemNotFound)"
proof -
  let ?Q = "\<lambda>w' r. still V w w' \<and>
    (case r of
       Inr it \<Rightarrow> map_option (raw_data cd) (v_entries V w c k) = Some (ki_data it)
     | Inl e \<Rightarrow> own_error e \<and> \<not> errors_Is e errKeyringItemNotFound)"
  have read: "?Q w2 (case rv of Inl e \<Rightarrow> Inl e | Inr val \<Rightarrow> decodeSecretServiceItem cd val)"
    if "still V w w1" "si_secretValue (m_item M) w1 i = (w2, rv)" for w1 w2 rv
  proof -
    have v: "still V w1 w2" "fails_as rv (\<lambda>v. v_entries V w c k = Some v)"
      using item_laws(2) [OF C still_good [OF that(1)] ref that(2)] that(1) by (auto simp: still_def)
    show ?thesis
    proof (cases rv)
      case (Inl e)
      with v still_trans [OF that(1) v(1)] ss_error_own show ?thesis by (auto simp: fails_as_def)
    next
      case (Inr s)
      with v still_trans [OF that(1) v(1)] decode_error [OF J] show ?thesis
        by (auto simp: fails_as_def raw_data_def split: sum.split)
    qed
  qed
  obtain w1 rl where l: "si_locked (m_item M) w i = (w1, rl)" by (cases "si_locked (m_item M) w i")
  note l1 = item_laws(1) [OF C g ref l]
  obtain w2 ru where u: "ss_unlock (m_service M) w1 u = (w2, ru)" by (cases "ss_unlock (m_service M) w1 u")
  have u1: "still V w1 w2" "\<And>e. ru = Some e \<Longrightarrow> ss_error e"
    using ss_unlock_laws [OF C _ u] l1 by (simp_all add: still_def)
  obtain w3 rv where s1: "si_secretValue (m_item M) w1 i = (w3, rv)" by (cases "si_secretValue (m_item M) w1 i")
  obtain w4 rv' where s2: "si_secretValue (m_item M) w2 i = (w4, rv')" by (cases "si_secretValue (m_item M) w2 i")
  have s12: "still V w w2" using still_trans [OF _ u1(1)] l1 by simp
  show ?thesis
    using run l l1 u u1 s1 s2 s12 read [OF _ s1] read [OF s12 s2] ss_error_own
    by (auto simp: readSecretServiceItem_def Let_def fails_as_def split: sum.splits if_splits option.splits)
qed

text \<open>The three ways \<open>openCollection\<close> can end.\<close>

lemma opened_cases [consumes 3, case_names failed missing found]:
  assumes C: "ss_contract M V nm" and g: "ss_good M V nm b" and run: "openCollection M b = (b1, r)"
  obtains
    (failed) e where "r = Inl e" "secretServiceNotFoundError e = e" "secretServiceKeysError e = Inl e" "own_error e"
      "\<not> errors_Is e errKeyringItemNotFound" "ss_good M V nm b1" "ss_view cd M V b1 = ss_view cd M V b"
  | (missing) e where "r = Inl e" "secretServiceNotFoundError e = Sentinel errKeyringItemNotFound"
      "secretServiceKeysError e = Inr []" "ss_view cd M V b = Map.empty" "ss_good M V nm b1"
      "ss_view cd M V b1 = ss_view cd M V b"
  | (found) c where "r = Inr c" "\<And>k. ss_view cd M V b k = map_option (raw_data cd) (v_entries V (ssb_service b1) c k)"
      "v_good V (ssb_service b1)" "current M V nm (ssb_service b1) = Some c" "ss_good M V nm b1"
      "\<And>w. still V (ssb_service b1) w \<Longrightarrow>
         ss_good M V nm (b1\<lparr>ssb_service := w\<rparr>) \<and> ss_view cd M V (b1\<lparr>ssb_service := w\<rparr>) = ss_view cd M V b"
proof -
  note o = openCollection_laws [OF C g run]
  have v: "v_good V (ssb_service b1)" "ss_good M V nm b1" "still V (ssb_service b) (ssb_service b1)"
    using o by (simp_all add: still_def)
  have same: "ss_view cd M V b1 = ss_view cd M V b"
    using quiet_laws(2) [OF g v(2,3), of "ssb_service b1" cd] v(1) by (simp add: still_def)
  have kv: "ss_view cd M V b = ss_kv cd M V nm (ssb_service b1)"
    using same view_kv [OF v(2), of cd] by simp
  show thesis
  proof (cases r)
    case (Inr c)
    show thesis
    proof (rule found [OF Inr _ v(1) _ v(2)])
      show "current M V nm (ssb_service b1) = Some c" using o Inr by simp
      then show "ss_view cd M V b k = map_option (raw_data cd) (v_entries V (ssb_service b1) c k)" for k
        by (simp add: kv ss_kv_def)
      show "still V (ssb_service b1) w \<Longrightarrow>
         ss_good M V nm (b1\<lparr>ssb_service := w\<rparr>) \<and> ss_view cd M V (b1\<lparr>ssb_service := w\<rparr>) = ss_view cd M V b" for w
        using quiet_laws [OF g v(2,3)] by simp
    qed
  next
    case (Inl e)
    show thesis
    proof (cases "ss_error e")
      case True
      then show thesis
        using failed [OF Inl] v(2) same ss_error_own
        by (simp add: secretServiceNotFoundError_def secretServiceKeysError_def secretServiceIsMissingCollection_def ss_error_def)
    next
      case False
      with o Inl have e: "e = Sentinel errSecretServiceCollectionNotFound" "current M V nm (ssb_service b1) = None" by auto
      then have "ss_view cd M V b = Map.empty" by (simp add: kv ss_kv_def fun_eq_iff)
      with e(1) show thesis
        using missing [OF Inl] v(2) same
        by (simp add: secretServiceNotFoundError_def secretServiceKeysError_def secretServiceIsMissingCollection_def)
    qed
  qed
qed

lemma ss_get_laws:
  assumes C: "ss_contract M V nm" and J: "json_ok cd" and g: "ss_good M V nm b"
  shows "get_law (ss_view cd M V) (ss_good M V nm) b k (ss_get cd k M b)"
proof -
  obtain b1 r1 where o: "openCollection M b = (b1, r1)" by (cases "openCollection M b")
  from C g o show ?thesis
  proof (cases rule: opened_cases [where cd = cd])
    case (failed e)
    with o show ?thesis by (simp add: ss_get_def get_law_def)
  next
    case (missing e)
    with o show ?thesis by (simp add: ss_get_def get_law_def)
  next
    case (found c)
    obtain w r where s: "sc_searchItems (m_collection M) (ssb_service b1) c k = (w, r)"
      by (cases "sc_searchItems (m_collection M) (ssb_service b1) c k")
    note s1 = searchItems_laws [OF C found(3) s]
    note q = found(6) [OF s1(1)]
    show ?thesis
    proof (cases "\<exists>i is. r = Inr (i # is)")
      case False
      with s1 q o found(1,2) s ss_error_own show ?thesis
        by (cases r) (auto simp: ss_get_def get_law_def split: list.splits)
    next
      case True
      then obtain i "is" where i: "r = Inr (i # is)" by blast
      have ref: "v_ref V i = (c, k)" using s1(4) [OF i] by simp
      obtain w' r' where rd: "readSecretServiceItem cd (m_item M) w i
          (\<lambda>w. ss_unlock (m_service M) w (si_unlockTarget (m_item M) i)) = (w', r')"
        by (cases "readSecretServiceItem cd (m_item M) w i (\<lambda>w. ss_unlock (m_service M) w (si_unlockTarget (m_item M) i))")
      note r1 = readItem_laws [OF C J still_good [OF s1(1)] ref rd]
      have "still V (ssb_service b1) w'" using still_trans [OF s1(1)] r1 by simp
      note q' = found(6) [OF this]
      have "map_option (raw_data cd) (v_entries V w c k) = ss_view cd M V b k"
        using found(2) s1(1) by (simp add: still_def)
      with r1 q' o found(1) s i rd show ?thesis
        by (auto simp: ss_get_def get_law_def split: sum.splits)
    qed
  qed
qed

lemma ss_metadata_laws:
  assumes C: "ss_contract M V nm" and g: "ss_good M V nm b"
  shows "metadata_law (ss_view cd M V) (ss_good M V nm) b k (ss_metadata k M b)"
proof -
  obtain b1 r1 where o: "openCollection M b = (b1, r1)" by (cases "openCollection M b")
  from C g o show ?thesis
  proof (cases rule: opened_cases [where cd = cd])
    case (failed e)
    with o show ?thesis by (simp add: ss_metadata_def metadata_law_def)
  next
    case (missing e)
    with o show ?thesis by (simp add: ss_metadata_def metadata_law_def)
  next
    case (found c)
    obtain w r where s: "sc_searchItems (m_collection M) (ssb_service b1) c k = (w, r)"
      by (cases "sc_searchItems (m_collection M) (ssb_service b1) c k")
    note s1 = searchItems_laws [OF C found(3) s]
    note q = found(6) [OF s1(1)]
    have "r = Inr is \<Longrightarrow> is \<noteq> [] \<Longrightarrow> v_entries V (ssb_service b1) c k \<noteq> None" for "is"
      using s1(4) by (cases "is") auto
    with s1(1-3) q o found(1,2) s ss_error_own show ?thesis
      by (cases r) (auto simp: ss_metadata_def metadata_law_def)
  qed
qed

text \<open>After a call that changes entries only.\<close>

lemma moved:
  assumes "ss_good M V nm b" "current M V nm (ssb_service b) = Some c" "v_good V w" "v_colls V w = v_colls V (ssb_service b)"
  shows "ss_good M V nm (b\<lparr>ssb_service := w\<rparr>)"
    "ss_view cd M V (b\<lparr>ssb_service := w\<rparr>) = (\<lambda>k. map_option (raw_data cd) (v_entries V w c k))"
proof -
  have "current M V nm w = current M V nm (ssb_service b)" using assms(4) by (simp add: current_def)
  with assms show "ss_good M V nm (b\<lparr>ssb_service := w\<rparr>)"
    "ss_view cd M V (b\<lparr>ssb_service := w\<rparr>) = (\<lambda>k. map_option (raw_data cd) (v_entries V w c k))"
    by (auto simp: ss_good_def ss_view_def ss_kv_def)
qed

lemma same_except_map: "same_except K m m' \<Longrightarrow> same_except K (\<lambda>k. map_option f (m k)) (\<lambda>k. map_option f (m' k))"
  by (simp add: same_except_def)

lemma delete_laws:
  assumes C: "ss_contract M V nm" and w: "v_good V w" "v_colls V w = v_colls V (ssb_service b)"
      "v_entries V w = v_entries V (ssb_service b)"
    and b: "ss_good M V nm b" "current M V nm (ssb_service b) = Some c"
    and i: "v_ref V i = (c, k)" "v_entries V (ssb_service b) c k \<noteq> None"
    and run: "si_delete (m_item M) w i = (w', r)"
    and view: "ss_view cd M V b0 = (\<lambda>k. map_option (raw_data cd) (v_entries V (ssb_service b) c k))"
  shows "remove_law (ss_view cd M V) (ss_good M V nm) b0 k (b\<lparr>ssb_service := w'\<rparr>, r)"
proof -
  note d = item_laws(4) [OF C w(1) i(1) run]
  have "v_good V w'" "v_colls V w' = v_colls V (ssb_service b)" using d w by simp_all
  note m = moved(1) [OF b this] moved(2) [OF b this, of cd]
  show ?thesis
  proof (cases r)
    case None
    with d m w(3) view i(2) show ?thesis by (auto simp: remove_law_def)
  next
    case (Some e)
    with d m w(3) view same_except_map ss_error_own show ?thesis by (auto simp: remove_law_def)
  qed
qed

lemma ss_remove_laws:
  assumes C: "ss_contract M V nm" and g: "ss_good M V nm b"
  shows "remove_law (ss_view cd M V) (ss_good M V nm) b k (ss_remove k M b)"
proof -
  obtain b1 r1 where o: "openCollection M b = (b1, r1)" by (cases "openCollection M b")
  from C g o show ?thesis
  proof (cases rule: opened_cases [where cd = cd])
    case (failed e)
    with o show ?thesis by (simp add: ss_remove_def remove_law_def)
  next
    case (missing e)
    with o show ?thesis by (simp add: ss_remove_def remove_law_def)
  next
    case (found c)
    obtain w r where s: "sc_searchItems (m_collection M) (ssb_service b1) c k = (w, r)"
      by (cases "sc_searchItems (m_collection M) (ssb_service b1) c k")
    note s1 = searchItems_laws [OF C found(3) s]
    note q = found(6) [OF s1(1)]
    show ?thesis
    proof (cases "\<exists>i is. r = Inr (i # is)")
      case False
      with s1 q o found(1,2) s ss_error_own show ?thesis
        by (cases r) (auto simp: ss_remove_def remove_law_def split: list.splits)
    next
      case True
      then obtain i "is" where i: "r = Inr (i # is)" by blast
      have ref: "v_ref V i = (c, k)" "v_entries V (ssb_service b1) c k \<noteq> None" using s1(4) [OF i] by simp_all
      obtain w1 rl where l: "si_locked (m_item M) w i = (w1, rl)" by (cases "si_locked (m_item M) w i")
      note l1 = item_laws(1) [OF C still_good [OF s1(1)] ref(1) l]
      have sl: "still V (ssb_service b1) w1" using still_trans [OF s1(1)] l1 by simp
      let ?u = "si_unlockTarget (m_item M) i"
      obtain w2 ru where u: "ss_unlock (m_service M) w1 ?u = (w2, ru)" by (cases "ss_unlock (m_service M) w1 ?u")
      have u1: "still V w1 w2" "\<And>e. ru = Some e \<Longrightarrow> ss_error e"
        using ss_unlock_laws [OF C _ u] l1 by (simp_all add: still_def)
      have su: "still V (ssb_service b1) w2" using still_trans [OF sl u1(1)] .
      obtain w3 r3 where d3: "si_delete (m_item M) w1 i = (w3, r3)" by (cases "si_delete (m_item M) w1 i")
      obtain w4 r4 where d4: "si_delete (m_item M) w2 i = (w4, r4)" by (cases "si_delete (m_item M) w2 i")
      have view: "ss_view cd M V b = (\<lambda>k. map_option (raw_data cd) (v_entries V (ssb_service b1) c k))"
        using found(2) by (simp add: fun_eq_iff)
      note del = delete_laws [OF C _ _ _ found(5,4) ref _ view]
      have "remove_law (ss_view cd M V) (ss_good M V nm) b k (b1\<lparr>ssb_service := w3\<rparr>, r3)"
        "remove_law (ss_view cd M V) (ss_good M V nm) b k (b1\<lparr>ssb_service := w4\<rparr>, r4)"
        using del [OF _ _ _ d3] del [OF _ _ _ d4] sl su by (simp_all add: still_def)
      moreover have "remove_law (ss_view cd M V) (ss_good M V nm) b k (b1\<lparr>ssb_service := v\<rparr>, Some e)"
        if "still V (ssb_service b1) v" "ss_error e" for v e
        using found(6) [OF that(1)] ss_error_own [OF that(2)] by (simp add: remove_law_def)
      ultimately show ?thesis
        using o found(1) s i l l1 u u1(2) d3 d4 sl su
        by (auto simp: ss_remove_def Let_def fails_as_def split: sum.splits option.splits)
    qed
  qed
qed

lemma keysFromItems_laws:
  assumes C: "ss_contract M V nm"
  shows "v_good V w \<Longrightarrow> secretServiceKeysFromItems (m_item M) w is = (w', ks) \<Longrightarrow>
    still V w w' \<and> ks = map (snd \<circ> v_ref V) is"
proof (induction "is" arbitrary: w w' ks)
  case Nil
  then show ?case by (simp add: still_def)
next
  case (Cons i "is")
  obtain w1 r1 where l: "si_label (m_item M) w i = (w1, r1)" by (cases "si_label (m_item M) w i")
  obtain c k where ref: "v_ref V i = (c, k)" by (cases "v_ref V i")
  note l1 = item_laws(3) [OF C Cons.prems(1) ref l]
  then have g1: "v_good V w1" by (simp add: still_def)
  obtain w2 ks2 where rest: "secretServiceKeysFromItems (m_item M) w1 is = (w2, ks2)"
    by (cases "secretServiceKeysFromItems (m_item M) w1 is")
  note IH = Cons.IH [OF g1 rest]
  show ?case
    using Cons.prems(2) l l1 rest IH ref still_trans [of V w w1 w2] by simp
qed

lemma ensure_laws:
  assumes C: "ss_contract M V nm" and w: "v_good V (ssb_service b)" and run: "ensureCollectionUnlocked c M b = (b', r)"
  shows "\<exists>w. b' = b\<lparr>ssb_service := w\<rparr> \<and> still V (ssb_service b) w \<and> pred_option ss_error r"
proof -
  obtain w1 rl where l: "sc_locked (m_collection M) (ssb_service b) c = (w1, rl)"
    by (cases "sc_locked (m_collection M) (ssb_service b) c")
  have l1: "still V (ssb_service b) w1" "fails_as rl (\<lambda>_. True)"
    using contractD(2) [OF C w, of c] l by (simp_all add: collection_ok_def)
  let ?u = "sc_unlockTarget (m_collection M) c"
  obtain w2 ru where u: "ss_unlock (m_service M) w1 ?u = (w2, ru)" by (cases "ss_unlock (m_service M) w1 ?u")
  have u1: "still V w1 w2" "\<And>e. ru = Some e \<Longrightarrow> ss_error e"
    using ss_unlock_laws [OF C _ u] l1 by (simp_all add: still_def)
  have "pred_option ss_error ru" using u1(2) by (cases ru) auto
  with run l l1 u still_trans [OF l1(1) u1(1)] show ?thesis
    by (auto simp: ensureCollectionUnlocked_def fails_as_def split: sum.splits if_splits)
qed

lemma ss_keys_laws:
  assumes C: "ss_contract M V nm" and g: "ss_good M V nm b"
  shows "keys_law (ss_view cd M V) (ss_good M V nm) b (ss_keys M b)"
proof -
  obtain b1 r1 where o: "openCollection M b = (b1, r1)" by (cases "openCollection M b")
  from C g o show ?thesis
  proof (cases rule: opened_cases [where cd = cd])
    case (failed e)
    with o show ?thesis by (simp add: ss_keys_def keys_law_def)
  next
    case (missing e)
    with o show ?thesis by (simp add: ss_keys_def keys_law_def)
  next
    case (found c)
    obtain b2 r2 where e: "ensureCollectionUnlocked c M b1 = (b2, r2)" by (cases "ensureCollectionUnlocked c M b1")
    from ensure_laws [OF C found(3) e] obtain w1 where
      w1: "b2 = b1\<lparr>ssb_service := w1\<rparr>" "still V (ssb_service b1) w1" "pred_option ss_error r2" by blast
    obtain w2 r3 where it: "sc_items (m_collection M) w1 c = (w2, r3)" by (cases "sc_items (m_collection M) w1 c")
    have i1: "still V w1 w2"
      "fails_as r3 (\<lambda>is. distinct (map (snd \<circ> v_ref V) is) \<and> set (map (snd \<circ> v_ref V) is) = dom (v_entries V w1 c))"
      using contractD(2) [OF C still_good [OF w1(2)], of c] it by (simp_all add: collection_ok_def)
    have s2: "still V (ssb_service b1) w2" using still_trans [OF w1(2) i1(1)] .
    have dom: "dom (v_entries V w1 c) = dom (ss_view cd M V b)"
      using w1(2) found(2) by (auto simp: still_def dom_def)
    show ?thesis
    proof (cases "\<exists>is. r2 = None \<and> r3 = Inr is")
      case True
      then obtain "is" where ok: "r2 = None" "r3 = Inr is" by blast
      obtain w3 ks where ks: "secretServiceKeysFromItems (m_item M) w2 is = (w3, ks)"
        by (cases "secretServiceKeysFromItems (m_item M) w2 is")
      note k3 = keysFromItems_laws [OF C still_good [OF s2] ks]
      have "still V (ssb_service b1) w3" using still_trans [OF s2] k3 by simp
      note q = found(6) [OF this]
      have "ks_law": "distinct ks \<and> set ks = dom (ss_view cd M V b)"
        using k3 i1(2) ok(2) dom by (simp add: fails_as_def)
      have "ss_keys M b = (b1\<lparr>ssb_service := w3\<rparr>, Inr ks)"
        using o found(1) e w1(1) it ok ks by (simp add: ss_keys_def)
      with q "ks_law" show ?thesis by (simp add: keys_law_def)
    next
      case False
      with o found(1) e w1 it found(6) [OF w1(2)] found(6) [OF s2] show ?thesis
        by (cases r2; cases r3) (auto simp: ss_keys_def keys_law_def)
    qed
  qed
qed

lemma encode_raw:
  assumes "json_ok cd" "encodeSecretServiceItem cd it = Inr d"
  shows "raw_data cd d = ki_data it"
  using assms unfolding json_ok_def encodeSecretServiceItem_def raw_data_def decodeSecretServiceItem_def
  by (fastforce split: sum.splits)

lemma ss_set_in_laws:
  assumes C: "ss_contract M V nm" and J: "json_ok cd"
    and b: "ss_good M V nm b" "current M V nm (ssb_service b) = Some c"
    and run: "ss_set_in cd it c M b = (b', r)"
  shows "set_law (ss_view cd M V) (ss_good M V nm) b (ki_key it) (ki_data it) (b', r)"
proof -
  have g: "v_good V (ssb_service b)" using b(1) by (simp add: ss_good_def)
  have view: "ss_view cd M V b = (\<lambda>k. map_option (raw_data cd) (v_entries V (ssb_service b) c k))"
    using b by (auto simp: ss_view_def ss_good_def ss_kv_def)
  obtain b1 r1 where e: "ensureCollectionUnlocked c M b = (b1, r1)" by (cases "ensureCollectionUnlocked c M b")
  from ensure_laws [OF C g e] obtain w1 where
    w1: "b1 = b\<lparr>ssb_service := w1\<rparr>" "still V (ssb_service b) w1" "pred_option ss_error r1" by blast
  have b1: "ss_good M V nm b1" "ss_view cd M V b1 = ss_view cd M V b"
    using good_still [OF b(1) w1(2)] still_kv [OF w1(2), of cd M nm] view_kv [OF b(1), of cd] w1(1)
      view_kv [of M V nm b1 cd] by simp_all
  show ?thesis
  proof (cases "\<exists>d. r1 = None \<and> encodeSecretServiceItem cd it = Inr d")
    case False
    have "ss_good M V nm b' \<and> ss_view cd M V b' = ss_view cd M V b \<and> (\<exists>x. r = Some x \<and> own_error x)"
    proof (cases r1)
      case (Some x)
      with run e w1(3) b1 ss_error_own show ?thesis by (auto simp: ss_set_in_def)
    next
      case None
      with False obtain x where x: "encodeSecretServiceItem cd it = Inl x"
        by (cases "encodeSecretServiceItem cd it") auto
      then have "own_error x"
        using J by (auto simp: json_ok_def encodeSecretServiceItem_def foreign_error_def)
      with None x run e b1 show ?thesis by (auto simp: ss_set_in_def)
    qed
    then show ?thesis by (auto simp: set_law_def)
  next
    case True
    then obtain d where d: "r1 = None" "encodeSecretServiceItem cd it = Inr d" by blast
    obtain w2 r2 where cr: "sc_createItem (m_collection M) w1 c (ki_key it) d = (w2, r2)"
      by (cases "sc_createItem (m_collection M) w1 c (ki_key it) d")
    have "case sc_createItem (m_collection M) w1 c (ki_key it) d of (w', r) \<Rightarrow>
        v_good V w' \<and> v_colls V w' = v_colls V w1 \<and>
        (case r of
           None \<Rightarrow> v_entries V w' c = (v_entries V w1 c)(ki_key it \<mapsto> d)
         | Some e \<Rightarrow> ss_error e \<and> same_except {ki_key it} (v_entries V w1 c) (v_entries V w' c))"
      using contractD(2) [OF C still_good [OF w1(2)], of c] by (simp add: collection_ok_def)
    with cr have cr1: "v_good V w2" "v_colls V w2 = v_colls V w1"
      "case r2 of
         None \<Rightarrow> v_entries V w2 c = (v_entries V w1 c)(ki_key it \<mapsto> d)
       | Some e \<Rightarrow> ss_error e \<and> same_except {ki_key it} (v_entries V w1 c) (v_entries V w2 c)" by simp_all
    have colls: "v_colls V w2 = v_colls V (ssb_service b)" using cr1(2) w1(2) by (simp add: still_def)
    note m = moved(1) [OF b cr1(1) colls] moved(2) [OF b cr1(1) colls, of cd]
    have out: "b' = b\<lparr>ssb_service := w2\<rparr>" "r = r2"
      using run e d cr w1(1) by (auto simp: ss_set_in_def)
    have ent: "v_entries V w1 = v_entries V (ssb_service b)" using w1(2) by (simp add: still_def)
    show ?thesis
    proof (cases r2)
      case None
      with cr1(3) ent m out view encode_raw [OF J d(2)] show ?thesis
        by (auto simp: set_law_def fun_eq_iff)
    next
      case (Some x)
      with cr1(3) ent m out view same_except_map ss_error_own show ?thesis
        by (auto simp: set_law_def)
    qed
  qed
qed

lemma set_law_view:
  "set_law view good b1 i v out \<Longrightarrow> view b1 = view b \<Longrightarrow> set_law view good b i v out"
  by (auto simp: set_law_def split: prod.splits option.splits)

lemma ss_set_laws:
  assumes C: "ss_contract M V nm" and J: "json_ok cd" and g: "ss_good M V nm b"
  shows "set_law (ss_view cd M V) (ss_good M V nm) b (ki_key it) (ki_data it) (ss_set cd it M b)"
proof -
  obtain b1 r1 where o: "openSecrets M b = (b1, r1)" by (cases "openSecrets M b")
  note o1 = openSecrets_laws [OF C g o]
  have v: "v_good V (ssb_service b1)" "ss_good M V nm b1" "still V (ssb_service b) (ssb_service b1)" "ssb_name b1 = nm"
    using o1 by (simp_all add: still_def ss_good_def)
  have view: "ss_view cd M V b1 = ss_view cd M V b"
    using still_kv [OF v(3), of cd M nm] view_kv [OF g, of cd] view_kv [OF v(2), of cd] by simp
  show ?thesis
  proof (cases r1)
    case (Some e)
    with o o1 view ss_error_own show ?thesis by (auto simp: ss_set_def set_law_def)
  next
    case None
    then have cur: "ssb_collection b1 = current M V nm (ssb_service b1)" using o1 by simp
    show ?thesis
    proof (cases "ssb_collection b1")
      case (Some c)
      obtain b' r where run: "ss_set_in cd it c M b1 = (b', r)" by (cases "ss_set_in cd it c M b1")
      have "set_law (ss_view cd M V) (ss_good M V nm) b1 (ki_key it) (ki_data it) (b', r)"
        using ss_set_in_laws [OF C J v(2) _ run] cur Some by simp
      from set_law_view [OF this view] show ?thesis
        using o None Some run by (simp add: ss_set_def)
    next
      case none: None
      then have cur: "current M V nm (ssb_service b1) = None" using cur by simp
      have empty: "ss_view cd M V b = Map.empty"
        using view view_kv [OF v(2), of cd] cur by (simp add: ss_kv_def fun_eq_iff)
      obtain w rc where cr: "ss_createCollection (m_service M) (ssb_service b1) nm = (w, rc)"
        by (cases "ss_createCollection (m_service M) (ssb_service b1) nm")
      have "case ss_createCollection (m_service M) (ssb_service b1) nm of
          (w', Inl e) \<Rightarrow> still V (ssb_service b1) w' \<and> ss_error e
        | (w', Inr c) \<Rightarrow> v_good V w' \<and>
            (current M V nm (ssb_service b1) = None \<longrightarrow> current M V nm w' = Some c \<and> v_entries V w' c = Map.empty)"
        using contractD(1) [OF C v(1)] unfolding service_ok_def by (elim conjE)
      note crl = this [unfolded cr]
      show ?thesis
      proof (cases rc)
        case (Inl e)
        then have s: "still V (ssb_service b1) w" "ss_error e" using crl by simp_all
        note q = quiet_laws(1) [OF g v(2,3) s(1)] quiet_laws(2) [OF g v(2,3) s(1), of cd]
        with Inl s o None none cr v(4) ss_error_own [OF s(2)] show ?thesis
          by (simp add: ss_set_def set_law_def)
      next
        case (Inr c)
        let ?b2 = "b1\<lparr>ssb_service := w, ssb_collection := Some c\<rparr>"
        have w: "v_good V w" "current M V nm w = Some c" "v_entries V w c = Map.empty"
          using crl Inr cur by simp_all
        have b2: "ss_good M V nm ?b2" "current M V nm (ssb_service ?b2) = Some c"
          using v(2) w by (simp_all add: ss_good_def)
        have view2: "ss_view cd M V ?b2 = ss_view cd M V b"
          using view_kv [OF b2(1), of cd] w empty by (simp add: ss_kv_def fun_eq_iff)
        obtain b' r where run: "ss_set_in cd it c M ?b2 = (b', r)" by (cases "ss_set_in cd it c M ?b2")
        from set_law_view [OF ss_set_in_laws [OF C J b2 run] view2] show ?thesis
          using o None none cr Inr v(4) run by (simp add: ss_set_def)
      qed
    qed
  qed
qed

text \<open>The backend over a service that keeps the contract is a lawful keyring.\<close>

lemma ss_keyring_laws:
  assumes "ss_contract M V nm" "json_ok cd"
  shows "keyring_laws (ss_ops cd M) (ss_view cd M V) (ss_good M V nm)"
  by (rule keyring_lawsI)
    (simp_all add: ss_ops_def ss_get_laws ss_metadata_laws ss_set_laws ss_remove_laws ss_keys_laws assms)

end
