(* ===== verification/Libsecret.thy ===== *)
theory Libsecret
  imports SecretLaws Open Byteness
begin

text \<open>
  \<open>secretservice_nocgo_linux.go\<close> and \<open>secretservice_nocgo_nonlinux.go\<close>: the adapters that implement the
  interfaces of \<open>SecretService\<close> over the libsecret client, a method table \<open>libsecret\<close> over the state of the
  service; and the three build variants of \<open>probeSecretService\<close> (\<open>linuxfallback_*.go\<close>).
\<close>

section \<open>The client\<close>

record 's Secret =
  sec_Session :: "'s option"
  sec_Parameters :: string
  sec_Value :: string
  sec_ContentType :: string

datatype ('c, 'i) DBusObject = DBusCollection 'c | DBusItem 'i

record ('w, 's, 'c, 'i) libsecret =
  lib_NewService :: "'w result"
  lib_Open :: "'w \<Rightarrow> 'w \<times> 's result"
  lib_Collections :: "'w \<Rightarrow> 'w \<times> 'c list result"
  lib_CreateCollection :: "'w \<Rightarrow> string \<Rightarrow> 'w \<times> 'c result"
  lib_Unlock :: "'w \<Rightarrow> ('c, 'i) DBusObject \<Rightarrow> 'w \<times> err option"
  lib_coll_Path :: "'c \<Rightarrow> string"
  lib_coll_Locked :: "'w \<Rightarrow> 'c \<Rightarrow> 'w \<times> bool result"
  lib_coll_Items :: "'w \<Rightarrow> 'c \<Rightarrow> 'w \<times> 'i list result"
  lib_coll_SearchItems :: "'w \<Rightarrow> 'c \<Rightarrow> string \<Rightarrow> 'w \<times> 'i list result"
  lib_coll_CreateItem :: "'w \<Rightarrow> 'c \<Rightarrow> string \<Rightarrow> 's Secret \<Rightarrow> bool \<Rightarrow> 'w \<times> 'i result"
  lib_item_Locked :: "'w \<Rightarrow> 'i \<Rightarrow> 'w \<times> bool result"
  lib_item_GetSecret :: "'w \<Rightarrow> 'i \<Rightarrow> 's option \<Rightarrow> 'w \<times> 's Secret result"
  lib_item_Label :: "'w \<Rightarrow> 'i \<Rightarrow> 'w \<times> string result"
  lib_item_Delete :: "'w \<Rightarrow> 'i \<Rightarrow> 'w \<times> err option"

section \<open>The service adapter\<close>

text \<open>The session is nil until \<open>open\<close> succeeds.\<close>

record ('w, 's) libsecretServiceAdapter =
  lsa_service :: 'w
  lsa_session :: "'s option"

record 'c libsecretCollectionAdapter =
  lca_collection :: 'c

record 'i libsecretItemAdapter =
  lia_item :: 'i

text \<open>What can be handed to \<open>unlock\<close>: a D-Bus object, or a value of another dynamic type.\<close>

datatype ('c, 'i) unlockable = DBusTarget "('c, 'i) DBusObject" | OtherTarget string

definition on_lsa ::
  "('w, 's) libsecretServiceAdapter \<Rightarrow> ('w \<Rightarrow> 'w \<times> 'r) \<Rightarrow> ('w, 's) libsecretServiceAdapter \<times> 'r"
where
  "on_lsa a f = (case f (lsa_service a) of (w, r) \<Rightarrow> (a\<lparr>lsa_service := w\<rparr>, r))"

text \<open>A call whose result is adapted.\<close>

definition map_result :: "('a \<Rightarrow> 'b) \<Rightarrow> 'a result \<Rightarrow> 'b result" where
  "map_result f r = (case r of Inl e \<Rightarrow> Inl e | Inr x \<Rightarrow> Inr (f x))"

definition lsa_open :: "('w, 's, 'c, 'i) libsecret \<Rightarrow> ('w, 's) libsecretServiceAdapter \<Rightarrow> ('w, 's) libsecretServiceAdapter \<times> err option" where
  "lsa_open L a =
     (case on_lsa a (lib_Open L) of
        (a', Inl e) \<Rightarrow> (a', Some e)
      | (a', Inr session) \<Rightarrow> (a'\<lparr>lsa_session := Some session\<rparr>, None))"

definition lsa_collections ::
  "('w, 's, 'c, 'i) libsecret \<Rightarrow> ('w, 's) libsecretServiceAdapter \<Rightarrow>
     ('w, 's) libsecretServiceAdapter \<times> 'c libsecretCollectionAdapter list result"
where
  "lsa_collections L a =
     (case on_lsa a (lib_Collections L) of
        (a', r) \<Rightarrow> (a', map_result (map (\<lambda>c. \<lparr>lca_collection = c\<rparr>)) r))"

definition lsa_createCollection ::
  "('w, 's, 'c, 'i) libsecret \<Rightarrow> ('w, 's) libsecretServiceAdapter \<Rightarrow> string \<Rightarrow>
     ('w, 's) libsecretServiceAdapter \<times> 'c libsecretCollectionAdapter result"
where
  "lsa_createCollection L a name =
     (case on_lsa a (\<lambda>w. lib_CreateCollection L w name) of
        (a', r) \<Rightarrow> (a', map_result (\<lambda>c. \<lparr>lca_collection = c\<rparr>) r))"

definition lsa_unlock ::
  "('w, 's, 'c, 'i) libsecret \<Rightarrow> ('w, 's) libsecretServiceAdapter \<Rightarrow> ('c, 'i) unlockable \<Rightarrow>
     ('w, 's) libsecretServiceAdapter \<times> err option"
where
  "lsa_unlock L a target =
     (case target of
        OtherTarget ty \<Rightarrow>
          (a, Some (Errorf [Lit ''credstore: secret-service unlock target '', Lit ty, Lit '' is not a D-Bus object'']))
      | DBusTarget ob \<Rightarrow> on_lsa a (\<lambda>w. lib_Unlock L w ob))"

section \<open>The collection adapter\<close>

definition lca_path :: "('w, 's, 'c, 'i) libsecret \<Rightarrow> 'c libsecretCollectionAdapter \<Rightarrow> string" where
  "lca_path L c = lib_coll_Path L (lca_collection c)"

definition lca_label :: "('w, 's, 'c, 'i) libsecret \<Rightarrow> 'c libsecretCollectionAdapter \<Rightarrow> string result" where
  "lca_label L c = Inr (lca_path L c)"

definition lca_locked ::
  "('w, 's, 'c, 'i) libsecret \<Rightarrow> ('w, 's) libsecretServiceAdapter \<Rightarrow> 'c libsecretCollectionAdapter \<Rightarrow>
     ('w, 's) libsecretServiceAdapter \<times> bool result"
where
  "lca_locked L a c = on_lsa a (\<lambda>w. lib_coll_Locked L w (lca_collection c))"

definition adaptItems :: "'i list \<Rightarrow> 'i libsecretItemAdapter list" where
  "adaptItems items = map (\<lambda>i. \<lparr>lia_item = i\<rparr>) items"

definition lca_items ::
  "('w, 's, 'c, 'i) libsecret \<Rightarrow> ('w, 's) libsecretServiceAdapter \<Rightarrow> 'c libsecretCollectionAdapter \<Rightarrow>
     ('w, 's) libsecretServiceAdapter \<times> 'i libsecretItemAdapter list result"
where
  "lca_items L a c =
     (case on_lsa a (\<lambda>w. lib_coll_Items L w (lca_collection c)) of (a', r) \<Rightarrow> (a', map_result adaptItems r))"

definition lca_searchItems ::
  "('w, 's, 'c, 'i) libsecret \<Rightarrow> ('w, 's) libsecretServiceAdapter \<Rightarrow> 'c libsecretCollectionAdapter \<Rightarrow> string \<Rightarrow>
     ('w, 's) libsecretServiceAdapter \<times> 'i libsecretItemAdapter list result"
where
  "lca_searchItems L a c itemKey =
     (case on_lsa a (\<lambda>w. lib_coll_SearchItems L w (lca_collection c) itemKey) of
        (a', r) \<Rightarrow> (a', map_result adaptItems r))"

definition lca_createItem ::
  "('w, 's, 'c, 'i) libsecret \<Rightarrow> ('w, 's) libsecretServiceAdapter \<Rightarrow> 'c libsecretCollectionAdapter \<Rightarrow>
     string \<Rightarrow> string \<Rightarrow> ('w, 's) libsecretServiceAdapter \<times> err option"
where
  "lca_createItem L a c label val =
     (let secret = \<lparr>sec_Session = lsa_session a, sec_Parameters = '''', sec_Value = val,
            sec_ContentType = ''application/json''\<rparr> in
      case on_lsa a (\<lambda>w. lib_coll_CreateItem L w (lca_collection c) label secret True) of
        (a', Inl e) \<Rightarrow> (a', Some e)
      | (a', Inr _) \<Rightarrow> (a', None))"

definition lca_unlockTarget :: "'c libsecretCollectionAdapter \<Rightarrow> ('c, 'i) unlockable" where
  "lca_unlockTarget c = DBusTarget (DBusCollection (lca_collection c))"

section \<open>The item adapter\<close>

definition lia_locked ::
  "('w, 's, 'c, 'i) libsecret \<Rightarrow> ('w, 's) libsecretServiceAdapter \<Rightarrow> 'i libsecretItemAdapter \<Rightarrow>
     ('w, 's) libsecretServiceAdapter \<times> bool result"
where
  "lia_locked L a i = on_lsa a (\<lambda>w. lib_item_Locked L w (lia_item i))"

definition lia_secretValue ::
  "('w, 's, 'c, 'i) libsecret \<Rightarrow> ('w, 's) libsecretServiceAdapter \<Rightarrow> 'i libsecretItemAdapter \<Rightarrow>
     ('w, 's) libsecretServiceAdapter \<times> string result"
where
  "lia_secretValue L a i =
     (case on_lsa a (\<lambda>w. lib_item_GetSecret L w (lia_item i) (lsa_session a)) of
        (a', r) \<Rightarrow> (a', map_result sec_Value r))"

definition lia_label ::
  "('w, 's, 'c, 'i) libsecret \<Rightarrow> ('w, 's) libsecretServiceAdapter \<Rightarrow> 'i libsecretItemAdapter \<Rightarrow>
     ('w, 's) libsecretServiceAdapter \<times> string result"
where
  "lia_label L a i = on_lsa a (\<lambda>w. lib_item_Label L w (lia_item i))"

definition lia_delete ::
  "('w, 's, 'c, 'i) libsecret \<Rightarrow> ('w, 's) libsecretServiceAdapter \<Rightarrow> 'i libsecretItemAdapter \<Rightarrow>
     ('w, 's) libsecretServiceAdapter \<times> err option"
where
  "lia_delete L a i = on_lsa a (\<lambda>w. lib_item_Delete L w (lia_item i))"

definition lia_unlockTarget :: "'i libsecretItemAdapter \<Rightarrow> ('c, 'i) unlockable" where
  "lia_unlockTarget i = DBusTarget (DBusItem (lia_item i))"

text \<open>The interfaces, as the adapters implement them.\<close>

definition libsecret_methods ::
  "('w, 's, 'c, 'i) libsecret \<Rightarrow>
     (('w, 's) libsecretServiceAdapter, 'c libsecretCollectionAdapter, 'i libsecretItemAdapter, ('c, 'i) unlockable) ssMethods"
where
  "libsecret_methods L =
     \<lparr>m_service = \<lparr>ss_open = lsa_open L, ss_collections = lsa_collections L,
        ss_createCollection = lsa_createCollection L, ss_unlock = lsa_unlock L\<rparr>,
      m_collection = \<lparr>sc_path = lca_path L, sc_locked = lca_locked L, sc_items = lca_items L,
        sc_searchItems = lca_searchItems L, sc_createItem = lca_createItem L, sc_unlockTarget = lca_unlockTarget\<rparr>,
      m_item = \<lparr>si_locked = lia_locked L, si_secretValue = lia_secretValue L, si_label = lia_label L,
        si_delete = lia_delete L, si_unlockTarget = lia_unlockTarget\<rparr>\<rparr>"

section \<open>Opening and probing\<close>

definition openSecretServiceBackend ::
  "('w, 's, 'c, 'i) libsecret \<Rightarrow> backendConfig \<Rightarrow>
     (('w, 's) libsecretServiceAdapter, 'c libsecretCollectionAdapter) secretServiceBackend result"
where
  "openSecretServiceBackend L cfg =
     (case lib_NewService L of
        Inl e \<Rightarrow> Inl e
      | Inr service \<Rightarrow>
          openSecretServiceBackendWithService (libsecret_methods L) (serviceName cfg)
            \<lparr>lsa_service = service, lsa_session = None\<rparr>)"

definition openSecretServiceBackend_nonlinux :: "backendConfig \<Rightarrow> 'x result" where
  "openSecretServiceBackend_nonlinux cfg = Inl (Sentinel ErrBackendNotImplemented)"

text \<open>The static Linux build, other static builds, and the builds with the ByteNess library.\<close>

definition probeSecretService_static :: "('w, 's, 'c, 'i) libsecret \<Rightarrow> string \<Rightarrow> getenv \<Rightarrow> err option" where
  "probeSecretService_static L service getenv =
     (case openSecretServiceBackend L (backendConfig_zero\<lparr>serviceName := service\<rparr>) of
        Inl e \<Rightarrow> Some e
      | Inr b \<Rightarrow>
          (case snd (ss_keys (libsecret_methods L) b) of Inl e \<Rightarrow> Some e | Inr _ \<Rightarrow> None))"

definition probeSecretService_nonlinux :: "string \<Rightarrow> getenv \<Rightarrow> err option" where
  "probeSecretService_nonlinux service getenv = Some (Sentinel ErrBackendNotImplemented)"

definition probeSecretService_byteness ::
  "'x Keyring \<Rightarrow> (keyringConfig \<Rightarrow> 'x result) \<Rightarrow> string \<Rightarrow> getenv \<Rightarrow> err option"
where
  "probeSecretService_byteness X keyring_Open service getenv =
     (case keyring_Open (keyringConfigFromBackendConfig
          (backendConfig_zero\<lparr>serviceName := service, allowedBackend := ''secret-service''\<rparr>)) of
        Inl e \<Rightarrow> Some e
      | Inr kr \<Rightarrow> (case snd (x_Keys X kr) of Inl e \<Rightarrow> Some e | Inr _ \<Rightarrow> None))"

end
