(* ===== verification/SecretProps.thy ===== *)
theory SecretProps
  imports Libsecret FileProps
begin

text \<open>
  What a store over the Secret Service keyring promises, and that the backend finds the collection of its own
  service. The witnesses run on a small service whose items are all locked and whose writes can be made to fail.
\<close>

section \<open>Finding the collection\<close>

text \<open>The service escapes every byte of a name but letters and digits.\<close>

definition is_alnum_byte :: "char \<Rightarrow> bool" where
  "is_alnum_byte c \<longleftrightarrow>
     (let n = of_char c :: nat in 48 \<le> n \<and> n \<le> 57 \<or> 65 \<le> n \<and> n \<le> 90 \<or> 97 \<le> n \<and> n \<le> 122)"

definition escape_name :: "string \<Rightarrow> string" where
  "escape_name s = concat (map (\<lambda>c. if is_alnum_byte c then [c] else CHR ''_'' # hex_Encode False [c]) s)"

lemma decodeSecretServicePath_plain [simp]:
  "CHR ''_'' \<notin> set s \<Longrightarrow> decodeSecretServicePath (s @ t) = s @ decodeSecretServicePath t"
  by (induction s) auto

lemma decode_escape [simp]: "decodeSecretServicePath (escape_name s) = s"
proof (induction s)
  case (Cons c s)
  have "\<not> is_alnum_byte (CHR ''_'')" by (simp add: is_alnum_byte_def)
  moreover have "decodeSecretServicePath (CHR ''_'' # hex_Encode False [c] @ t) = c # decodeSecretServicePath t" for t
    using hex_Decode_Encode [of False "[c]"] by (simp del: hex_Decode_Encode)
  ultimately show ?case
    using Cons by (auto simp: escape_name_def simp del: hex_Encode.simps)
qed (simp add: escape_name_def)

text \<open>
  C26. Among collections whose paths the service has escaped, a backend takes the one of its own name and never
  another service's, whatever bytes the names hold.
\<close>

theorem collection_of_own_name:
  "secretServiceCollectionPathMatches (secretServiceDBusPath @ ''/collection/'' @ escape_name other) name \<longleftrightarrow> other = name"
proof -
  have "CHR ''_'' \<notin> set (secretServiceDBusPath @ ''/collection/'')"
    by (simp add: secretServiceDBusPath_def)
  from decodeSecretServicePath_plain [OF this, of "escape_name other"] show ?thesis
    by (simp add: secretServiceCollectionPathMatches_def)
qed

section \<open>A service for the witnesses\<close>

text \<open>Collections by path, their items, and how many writes succeed before one fails.\<close>

record demo_world =
  dw_colls :: "(string \<times> (string \<times> string) list) list"
  dw_left :: "nat option"

definition demo_items :: "demo_world \<Rightarrow> string \<Rightarrow> (string \<times> string) list" where
  "demo_items w c = (case map_of (dw_colls w) c of None \<Rightarrow> [] | Some its \<Rightarrow> its)"

definition demo_put :: "demo_world \<Rightarrow> string \<Rightarrow> (string \<times> string) list \<Rightarrow> demo_world" where
  "demo_put w c its = w\<lparr>dw_colls := AList.update c its (dw_colls w)\<rparr>"

definition demo_methods :: "(demo_world, string, string \<times> string, unit) ssMethods" where
  "demo_methods =
     \<lparr>m_service = \<lparr>ss_open = (\<lambda>w. (w, None)), ss_collections = (\<lambda>w. (w, Inr (map fst (dw_colls w)))),
        ss_createCollection = (\<lambda>w name.
          let c = secretServiceDBusPath @ ''/collection/'' @ escape_name name in (demo_put w c [], Inr c)),
        ss_unlock = (\<lambda>w u. (w, None))\<rparr>,
      m_collection = \<lparr>sc_path = id, sc_locked = (\<lambda>w c. (w, Inr True)),
        sc_items = (\<lambda>w c. (w, Inr (map (\<lambda>(k, _). (c, k)) (demo_items w c)))),
        sc_searchItems = (\<lambda>w c k. (w, Inr (if map_of (demo_items w c) k = None then [] else [(c, k)]))),
        sc_createItem = (\<lambda>w c k d.
          if dw_left w = Some 0 \<or> c \<notin> set (map fst (dw_colls w)) then (w\<lparr>dw_left := None\<rparr>, Some (OtherError ''I/O error''))
          else (demo_put (w\<lparr>dw_left := map_option (\<lambda>n. n - 1) (dw_left w)\<rparr>) c (AList.update k d (demo_items w c)), None)),
        sc_unlockTarget = (\<lambda>_. ())\<rparr>,
      m_item = \<lparr>si_locked = (\<lambda>w i. (w, Inr True)),
        si_secretValue = (\<lambda>w (c, k). (w, case map_of (demo_items w c) k of None \<Rightarrow> Inl (OtherError ''no such item'') | Some v \<Rightarrow> Inr v)),
        si_label = (\<lambda>w (c, k). (w, Inr k)),
        si_delete = (\<lambda>w (c, k).
          if c \<notin> set (map fst (dw_colls w)) then (w, Some (OtherError ''no such item''))
          else (demo_put w c (AList.delete k (demo_items w c)), None)),
        si_unlockTarget = (\<lambda>_. ())\<rparr>\<rparr>"

definition demo_view :: "(demo_world, string, string \<times> string) ssView" where
  "demo_view = \<lparr>v_good = (\<lambda>w. \<forall>(c, its) \<in> set (dw_colls w). distinct (map fst its)),
     v_colls = (\<lambda>w. map fst (dw_colls w)), v_entries = (\<lambda>w c. map_of (demo_items w c)), v_ref = id\<rparr>"

lemma demo_items_put [simp]: "demo_items (demo_put w c its) c' = (if c' = c then its else demo_items w c')"
  by (simp add: demo_items_def demo_put_def update_conv')

lemma demo_items_left [simp]: "demo_items (w\<lparr>dw_left := l\<rparr>) c = demo_items w c"
  by (simp add: demo_items_def)

lemma demo_good_put:
  "\<forall>(c, its) \<in> set (dw_colls w). distinct (map fst its) \<Longrightarrow> distinct (map fst new) \<Longrightarrow>
     \<forall>(c, its) \<in> set (AList.update d new (dw_colls w)). distinct (map fst its)"
proof -
  have "set (AList.update d new xs) \<subseteq> insert (d, new) (set xs)" for xs :: "(string \<times> (string \<times> string) list) list"
    by (induction xs) auto
  then show "\<forall>(c, its) \<in> set (dw_colls w). distinct (map fst its) \<Longrightarrow> distinct (map fst new) \<Longrightarrow>
     \<forall>(c, its) \<in> set (AList.update d new (dw_colls w)). distinct (map fst its)" by fast
qed

lemma demo_distinct: "v_good demo_view w \<Longrightarrow> distinct (map fst (demo_items w c))"
  by (auto simp: demo_view_def demo_items_def dest: map_of_SomeD split: option.split)

abbreviation demo_name :: string where
  "demo_name \<equiv> ''svc''"

lemma plain_json_ok: "json_ok plain_codec"
  using plain_codec_ok by (auto simp: json_ok_def plain_codec_def)

lemma demo_error [simp]: "ss_error (OtherError s)"
  by (simp add: ss_error_def foreign_error_def own_error_def)

lemma demo_current:
  "current demo_methods demo_view nm w = find (\<lambda>c. secretServiceCollectionPathMatches c nm) (map fst (dw_colls w))"
  by (simp add: current_def demo_methods_def demo_view_def)

lemma demo_still [simp]: "v_good demo_view w \<Longrightarrow> still demo_view w w"
  by (simp add: still_def)

lemma demo_put_good:
  "v_good demo_view w \<Longrightarrow> distinct (map fst its) \<Longrightarrow> v_good demo_view (demo_put (w\<lparr>dw_left := l\<rparr>) c its)"
  "v_good demo_view w \<Longrightarrow> distinct (map fst its) \<Longrightarrow> v_good demo_view (demo_put w c its)"
  "v_good demo_view (w\<lparr>dw_left := l\<rparr>) = v_good demo_view w"
  by (simp_all add: demo_view_def demo_put_def demo_good_put)

lemma demo_view_simps [simp]:
  "v_colls demo_view w = map fst (dw_colls w)" "v_entries demo_view w c = map_of (demo_items w c)" "v_ref demo_view i = i"
  by (simp_all add: demo_view_def)

lemma demo_put_colls [simp]: "c \<in> fst ` set (dw_colls w) \<Longrightarrow> map fst (dw_colls (demo_put w c its)) = map fst (dw_colls w)"
  by (simp add: demo_put_def update_keys)

lemma find_append: "find P xs = None \<Longrightarrow> find P (xs @ ys) = find P ys"
  by (induction xs) (auto split: if_splits)

lemma demo_service: "service_ok demo_methods demo_view nm w" if g: "v_good demo_view w"
proof -
  let ?c = "secretServiceDBusPath @ ''/collection/'' @ escape_name nm"
  have match: "secretServiceCollectionPathMatches ?c nm"
    using decodeSecretServicePath_plain [of "secretServiceDBusPath @ ''/collection/''" "escape_name nm"]
    by (simp add: secretServiceCollectionPathMatches_def secretServiceDBusPath_def)
  have "v_good demo_view (demo_put w ?c [])"
    using demo_put_good(2) [OF g] by simp
  moreover have "current demo_methods demo_view nm (demo_put w ?c []) = Some ?c"
    if "current demo_methods demo_view nm w = None"
  proof -
    have "?c \<notin> fst ` set (dw_colls w)" and no: "find (\<lambda>c. secretServiceCollectionPathMatches c nm) (map fst (dw_colls w)) = None"
      using that match by (auto simp: demo_current find_None_iff)
    then have "map fst (dw_colls (demo_put w ?c [])) = map fst (dw_colls w) @ [?c]"
      by (simp add: demo_put_def update_keys)
    with no match show ?thesis by (simp add: demo_current find_append)
  qed
  ultimately show ?thesis
    using g by (simp add: service_ok_def demo_methods_def fails_as_def Let_def)
qed

lemma demo_collection: "v_good demo_view w \<Longrightarrow> collection_ok demo_methods demo_view w c"
  using demo_distinct [of w c]
  by (auto simp: collection_ok_def demo_methods_def fails_as_def demo_put_good distinct_update update_conv' o_def
      case_prod_beta dom_map_of_conv_image_fst still_def
      image_image split: list.split option.split simp del: map_of_eq_Some_iff intro: rev_image_eqI)

lemma demo_item: "v_good demo_view w \<Longrightarrow> item_ok demo_methods demo_view w i"
  using demo_distinct [of w "fst i"]
  by (auto simp: item_ok_def demo_methods_def fails_as_def demo_put_good distinct_delete delete_conv'
      case_prod_beta still_def split: option.split simp del: map_of_eq_Some_iff)

lemma demo_ss_contract: "ss_contract demo_methods demo_view nm"
  by (simp add: ss_contract_def demo_service demo_collection demo_item)

section \<open>Properties\<close>

text \<open>
  \<open>SetBundle\<close> over the Secret Service, when any call of the service may fail and any item or collection may be
  locked: on success the bundle is exactly what was asked and nothing else changed; on failure nothing
  outside \<open>RollbackFailed\<close> has changed, nothing counts as written, and the slices partition the keys.
\<close>

theorem secret_SetBundle_all_or_nothing:
  assumes service: "ss_contract M V nm" and json: "json_ok cd"
    and s: "store_ok (os_good (ss_good M V nm)) s"
    and run: "Store_SetBundle (os_ops (ss_ops cd M)) s p kv opts = (s', res, err)"
  shows "store_ok (os_good (ss_good M V nm)) s' \<and>
    (let W = store_view (os_view (ss_view cd M V)) s; W' = store_view (os_view (ss_view cd M V)) s';
         keys = sort (remdups (map fst kv)) in
     case err of
       None \<Rightarrow>
         Written res = keys \<and>
         (\<forall>k \<in> fst ` set kv. W' (p @ ''/'' @ k) = map_of kv k) \<and>
         (\<forall>ik. ik \<notin> (\<lambda>k. p @ ''/'' @ k) ` fst ` set kv \<longrightarrow> W' ik = W ik)
     | Some e \<Rightarrow>
         (\<forall>ik. ik \<notin> (\<lambda>k. p @ ''/'' @ k) ` set (RollbackFailed res) \<longrightarrow> W' ik = W ik) \<and>
         Written res = [] \<and>
         (res = Result_zero \<or>
          mset keys = mset (Restored res) + mset (Absent res) + mset (Untouched res) +
            mset (RollbackFailed res) \<and>
          (\<forall>k \<in> set (Restored res). W (p @ ''/'' @ k) \<noteq> None) \<and>
          (\<forall>k \<in> set (Absent res). W (p @ ''/'' @ k) = None)))"
  by (rule backend_laws.Store_SetBundle_contract
      [OF keyring_laws.as_backend_laws [OF ss_keyring_laws [OF service json]] s run])

text \<open>The service has a collection of its own, all of it locked, and fails the second write.\<close>

definition secret_store :: "(demo_world, string) secretServiceBackend osKeyringBackend Store" where
  "secret_store = \<lparr>st_service = ''svc'', st_src = SourceAuto, st_kind = BackendSecretService,
     st_allowed = None, st_allowedList = [], st_closed = False,
     st_be = Some \<lparr>os_kr = \<lparr>ssb_name = ''svc'',
         ssb_service = \<lparr>dw_colls = [(secretServiceDBusPath @ ''/collection/svc'', [(''p/a'', ''0'')])], dw_left = Some 1\<rparr>,
         ssb_collection = None\<rparr>,
       os_backendKind = BackendSecretService, os_service = ''svc''\<rparr>\<rparr>"

definition failed_write ::
  "(demo_world, string) secretServiceBackend osKeyringBackend Store \<times> Result \<times> err option"
where
  "failed_write = Store_SetBundle (os_ops (ss_ops plain_codec demo_methods)) secret_store ''p'' [(''c'', ''2''), (''b'', ''1'')] []"

lemma failed_write_result:
  "case snd failed_write of (res, e) \<Rightarrow>
     RollbackFailed res = [] \<and> Absent res = [''b'', ''c''] \<and> \<not> Option.is_none e"
  by code_simp

theorem secret_SetBundle_all_or_nothing_witness:
  "store_view (os_view (ss_view plain_codec demo_methods demo_view)) (fst failed_write) =
     store_view (os_view (ss_view plain_codec demo_methods demo_view)) secret_store \<and>
   Absent (fst (snd failed_write)) = [''b'', ''c'']"
proof -
  have ok: "store_ok (os_good (ss_good demo_methods demo_view ''svc'')) secret_store"
    by (simp add: store_ok_def secret_store_def os_good_def ss_good_def demo_view_def)
  have "Store_SetBundle (os_ops (ss_ops plain_codec demo_methods)) secret_store ''p'' [(''c'', ''2''), (''b'', ''1'')] [] =
      (fst failed_write, fst (snd failed_write), snd (snd failed_write))"
    by (simp add: failed_write_def)
  note all_or_nothing = secret_SetBundle_all_or_nothing [OF demo_ss_contract plain_json_ok ok this]
  obtain e where e: "snd (snd failed_write) = Some e" and r: "RollbackFailed (fst (snd failed_write)) = []"
      "Absent (fst (snd failed_write)) = [''b'', ''c'']"
    using failed_write_result by (simp add: case_prod_beta Option.is_none_def) blast
  show ?thesis
    using all_or_nothing unfolding e by (simp add: Let_def fun_eq_iff r)
qed

end
