(* ===== verification/Walk.thy ===== *)
theory Walk
  imports Fs
begin

text \<open>
  \<open>filepath.Walk\<close> and \<open>filepath.Ext\<close>. A walk function gets a path, the node there (\<open>None\<close> for no info) and
  an error, and works on an accumulator; it never asks to skip. The recursion is on fuel, and \<open>walk_fuel\<close>
  is enough for every tree: a walk of a tree without faults visits each file below its root exactly once.
\<close>

type_synonym 'a walkFn = "string \<Rightarrow> node option \<Rightarrow> err option \<Rightarrow> 'a \<Rightarrow> 'a \<times> err option"

definition readDirNames :: "fs \<Rightarrow> string \<Rightarrow> fs \<times> string list result" where
  "readDirNames w path =
     (case os_ReadDir w path of (w', Inl e) \<Rightarrow> (w', Inl e) | (w', Inr es) \<Rightarrow> (w', Inr (map fst es)))"

text \<open>There are no links, so \<open>Lstat\<close> is \<open>Stat\<close>.\<close>

function (sequential) walk :: "nat \<Rightarrow> fs \<Rightarrow> 'a walkFn \<Rightarrow> string \<Rightarrow> node \<Rightarrow> 'a \<Rightarrow> fs \<times> 'a \<times> err option"
  and walk_names :: "nat \<Rightarrow> fs \<Rightarrow> 'a walkFn \<Rightarrow> string \<Rightarrow> string list \<Rightarrow> 'a \<Rightarrow> fs \<times> 'a \<times> err option"
where
  "walk n w cb path (File m c) acc = (w, cb path (Some (File m c)) None acc)"
| "walk 0 w cb path (Dir m) acc = (w, acc, None)"
| "walk (Suc n) w cb path (Dir m) acc =
     (case readDirNames w path of
        (w1, Inl e) \<Rightarrow> (w1, cb path (Some (Dir m)) (Some e) acc)
      | (w1, Inr names) \<Rightarrow>
          (case cb path (Some (Dir m)) None acc of
             (acc1, Some e) \<Rightarrow> (w1, acc1, Some e)
           | (acc1, None) \<Rightarrow> walk_names n w1 cb path names acc1))"
| "walk_names n w cb path [] acc = (w, acc, None)"
| "walk_names n w cb path (v # vs) acc =
     (let filename = filepath_Join [path, v] in
      case os_Stat w filename of
        (w1, Inl e) \<Rightarrow>
          (case cb filename None (Some e) acc of
             (acc1, Some e') \<Rightarrow> (w1, acc1, Some e')
           | (acc1, None) \<Rightarrow> walk_names n w1 cb path vs acc1)
      | (w1, Inr nd) \<Rightarrow>
          (case walk n w1 cb filename nd acc of
             (w2, acc2, Some e) \<Rightarrow> (w2, acc2, Some e)
           | (w2, acc2, None) \<Rightarrow> walk_names n w2 cb path vs acc2))"
  by pat_completeness auto
termination
  by (relation "measures [\<lambda>x. case x of Inl (n, _) \<Rightarrow> n | Inr (n, _) \<Rightarrow> n,
        \<lambda>x. case x of Inl _ \<Rightarrow> 0 | Inr (_, _, _, _, vs, _) \<Rightarrow> Suc (length vs)]") auto

definition walk_fuel :: "fs \<Rightarrow> nat" where
  "walk_fuel w = Suc (sum_list (map (length \<circ> fst) (nodes w)))"

definition filepath_Walk :: "fs \<Rightarrow> string \<Rightarrow> 'a walkFn \<Rightarrow> 'a \<Rightarrow> fs \<times> 'a \<times> err option" where
  "filepath_Walk w root cb acc =
     (case os_Stat w root of
        (w1, Inl e) \<Rightarrow> (w1, cb root None (Some e) acc)
      | (w1, Inr nd) \<Rightarrow> walk (walk_fuel w1) w1 cb root nd acc)"

text \<open>The suffix from the last dot of the last component on.\<close>

definition filepath_Ext :: "string \<Rightarrow> string" where
  "filepath_Ext p =
     (let base = takeWhile (\<lambda>c. c \<noteq> CHR ''/'') (rev p) in
      if CHR ''.'' \<in> set base then CHR ''.'' # rev (takeWhile (\<lambda>c. c \<noteq> CHR ''.'') base) else '''')"

section \<open>Paths as lists of names\<close>

abbreviation plains :: "string list \<Rightarrow> bool" where
  "plains ps \<equiv> \<forall>v \<in> set ps. plain v"

abbreviation at_path :: "string list \<Rightarrow> string" where
  "at_path ps \<equiv> unparts True ps"

lemma plains_stack: "plains ps \<Longrightarrow> clean_stack True ps"
  by (simp add: clean_stack_def)

lemma at_path_parts [simp]: "plains ps \<Longrightarrow> clean_parts (at_path ps) = ps"
  using clean_parts_unparts [OF plains_stack] by blast

lemma at_path_Clean [simp]: "plains ps \<Longrightarrow> filepath_Clean (at_path ps) = at_path ps"
  by (simp add: filepath_Clean_def)

lemma at_path_inj: "plains ps \<Longrightarrow> plains qs \<Longrightarrow> at_path ps = at_path qs \<longleftrightarrow> ps = qs"
  by (metis at_path_parts)

lemma at_path_Join: "plains ps \<Longrightarrow> plains vs \<Longrightarrow> filepath_Join (at_path ps # vs) = at_path (ps @ vs)"
  by (simp add: filepath_Join_plains)

lemma at_path_Dir: "plains ps \<Longrightarrow> plain v \<Longrightarrow> filepath_Dir (at_path (ps @ [v])) = at_path ps"
  using filepath_Dir_Join [of "at_path ps" v] at_path_Join [of ps "[v]"] by simp

lemma at_path_base: "plains ps \<Longrightarrow> plain v \<Longrightarrow> rev (takeWhile (\<lambda>c. c \<noteq> CHR ''/'') (rev (at_path (ps @ [v])))) = v"
  using base_Join [of "at_path ps" v] at_path_Join [of ps "[v]"] by simp

lemma at_path_root: "plains ps \<Longrightarrow> at_path ps = ''/'' \<longleftrightarrow> ps = []" "at_path ps \<noteq> ''.''"
proof -
  show "plains ps \<Longrightarrow> at_path ps = ''/'' \<longleftrightarrow> ps = []"
    using at_path_inj [of ps "[]"] by (simp add: unparts_def)
qed (simp add: unparts_def)

lemma node_at_path: "plains ps \<Longrightarrow> node_at w (at_path ps) = (if ps = [] then Some (Dir 493) else map_of (nodes w) (at_path ps))"
  using at_path_root by (simp add: node_at_def Let_def)

section \<open>Trees\<close>

text \<open>Every path is that of a name in a directory, and none is there twice.\<close>

definition is_tree :: "fs \<Rightarrow> bool" where
  "is_tree w \<longleftrightarrow>
     distinct (map fst (nodes w)) \<and>
     (\<forall>q \<in> fst ` set (nodes w). \<exists>ps v. plains ps \<and> plain v \<and> q = at_path (ps @ [v]) \<and> is_dir w (at_path ps))"

text \<open>The calls of a walk: ticks pass.\<close>

definition same_tree :: "fs \<Rightarrow> fs \<Rightarrow> bool" where
  "same_tree w w' \<longleftrightarrow> nodes w' = nodes w \<and> fault w' = fault w \<and> rand w' = rand w"

lemma same_tree_refl [simp]: "same_tree w w" "same_tree w (step w)"
  by (simp_all add: same_tree_def step_def)

lemma same_tree_trans: "same_tree w1 w2 \<Longrightarrow> same_tree w2 w3 \<Longrightarrow> same_tree w1 w3"
  by (simp add: same_tree_def)

lemma same_tree_node: "same_tree w w' \<Longrightarrow> node_at w' p = node_at w p"
  by (simp add: same_tree_def node_at_def Let_def)

lemma same_tree_is_tree: "same_tree w w' \<Longrightarrow> is_tree w' = is_tree w"
  using same_tree_node [of w w'] by (simp add: is_tree_def same_tree_def is_dir_def)

lemma tree_parent:
  assumes "is_tree w" "plains ps" "plain v" "node_at w (at_path (ps @ [v])) \<noteq> None"
  shows "is_dir w (at_path ps)"
proof -
  have "at_path (ps @ [v]) \<in> fst ` set (nodes w)"
    using assms by (simp add: node_at_path map_of_eq_None_iff)
  then obtain qs u where "plains qs" "plain u" "at_path (ps @ [v]) = at_path (qs @ [u])" "is_dir w (at_path qs)"
    using assms(1) by (auto simp: is_tree_def)
  with assms(2,3) show ?thesis
    using at_path_inj [of "ps @ [v]" "qs @ [u]"] by auto
qed

lemma is_dir_node: "is_dir w p \<Longrightarrow> node_at w p \<noteq> None"
  by (cases "node_at w p") (simp_all add: is_dir_def)

text \<open>Nothing lies below a file.\<close>

lemma tree_no_below_file:
  assumes "is_tree w" "plains ps" "plains rs" "node_at w (at_path (ps @ rs)) \<noteq> None" "rs \<noteq> []"
  shows "is_dir w (at_path ps)"
  using assms(3-5)
proof (induction rs rule: rev_induct)
  case (snoc v rs)
  have "is_dir w (at_path (ps @ rs))"
    using tree_parent [OF assms(1), of "ps @ rs" v] snoc.prems assms(2) by auto
  with snoc is_dir_node show ?case
    by (cases "rs = []") auto
qed simp

lemma tree_children:
  assumes "is_tree w" "plains ps"
  shows "set (map fst (children w (at_path ps))) = {v. plain v \<and> node_at w (at_path (ps @ [v])) \<noteq> None}"
    "distinct (map fst (children w (at_path ps)))"
proof -
  let ?base = "\<lambda>q. rev (takeWhile (\<lambda>c. c \<noteq> CHR ''/'') (rev q))"
  let ?es = "filter (\<lambda>(q, n). filepath_Dir q = at_path ps) (nodes w)"
  have fsts: "map fst (children w (at_path ps)) = map ?base (map fst ?es)"
    using assms(2) by (simp add: children_def comp_def case_prod_beta)
  have es: "q \<in> set (map fst ?es) \<longleftrightarrow> (\<exists>v. plain v \<and> q = at_path (ps @ [v]) \<and> node_at w q \<noteq> None)" for q
  proof
    assume q: "q \<in> set (map fst ?es)"
    then have "q \<in> fst ` set (nodes w)" by auto
    then obtain qs v where v: "plains qs" "plain v" "q = at_path (qs @ [v])"
      using assms(1) by (auto simp: is_tree_def)
    moreover have "filepath_Dir q = at_path ps" using q by auto
    ultimately have "qs = ps" using at_path_Dir at_path_inj assms(2) by simp
    moreover have "node_at w q \<noteq> None"
      using v \<open>q \<in> fst ` set (nodes w)\<close> by (simp add: node_at_path map_of_eq_None_iff)
    ultimately show "\<exists>v. plain v \<and> q = at_path (ps @ [v]) \<and> node_at w q \<noteq> None" using v by blast
  next
    assume "\<exists>v. plain v \<and> q = at_path (ps @ [v]) \<and> node_at w q \<noteq> None"
    then obtain v where v: "plain v" "q = at_path (ps @ [v])" "node_at w q \<noteq> None" by blast
    then have "q \<in> fst ` set (nodes w)"
      using assms(2) by (simp add: node_at_path map_of_eq_None_iff)
    moreover have "filepath_Dir q = at_path ps" using v at_path_Dir assms(2) by simp
    ultimately show "q \<in> set (map fst ?es)" by force
  qed
  have base: "q = at_path (ps @ [?base q])" if "q \<in> set (map fst ?es)" for q
  proof -
    from that es [of q] obtain v where "plain v" "q = at_path (ps @ [v])" by blast
    then show ?thesis using at_path_base [OF assms(2)] by simp
  qed
  have img: "set (map fst (children w (at_path ps))) = ?base ` set (map fst ?es)"
    unfolding fsts by (simp add: image_image)
  show "set (map fst (children w (at_path ps))) = {v. plain v \<and> node_at w (at_path (ps @ [v])) \<noteq> None}"
  proof (rule set_eqI)
    fix v
    have "v \<in> ?base ` set (map fst ?es) \<longleftrightarrow> plain v \<and> node_at w (at_path (ps @ [v])) \<noteq> None"
    proof
      assume "v \<in> ?base ` set (map fst ?es)"
      then obtain q where "q \<in> set (map fst ?es)" "v = ?base q" by blast
      with es [of q] obtain u where u: "plain u" "q = at_path (ps @ [u])" "node_at w q \<noteq> None" by blast
      then have "v = u" using at_path_base [OF assms(2), of u] \<open>v = ?base q\<close> by simp
      with u show "plain v \<and> node_at w (at_path (ps @ [v])) \<noteq> None" by simp
    next
      assume v: "plain v \<and> node_at w (at_path (ps @ [v])) \<noteq> None"
      then have "at_path (ps @ [v]) \<in> set (map fst ?es)" using es by blast
      moreover have "v = ?base (at_path (ps @ [v]))" using v at_path_base [OF assms(2)] by simp
      ultimately show "v \<in> ?base ` set (map fst ?es)" by blast
    qed
    then show "v \<in> set (map fst (children w (at_path ps))) \<longleftrightarrow> v \<in> {v. plain v \<and> node_at w (at_path (ps @ [v])) \<noteq> None}"
      unfolding img by simp
  qed
  have "inj_on ?base (set (map fst ?es))"
  proof (rule inj_onI)
    fix q1 q2
    assume q: "q1 \<in> set (map fst ?es)" "q2 \<in> set (map fst ?es)" and eq: "?base q1 = ?base q2"
    have "q1 = at_path (ps @ [?base q1])" by (rule base [OF q(1)])
    also have "\<dots> = q2" unfolding eq by (rule base [OF q(2), symmetric])
    finally show "q1 = q2" .
  qed
  moreover have "distinct (map fst ?es)"
    using assms(1) by (simp add: is_tree_def distinct_map_filter)
  ultimately show "distinct (map fst (children w (at_path ps)))"
    unfolding fsts distinct_map [of ?base] by blast
qed

section \<open>What a walk visits\<close>

definition files_below :: "fs \<Rightarrow> string list \<Rightarrow> string list set" where
  "files_below w ps = {rs. plains rs \<and> (\<exists>m c. node_at w (at_path (ps @ rs)) = Some (File m c))}"

lemma files_below_same: "same_tree w w' \<Longrightarrow> files_below w' ps = files_below w ps"
  using same_tree_node [of w w'] by (simp add: files_below_def)

lemma files_below_file:
  assumes "is_tree w" "plains ps" "node_at w (at_path ps) = Some (File m c)"
  shows "files_below w ps = {[]}"
proof -
  have "rs = []" if "rs \<in> files_below w ps" for rs
    using tree_no_below_file [OF assms(1,2), of rs] that assms(3) by (auto simp: files_below_def is_dir_def)
  then show ?thesis using assms(3) by (auto simp: files_below_def)
qed

lemma files_below_dir:
  assumes "is_tree w" "plains ps" "is_dir w (at_path ps)"
  shows "files_below w ps = (\<Union>v \<in> {v. plain v \<and> node_at w (at_path (ps @ [v])) \<noteq> None}. (#) v ` files_below w (ps @ [v]))"
proof (rule set_eqI)
  fix rs
  show "rs \<in> files_below w ps \<longleftrightarrow>
    rs \<in> (\<Union>v \<in> {v. plain v \<and> node_at w (at_path (ps @ [v])) \<noteq> None}. (#) v ` files_below w (ps @ [v]))"
  proof (cases rs)
    case Nil
    with assms(3) show ?thesis by (auto simp: files_below_def is_dir_def)
  next
    case (Cons v ts)
    have "node_at w (at_path (ps @ [v])) \<noteq> None" if "plain v" "plains ts" "node_at w (at_path (ps @ v # ts)) \<noteq> None"
    proof (cases "ts = []")
      case False
      with tree_no_below_file [OF assms(1), of "ps @ [v]" ts] that assms(2) show ?thesis
        by (simp add: is_dir_node)
    qed (use that in simp)
    with Cons show ?thesis by (auto simp: files_below_def image_iff)
  qed
qed

text \<open>
  A walk function that visits: it hands on every error, passes directories by, and adds \<open>g\<close> of the
  path of a file below the root.
\<close>

definition visits :: "string list \<Rightarrow> 'a list walkFn \<Rightarrow> (string list \<Rightarrow> 'a list) \<Rightarrow> bool" where
  "visits root cb g \<longleftrightarrow>
     (\<forall>p nd e acc. cb p nd (Some e) acc = (acc, Some e)) \<and>
     (\<forall>p m acc. cb p (Some (Dir m)) None acc = (acc, None)) \<and>
     (\<forall>rs m c acc. plains rs \<longrightarrow> rs \<noteq> [] \<longrightarrow>
        cb (at_path (root @ rs)) (Some (File m c)) None acc = (acc @ g (root @ rs), None))"

text \<open>The outcome of a walk over the files \<open>R\<close>, given as paths below \<open>ps\<close>.\<close>

definition walked :: "(string list \<Rightarrow> 'a list) \<Rightarrow> fs \<Rightarrow> string list \<Rightarrow> string list set \<Rightarrow> 'a list \<Rightarrow> fs \<times> 'a list \<times> err option \<Rightarrow> bool" where
  "walked g w ps R acc out \<longleftrightarrow>
     (case out of (w', acc', r) \<Rightarrow>
        same_tree w w' \<and>
        (r = None \<longrightarrow> (\<exists>rss. distinct rss \<and> set rss = R \<and> acc' = acc @ concat (map (\<lambda>rs. g (ps @ rs)) rss))) \<and>
        ((\<forall>k. fault w k = None) \<longrightarrow> r = None))"

lemma os_Stat_walk:
  assumes "os_Stat w p = (w', r)"
  shows "same_tree w w'" "r = Inr nd \<Longrightarrow> node_at w p = Some nd" "fault w (tick w) = None \<Longrightarrow> node_at w p = Some nd \<Longrightarrow> r = Inr nd"
  using assms by (auto simp: os_Stat_def syscall_def fault_now_def split: option.splits)

lemma readDirNames_walk:
  assumes "is_tree w" "plains ps" "is_dir w (at_path ps)" "readDirNames w (at_path ps) = (w', r)"
  shows "same_tree w w'" "r = Inr vs \<Longrightarrow> distinct vs \<and> set vs = {v. plain v \<and> node_at w (at_path (ps @ [v])) \<noteq> None}"
    "fault w (tick w) = None \<Longrightarrow> \<not> isl r"
proof -
  have "mset (map fst (sort_key fst (children w (at_path ps)))) = mset (map fst (children w (at_path ps)))"
    by simp
  then have sorted: "set (map fst (sort_key fst (children w (at_path ps)))) = set (map fst (children w (at_path ps)))"
    "distinct (map fst (sort_key fst (children w (at_path ps))))"
    using tree_children(2) [OF assms(1,2)] mset_eq_setD mset_eq_imp_distinct_iff by blast+
  obtain m where "node_at w (at_path ps) = Some (Dir m)"
    using assms(3) by (auto simp: is_dir_def split: option.splits node.splits)
  with assms(4) sorted tree_children(1) [OF assms(1,2)]
  show "same_tree w w'" "r = Inr vs \<Longrightarrow> distinct vs \<and> set vs = {v. plain v \<and> node_at w (at_path (ps @ [v])) \<noteq> None}"
    "fault w (tick w) = None \<Longrightarrow> \<not> isl r"
    by (auto simp: readDirNames_def os_ReadDir_def syscall_def fault_now_def split: option.splits prod.splits)
qed

lemma walked_files:
  "walked g w ps R acc (w', acc', None) \<Longrightarrow>
     \<exists>rss. distinct rss \<and> set rss = R \<and> acc' = acc @ concat (map (\<lambda>rs. g (ps @ rs)) rss)"
  by (simp add: walked_def)

lemma walked_step:
  assumes "walked g w1 (ps @ [v]) F acc (w2, acc2, None)" "walked g w2 ps R acc2 out"
    "\<And>rs. rs \<in> R \<Longrightarrow> rs \<noteq> [] \<and> hd rs \<noteq> v" "same_tree w w1"
  shows "walked g w ps ((#) v ` F \<union> R) acc out"
proof -
  obtain w3 acc3 r where out: "out = (w3, acc3, r)" by (cases out)
  obtain xs where xs: "distinct xs" "set xs = F" "acc2 = acc @ concat (map (\<lambda>rs. g (ps @ v # rs)) xs)"
    using assms(1) by (auto simp: walked_def)
  have "same_tree w w2"
    using assms(1) same_tree_trans [OF assms(4)] by (simp add: walked_def)
  then have st: "same_tree w w3" "fault w2 = fault w"
    using assms(2) same_tree_trans by (auto simp: walked_def out same_tree_def)
  moreover have "\<exists>zs. distinct zs \<and> set zs = (#) v ` F \<union> R \<and> acc3 = acc @ concat (map (\<lambda>rs. g (ps @ rs)) zs)"
    if "r = None"
  proof -
    have "walked g w2 ps R acc2 (w3, acc3, None)" using assms(2) that out by simp
    from walked_files [OF this]
    obtain ys where ys: "distinct ys" "set ys = R" "acc3 = acc2 @ concat (map (\<lambda>rs. g (ps @ rs)) ys)"
      by (elim exE conjE)
    let ?zs = "map ((#) v) xs @ ys"
    have "set (map ((#) v) xs) \<inter> set ys = {}" using assms(3) ys(2) by fastforce
    then have "distinct ?zs" using xs(1) ys(1) by (simp add: distinct_map inj_on_def)
    moreover have "set ?zs = (#) v ` F \<union> R" using xs(2) ys(2) by simp
    moreover have "acc3 = acc @ concat (map (\<lambda>rs. g (ps @ rs)) ?zs)" using xs(3) ys(3) by (simp add: comp_def)
    ultimately show ?thesis by blast
  qed
  ultimately show ?thesis
    using assms(2) by (simp add: walked_def out)
qed

text \<open>No path below goes deeper than \<open>n\<close> names.\<close>

definition shallow :: "fs \<Rightarrow> string list \<Rightarrow> nat \<Rightarrow> bool" where
  "shallow w ps n \<longleftrightarrow> (\<forall>rs. plains rs \<longrightarrow> node_at w (at_path (ps @ rs)) \<noteq> None \<longrightarrow> length rs < n)"

lemma shallow_same: "same_tree w w' \<Longrightarrow> shallow w' ps n = shallow w ps n"
  using same_tree_node [of w w'] by (simp add: shallow_def)

lemma shallow_child: "shallow w ps (Suc n) \<Longrightarrow> plain v \<Longrightarrow> shallow w (ps @ [v]) n"
  unfolding shallow_def
proof (intro allI impI)
  fix rs
  assume deep: "\<forall>rs. plains rs \<longrightarrow> node_at w (at_path (ps @ rs)) \<noteq> None \<longrightarrow> length rs < Suc n"
    and "plain v" "plains rs" "node_at w (at_path ((ps @ [v]) @ rs)) \<noteq> None"
  with spec [OF deep, of "v # rs"] show "length rs < n" by simp
qed

lemma walk_names_walked:
  assumes V: "visits root cb g"
    and IH: "\<And>w ps nd acc. is_tree w \<Longrightarrow> plains ps \<Longrightarrow> strict_prefix root ps \<Longrightarrow> node_at w (at_path ps) = Some nd \<Longrightarrow>
      shallow w ps n \<Longrightarrow> walked g w ps (files_below w ps) acc (walk n w cb (at_path ps) nd acc)"
    and ps: "plains ps" "prefix root ps"
  shows "is_tree w \<Longrightarrow> shallow w ps (Suc n) \<Longrightarrow> distinct vs \<Longrightarrow>
    (\<And>v. v \<in> set vs \<Longrightarrow> plain v \<and> node_at w (at_path (ps @ [v])) \<noteq> None) \<Longrightarrow>
    walked g w ps (\<Union>v \<in> set vs. (#) v ` files_below w (ps @ [v])) acc (walk_names n w cb (at_path ps) vs acc)"
proof (induction vs arbitrary: w acc)
  case Nil
  then show ?case by (simp add: walked_def)
next
  case (Cons v vs)
  have v: "plain v" "node_at w (at_path (ps @ [v])) \<noteq> None" "v \<notin> set vs"
    using Cons.prems(3,4) by simp_all
  have join: "filepath_Join [at_path ps, v] = at_path (ps @ [v])"
    using at_path_Join [of ps "[v]"] ps v by simp
  obtain w1 r where s: "os_Stat w (at_path (ps @ [v])) = (w1, r)" by (cases "os_Stat w (at_path (ps @ [v]))")
  note s1 = os_Stat_walk [OF s]
  show ?case
  proof (cases r)
    case (Inl e)
    have "cb (at_path (ps @ [v])) None (Some e) acc = (acc, Some e)" using V by (simp add: visits_def)
    moreover have "\<not> (\<forall>k. fault w k = None)"
    proof
      assume "\<forall>k. fault w k = None"
      then have "r \<noteq> Inl e" using s1(3) v(2) by fastforce
      with Inl show False by simp
    qed
    ultimately show ?thesis
      using join s Inl s1(1) by (simp add: walked_def)
  next
    case (Inr nd)
    obtain w2 acc2 r2 where k: "walk n w1 cb (at_path (ps @ [v])) nd acc = (w2, acc2, r2)"
      by (cases "walk n w1 cb (at_path (ps @ [v])) nd acc")
    have t1: "is_tree w1" "shallow w1 (ps @ [v]) n" "node_at w1 (at_path (ps @ [v])) = Some nd"
      using same_tree_is_tree [OF s1(1)] shallow_same [OF s1(1)] same_tree_node [OF s1(1)] s1(2) Inr Cons.prems(1,2)
        shallow_child v(1) by simp_all
    have "plains (ps @ [v])" "strict_prefix root (ps @ [v])"
      using ps v by (auto simp: strict_prefix_def)
    from IH [OF t1(1) this t1(3,2), of acc] k
    have w: "walked g w1 (ps @ [v]) (files_below w (ps @ [v])) acc (w2, acc2, r2)"
      using files_below_same [OF s1(1)] by simp
    show ?thesis
    proof (cases r2)
      case (Some e)
      with w join s Inr k same_tree_trans [OF s1(1)] s1(1) show ?thesis
        by (auto simp: walked_def same_tree_def)
    next
      case None
      have st: "same_tree w w2" using w same_tree_trans [OF s1(1)] by (simp add: walked_def)
      have "walked g w2 ps (\<Union>v \<in> set vs. (#) v ` files_below w2 (ps @ [v])) acc2 (walk_names n w2 cb (at_path ps) vs acc2)"
        using Cons.IH [of w2 acc2] same_tree_is_tree [OF st] shallow_same [OF st] same_tree_node [OF st] Cons.prems by simp
      then have "walked g w2 ps (\<Union>v \<in> set vs. (#) v ` files_below w (ps @ [v])) acc2 (walk_names n w2 cb (at_path ps) vs acc2)"
        using files_below_same [OF st] by simp
      moreover have "rs \<noteq> [] \<and> hd rs \<noteq> v" if "rs \<in> (\<Union>v \<in> set vs. (#) v ` files_below w (ps @ [v]))" for rs
        using that v(3) by auto
      ultimately have "walked g w ps ((#) v ` files_below w (ps @ [v]) \<union> (\<Union>v \<in> set vs. (#) v ` files_below w (ps @ [v]))) acc
          (walk_names n w2 cb (at_path ps) vs acc2)"
        using walked_step [OF w [unfolded None] _ _ s1(1)] by blast
      with join s Inr k None show ?thesis by simp
    qed
  qed
qed

lemma walk_walked:
  assumes V: "visits root cb g"
  shows "is_tree w \<Longrightarrow> plains ps \<Longrightarrow> prefix root ps \<Longrightarrow> node_at w (at_path ps) = Some nd \<Longrightarrow>
    (ps = root \<Longrightarrow> is_dir w (at_path ps)) \<Longrightarrow> shallow w ps n \<Longrightarrow>
    walked g w ps (files_below w ps) acc (walk n w cb (at_path ps) nd acc)"
proof (induction n arbitrary: w ps nd acc)
  case 0
  then have "length ([] :: string list) < 0" by (metis append_Nil2 empty_iff empty_set option.discI shallow_def)
  then show ?case by simp
next
  case (Suc n)
  show ?case
  proof (cases nd)
    case (File m c)
    then have "ps \<noteq> root" using Suc.prems(4,5) by (auto simp: is_dir_def)
    then obtain rs where "ps = root @ rs" "rs \<noteq> []" using Suc.prems(3) by (auto simp: prefix_def)
    with Suc.prems(2) V have "cb (at_path ps) (Some (File m c)) None acc = (acc @ g ps, None)"
      by (simp add: visits_def)
    moreover have "files_below w ps = {[]}"
      using files_below_file Suc.prems(1,2,4) File by simp
    moreover have "\<exists>rss. distinct rss \<and> set rss = {[] :: string list} \<and> acc @ g ps = acc @ concat (map (\<lambda>rs. g (ps @ rs)) rss)"
      by (rule exI [of _ "[[]]"]) simp
    ultimately show ?thesis by (simp add: File walked_def)
  next
    case (Dir m)
    then have d: "is_dir w (at_path ps)" using Suc.prems(4) by (simp add: is_dir_def)
    obtain w1 r where rd: "readDirNames w (at_path ps) = (w1, r)" by (cases "readDirNames w (at_path ps)")
    note r1 = readDirNames_walk [OF Suc.prems(1,2) d rd]
    show ?thesis
    proof (cases r)
      case (Inl e)
      have "cb (at_path ps) (Some (Dir m)) (Some e) acc = (acc, Some e)" using V by (simp add: visits_def)
      moreover have "\<not> (\<forall>k. fault w k = None)" using r1(3) Inl by (metis sum.disc(1))
      ultimately show ?thesis using Dir rd Inl r1(1) by (simp add: walked_def)
    next
      case (Inr vs)
      have cb: "cb (at_path ps) (Some (Dir m)) None acc = (acc, None)" using V by (simp add: visits_def)
      have t: "is_tree w1" "shallow w1 ps (Suc n)"
        using same_tree_is_tree [OF r1(1)] shallow_same [OF r1(1)] Suc.prems by simp_all
      have vs: "distinct vs" "set vs = {v. plain v \<and> node_at w (at_path (ps @ [v])) \<noteq> None}" using r1(2) [OF Inr] by simp_all
      have "walked g w1 ps (\<Union>v \<in> set vs. (#) v ` files_below w1 (ps @ [v])) acc (walk_names n w1 cb (at_path ps) vs acc)"
      proof (rule walk_names_walked [OF V _ Suc.prems(2,3) t vs(1)])
        show "v \<in> set vs \<Longrightarrow> plain v \<and> node_at w1 (at_path (ps @ [v])) \<noteq> None" for v
          using vs(2) same_tree_node [OF r1(1)] by simp
        show "is_tree w \<Longrightarrow> plains ps \<Longrightarrow> strict_prefix root ps \<Longrightarrow> node_at w (at_path ps) = Some nd \<Longrightarrow>
          shallow w ps n \<Longrightarrow> walked g w ps (files_below w ps) acc (walk n w cb (at_path ps) nd acc)" for w ps nd acc
          using Suc.IH [of w ps nd acc] by auto
      qed
      then have "walked g w1 ps (files_below w ps) acc (walk_names n w1 cb (at_path ps) vs acc)"
        using files_below_same [OF r1(1)] files_below_dir [OF Suc.prems(1,2) d] vs(2) by simp
      with Dir rd Inr cb r1(1) same_tree_trans [OF r1(1)] show ?thesis
        by (auto simp: walked_def same_tree_def)
    qed
  qed
qed

section \<open>The fuel is enough\<close>

lemma plains_length: "plains ps \<Longrightarrow> length ps \<le> length (strings_Join ps ''/'')"
proof (induction ps "''/''" rule: strings_Join.induct)
  case (2 x)
  then show ?case by (cases x) (simp_all add: plain_def)
qed simp_all

lemma fuel_shallow:
  assumes "is_tree w" "plains ps"
  shows "shallow w ps (walk_fuel w)"
  unfolding shallow_def
proof (intro allI impI)
  fix rs
  assume rs: "plains rs" "node_at w (at_path (ps @ rs)) \<noteq> None"
  show "length rs < walk_fuel w"
  proof (cases "ps @ rs = []")
    case False
    have all: "plains (ps @ rs)" using rs(1) assms(2) by auto
    have "map_of (nodes w) (at_path (ps @ rs)) \<noteq> None"
      using rs(2) unfolding node_at_path [OF all] if_not_P [OF False] .
    then obtain n where "(at_path (ps @ rs), n) \<in> set (nodes w)" by (auto dest: map_of_SomeD)
    then have "length (at_path (ps @ rs)) \<in> set (map (length \<circ> fst) (nodes w))" by force
    from member_le_sum_list [OF this] have "length (at_path (ps @ rs)) < walk_fuel w"
      by (simp add: walk_fuel_def)
    moreover have "length rs \<le> length (at_path (ps @ rs))"
      using plains_length [OF all] by (simp add: unparts_def)
    ultimately show ?thesis by simp
  qed (simp add: walk_fuel_def)
qed

text \<open>A walk of a tree: the directories are read, every file is visited once, and nothing is written.\<close>

theorem filepath_Walk_files:
  assumes "visits root cb g" "is_tree w" "plains root" "is_dir w (at_path root)"
  shows "walked g w root (files_below w root) acc (filepath_Walk w (at_path root) cb acc)"
proof -
  obtain w1 r where s: "os_Stat w (at_path root) = (w1, r)" by (cases "os_Stat w (at_path root)")
  note s1 = os_Stat_walk [OF s]
  show ?thesis
  proof (cases r)
    case (Inl e)
    have "cb (at_path root) None (Some e) acc = (acc, Some e)" using assms(1) by (simp add: visits_def)
    moreover have "\<not> (\<forall>k. fault w k = None)"
    proof
      assume "\<forall>k. fault w k = None"
      then have "r \<noteq> Inl e" using s1(3) is_dir_node [OF assms(4)] by fastforce
      with Inl show False by simp
    qed
    ultimately show ?thesis using s Inl s1(1) by (simp add: filepath_Walk_def walked_def)
  next
    case (Inr nd)
    have t: "is_tree w1" "node_at w1 (at_path root) = Some nd" "is_dir w1 (at_path root)"
      using same_tree_is_tree [OF s1(1)] same_tree_node [OF s1(1)] s1(2) [OF Inr] assms(2,4)
      by (simp_all add: is_dir_def)
    have "walked g w1 root (files_below w1 root) acc (walk (walk_fuel w1) w1 cb (at_path root) nd acc)"
      using walk_walked [OF assms(1) t(1) assms(3) prefix_order.order_refl t(2) t(3) fuel_shallow [OF t(1) assms(3)]] .
    then show ?thesis
      using s Inr files_below_same [OF s1(1)] s1(1) same_tree_trans [OF s1(1)]
      by (auto simp: filepath_Walk_def walked_def same_tree_def)
  qed
qed

end
