(* ===== verification/PassBackend.thy ===== *)
theory PassBackend
  imports Walk FileBackend Config
begin

text \<open>
  The keyring of the \<open>pass\<close> program in the static Unix builds: \<open>passbackend_nocgo_unix.go\<close>. Items are the
  files the program keeps below a directory, one per item, in the subdirectory of the service; the source
  looks at the files and leaves reading and writing them to the program. Running the program is the
  argument \<open>pass_exec\<close>: it takes the file system and a command to a file system, what the program wrote to
  its standard output, and how it ended.
\<close>

section \<open>strings.TrimSpace\<close>

text \<open>The UTF-8 encodings of the characters of \<open>unicode.IsSpace\<close>.\<close>

definition space_runes :: "string list" where
  "space_runes =
     map (\<lambda>n. [char_of n]) [9, 10, 11, 12, 13, 32 :: nat] @
     [[CHR 0xC2, CHR 0x85], [CHR 0xC2, CHR 0xA0], [CHR 0xE1, CHR 0x9A, CHR 0x80]] @
     map (\<lambda>n. [CHR 0xE2, CHR 0x80, char_of n]) ([0x80 ..< 0x8B] @ [0xA8, 0xA9, 0xAF :: nat]) @
     [[CHR 0xE2, CHR 0x81, CHR 0x9F], [CHR 0xE3, CHR 0x80, CHR 0x80]]"

function trim_left :: "string list \<Rightarrow> string \<Rightarrow> string" where
  "trim_left qs s =
     (case find (\<lambda>q. q \<noteq> '''' \<and> prefix q s) qs of
        None \<Rightarrow> s
      | Some q \<Rightarrow> trim_left qs (drop (length q) s))"
  by pat_completeness auto
termination
  by (relation "measure (length \<circ> snd)") (auto simp: find_Some_iff prefix_def)

declare trim_left.simps [simp del]

definition strings_TrimSpace :: "string \<Rightarrow> string" where
  "strings_TrimSpace s = rev (trim_left (map rev space_runes) (rev (trim_left space_runes s)))"

definition strings_TrimPrefix :: "string \<Rightarrow> string \<Rightarrow> string" where
  "strings_TrimPrefix s p = (if prefix p s then drop (length p) s else s)"

section \<open>The backend\<close>

record passKeyringBackend =
  pb_dir :: string
  pb_passcmd :: string
  pb_prefix :: string
  pb_fs :: fs

text \<open>An \<open>exec.Cmd\<close>: the program, its arguments, what is added to the environment, and its input.\<close>

record passCmd =
  cmd_Path :: string
  cmd_Args :: "string list"
  cmd_Env :: "string list"
  cmd_Stdin :: string

type_synonym pass_exec = "fs \<Rightarrow> passCmd \<Rightarrow> fs \<times> string \<times> err option"

text \<open>\<open>os.LookupEnv\<close> tells an unset variable from an empty one.\<close>

definition openPassBackend :: "host \<Rightarrow> (string \<Rightarrow> string option) \<Rightarrow> fs \<Rightarrow> backendConfig \<Rightarrow> passKeyringBackend result" where
  "openPassBackend h lookupEnv w cfg =
     (let passcmd = (if passCmd cfg = '''' then ''pass'' else passCmd cfg) in
      case (if passDir cfg \<noteq> '''' then Inr (passDir cfg)
            else
              (case lookupEnv ''PASSWORD_STORE_DIR'' of
                 Some dir \<Rightarrow> Inr dir
               | None \<Rightarrow>
                   (case os_UserHomeDir (host_GOOS h) (host_env h) of
                      Inl e \<Rightarrow> Inl e
                    | Inr home \<Rightarrow> Inr (filepath_Join [home, ''.password-store''])))) of
        Inl e \<Rightarrow> Inl e
      | Inr dir0 \<Rightarrow>
          (case expandTilde (host_env h) dir0 of
             Inl e \<Rightarrow> Inl e
           | Inr dir \<Rightarrow>
               (case host_lookPath h passcmd of
                  Some _ \<Rightarrow> Inl (Errorf [Lit ''The pass program is not available''])
                | None \<Rightarrow> Inr \<lparr>pb_dir = dir, pb_passcmd = passcmd, pb_prefix = passPrefix cfg, pb_fs = w\<rparr>)))"

definition pass :: "passKeyringBackend \<Rightarrow> string list \<Rightarrow> passCmd" where
  "pass b args =
     \<lparr>cmd_Path = pb_passcmd b, cmd_Args = args,
      cmd_Env = (if pb_dir b \<noteq> '''' then [''PASSWORD_STORE_DIR='' @ pb_dir b] else []), cmd_Stdin = ''''\<rparr>"

definition passItemPath :: "string \<Rightarrow> string \<Rightarrow> string result" where
  "passItemPath pre itemKey =
     (let escapes = Inl (Errorf [Lit ''credstore: pass item path '', Quoted itemKey, Lit '' escapes the service prefix'']) in
      if itemKey = '''' \<or> filepath_IsAbs itemKey then
        Inl (Errorf [Lit ''credstore: pass item path '', Quoted itemKey, Lit '' is invalid''])
      else if list_ex (\<lambda>part. part = '''' \<or> part = ''.'' \<or> part = ''..'') (strings_Split itemKey (CHR ''/'')) then escapes
      else
        (let clean = filepath_Clean itemKey in
         if clean = ''.'' \<or> clean = ''..'' \<or> prefix ''../'' clean then escapes
         else Inr (filepath_Join [pre, clean])))"

definition decodePassItemOutput :: "codec \<Rightarrow> string \<Rightarrow> keyringItem result" where
  "decodePassItemOutput cd out =
     (case json_Unmarshal cd (strings_TrimSpace out) of
        Inl e \<Rightarrow> Inl e
      | Inr decoded \<Rightarrow> Inr (keyringItem_zero\<lparr>ki_key := pi_Key decoded, ki_data := pi_Data decoded\<rparr>))"

definition checkItemExists :: "passKeyringBackend \<Rightarrow> string \<Rightarrow> passKeyringBackend \<times> err option" where
  "checkItemExists b itemKey =
     (case passItemPath (pb_prefix b) itemKey of
        Inl e \<Rightarrow> (b, Some e)
      | Inr itemPath \<Rightarrow>
          (case os_Stat (pb_fs b) (filepath_Join [pb_dir b, itemPath @ ''.gpg'']) of
             (w, Inr _) \<Rightarrow> (b\<lparr>pb_fs := w\<rparr>, None)
           | (w, Inl e) \<Rightarrow>
               (b\<lparr>pb_fs := w\<rparr>, Some (if os_IsNotExist e then Sentinel errKeyringItemNotFound else e))))"

definition pass_get :: "codec \<Rightarrow> pass_exec \<Rightarrow> passKeyringBackend \<Rightarrow> string \<Rightarrow> passKeyringBackend \<times> keyringItem result" where
  "pass_get cd exec b itemKey =
     (case checkItemExists b itemKey of
        (b1, Some e) \<Rightarrow>
          (b1, Inl (if errors_Is e errKeyringItemNotFound then Sentinel errKeyringItemNotFound else e))
      | (b1, None) \<Rightarrow>
          (case passItemPath (pb_prefix b1) itemKey of
             Inl e \<Rightarrow> (b1, Inl e)
           | Inr itemPath \<Rightarrow>
               (case exec (pb_fs b1) (pass b1 [''show'', itemPath]) of
                  (w, out, Some e) \<Rightarrow> (b1\<lparr>pb_fs := w\<rparr>, Inl e)
                | (w, out, None) \<Rightarrow> (b1\<lparr>pb_fs := w\<rparr>, decodePassItemOutput cd out))))"

definition pass_metadata :: "passKeyringBackend \<Rightarrow> string \<Rightarrow> passKeyringBackend \<times> keyringItem result" where
  "pass_metadata b itemKey =
     (case checkItemExists b itemKey of
        (b1, Some e) \<Rightarrow> (b1, Inl e)
      | (b1, None) \<Rightarrow> (b1, Inr (keyringItem_zero\<lparr>ki_key := itemKey\<rparr>)))"

definition pass_set :: "codec \<Rightarrow> pass_exec \<Rightarrow> passKeyringBackend \<Rightarrow> keyringItem \<Rightarrow> passKeyringBackend \<times> err option" where
  "pass_set cd exec b it =
     (case json_Marshal cd \<lparr>pi_Key = ki_key it, pi_Data = ki_data it, pi_Label = '''', pi_Description = '''',
         pi_KeychainNotTrustApplication = False, pi_KeychainNotSynchronizable = False\<rparr> of
        Inl e \<Rightarrow> (b, Some e)
      | Inr bytes \<Rightarrow>
          (case passItemPath (pb_prefix b) (ki_key it) of
             Inl e \<Rightarrow> (b, Some e)
           | Inr itemPath \<Rightarrow>
               (case exec (pb_fs b) ((pass b [''insert'', ''-m'', ''-f'', itemPath])\<lparr>cmd_Stdin := bytes\<rparr>) of
                  (w, out, r) \<Rightarrow> (b\<lparr>pb_fs := w\<rparr>, r))))"

definition pass_remove :: "pass_exec \<Rightarrow> passKeyringBackend \<Rightarrow> string \<Rightarrow> passKeyringBackend \<times> err option" where
  "pass_remove exec b itemKey =
     (case checkItemExists b itemKey of
        (b1, Some e) \<Rightarrow> (b1, Some e)
      | (b1, None) \<Rightarrow>
          (case passItemPath (pb_prefix b1) itemKey of
             Inl e \<Rightarrow> (b1, Some e)
           | Inr itemPath \<Rightarrow>
               (case exec (pb_fs b1) (pass b1 [''rm'', ''-f'', itemPath]) of
                  (w, out, r) \<Rightarrow> (b1\<lparr>pb_fs := w\<rparr>, r))))"

text \<open>The walk function: a name too short to index or to slice panics.\<close>

definition pass_visit :: "string \<Rightarrow> string list walkFn" where
  "pass_visit path p info err keys =
     (case err of
        Some e \<Rightarrow> (keys, Some e)
      | None \<Rightarrow>
          (case info of
             None \<Rightarrow> (keys, Some NilDereference)
           | Some (Dir _) \<Rightarrow> (keys, None)
           | Some (File _ _) \<Rightarrow>
               (if filepath_Ext p \<noteq> ''.gpg'' then (keys, None)
                else
                  (case strings_TrimPrefix p path of
                     [] \<Rightarrow> (keys, Some (OtherError ''runtime error: index out of range [0] with length 0''))
                   | c # cs \<Rightarrow>
                       (let name = (if c = CHR ''/'' then cs else c # cs) in
                        if length name < 4 then (keys, Some (OtherError ''runtime error: slice bounds out of range''))
                        else (keys @ [take (length name - 4) name], None))))))"

definition pass_keys :: "passKeyringBackend \<Rightarrow> passKeyringBackend \<times> string list result" where
  "pass_keys b =
     (let path = filepath_Join [pb_dir b, pb_prefix b] in
      case os_Stat (pb_fs b) path of
        (w, Inl e) \<Rightarrow> (b\<lparr>pb_fs := w\<rparr>, if os_IsNotExist e then Inr [] else Inl e)
      | (w, Inr (File _ _)) \<Rightarrow> (b\<lparr>pb_fs := w\<rparr>, Inl (Errorf [Lit path, Lit '' is not a directory'']))
      | (w, Inr (Dir _)) \<Rightarrow>
          (case filepath_Walk w path (pass_visit path) [] of
             (w', keys, Some e) \<Rightarrow> (b\<lparr>pb_fs := w'\<rparr>, Inl e)
           | (w', keys, None) \<Rightarrow> (b\<lparr>pb_fs := w'\<rparr>, Inr keys)))"

definition pass_ops :: "codec \<Rightarrow> pass_exec \<Rightarrow> passKeyringBackend keyringBackend" where
  "pass_ops cd exec =
     \<lparr>kr_get = pass_get cd exec, kr_metadata = pass_metadata, kr_set = pass_set cd exec,
      kr_remove = pass_remove exec, kr_keys = pass_keys\<rparr>"

section \<open>Item paths\<close>

abbreviation key_parts :: "string \<Rightarrow> string list" where
  "key_parts i \<equiv> strings_Split i (CHR ''/'')"

lemma key_parts_Join: "strings_Join (key_parts i) ''/'' = i" "key_parts i \<noteq> []"
proof -
  show ne: "key_parts i \<noteq> []" for i by (cases i) (auto split: list.splits)
  show "strings_Join (key_parts i) ''/'' = i"
  proof (induction i)
    case (Cons x i)
    then show ?case
      using ne [of i] by (cases "key_parts i"; cases "tl (key_parts i)") auto
  qed simp
qed

lemma key_parts_unparts: "unparts False (key_parts i) = i"
  by (simp add: unparts_def key_parts_Join)

text \<open>A key all of whose parts are plain is clean as it stands.\<close>

lemma plain_key:
  assumes "plains (key_parts i)"
  shows "i \<noteq> ''''" "\<not> filepath_IsAbs i" "filepath_Clean i = i" "clean_parts i = key_parts i"
    "i \<notin> {''.'', ''..''}" "\<not> prefix ''../'' i"
proof -
  have st: "clean_stack False (key_parts i)" using assms by (simp add: clean_stack_def)
  show abs: "\<not> filepath_IsAbs i" using filepath_IsAbs_unparts [OF st] by (simp add: key_parts_unparts)
  show parts: "clean_parts i = key_parts i"
    using clean_parts_unparts [OF st] assms by (simp add: key_parts_unparts)
  show "filepath_Clean i = i" using parts abs by (simp add: filepath_Clean_def key_parts_unparts)
  have bad: "\<not> plains (key_parts '''')" "\<not> plains (key_parts ''.'')" "\<not> plains (key_parts ''..'')"
    by (simp_all add: plain_def)
  have "i \<noteq> j" if "\<not> plains (key_parts j)" for j
  proof
    assume "i = j"
    from that assms [unfolded this] show False by (rule notE)
  qed
  from this [OF bad(1)] this [OF bad(2)] this [OF bad(3)] show "i \<noteq> ''''" "i \<notin> {''.'', ''..''}" by blast+
  show "\<not> prefix ''../'' i"
  proof
    assume "prefix ''../'' i"
    then obtain t where "i = ''..'' @ CHR ''/'' # t" by (auto simp: prefix_def)
    then have "key_parts i = ''..'' # key_parts t"
      using strings_Split_append [of "''..''" "CHR ''/''" t] by simp
    with assms show False by (simp add: plain_def)
  qed
qed

lemma Join_prefix_key:
  assumes "plain pre" "plains (key_parts i)"
  shows "filepath_Join [pre, i] = pre @ ''/'' @ i"
proof -
  let ?ps = "pre # key_parts i"
  have join: "unparts False ?ps = pre @ ''/'' @ i"
    using key_parts_Join [of i] by (cases "key_parts i") (simp_all add: unparts_def)
  have "clean_stack False ?ps" "plains ?ps" using assms by (auto simp: clean_stack_def)
  then have "filepath_Clean (pre @ ''/'' @ i) = pre @ ''/'' @ i"
    using clean_parts_unparts [of False ?ps] filepath_IsAbs_unparts [of False ?ps]
    by (simp add: filepath_Clean_def join)
  then show ?thesis using assms(1) plain_key(1) [OF assms(2)] by (simp add: filepath_Join_def plain_def)
qed

lemma passItemPath_eq:
  assumes "plain pre"
  shows "plains (key_parts i) \<Longrightarrow> passItemPath pre i = Inr (pre @ ''/'' @ i)"
    "\<not> plains (key_parts i) \<Longrightarrow> \<exists>qs. passItemPath pre i = Inl (Errorf qs)"
proof -
  have bad: "list_ex (\<lambda>part. part = '''' \<or> part = ''.'' \<or> part = ''..'') (key_parts i) \<longleftrightarrow> \<not> plains (key_parts i)"
    by (auto simp: list_ex_iff plain_def dest: strings_Split_no_sep)
  show "plains (key_parts i) \<Longrightarrow> passItemPath pre i = Inr (pre @ ''/'' @ i)"
    using plain_key [of i] Join_prefix_key [OF assms] bad by (simp add: passItemPath_def)
  show "\<not> plains (key_parts i) \<Longrightarrow> \<exists>qs. passItemPath pre i = Inl (Errorf qs)"
    using bad by (auto simp: passItemPath_def Let_def)
qed

text \<open>The file of an item.\<close>

definition item_parts :: "string \<Rightarrow> string list" where
  "item_parts i = butlast (key_parts i) @ [last (key_parts i) @ ''.gpg'']"

lemma item_parts_plain: "plains (key_parts i) \<Longrightarrow> plains (item_parts i)"
  using key_parts_Join(2) [of i] by (auto simp: item_parts_def plain_def dest: in_set_butlastD)

lemma item_parts_Join: "strings_Join (item_parts i) ''/'' = i @ ''.gpg''"
proof (cases "butlast (key_parts i) = []")
  case True
  then have "key_parts i = [last (key_parts i)]"
    using key_parts_Join(2) [of i] by (metis append_Nil append_butlast_last_id)
  then show ?thesis
    using key_parts_Join(1) [of i] True by (metis item_parts_def append_Nil strings_Join.simps(2))
next
  case False
  have "strings_Join (butlast (key_parts i) @ [last (key_parts i)]) ''/'' = i"
    using key_parts_Join [of i] by simp
  with False show ?thesis
    by (auto simp: item_parts_def strings_Join_append)
qed

lemma item_file:
  assumes "filepath_IsAbs dir" "plain pre" "plains (key_parts i)"
  shows "filepath_Join [dir, (pre @ ''/'' @ i) @ ''.gpg''] = unparts True (clean_parts dir @ pre # item_parts i)"
proof -
  have "strings_Join (pre # item_parts i) ''/'' = (pre @ ''/'' @ i) @ ''.gpg''"
    using item_parts_Join [of i] by (cases "item_parts i") (simp_all add: item_parts_def)
  moreover have "filepath_Join [dir, strings_Join (pre # vs) ''/''] = filepath_Join (dir # pre # vs)" for vs
    using assms(1,2) by (auto simp: filepath_Join_def filepath_IsAbs_def plain_def)
  ultimately have "filepath_Join [dir, (pre @ ''/'' @ i) @ ''.gpg''] = filepath_Join (dir # pre # item_parts i)"
    by metis
  also have "\<dots> = unparts True (clean_parts dir @ pre # item_parts i)"
    using assms item_parts_plain [OF assms(3)] filepath_Join_plains [of dir "pre # item_parts i"]
    by (cases dir) (auto simp: filepath_IsAbs_def)
  finally show ?thesis .
qed

section \<open>Properties\<close>

text \<open>
  C23. The path of an item never leaves the service's subdirectory: a key is accepted exactly if all its
  parts between slashes are plain names, and then its file is the one of these names below the
  subdirectory, a different one for every key; any other key, an absolute one or one with a dot part or an
  empty part, is refused before the program or the file system is asked.
\<close>

theorem passItemPath_confined:
  assumes "filepath_IsAbs dir" "plain pre"
  shows "(case passItemPath pre i of
       Inr p \<Rightarrow> plains (key_parts i) \<and> p = pre @ ''/'' @ i \<and>
         filepath_Join [dir, p @ ''.gpg''] = unparts True (clean_parts dir @ pre # item_parts i)
     | Inl e \<Rightarrow> \<not> plains (key_parts i) \<and>
         (\<forall>b. pb_prefix b = pre \<longrightarrow> checkItemExists b i = (b, Some e) \<and> pass_get cd exec b i = (b, Inl e) \<and>
            pass_remove exec b i = (b, Some e))) \<and>
    (\<forall>j p q. passItemPath pre i = Inr p \<and> passItemPath pre j = Inr q \<and>
       filepath_Join [dir, p @ ''.gpg''] = filepath_Join [dir, q @ ''.gpg''] \<longrightarrow> i = j)"
proof -
  have inj: "i = j" if ok: "plains (key_parts i)" "plains (key_parts j)"
      and eq: "at_path (clean_parts dir @ pre # item_parts i) = at_path (clean_parts dir @ pre # item_parts j)" for j
  proof -
    have st: "clean_stack True (clean_parts dir @ pre # item_parts k)" if "plains (key_parts k)" for k
      using clean_parts_stack [of dir] assms item_parts_plain [OF that] by (auto simp: clean_stack_def)
    have "clean_parts dir @ pre # item_parts i = clean_parts dir @ pre # item_parts j"
      using arg_cong [OF eq, of clean_parts]
      unfolding clean_parts_unparts [OF st [OF ok(1)], simplified] clean_parts_unparts [OF st [OF ok(2)], simplified] .
    then have "item_parts i = item_parts j" by (simp only: append_same_eq same_append_eq list.inject)
    then have "i @ ''.gpg'' = j @ ''.gpg''" by (simp only: item_parts_Join [symmetric])
    then show ?thesis by (simp only: append_same_eq)
  qed
  have Inr: "plains (key_parts k)" if "passItemPath pre k = Inr p" for k p
    using passItemPath_eq(2) [OF assms(2), of k] that by auto
  have "i = j" if "passItemPath pre i = Inr p" "passItemPath pre j = Inr q"
      "filepath_Join [dir, p @ ''.gpg''] = filepath_Join [dir, q @ ''.gpg'']" for j p q
  proof -
    note ok = Inr [OF that(1)] Inr [OF that(2)]
    have "p = pre @ ''/'' @ i" "q = pre @ ''/'' @ j"
      using that(1,2) passItemPath_eq(1) [OF assms(2) ok(1)] passItemPath_eq(1) [OF assms(2) ok(2)]
      by (simp_all only: sum.inject)
    from that(3) [unfolded this item_file [OF assms ok(1)] item_file [OF assms ok(2)]] show ?thesis by (rule inj [OF ok])
  qed
  moreover have "case passItemPath pre i of
       Inr p \<Rightarrow> plains (key_parts i) \<and> p = pre @ ''/'' @ i \<and>
         filepath_Join [dir, p @ ''.gpg''] = unparts True (clean_parts dir @ pre # item_parts i)
     | Inl e \<Rightarrow> \<not> plains (key_parts i) \<and>
         (\<forall>b. pb_prefix b = pre \<longrightarrow> checkItemExists b i = (b, Some e) \<and> pass_get cd exec b i = (b, Inl e) \<and>
            pass_remove exec b i = (b, Some e))"
  proof (cases "plains (key_parts i)")
    case True
    with item_file [OF assms True] passItemPath_eq(1) [OF assms(2) True] show ?thesis by simp
  next
    case False
    with passItemPath_eq(2) [OF assms(2) False] show ?thesis
      by (auto simp: checkItemExists_def pass_get_def pass_remove_def)
  qed
  ultimately show ?thesis by blast
qed

theorem passItemPath_confined_witness:
  "passItemPath ''svc'' ''p/k'' = Inr ''svc/p/k'' \<and> \<not> plains (key_parts ''../other/k'')"
proof -
  have "filepath_IsAbs ''/s''" "plain ''svc''" by (simp_all add: filepath_IsAbs_def plain_def)
  note confined = passItemPath_confined [OF this]
  have "passItemPath ''svc'' ''p/k'' = Inr ''svc/p/k''" by code_simp
  moreover have "isl (passItemPath ''svc'' ''../other/k'')" by code_simp
  then obtain e where e: "passItemPath ''svc'' ''../other/k'' = Inl e" by (cases "passItemPath ''svc'' ''../other/k''") simp_all
  have "\<not> plains (key_parts ''../other/k'')"
    using confined [of "''../other/k''"] unfolding e sum.case by blast
  ultimately show ?thesis by blast
qed

end
