(* ===== verification/PassLaws.thy ===== *)
theory PassLaws
  imports PassBackend KeyringLaws
begin

text \<open>
  What the pass backend relies on of the program, and that it then is a lawful keyring: what is there is what
  the files below the service's subdirectory say, read through \<open>dec\<close>, the decryption of a file. The listing
  is the walk of \<open>Walk\<close>: every item's file is met once, and its path gives the item key back.
\<close>

section \<open>Files and keys\<close>

lemma strings_Join_append2:
  "xs \<noteq> [] \<Longrightarrow> ys \<noteq> [] \<Longrightarrow> strings_Join (xs @ ys) sep = strings_Join xs sep @ sep @ strings_Join ys sep"
proof (induction xs sep rule: strings_Join.induct)
  case (2 x sep)
  then show ?case by (cases ys) simp_all
qed simp_all

definition is_gpg :: "string list \<Rightarrow> bool" where
  "is_gpg rs \<longleftrightarrow> rs \<noteq> [] \<and> suffix ''.gpg'' (last rs)"

definition file_key :: "string list \<Rightarrow> string" where
  "file_key rs = (let j = strings_Join rs ''/'' in take (length j - 4) j)"

lemma gpg_split:
  assumes "is_gpg rs"
  obtains x where "rs = butlast rs @ [x @ ''.gpg'']" "strings_Join rs ''/'' = strings_Join (butlast rs @ [x]) ''/'' @ ''.gpg''"
    "file_key rs = strings_Join (butlast rs @ [x]) ''/''" "take (length (last rs) - 4) (last rs) = x"
proof -
  obtain x where x: "last rs = x @ ''.gpg''" using assms by (auto simp: is_gpg_def suffix_def)
  then have rs: "rs = butlast rs @ [x @ ''.gpg'']" using assms by (metis is_gpg_def append_butlast_last_id)
  have "strings_Join (butlast rs @ [x @ ''.gpg'']) ''/'' = strings_Join (butlast rs @ [x]) ''/'' @ ''.gpg''"
    by (cases "butlast rs = []") (simp_all add: strings_Join_append)
  then have j: "strings_Join rs ''/'' = strings_Join (butlast rs @ [x]) ''/'' @ ''.gpg''"
    using rs by metis
  show ?thesis
    by (rule that [OF rs j]) (simp_all add: file_key_def j Let_def x)
qed

lemma gpg_key:
  assumes "is_gpg rs" "plains rs" "plain (take (length (last rs) - 4) (last rs))"
  shows "plains (key_parts (file_key rs))" "item_parts (file_key rs) = rs"
proof -
  from gpg_split [OF assms(1)] obtain x where
    x: "rs = butlast rs @ [x @ ''.gpg'']" "file_key rs = strings_Join (butlast rs @ [x]) ''/''" "plain x"
    using assms(3) by metis
  have all: "plains (butlast rs @ [x])" using assms(2) x(3) by (auto dest: in_set_butlastD)
  then have "key_parts (file_key rs) = butlast rs @ [x]"
    unfolding x(2) by (intro strings_Split_Join) (auto simp: plain_def)
  with all x(1) show "plains (key_parts (file_key rs))" "item_parts (file_key rs) = rs"
    by (simp_all add: item_parts_def)
qed

lemma item_parts_key: "is_gpg (item_parts i)" "file_key (item_parts i) = i"
proof -
  show "is_gpg (item_parts i)" by (simp add: is_gpg_def item_parts_def suffix_def)
  show "file_key (item_parts i) = i" by (simp add: file_key_def item_parts_Join)
qed

lemma Ext_gpg:
  assumes "plains ps" "plain v"
  shows "filepath_Ext (at_path (ps @ [v])) = ''.gpg'' \<longleftrightarrow> suffix ''.gpg'' v"
proof -
  have base: "takeWhile (\<lambda>c. c \<noteq> CHR ''/'') (rev (at_path (ps @ [v]))) = rev v"
    using at_path_base [OF assms] by (metis rev_rev_ident)
  have *: "CHR ''.'' # rev (takeWhile (\<lambda>c. c \<noteq> CHR ''.'') s) = ''.gpg'' \<longleftrightarrow> prefix ''gpg.'' s"
    if dot: "CHR ''.'' \<in> set s" for s
  proof
    assume "CHR ''.'' # rev (takeWhile (\<lambda>c. c \<noteq> CHR ''.'') s) = ''.gpg''"
    then have gpg: "takeWhile (\<lambda>c. c \<noteq> CHR ''.'') s = ''gpg''" by (simp add: rev_swap)
    have "dropWhile (\<lambda>c. c \<noteq> CHR ''.'') s \<noteq> []" using dot by (simp add: dropWhile_eq_Nil_conv)
    moreover from this have "hd (dropWhile (\<lambda>c. c \<noteq> CHR ''.'') s) = CHR ''.''"
      using hd_dropWhile [of "\<lambda>c. c \<noteq> CHR ''.''" s] by simp
    ultimately obtain t where t: "dropWhile (\<lambda>c. c \<noteq> CHR ''.'') s = CHR ''.'' # t" by (cases "dropWhile (\<lambda>c. c \<noteq> CHR ''.'') s") simp_all
    have "s = takeWhile (\<lambda>c. c \<noteq> CHR ''.'') s @ dropWhile (\<lambda>c. c \<noteq> CHR ''.'') s" by simp
    then have "s = ''gpg.'' @ t" unfolding gpg t by simp
    then show "prefix ''gpg.'' s" by (rule prefixI)
  next
    assume "prefix ''gpg.'' s"
    then show "CHR ''.'' # rev (takeWhile (\<lambda>c. c \<noteq> CHR ''.'') s) = ''.gpg''" by (auto simp: prefix_def)
  qed
  have "suffix ''.gpg'' v \<longleftrightarrow> prefix ''gpg.'' (rev v)" by (simp add: suffix_to_prefix)
  moreover have "prefix ''gpg.'' (rev v) \<Longrightarrow> CHR ''.'' \<in> set v"
    using set_mono_prefix [of "''gpg.''" "rev v"] by auto
  ultimately show ?thesis
    unfolding filepath_Ext_def base using * [of "rev v"] by (auto simp: Let_def)
qed

section \<open>The listing\<close>

definition walk_key :: "nat \<Rightarrow> string list \<Rightarrow> string list" where
  "walk_key n ps = (if is_gpg (drop n ps) then [file_key (drop n ps)] else [])"

lemma pass_visit_visits:
  assumes "plains root" "root \<noteq> []"
  shows "visits root (pass_visit (at_path root)) (walk_key (length root))"
  unfolding visits_def
proof (intro conjI allI impI)
  fix rs :: "string list" and m c acc
  assume rs: "plains rs" "rs \<noteq> []"
  let ?p = "at_path (root @ rs)"
  have p: "?p = at_path ((root @ butlast rs) @ [last rs])" using rs(2) by simp
  have "plains (root @ butlast rs)" "plain (last rs)" using assms(1) rs by (auto dest: in_set_butlastD)
  from Ext_gpg [OF this] have ext: "filepath_Ext ?p = ''.gpg'' \<longleftrightarrow> is_gpg rs"
    unfolding p is_gpg_def by (simp only: rs(2) not_False_eq_True simp_thms)
  have "?p = at_path root @ ''/'' @ strings_Join rs ''/''"
    using assms(2) rs(2) by (simp add: unparts_def strings_Join_append2)
  then have trim: "strings_TrimPrefix ?p (at_path root) = ''/'' @ strings_Join rs ''/''"
    by (simp add: strings_TrimPrefix_def)
  have len: "\<not> length (strings_Join rs ''/'') < 4" if "is_gpg rs"
    by (rule gpg_split [OF that]) simp
  show "pass_visit (at_path root) ?p (Some (File m c)) None acc = (acc @ walk_key (length root) (root @ rs), None)"
    using ext trim len by (auto simp: pass_visit_def walk_key_def file_key_def Let_def)
qed (simp_all add: pass_visit_def)

lemma walk_keys:
  assumes "distinct rss" "\<And>rs. rs \<in> set rss \<Longrightarrow> plains rs"
    "\<And>rs. rs \<in> set rss \<Longrightarrow> is_gpg rs \<Longrightarrow> plain (take (length (last rs) - 4) (last rs))"
  shows "distinct (concat (map (\<lambda>rs. walk_key (length root) (root @ rs)) rss))"
    "set (concat (map (\<lambda>rs. walk_key (length root) (root @ rs)) rss)) = {i. plains (key_parts i) \<and> item_parts i \<in> set rss}"
proof -
  have eq: "concat (map (\<lambda>rs. walk_key (length root) (root @ rs)) rss) = map file_key (filter is_gpg rss)"
    by (induction rss) (simp_all add: walk_key_def)
  have parts: "item_parts (file_key rs) = rs \<and> plains (key_parts (file_key rs))" if "rs \<in> set (filter is_gpg rss)" for rs
  proof -
    have rs: "rs \<in> set rss" "is_gpg rs" using that by simp_all
    from gpg_key [OF rs(2) assms(2) [OF rs(1)] assms(3) [OF rs]] show ?thesis by blast
  qed
  then have "inj_on file_key (set (filter is_gpg rss))" by (intro inj_on_inverseI [where g = item_parts]) blast
  with assms(1) show "distinct (concat (map (\<lambda>rs. walk_key (length root) (root @ rs)) rss))"
    unfolding eq by (simp add: distinct_map)
  have "i \<in> file_key ` set (filter is_gpg rss)" if "item_parts i \<in> set rss" for i
  proof (rule image_eqI)
    show "i = file_key (item_parts i)" by (rule item_parts_key(2) [symmetric])
    show "item_parts i \<in> set (filter is_gpg rss)" using that item_parts_key(1) by simp
  qed
  then show "set (concat (map (\<lambda>rs. walk_key (length root) (root @ rs)) rss)) = {i. plains (key_parts i) \<and> item_parts i \<in> set rss}"
    unfolding eq set_map using parts by auto
qed

section \<open>What is there\<close>

abbreviation svc_dir :: "string \<Rightarrow> string \<Rightarrow> string list" where
  "svc_dir dir pre \<equiv> clean_parts dir @ [pre]"

text \<open>The plaintext of each item.\<close>

definition pass_entries :: "(string \<Rightarrow> string) \<Rightarrow> string \<Rightarrow> string \<Rightarrow> fs \<Rightarrow> kvmap" where
  "pass_entries dec dir pre w i =
     (if plains (key_parts i) then
        (case node_at w (at_path (svc_dir dir pre @ item_parts i)) of Some (File m c) \<Rightarrow> Some (dec c) | _ \<Rightarrow> None)
      else None)"

text \<open>
  The files of the store: a tree in which every \<open>.gpg\<close> file of the service is the file of a key, and no item
  the store may write has a directory in its place.
\<close>

definition pass_fs_ok :: "string \<Rightarrow> string \<Rightarrow> fs \<Rightarrow> bool" where
  "pass_fs_ok dir pre w \<longleftrightarrow>
     is_tree w \<and>
     (\<forall>rs \<in> files_below w (svc_dir dir pre). is_gpg rs \<longrightarrow> plain (take (length (last rs) - 4) (last rs))) \<and>
     (\<forall>i. is_item_key i \<longrightarrow> \<not> is_dir w (at_path (svc_dir dir pre @ item_parts i)))"

definition pass_raw :: "codec \<Rightarrow> string \<Rightarrow> string" where
  "pass_raw cd s = (case decodePassItemOutput cd s of Inl _ \<Rightarrow> '''' | Inr it \<Rightarrow> ki_data it)"

definition pass_view :: "codec \<Rightarrow> (string \<Rightarrow> string) \<Rightarrow> passKeyringBackend \<Rightarrow> kvmap" where
  "pass_view cd dec b i = map_option (pass_raw cd) (pass_entries dec (pb_dir b) (pb_prefix b) (pb_fs b) i)"

definition pass_good :: "string \<Rightarrow> string \<Rightarrow> string \<Rightarrow> passKeyringBackend \<Rightarrow> bool" where
  "pass_good dir cmd pre b \<longleftrightarrow>
     pb_dir b = dir \<and> pb_passcmd b = cmd \<and> pb_prefix b = pre \<and> filepath_IsAbs dir \<and> plain pre \<and> pass_fs_ok dir pre (pb_fs b)"

text \<open>
  What is relied on of the program, run as the source runs it on an item the store may write or one that is
  there: \<open>show\<close> prints the plaintext of an item, up to
  surrounding space, \<open>insert -m -f\<close> stores its input as the item, \<open>rm -f\<close> removes it; a run that fails has
  touched no other item. Its errors are not those of this module.
\<close>

definition pass_contract :: "pass_exec \<Rightarrow> (string \<Rightarrow> string) \<Rightarrow> string \<Rightarrow> string \<Rightarrow> string \<Rightarrow> bool" where
  "pass_contract exec dec dir cmd pre \<longleftrightarrow>
     (\<forall>w i s. pass_fs_ok dir pre w \<longrightarrow> usable (pass_entries dec dir pre) w i \<longrightarrow>
        (let E = pass_entries dec dir pre;
             run = (\<lambda>args input. exec w \<lparr>cmd_Path = cmd, cmd_Args = args @ [pre @ ''/'' @ i],
               cmd_Env = [''PASSWORD_STORE_DIR='' @ dir], cmd_Stdin = input\<rparr>) in
         (case run [''show''] '''' of (w', out, r) \<Rightarrow>
            pass_fs_ok dir pre w' \<and> E w' = E w \<and>
            (case r of
               None \<Rightarrow> \<exists>t. E w i = Some t \<and> strings_TrimSpace out = strings_TrimSpace t
             | Some e \<Rightarrow> foreign_error e)) \<and>
         (case run [''insert'', ''-m'', ''-f''] s of (w', out, r) \<Rightarrow>
            pass_fs_ok dir pre w' \<and>
            (case r of None \<Rightarrow> E w' = (E w)(i \<mapsto> s) | Some e \<Rightarrow> foreign_error e \<and> same_except {i} (E w) (E w'))) \<and>
         (case run [''rm'', ''-f''] '''' of (w', out, r) \<Rightarrow>
            pass_fs_ok dir pre w' \<and>
            (case r of None \<Rightarrow> E w' = (E w)(i := None) | Some e \<Rightarrow> foreign_error e \<and> same_except {i} (E w) (E w')))))"

text \<open>Encoded items have no space around them.\<close>

definition json_trimmed :: "codec \<Rightarrow> bool" where
  "json_trimmed cd \<longleftrightarrow>
     (\<forall>p s. json_Marshal cd p = Inr s \<longrightarrow>
        strings_TrimSpace s = s \<and> (\<exists>p'. json_Unmarshal cd s = Inr p' \<and> pi_Data p' = pi_Data p)) \<and>
     (\<forall>p e. json_Marshal cd p = Inl e \<longrightarrow> foreign_error e) \<and>
     (\<forall>s e. json_Unmarshal cd s = Inl e \<longrightarrow> foreign_error e)"

lemma same_tree_fs_ok: "same_tree w w' \<Longrightarrow> pass_fs_ok dir pre w' = pass_fs_ok dir pre w"
  using same_tree_is_tree [of w w'] files_below_same [of w w'] same_tree_node [of w w']
  by (simp add: pass_fs_ok_def is_dir_def)

lemma same_tree_entries: "same_tree w w' \<Longrightarrow> pass_entries dec dir pre w' = pass_entries dec dir pre w"
  using same_tree_node [of w w'] by (simp add: fun_eq_iff pass_entries_def)

lemma pass_tick:
  assumes "pass_good dir cmd pre b" "same_tree (pb_fs b) w"
  shows "pass_good dir cmd pre (b\<lparr>pb_fs := w\<rparr>)" "pass_view cd dec (b\<lparr>pb_fs := w\<rparr>) = pass_view cd dec b"
  using assms same_tree_fs_ok [OF assms(2)] same_tree_entries [OF assms(2)]
  by (simp_all add: pass_good_def pass_view_def fun_eq_iff)

section \<open>The methods\<close>

lemma item_key_plain: "is_item_key i \<Longrightarrow> plains (key_parts i)"
proof -
  have "plains (key_parts (p @ ''/'' @ k))" if "validSegment p" "validSegment k" for p k
    using that validSegment_plain [of p] validSegment_plain [of k]
    by (auto simp: strings_Split_append strings_Split_single plain_def)
  then show "is_item_key i \<Longrightarrow> plains (key_parts i)" unfolding is_item_key_def by blast
qed

lemma entries_plain: "usable (pass_entries dec dir pre) w i \<Longrightarrow> plains (key_parts i)"
  using item_key_plain [of i] unfolding usable_def pass_entries_def by presburger

lemma entries_not_dir:
  assumes "pass_fs_ok dir pre w" "usable (pass_entries dec dir pre) w i"
  shows "\<not> is_dir w (at_path (svc_dir dir pre @ item_parts i))"
proof (cases "is_item_key i")
  case True
  with assms(1) show ?thesis by (simp add: pass_fs_ok_def)
next
  case False
  with assms(2) have "pass_entries dec dir pre w i \<noteq> None" by (simp add: usable_def)
  then show ?thesis
    unfolding pass_entries_def if_P [OF entries_plain [OF assms(2)]] is_dir_def
    by (simp del: append_assoc split: option.splits node.splits)
qed

lemma pass_usable:
  "pass_good dir cmd pre b \<Longrightarrow> usable (pass_view cd dec) b i \<longleftrightarrow> usable (pass_entries dec dir pre) (pb_fs b) i"
  by (simp add: usable_def pass_view_def pass_good_def)

lemma usable_same: "view b' = view b \<Longrightarrow> usable view b i \<Longrightarrow> usable view b' i"
  by (simp add: usable_def)

lemma checkItemExists_laws:
  assumes g: "pass_good dir cmd pre b" and u: "usable (pass_view cd dec) b i" and run: "checkItemExists b i = (b', r)"
  shows "pass_good dir cmd pre b' \<and> pass_view cd dec b' = pass_view cd dec b \<and>
    passItemPath (pb_prefix b') i = Inr (pre @ ''/'' @ i) \<and>
    (case r of
       None \<Rightarrow> pass_view cd dec b i \<noteq> None
     | Some e \<Rightarrow> own_error e \<and> (errors_Is e errKeyringItemNotFound \<longrightarrow>
         e = Sentinel errKeyringItemNotFound \<and> pass_view cd dec b i = None))"
proof -
  have b: "filepath_IsAbs dir" "plain pre" "pb_dir b = dir" "pb_prefix b = pre" "pass_fs_ok dir pre (pb_fs b)"
    using g by (simp_all add: pass_good_def)
  note i = entries_plain [OF u [unfolded pass_usable [OF g]]]
  let ?p = "at_path (svc_dir dir pre @ item_parts i)"
  have path: "filepath_Join [dir, (pre @ ''/'' @ i) @ ''.gpg''] = ?p"
    using item_file [OF b(1,2) i] by simp
  obtain w s where s: "os_Stat (pb_fs b) ?p = (w, s)" by (cases "os_Stat (pb_fs b) ?p")
  note s1 = os_Stat_walk [OF s]
  note t = pass_tick(1) [OF g s1(1)] pass_tick(2) [OF g s1(1), of cd dec]
  have out: "b' = b\<lparr>pb_fs := w\<rparr>"
    "r = (case s of Inr _ \<Rightarrow> None | Inl e \<Rightarrow> Some (if os_IsNotExist e then Sentinel errKeyringItemNotFound else e))"
    using run s path b passItemPath_eq(1) [OF b(2) i]
    by (auto simp: checkItemExists_def split: sum.splits)
  have "case s of
      Inr nd \<Rightarrow> pass_view cd dec b i \<noteq> None
    | Inl e \<Rightarrow> (os_IsNotExist e \<longrightarrow> pass_view cd dec b i = None) \<and> (\<not> os_IsNotExist e \<longrightarrow> foreign_error e)"
  proof (cases s)
    case (Inr nd)
    have "node_at (pb_fs b) ?p = Some nd" using s1(2) [OF Inr] .
    moreover have "\<not> is_dir (pb_fs b) ?p" by (rule entries_not_dir [OF b(5) u [unfolded pass_usable [OF g]]])
    ultimately obtain m c where "node_at (pb_fs b) ?p = Some (File m c)" by (cases nd) (auto simp: is_dir_def)
    with Inr i b show ?thesis by (simp add: pass_view_def pass_entries_def)
  next
    case (Inl e)
    with s have "e = OsNotExist ?p \<and> node_at (pb_fs b) ?p = None \<or> (\<exists>msg. e = OtherError msg)"
      by (auto simp: os_Stat_def syscall_def split: option.splits)
    with Inl b show ?thesis
      by (auto simp: pass_view_def pass_entries_def os_IsNotExist_def foreign_error_def own_error_def)
  qed
  with t b out passItemPath_eq(1) [OF b(2) i] show ?thesis
    by (cases s) (auto simp: foreign_error_def own_error_def)
qed

text \<open>The three runs, as a backend in good state makes them.\<close>

lemma contract_runs:
  assumes C: "pass_contract exec dec dir cmd pre" and g: "pass_good dir cmd pre b" and i: "usable (pass_view cd dec) b i"
  shows "exec (pb_fs b) (pass b [''show'', pre @ ''/'' @ i]) = (w, out, r) \<Longrightarrow>
      pass_fs_ok dir pre w \<and> pass_entries dec dir pre w = pass_entries dec dir pre (pb_fs b) \<and>
      (case r of
         None \<Rightarrow> \<exists>t. pass_entries dec dir pre (pb_fs b) i = Some t \<and> strings_TrimSpace out = strings_TrimSpace t
       | Some e \<Rightarrow> foreign_error e)"
    "exec (pb_fs b) ((pass b [''insert'', ''-m'', ''-f'', pre @ ''/'' @ i])\<lparr>cmd_Stdin := s\<rparr>) = (w, out, r) \<Longrightarrow>
      pass_fs_ok dir pre w \<and>
      (case r of
         None \<Rightarrow> pass_entries dec dir pre w = (pass_entries dec dir pre (pb_fs b))(i \<mapsto> s)
       | Some e \<Rightarrow> foreign_error e \<and> same_except {i} (pass_entries dec dir pre (pb_fs b)) (pass_entries dec dir pre w))"
    "exec (pb_fs b) (pass b [''rm'', ''-f'', pre @ ''/'' @ i]) = (w, out, r) \<Longrightarrow>
      pass_fs_ok dir pre w \<and>
      (case r of
         None \<Rightarrow> pass_entries dec dir pre w = (pass_entries dec dir pre (pb_fs b))(i := None)
       | Some e \<Rightarrow> foreign_error e \<and> same_except {i} (pass_entries dec dir pre (pb_fs b)) (pass_entries dec dir pre w))"
proof -
  have b: "pb_dir b = dir" "pb_passcmd b = cmd" "dir \<noteq> ''''" "pass_fs_ok dir pre (pb_fs b)"
    using g by (auto simp: pass_good_def filepath_IsAbs_def)
  note c = C [unfolded pass_contract_def Let_def, THEN spec [of _ "pb_fs b"], THEN spec [of _ i], THEN spec [of _ s],
    THEN mp, OF b(4), THEN mp, OF i [unfolded pass_usable [OF g]]]
  show "exec (pb_fs b) (pass b [''show'', pre @ ''/'' @ i]) = (w, out, r) \<Longrightarrow>
      pass_fs_ok dir pre w \<and> pass_entries dec dir pre w = pass_entries dec dir pre (pb_fs b) \<and>
      (case r of
         None \<Rightarrow> \<exists>t. pass_entries dec dir pre (pb_fs b) i = Some t \<and> strings_TrimSpace out = strings_TrimSpace t
       | Some e \<Rightarrow> foreign_error e)"
    using conjunct1 [OF c] b(1-3) by (simp add: pass_def)
  show "exec (pb_fs b) ((pass b [''insert'', ''-m'', ''-f'', pre @ ''/'' @ i])\<lparr>cmd_Stdin := s\<rparr>) = (w, out, r) \<Longrightarrow>
      pass_fs_ok dir pre w \<and>
      (case r of
         None \<Rightarrow> pass_entries dec dir pre w = (pass_entries dec dir pre (pb_fs b))(i \<mapsto> s)
       | Some e \<Rightarrow> foreign_error e \<and> same_except {i} (pass_entries dec dir pre (pb_fs b)) (pass_entries dec dir pre w))"
    using conjunct1 [OF conjunct2 [OF c]] b(1-3) by (simp add: pass_def)
  show "exec (pb_fs b) (pass b [''rm'', ''-f'', pre @ ''/'' @ i]) = (w, out, r) \<Longrightarrow>
      pass_fs_ok dir pre w \<and>
      (case r of
         None \<Rightarrow> pass_entries dec dir pre w = (pass_entries dec dir pre (pb_fs b))(i := None)
       | Some e \<Rightarrow> foreign_error e \<and> same_except {i} (pass_entries dec dir pre (pb_fs b)) (pass_entries dec dir pre w))"
    using conjunct2 [OF conjunct2 [OF c]] b(1-3) by (simp add: pass_def)
qed

text \<open>The state after a run, given what it did to the entries.\<close>

lemma pass_moved:
  assumes "pass_good dir cmd pre b" "pass_fs_ok dir pre w"
  shows "pass_good dir cmd pre (b\<lparr>pb_fs := w\<rparr>)"
    "pass_view cd dec (b\<lparr>pb_fs := w\<rparr>) i = map_option (pass_raw cd) (pass_entries dec dir pre w i)"
    "pass_view cd dec b i = map_option (pass_raw cd) (pass_entries dec dir pre (pb_fs b) i)"
  using assms by (simp_all add: pass_good_def pass_view_def)

lemma pass_get_laws:
  assumes C: "pass_contract exec dec dir cmd pre" and J: "json_trimmed cd" and g: "pass_good dir cmd pre b"
    and i: "usable (pass_view cd dec) b i"
  shows "get_law (pass_view cd dec) (pass_good dir cmd pre) b i (pass_get cd exec b i)"
proof -
  obtain b1 r1 where c: "checkItemExists b i = (b1, r1)" by (cases "checkItemExists b i")
  note c1 = checkItemExists_laws [OF g i c]
  show ?thesis
  proof (cases r1)
    case (Some e)
    with c c1 show ?thesis by (auto simp: pass_get_def get_law_def)
  next
    case None
    have g1: "pass_good dir cmd pre b1" and p: "passItemPath (pb_prefix b1) i = Inr (pre @ ''/'' @ i)" using c1 by simp_all
    have i1: "usable (pass_view cd dec) b1 i" using usable_same [OF _ i] c1 by blast
    obtain w out r where x: "exec (pb_fs b1) (pass b1 [''show'', pre @ ''/'' @ i]) = (w, out, r)"
      by (cases "exec (pb_fs b1) (pass b1 [''show'', pre @ ''/'' @ i])")
    note x1 = contract_runs(1) [OF C g1 i1 x]
    note m = pass_moved(1) [OF g1 conjunct1 [OF x1]] pass_moved(2,3) [OF g1 conjunct1 [OF x1], of cd dec]
    have view: "pass_view cd dec (b1\<lparr>pb_fs := w\<rparr>) = pass_view cd dec b"
      using m(2,3) x1 c1 by (simp add: fun_eq_iff)
    have run: "pass_get cd exec b i = (b1\<lparr>pb_fs := w\<rparr>, case r of Some e \<Rightarrow> Inl e | None \<Rightarrow> decodePassItemOutput cd out)"
      using c None p x by (simp add: pass_get_def split: option.split)
    show ?thesis
    proof (cases r)
      case (Some e)
      with x1 have "foreign_error e" by simp
      with run Some m(1) view show ?thesis by (simp add: get_law_def foreign_error_def)
    next
      case none: None
      then obtain t where t: "pass_entries dec dir pre (pb_fs b1) i = Some t" "strings_TrimSpace out = strings_TrimSpace t"
        using x1 by auto
      have same: "decodePassItemOutput cd out = decodePassItemOutput cd t" by (simp add: decodePassItemOutput_def t(2))
      have held: "pass_view cd dec b i = Some (pass_raw cd t)" using c1 m(3) [of i] t(1) by simp
      show ?thesis
      proof (cases "decodePassItemOutput cd t")
        case (Inl e)
        then have "foreign_error e" using J by (auto simp: decodePassItemOutput_def json_trimmed_def split: sum.splits)
        with run none same Inl m(1) view show ?thesis by (simp add: get_law_def foreign_error_def)
      next
        case (Inr it)
        with run none same m(1) view held show ?thesis by (simp add: get_law_def pass_raw_def)
      qed
    qed
  qed
qed

lemma pass_metadata_laws:
  assumes "pass_good dir cmd pre b" "usable (pass_view cd dec) b i"
  shows "metadata_law (pass_view cd dec) (pass_good dir cmd pre) b i (pass_metadata b i)"
proof -
  obtain b1 r1 where c: "checkItemExists b i = (b1, r1)" by (cases "checkItemExists b i")
  from checkItemExists_laws [OF assms c] c show ?thesis
    by (cases r1) (auto simp: pass_metadata_def metadata_law_def)
qed

lemma pass_set_laws:
  assumes C: "pass_contract exec dec dir cmd pre" and J: "json_trimmed cd" and g: "pass_good dir cmd pre b"
    and i: "usable (pass_view cd dec) b (ki_key it)"
  shows "set_law (pass_view cd dec) (pass_good dir cmd pre) b (ki_key it) (ki_data it) (pass_set cd exec b it)"
proof -
  let ?item = "\<lparr>pi_Key = ki_key it, pi_Data = ki_data it, pi_Label = '''', pi_Description = '''',
    pi_KeychainNotTrustApplication = False, pi_KeychainNotSynchronizable = False\<rparr>"
  have p: "passItemPath (pb_prefix b) (ki_key it) = Inr (pre @ ''/'' @ ki_key it)"
    using passItemPath_eq(1) [OF _ entries_plain [OF i [unfolded pass_usable [OF g]]]] g by (simp add: pass_good_def)
  show ?thesis
  proof (cases "json_Marshal cd ?item")
    case (Inl e)
    then have "foreign_error e" using J by (simp add: json_trimmed_def)
    with Inl g show ?thesis by (simp add: pass_set_def set_law_def foreign_error_def)
  next
    case (Inr s)
    obtain w out r where x: "exec (pb_fs b) ((pass b [''insert'', ''-m'', ''-f'', pre @ ''/'' @ ki_key it])\<lparr>cmd_Stdin := s\<rparr>) = (w, out, r)"
      by (cases "exec (pb_fs b) ((pass b [''insert'', ''-m'', ''-f'', pre @ ''/'' @ ki_key it])\<lparr>cmd_Stdin := s\<rparr>)")
    note x1 = contract_runs(2) [OF C g i x]
    note m = pass_moved(1) [OF g conjunct1 [OF x1]] pass_moved(2,3) [OF g conjunct1 [OF x1], of cd dec]
    have run: "pass_set cd exec b it = (b\<lparr>pb_fs := w\<rparr>, r)"
      using Inr p x by (simp add: pass_set_def)
    have "pass_raw cd s = ki_data it"
      using J Inr by (fastforce simp: json_trimmed_def pass_raw_def decodePassItemOutput_def)
    with x1 m run show ?thesis
      by (cases r) (auto simp: set_law_def fun_eq_iff same_except_def foreign_error_def)
  qed
qed

lemma pass_remove_laws:
  assumes C: "pass_contract exec dec dir cmd pre" and g: "pass_good dir cmd pre b" and i: "usable (pass_view cd dec) b i"
  shows "remove_law (pass_view cd dec) (pass_good dir cmd pre) b i (pass_remove exec b i)"
proof -
  obtain b1 r1 where c: "checkItemExists b i = (b1, r1)" by (cases "checkItemExists b i")
  note c1 = checkItemExists_laws [OF g i c]
  show ?thesis
  proof (cases r1)
    case (Some e)
    with c c1 show ?thesis by (auto simp: pass_remove_def remove_law_def)
  next
    case None
    have g1: "pass_good dir cmd pre b1" and p: "passItemPath (pb_prefix b1) i = Inr (pre @ ''/'' @ i)" using c1 by simp_all
    have i1: "usable (pass_view cd dec) b1 i" using usable_same [OF _ i] c1 by blast
    obtain w out r where x: "exec (pb_fs b1) (pass b1 [''rm'', ''-f'', pre @ ''/'' @ i]) = (w, out, r)"
      by (cases "exec (pb_fs b1) (pass b1 [''rm'', ''-f'', pre @ ''/'' @ i])")
    note x1 = contract_runs(3) [OF C g1 i1 x]
    note m = pass_moved(1) [OF g1 conjunct1 [OF x1]] pass_moved(2,3) [OF g1 conjunct1 [OF x1], of cd dec]
    have run: "pass_remove exec b i = (b1\<lparr>pb_fs := w\<rparr>, r)" using c None p x by (simp add: pass_remove_def)
    have held: "pass_view cd dec b i \<noteq> None" "pass_view cd dec b1 = pass_view cd dec b" using c1 None by simp_all
    from x1 m run held show ?thesis
      by (cases r) (auto simp: remove_law_def fun_eq_iff same_except_def foreign_error_def)
  qed
qed

lemma svc_dir_plains: "filepath_IsAbs dir \<Longrightarrow> plain pre \<Longrightarrow> plains (svc_dir dir pre)"
  using clean_parts_stack [of dir] by (auto simp: clean_stack_def)

lemma svc_dir_path: "filepath_IsAbs dir \<Longrightarrow> plain pre \<Longrightarrow> filepath_Join [dir, pre] = at_path (svc_dir dir pre)"
  using filepath_Join_plains [of dir "[pre]"] by (cases dir) (auto simp: filepath_IsAbs_def)

text \<open>The keys of the items are those of the files below the service's directory.\<close>

lemma pass_view_dom:
  "dom (pass_view cd dec b) =
     {i. plains (key_parts i) \<and> item_parts i \<in> files_below (pb_fs b) (svc_dir (pb_dir b) (pb_prefix b))}"
proof (rule set_eqI)
  fix i
  let ?n = "node_at (pb_fs b) (at_path (svc_dir (pb_dir b) (pb_prefix b) @ item_parts i))"
  show "i \<in> dom (pass_view cd dec b) \<longleftrightarrow> i \<in> {i. plains (key_parts i) \<and>
      item_parts i \<in> files_below (pb_fs b) (svc_dir (pb_dir b) (pb_prefix b))}"
  proof (cases "plains (key_parts i)")
    case True
    have "pass_view cd dec b i \<noteq> None \<longleftrightarrow> (\<exists>m c. ?n = Some (File m c))"
      unfolding pass_view_def pass_entries_def if_P [OF True] by (auto split: option.split node.split)
    with True item_parts_plain [OF True] show ?thesis unfolding files_below_def dom_def by blast
  next
    case False
    then have "pass_view cd dec b i = None" unfolding pass_view_def pass_entries_def if_not_P [OF False] by simp
    with False show ?thesis unfolding dom_def by blast
  qed
qed

text \<open>
  The listing: it changes nothing, gives every item once and nothing else, and fails only if a call
  fails or a file stands where the service's directory should be.
\<close>

lemma pass_keys_run:
  assumes g: "pass_good dir cmd pre b" and run: "pass_keys b = (b', r)"
  shows "pass_good dir cmd pre b' \<and> pass_view cd dec b' = pass_view cd dec b \<and> same_tree (pb_fs b) (pb_fs b') \<and>
    (case r of Inr ks \<Rightarrow> distinct ks \<and> set ks = dom (pass_view cd dec b) | Inl e \<Rightarrow> True) \<and>
    ((\<forall>k. fault (pb_fs b) k = None) \<longrightarrow>
      isl r = (\<exists>m c. node_at (pb_fs b) (filepath_Join [dir, pre]) = Some (File m c)))"
proof -
  have b: "filepath_IsAbs dir" "plain pre" "pb_dir b = dir" "pb_prefix b = pre" "pass_fs_ok dir pre (pb_fs b)"
    using g by (simp_all add: pass_good_def)
  let ?root = "svc_dir dir pre"
  note root = svc_dir_plains [OF b(1,2)] svc_dir_path [OF b(1,2)]
  have tree: "is_tree (pb_fs b)" using b(5) by (simp add: pass_fs_ok_def)
  obtain w s where s: "os_Stat (pb_fs b) (at_path ?root) = (w, s)" by (cases "os_Stat (pb_fs b) (at_path ?root)")
  note s1 = os_Stat_walk [OF s]
  note t = pass_tick(1) [OF g s1(1)] pass_tick(2) [OF g s1(1), of cd dec]
  show ?thesis
  proof (cases s)
    case (Inl e)
    with s have e: "e = OsNotExist (at_path ?root) \<and> node_at (pb_fs b) (at_path ?root) = None \<or>
        (\<exists>msg. e = OtherError msg) \<and> fault (pb_fs b) (tick (pb_fs b)) \<noteq> None"
      by (auto simp: os_Stat_def syscall_def fault_now_def split: option.splits)
    have "dom (pass_view cd dec b) = {}" if "node_at (pb_fs b) (at_path ?root) = None"
    proof -
      have "item_parts i \<notin> files_below (pb_fs b) ?root" for i
      proof
        assume "item_parts i \<in> files_below (pb_fs b) ?root"
        then have "plains (item_parts i)" "node_at (pb_fs b) (at_path (?root @ item_parts i)) \<noteq> None"
          by (auto simp: files_below_def)
        from tree_no_below_file [OF tree root(1) this] have "is_dir (pb_fs b) (at_path ?root)" by (simp add: item_parts_def)
        from is_dir_node [OF this] that show False by contradiction
      qed
      then show ?thesis unfolding pass_view_dom b(3,4) by blast
    qed
    with run s Inl root(2) b(3,4) t e s1(1) show ?thesis
      by (auto simp: pass_keys_def os_IsNotExist_def)
  next
    case (Inr nd)
    have nd: "node_at (pb_fs b) (at_path ?root) = Some nd" using s1(2) [OF Inr] .
    show ?thesis
    proof (cases nd)
      case (File m c)
      with run s Inr root(2) b(3,4) t nd s1(1) show ?thesis by (auto simp: pass_keys_def)
    next
      case (Dir m)
      have d: "is_tree w" "is_dir w (at_path ?root)"
        using same_tree_is_tree [OF s1(1)] same_tree_node [OF s1(1)] tree nd Dir by (simp_all add: is_dir_def)
      obtain w' ks e where k: "filepath_Walk w (at_path ?root) (pass_visit (at_path ?root)) [] = (w', ks, e)"
        by (cases "filepath_Walk w (at_path ?root) (pass_visit (at_path ?root)) []")
      have "?root \<noteq> []" by simp
      from filepath_Walk_files [OF pass_visit_visits [OF root(1) this] d(1) root(1) d(2), of "[]", unfolded k]
      have wk: "walked (walk_key (length ?root)) w ?root (files_below (pb_fs b) ?root) [] (w', ks, e)"
        using files_below_same [OF s1(1)] by simp
      then have st: "same_tree (pb_fs b) w'" using same_tree_trans [OF s1(1)] by (simp add: walked_def)
      note t' = pass_tick(1) [OF g st] pass_tick(2) [OF g st, of cd dec]
      have out: "b' = b\<lparr>pb_fs := w'\<rparr>" "r = (case e of Some x \<Rightarrow> Inl x | None \<Rightarrow> Inr ks)"
        using run s Inr Dir root(2) b(3,4) k by (auto simp: pass_keys_def split: option.splits)
      have keys: "distinct ks \<and> set ks = dom (pass_view cd dec b)" if "e = None"
      proof -
        from walked_files [OF wk [unfolded that]] obtain rss where
          rss: "distinct rss" "set rss = files_below (pb_fs b) ?root"
          "ks = concat (map (\<lambda>rs. walk_key (length ?root) (?root @ rs)) rss)" by auto
        have "plains rs" if "rs \<in> set rss" for rs using that rss(2) by (simp add: files_below_def)
        moreover have "plain (take (length (last rs) - 4) (last rs))" if "rs \<in> set rss" "is_gpg rs" for rs
          using that rss(2) b(5) by (simp add: pass_fs_ok_def)
        ultimately show ?thesis
          using walk_keys [OF rss(1), of ?root] unfolding rss(2,3) pass_view_dom b(3,4) by blast
      qed
      have "(\<forall>k. fault (pb_fs b) k = None) \<longrightarrow> e = None" using wk s1(1) by (simp add: walked_def same_tree_def)
      with out t' keys nd Dir root(2) st show ?thesis by (cases e) auto
    qed
  qed
qed

text \<open>The backend over a program that keeps the contract is a lawful keyring.\<close>

lemma pass_keyring_laws:
  assumes C: "pass_contract exec dec dir cmd pre" and J: "json_trimmed cd"
  shows "keyring_laws (pass_ops cd exec) (pass_view cd dec) (pass_good dir cmd pre)"
proof (rule keyring_lawsI, goal_cases)
  case (1 k i)
  from pass_get_laws [OF C J 1(1) 1(2)] show ?case by (simp add: pass_ops_def)
next
  case (2 k i)
  from pass_metadata_laws [OF 2(1) 2(2)] show ?case by (simp add: pass_ops_def)
next
  case (3 k it)
  from pass_set_laws [OF C J 3(1) 3(2)] show ?case by (simp add: pass_ops_def)
next
  case (4 k i)
  from pass_remove_laws [OF C 4(1) 4(2)] show ?case by (simp add: pass_ops_def)
next
  case (5 k)
  obtain k' r where run: "pass_keys k = (k', r)" by (cases "pass_keys k")
  from pass_keys_run [OF 5 run, of cd dec] run show ?case by (simp add: pass_ops_def keys_law_def)
qed

end
