(* ===== verification/PassProps.thy ===== *)
theory PassProps
  imports PassLaws FileProps
begin

text \<open>
  What a store over the pass backend promises. The witnesses run on a small program that keeps its files
  in plain text, refuses to create directories, and fails where the file system faults.
\<close>

section \<open>A program for the witnesses\<close>

definition demo_run :: "fs \<Rightarrow> string \<Rightarrow> string \<Rightarrow> string \<Rightarrow> fs \<times> string \<times> err option" where
  "demo_run w p a s =
     (if fault_now w \<noteq> None then (step w, '''', Some (ExitError 2 ''exit status 2''))
      else if a = ''insert'' then
        (if is_dir w (filepath_Dir p) then (put_node p (File 384 s) (step w), '''', None)
         else (step w, '''', Some (ExitError 1 ''exit status 1'')))
      else
        (case node_at w p of
           Some (File m t) \<Rightarrow> if a = ''rm'' then (del_node p (step w), '''', None) else (step w, t, None)
         | _ \<Rightarrow> (step w, '''', if a = ''rm'' then None else Some (ExitError 1 ''exit status 1''))))"

definition demo_pass :: pass_exec where
  "demo_pass w c =
     demo_run w (filepath_Join [drop (length ''PASSWORD_STORE_DIR='') (hd (cmd_Env c)), last (cmd_Args c) @ ''.gpg''])
       (hd (cmd_Args c)) (cmd_Stdin c)"

text \<open>Items between braces, which no space surrounds.\<close>

definition brace_codec :: codec where
  "brace_codec = plain_codec\<lparr>json_Marshal := (\<lambda>p. Inr (''{'' @ pi_Data p @ ''}'')),
     json_Unmarshal := (\<lambda>s. if s \<noteq> '''' \<and> hd s = CHR ''{'' then json_Unmarshal plain_codec (butlast (tl s))
       else Inl (OtherError ''invalid character looking for beginning of value''))\<rparr>"

lemma trim_left_stop: "\<forall>q \<in> set qs. hd q \<noteq> c \<Longrightarrow> trim_left qs (c # s) = c # s"
proof -
  assume "\<forall>q \<in> set qs. hd q \<noteq> c"
  then have "find (\<lambda>q. q \<noteq> '''' \<and> prefix q (c # s)) qs = None"
    by (auto simp: find_None_iff prefix_Cons)
  then show ?thesis by (subst trim_left.simps) simp
qed

lemma brace_codec_trimmed: "json_trimmed brace_codec"
proof -
  have "list_all (\<lambda>q. hd q \<noteq> CHR ''{'' \<and> hd (rev q) \<noteq> CHR ''}'') space_runes" by code_simp
  then have "strings_TrimSpace (''{'' @ s @ ''}'') = ''{'' @ s @ ''}''" for s
    unfolding strings_TrimSpace_def by (simp add: trim_left_stop list_all_iff)
  then show ?thesis
    by (simp add: json_trimmed_def brace_codec_def plain_codec_def foreign_error_def own_error_def)
qed

section \<open>What the program does to the files\<close>

lemma item_at_inj:
  assumes "filepath_IsAbs dir" "plain pre" "plains (key_parts i)" "plains (key_parts j)"
    "at_path (svc_dir dir pre @ item_parts i) = at_path (svc_dir dir pre @ item_parts j)"
  shows "i = j"
proof -
  have "plains (svc_dir dir pre @ item_parts k)" if "plains (key_parts k)" for k
    using svc_dir_plains [OF assms(1,2)] item_parts_plain [OF that] by auto
  from at_path_inj [OF this [OF assms(3)] this [OF assms(4)]] assms(5)
  have "svc_dir dir pre @ item_parts i = svc_dir dir pre @ item_parts j" by blast
  then have "item_parts i = item_parts j" by (rule same_append_eq [THEN iffD1])
  then have "file_key (item_parts i) = file_key (item_parts j)" by (rule arg_cong)
  then show ?thesis unfolding item_parts_key(2) .
qed

text \<open>A tree in which a file is put into a directory, or a file taken away, is a tree.\<close>

lemma at_path_proper: "plains ps \<Longrightarrow> ps \<noteq> [] \<Longrightarrow> proper (at_path ps)"
  using at_path_root by (simp add: proper_def)

lemma tree_put_file:
  assumes "is_tree w" "plains ps" "plain v" "is_dir w (at_path ps)" "\<not> is_dir w (at_path (ps @ [v]))"
  shows "is_tree (put_node (at_path (ps @ [v])) (File m c) w)"
    "is_dir (put_node (at_path (ps @ [v])) (File m c) w) q = is_dir w q"
proof -
  let ?p = "at_path (ps @ [v])"
  let ?w = "put_node ?p (File m c) w"
  have all: "plains (ps @ [v])" using assms(2,3) by auto
  have dir: "is_dir ?w q = is_dir w q" for q
  proof (cases "filepath_Clean q = filepath_Clean ?p")
    case True
    then have "\<not> is_dir w q" using assms(5) node_at_cong [of q ?p w] by (simp add: is_dir_def)
    with True at_path_proper [OF all] show ?thesis by (simp add: is_dir_def)
  next
    case False
    with at_path_proper [OF all] show ?thesis by (simp add: is_dir_def)
  qed
  then show "is_dir ?w q = is_dir w q" .
  have nodes: "nodes ?w = AList.update ?p (File m c) (nodes w)" using all by (simp add: put_node_def)
  show "is_tree ?w"
    unfolding is_tree_def nodes dir
  proof (intro conjI ballI)
    show "distinct (map fst (AList.update ?p (File m c) (nodes w)))"
      using assms(1) by (intro distinct_update) (simp add: is_tree_def)
    fix q
    assume "q \<in> fst ` set (AList.update ?p (File m c) (nodes w))"
    then have "q = ?p \<or> q \<in> fst ` set (nodes w)" by (simp add: dom_update)
    then show "\<exists>ps v. plains ps \<and> plain v \<and> q = at_path (ps @ [v]) \<and> is_dir w (at_path ps)"
      using assms by (auto simp: is_tree_def)
  qed
qed

lemma tree_del_file:
  assumes "is_tree w" "plains ps" "node_at w (at_path ps) = Some (File m c)"
  shows "is_tree (del_node (at_path ps) w)" "is_dir (del_node (at_path ps) w) q = is_dir w q"
proof -
  let ?w = "del_node (at_path ps) w"
  have ne: "ps \<noteq> []" using assms(2,3) node_at_path [of "[]" w] by auto
  have dir: "is_dir ?w q = is_dir w q" for q
  proof (cases "filepath_Clean q = filepath_Clean (at_path ps)")
    case True
    then have "\<not> is_dir w q" using assms(3) node_at_cong [of q "at_path ps" w] by (simp add: is_dir_def)
    with True at_path_proper [OF assms(2) ne] show ?thesis by (simp add: is_dir_def)
  next
    case False
    with at_path_proper [OF assms(2) ne] show ?thesis by (simp add: is_dir_def)
  qed
  then show "is_dir ?w q = is_dir w q" .
  have nodes: "nodes ?w = AList.delete (at_path ps) (nodes w)" using assms(2) by (simp add: del_node_def)
  show "is_tree ?w"
    unfolding is_tree_def nodes dir
  proof (intro conjI ballI)
    show "distinct (map fst (AList.delete (at_path ps) (nodes w)))"
      using assms(1) by (intro distinct_delete) (simp add: is_tree_def)
    fix q
    assume "q \<in> fst ` set (AList.delete (at_path ps) (nodes w))"
    then have "q \<in> fst ` set (nodes w)" by (rule subsetD [OF dom_delete_subset])
    then show "\<exists>ps v. plains ps \<and> plain v \<and> q = at_path (ps @ [v]) \<and> is_dir w (at_path ps)"
      using assms(1) unfolding is_tree_def by blast
  qed
qed

text \<open>A change at the file of one item, to a file or to nothing, keeps the store in order.\<close>

lemma fs_ok_change:
  assumes w: "pass_fs_ok dir pre w" and d: "filepath_IsAbs dir" "plain pre" and i: "plains (key_parts i)"
    and tree: "is_tree w'" "\<And>q. is_dir w' q = is_dir w q"
    and node: "\<And>q. node_at w' q = (if filepath_Clean q = at_path (svc_dir dir pre @ item_parts i) then new else node_at w q)"
    and new: "new = None \<or> (\<exists>m c. new = Some (File m c))"
  shows "pass_fs_ok dir pre w'"
    "pass_entries dec dir pre w' =
       (pass_entries dec dir pre w)(i := (case new of Some (File m c) \<Rightarrow> Some (dec c) | _ \<Rightarrow> None))"
proof -
  let ?root = "svc_dir dir pre"
  note root = svc_dir_plains [OF d]
  have clean: "filepath_Clean (at_path (?root @ rs)) = at_path (?root @ rs)" if "plains rs" for rs
  proof -
    have "plains (?root @ rs)" using that root by (simp only: set_append ball_Un simp_thms)
    then show ?thesis by (rule at_path_Clean)
  qed
  have same: "at_path (?root @ rs) = at_path (?root @ item_parts i) \<longleftrightarrow> rs = item_parts i" if "plains rs" for rs
  proof -
    have "plains (?root @ rs)" "plains (?root @ item_parts i)"
      using that root item_parts_plain [OF i] by (simp_all only: set_append ball_Un simp_thms)
    from at_path_inj [OF this] show ?thesis by (simp only: same_append_eq)
  qed
  have node': "node_at w' (at_path (?root @ rs)) = (if rs = item_parts i then new else node_at w (at_path (?root @ rs)))"
    if "plains rs" for rs
    unfolding node clean [OF that] same [OF that] ..
  have "rs = item_parts i \<or> rs \<in> files_below w ?root" if "rs \<in> files_below w' ?root" for rs
  proof -
    from that obtain m c where rs: "plains rs" and f: "node_at w' (at_path (?root @ rs)) = Some (File m c)"
      unfolding files_below_def by blast
    from f [unfolded node' [OF rs]] have "rs = item_parts i \<or> node_at w (at_path (?root @ rs)) = Some (File m c)"
      by (cases "rs = item_parts i") (simp_all only: if_False simp_thms)
    with rs show ?thesis unfolding files_below_def by blast
  qed
  moreover have "plain (take (length (last (item_parts i)) - 4) (last (item_parts i)))"
  proof -
    have "last (key_parts i) \<in> set (key_parts i)" using key_parts_Join(2) by (rule last_in_set)
    with i have "plain (last (key_parts i))" by (rule bspec)
    then show ?thesis by (simp add: item_parts_def)
  qed
  ultimately show "pass_fs_ok dir pre w'"
    using w tree unfolding pass_fs_ok_def by blast
  have "pass_entries dec dir pre w' j =
      ((pass_entries dec dir pre w)(i := (case new of Some (File m c) \<Rightarrow> Some (dec c) | _ \<Rightarrow> None))) j" for j
  proof (cases "plains (key_parts j)")
    case True
    have "item_parts j = item_parts i \<longleftrightarrow> j = i"
      using item_parts_key(2) [of i] item_parts_key(2) [of j] by metis
    with node' [OF item_parts_plain [OF True]] have
      "node_at w' (at_path (?root @ item_parts j)) = (if j = i then new else node_at w (at_path (?root @ item_parts j)))"
      by (simp only:)
    then show ?thesis unfolding pass_entries_def if_P [OF True] by (cases "j = i") (simp_all only: fun_upd_same fun_upd_other if_P [OF True] simp_thms if_True if_False not_False_eq_True)
  next
    case False
    with i have "j \<noteq> i" by blast
    show ?thesis unfolding fun_upd_other [OF \<open>j \<noteq> i\<close>] pass_entries_def if_not_P [OF False] ..
  qed
  then show "pass_entries dec dir pre w' =
       (pass_entries dec dir pre w)(i := (case new of Some (File m c) \<Rightarrow> Some (dec c) | _ \<Rightarrow> None))" by (rule ext)
qed
abbreviation item_path :: "string \<Rightarrow> string \<Rightarrow> string \<Rightarrow> string" where
  "item_path dir pre i \<equiv> at_path (svc_dir dir pre @ item_parts i)"

lemma item_path_plains:
  assumes "filepath_IsAbs dir" "plain pre" "plains (key_parts i)"
  shows "plains (svc_dir dir pre @ item_parts i)"
  using svc_dir_plains [OF assms(1,2)] item_parts_plain [OF assms(3)] by (simp only: set_append ball_Un simp_thms)

lemma item_path_proper:
  assumes "filepath_IsAbs dir" "plain pre" "plains (key_parts i)"
  shows "proper (item_path dir pre i)" "filepath_Clean (item_path dir pre i) = item_path dir pre i"
proof -
  have "svc_dir dir pre @ item_parts i \<noteq> []" by simp
  from at_path_proper [OF item_path_plains [OF assms] this] show "proper (item_path dir pre i)" .
  show "filepath_Clean (item_path dir pre i) = item_path dir pre i" by (rule at_path_Clean [OF item_path_plains [OF assms]])
qed

lemma item_put:
  assumes w: "pass_fs_ok dir pre w" and d: "filepath_IsAbs dir" "plain pre" and i: "plains (key_parts i)"
    and free: "\<not> is_dir w (item_path dir pre i)" and parent: "is_dir w (filepath_Dir (item_path dir pre i))"
  shows "pass_fs_ok dir pre (put_node (item_path dir pre i) (File m s) w)"
    "pass_entries dec dir pre (put_node (item_path dir pre i) (File m s) w) = (pass_entries dec dir pre w)(i \<mapsto> dec s)"
proof -
  let ?ps = "svc_dir dir pre @ butlast (item_parts i)" and ?v = "last (item_parts i)"
  have "item_parts i \<noteq> []" by (simp add: item_parts_def)
  then have split: "svc_dir dir pre @ item_parts i = ?ps @ [?v]" by simp
  have pl: "plains ?ps" "plain ?v" using item_path_plains [OF d i] unfolding split by simp_all
  have "is_dir w (at_path ?ps)" using parent unfolding split at_path_Dir [OF pl] .
  moreover have "\<not> is_dir w (at_path (?ps @ [?v]))" using free unfolding split .
  moreover have "is_tree w" using w unfolding pass_fs_ok_def by blast
  ultimately have put: "is_tree (put_node (item_path dir pre i) (File m s) w)"
      "is_dir (put_node (item_path dir pre i) (File m s) w) q = is_dir w q" for q
    using tree_put_file [of w ?ps ?v] pl unfolding split by blast+
  note node = node_at_put [OF item_path_proper(1) [OF d i], unfolded item_path_proper(2) [OF d i]]
  have "Some (File m s) = None \<or> (\<exists>m' c. Some (File m s) = Some (File m' c))" by simp
  from fs_ok_change [OF w d i put node this] show
    "pass_fs_ok dir pre (put_node (item_path dir pre i) (File m s) w)"
    "pass_entries dec dir pre (put_node (item_path dir pre i) (File m s) w) = (pass_entries dec dir pre w)(i \<mapsto> dec s)"
    by simp_all
qed

lemma item_del:
  assumes w: "pass_fs_ok dir pre w" and d: "filepath_IsAbs dir" "plain pre" and i: "plains (key_parts i)"
    and there: "node_at w (item_path dir pre i) = Some (File m s)"
  shows "pass_fs_ok dir pre (del_node (item_path dir pre i) w)"
    "pass_entries dec dir pre (del_node (item_path dir pre i) w) = (pass_entries dec dir pre w)(i := None)"
proof -
  have "is_tree w" using w unfolding pass_fs_ok_def by blast
  note del = tree_del_file [OF this item_path_plains [OF d i] there]
  note node = node_at_del [OF item_path_proper(1) [OF d i], unfolded item_path_proper(2) [OF d i]]
  have "(None :: node option) = None \<or> (\<exists>m c. (None :: node option) = Some (File m c))" by simp
  from fs_ok_change [OF w d i del node this] show
    "pass_fs_ok dir pre (del_node (item_path dir pre i) w)"
    "pass_entries dec dir pre (del_node (item_path dir pre i) w) = (pass_entries dec dir pre w)(i := None)"
    by simp_all
qed

lemma demo_pass_run:
  assumes d: "filepath_IsAbs dir" "plain pre" and i: "plains (key_parts i)"
  shows "demo_pass w \<lparr>cmd_Path = cmd, cmd_Args = (a # as) @ [pre @ ''/'' @ i], cmd_Env = [''PASSWORD_STORE_DIR='' @ dir], cmd_Stdin = s\<rparr> =
     demo_run w (item_path dir pre i) a s"
  using item_file [OF d i] by (simp add: demo_pass_def)

lemma demo_run_laws:
  assumes w: "pass_fs_ok dir pre w" and d: "filepath_IsAbs dir" "plain pre" and u: "usable (pass_entries id dir pre) w i"
  shows "case demo_run w (item_path dir pre i) ''show'' s of (w', out, r) \<Rightarrow>
      pass_fs_ok dir pre w' \<and> pass_entries id dir pre w' = pass_entries id dir pre w \<and>
      (case r of None \<Rightarrow> pass_entries id dir pre w i = Some out | Some e \<Rightarrow> foreign_error e)"
    "case demo_run w (item_path dir pre i) ''insert'' s of (w', out, r) \<Rightarrow>
      pass_fs_ok dir pre w' \<and>
      (case r of
         None \<Rightarrow> pass_entries id dir pre w' = (pass_entries id dir pre w)(i \<mapsto> s)
       | Some e \<Rightarrow> foreign_error e \<and> pass_entries id dir pre w' = pass_entries id dir pre w)"
    "case demo_run w (item_path dir pre i) ''rm'' s of (w', out, r) \<Rightarrow>
      pass_fs_ok dir pre w' \<and>
      (case r of
         None \<Rightarrow> pass_entries id dir pre w' = (pass_entries id dir pre w)(i := None)
       | Some e \<Rightarrow> foreign_error e \<and> pass_entries id dir pre w' = pass_entries id dir pre w)"
proof -
  let ?p = "item_path dir pre i"
  note i = entries_plain [OF u]
  have still: "pass_fs_ok dir pre (step w)" "pass_entries id dir pre (step w) = pass_entries id dir pre w"
    using w same_tree_fs_ok [OF same_tree_refl(2)] same_tree_entries [OF same_tree_refl(2)] by simp_all
  have exit: "foreign_error (ExitError n s)" for n s by (simp add: foreign_error_def own_error_def)
  have E: "pass_entries id dir pre w i = (case node_at w ?p of Some (File m c) \<Rightarrow> Some c | _ \<Rightarrow> None)"
    unfolding pass_entries_def if_P [OF i] id_apply ..
  have gone: "pass_entries id dir pre w = (pass_entries id dir pre w)(i := None)" if "pass_entries id dir pre w i = None"
    using that by (simp add: fun_upd_idem)
  have nodes: "node_at (step w) ?p = node_at w ?p" "is_dir (step w) q = is_dir w q" for q by (simp_all add: is_dir_def)
  have "\<not> is_dir (step w) ?p" using entries_not_dir [OF w u] unfolding nodes .
  note put = item_put(1) [OF still(1) d i this, of 384 s, unfolded nodes]
    item_put(2) [where dec = id, OF still(1) d i this, of 384 s, unfolded nodes still(2)]
  note del = item_del(1) [OF still(1) d i, unfolded nodes] item_del(2) [where dec = id, OF still(1) d i, unfolded nodes still(2)]
  show "case demo_run w (item_path dir pre i) ''show'' s of (w', out, r) \<Rightarrow>
      pass_fs_ok dir pre w' \<and> pass_entries id dir pre w' = pass_entries id dir pre w \<and>
      (case r of None \<Rightarrow> pass_entries id dir pre w i = Some out | Some e \<Rightarrow> foreign_error e)"
    unfolding demo_run_def E using still exit by (simp split: option.split node.split del: append_assoc)
  show "case demo_run w (item_path dir pre i) ''insert'' s of (w', out, r) \<Rightarrow>
      pass_fs_ok dir pre w' \<and>
      (case r of
         None \<Rightarrow> pass_entries id dir pre w' = (pass_entries id dir pre w)(i \<mapsto> s)
       | Some e \<Rightarrow> foreign_error e \<and> pass_entries id dir pre w' = pass_entries id dir pre w)"
    unfolding demo_run_def using still exit put by (simp del: append_assoc)
  show "case demo_run w (item_path dir pre i) ''rm'' s of (w', out, r) \<Rightarrow>
      pass_fs_ok dir pre w' \<and>
      (case r of
         None \<Rightarrow> pass_entries id dir pre w' = (pass_entries id dir pre w)(i := None)
       | Some e \<Rightarrow> foreign_error e \<and> pass_entries id dir pre w' = pass_entries id dir pre w)"
    unfolding demo_run_def using still exit E gone del
    by (cases "node_at w ?p") (auto split: node.split simp del: append_assoc)
qed

lemma demo_pass_contract:
  assumes d: "filepath_IsAbs dir" "plain pre"
  shows "pass_contract demo_pass id dir cmd pre"
  unfolding pass_contract_def Let_def
proof (intro allI impI)
  fix w i s
  assume w: "pass_fs_ok dir pre w" and u: "usable (pass_entries id dir pre) w i"
  note i = entries_plain [OF u]
  note runs = demo_pass_run [OF d i, of w cmd "''show''" "[]" "''''"]
    demo_pass_run [OF d i, of w cmd "''insert''" "[''-m'', ''-f'']" s]
    demo_pass_run [OF d i, of w cmd "''rm''" "[''-f'']" "''''"]
  note laws = demo_run_laws(1) [OF w d u, of "''''"] demo_run_laws(2) [OF w d u, of s] demo_run_laws(3) [OF w d u, of "''''"]
  show "(case demo_pass w \<lparr>cmd_Path = cmd, cmd_Args = [''show''] @ [pre @ ''/'' @ i],
        cmd_Env = [''PASSWORD_STORE_DIR='' @ dir], cmd_Stdin = ''''\<rparr> of (w', out, r) \<Rightarrow>
        pass_fs_ok dir pre w' \<and> pass_entries id dir pre w' = pass_entries id dir pre w \<and>
        (case r of
           None \<Rightarrow> \<exists>t. pass_entries id dir pre w i = Some t \<and> strings_TrimSpace out = strings_TrimSpace t
         | Some e \<Rightarrow> foreign_error e)) \<and>
      (case demo_pass w \<lparr>cmd_Path = cmd, cmd_Args = [''insert'', ''-m'', ''-f''] @ [pre @ ''/'' @ i],
        cmd_Env = [''PASSWORD_STORE_DIR='' @ dir], cmd_Stdin = s\<rparr> of (w', out, r) \<Rightarrow>
        pass_fs_ok dir pre w' \<and>
        (case r of
           None \<Rightarrow> pass_entries id dir pre w' = (pass_entries id dir pre w)(i \<mapsto> s)
         | Some e \<Rightarrow> foreign_error e \<and> same_except {i} (pass_entries id dir pre w) (pass_entries id dir pre w'))) \<and>
      (case demo_pass w \<lparr>cmd_Path = cmd, cmd_Args = [''rm'', ''-f''] @ [pre @ ''/'' @ i],
        cmd_Env = [''PASSWORD_STORE_DIR='' @ dir], cmd_Stdin = ''''\<rparr> of (w', out, r) \<Rightarrow>
        pass_fs_ok dir pre w' \<and>
        (case r of
           None \<Rightarrow> pass_entries id dir pre w' = (pass_entries id dir pre w)(i := None)
         | Some e \<Rightarrow> foreign_error e \<and> same_except {i} (pass_entries id dir pre w) (pass_entries id dir pre w')))"
    unfolding runs using laws by (auto simp: same_except_def split: prod.splits option.splits)
qed
section \<open>A store for the witnesses\<close>

text \<open>A store of one item; the program fails at the given call.\<close>

definition pass_dirs :: "nat \<Rightarrow> fs" where
  "pass_dirs n = \<lparr>nodes = [(''/s'', Dir 448), (''/s/svc'', Dir 448), (''/s/svc/p'', Dir 448)], tick = 0,
     fault = (\<lambda>k. if k = n then Some (''input/output error'', None) else None), rand = (\<lambda>k. 0)\<rparr>"

definition pass_demo :: "nat \<Rightarrow> passKeyringBackend" where
  "pass_demo n = \<lparr>pb_dir = ''/s'', pb_passcmd = ''pass'', pb_prefix = ''svc'',
     pb_fs = put_node ''/s/svc/p/a.gpg'' (File 384 ''{0}'') (pass_dirs n)\<rparr>"

definition pass_store :: "nat \<Rightarrow> passKeyringBackend osKeyringBackend Store" where
  "pass_store n = \<lparr>st_service = ''svc'', st_src = SourceAuto, st_kind = BackendPass, st_allowed = None,
     st_allowedList = [], st_closed = False,
     st_be = Some \<lparr>os_kr = pass_demo n, os_backendKind = BackendPass, os_service = ''svc''\<rparr>\<rparr>"

definition failed_insert :: "passKeyringBackend osKeyringBackend Store \<times> Result \<times> err option" where
  "failed_insert =
     Store_SetBundle (os_ops (pass_ops brace_codec demo_pass)) (pass_store 5) ''p'' [(''c'', ''2''), (''a'', ''1'')] [WithOverwrite]"

lemma failed_insert_result:
  "case snd failed_insert of (res, e) \<Rightarrow>
     RollbackFailed res = [] \<and> Restored res = [''a''] \<and> Absent res = [''c''] \<and> \<not> Option.is_none e"
  by code_simp

lemma dirs_paths:
  "at_path [''s''] = ''/s''" "at_path [''s'', ''svc''] = ''/s/svc''" "at_path [''s'', ''svc'', ''p''] = ''/s/svc/p''"
  "svc_dir ''/s'' ''svc'' = [''s'', ''svc'']" "item_path ''/s'' ''svc'' ''p/a'' = ''/s/svc/p/a.gpg''"
  by code_simp+

lemma pass_dirs_no_file: "node_at (pass_dirs n) q \<noteq> Some (File m c)"
  by (auto simp: node_at_def pass_dirs_def Let_def dest: map_of_SomeD)

lemma pass_dirs_ok: "pass_fs_ok ''/s'' ''svc'' (pass_dirs n)"
proof -
  have plain: "plain ''s''" "plain ''svc''" "plain ''p''" by (simp_all add: plain_def)
  have dirs: "is_dir (pass_dirs n) (at_path [])" "is_dir (pass_dirs n) (at_path [''s''])" "is_dir (pass_dirs n) (at_path [''s'', ''svc''])"
    using plain by (simp_all add: is_dir_def node_at_path) (simp_all add: dirs_paths pass_dirs_def)
  have all: "plains [] \<and> plain ''s'' \<and> ''/s'' = at_path ([] @ [''s'']) \<and> is_dir (pass_dirs n) (at_path [])"
    "plains [''s''] \<and> plain ''svc'' \<and> ''/s/svc'' = at_path ([''s''] @ [''svc'']) \<and> is_dir (pass_dirs n) (at_path [''s''])"
    "plains [''s'', ''svc''] \<and> plain ''p'' \<and> ''/s/svc/p'' = at_path ([''s'', ''svc''] @ [''p'']) \<and>
       is_dir (pass_dirs n) (at_path [''s'', ''svc''])"
    using plain dirs by (simp_all add: dirs_paths)
  have keys: "fst ` set (nodes (pass_dirs n)) = {''/s'', ''/s/svc'', ''/s/svc/p''}" by (simp add: pass_dirs_def)
  have "is_tree (pass_dirs n)"
    unfolding is_tree_def keys
  proof (intro conjI)
    show "distinct (map fst (nodes (pass_dirs n)))" by (simp add: pass_dirs_def)
    show "\<forall>q \<in> {''/s'', ''/s/svc'', ''/s/svc/p''}.
        \<exists>ps v. plains ps \<and> plain v \<and> q = at_path (ps @ [v]) \<and> is_dir (pass_dirs n) (at_path ps)"
      using all by blast
  qed
  moreover have "files_below (pass_dirs n) (svc_dir ''/s'' ''svc'') = {}" using pass_dirs_no_file by (auto simp: files_below_def)
  moreover have "\<not> is_dir (pass_dirs n) (item_path ''/s'' ''svc'' i)" if key: "is_item_key i" for i
  proof
    note i = item_key_plain [OF key]
    assume "is_dir (pass_dirs n) (item_path ''/s'' ''svc'' i)"
    then have there: "node_at (pass_dirs n) (item_path ''/s'' ''svc'' i) \<noteq> None" by (rule is_dir_node)
    have abs: "filepath_IsAbs ''/s''" by (simp add: filepath_IsAbs_def)
    have ne: "svc_dir ''/s'' ''svc'' @ item_parts i \<noteq> []" by simp
    from there have "item_path ''/s'' ''svc'' i \<in> {''/s'', ''/s/svc'', ''/s/svc/p''}"
      unfolding node_at_path [OF item_path_plains [OF abs plain(2) i]] if_not_P [OF ne] keys [symmetric] map_of_eq_None_iff not_not .
    moreover have "strings_Join (svc_dir ''/s'' ''svc'' @ item_parts i) ''/'' =
        strings_Join (svc_dir ''/s'' ''svc'') ''/'' @ ''/'' @ i @ ''.gpg''"
      using strings_Join_append2 [of "svc_dir ''/s'' ''svc''" "item_parts i" "''/''"] item_parts_key(1) [of i]
      by (simp add: item_parts_Join is_gpg_def)
    then have "suffix ''.gpg'' (item_path ''/s'' ''svc'' i)"
      unfolding unparts_def by (auto simp: suffix_def)
    ultimately show False by (auto simp: suffix_to_prefix)
  qed
  ultimately show ?thesis unfolding pass_fs_ok_def by blast
qed

lemma pass_dirs_free:
  "is_dir (pass_dirs n) (filepath_Dir (item_path ''/s'' ''svc'' ''p/a''))" "\<not> is_dir (pass_dirs n) (item_path ''/s'' ''svc'' ''p/a'')"
proof -
  have "filepath_Dir ''/s/svc/p/a.gpg'' = ''/s/svc/p''" by code_simp
  moreover have "plains [''s'', ''svc'', ''p'']" by (simp add: plain_def)
  then have "is_dir (pass_dirs n) (at_path [''s'', ''svc'', ''p''])"
    by (simp add: is_dir_def node_at_path) (simp add: dirs_paths pass_dirs_def)
  ultimately show "is_dir (pass_dirs n) (filepath_Dir (item_path ''/s'' ''svc'' ''p/a''))"
    unfolding dirs_paths(5) by (simp only: dirs_paths(3))
  have "validSegment ''p''" "validSegment ''a''" by code_simp+
  then have "is_item_key (''p'' @ ''/'' @ ''a'')" unfolding is_item_key_def by blast
  then have "is_item_key ''p/a''" by simp
  then show "\<not> is_dir (pass_dirs n) (item_path ''/s'' ''svc'' ''p/a'')"
    using pass_dirs_ok [of n] unfolding pass_fs_ok_def by blast
qed

lemma pass_demo_good:
  "pass_good ''/s'' ''pass'' ''svc'' (pass_demo n)"
  "pass_entries dec ''/s'' ''svc'' (pb_fs (pass_demo n)) = [''p/a'' \<mapsto> dec ''{0}'']"
proof -
  have d: "filepath_IsAbs ''/s''" "plain ''svc''" "plains (key_parts ''p/a'')" by (simp_all add: filepath_IsAbs_def plain_def)
  note put = item_put(1) [OF pass_dirs_ok [of n] d pass_dirs_free(2,1), where m = 384 and s = "''{0}''"]
    item_put(2) [OF pass_dirs_ok [of n] d pass_dirs_free(2,1), where m = 384 and s = "''{0}''" and dec = dec]
  have "pass_fs_ok ''/s'' ''svc'' (pb_fs (pass_demo n))"
    using put(1) unfolding dirs_paths(5) by (simp add: pass_demo_def)
  with d(1,2) show "pass_good ''/s'' ''pass'' ''svc'' (pass_demo n)" by (simp add: pass_good_def pass_demo_def)
  have "pass_entries dec ''/s'' ''svc'' (pass_dirs n) = Map.empty"
    using pass_dirs_no_file by (auto simp: pass_entries_def fun_eq_iff split: option.split node.split)
  then show "pass_entries dec ''/s'' ''svc'' (pb_fs (pass_demo n)) = [''p/a'' \<mapsto> dec ''{0}'']"
    using put(2) unfolding dirs_paths(5) by (simp add: pass_demo_def)
qed

section \<open>Properties\<close>

text \<open>
  \<open>SetBundle\<close> over the pass backend, when any run of the program and any look at its files may fail: on
  success the bundle is exactly what was asked and nothing else changed; on failure nothing outside
  \<open>RollbackFailed\<close> has changed, nothing counts as written, and the slices partition the keys.
\<close>

theorem pass_SetBundle_all_or_nothing:
  assumes program: "pass_contract exec dec dir cmd pre" and json: "json_trimmed cd"
    and s: "store_ok (os_good (pass_good dir cmd pre)) s"
    and run: "Store_SetBundle (os_ops (pass_ops cd exec)) s p kv opts = (s', res, err)"
  shows "store_ok (os_good (pass_good dir cmd pre)) s' \<and>
    (let W = store_view (os_view (pass_view cd dec)) s; W' = store_view (os_view (pass_view cd dec)) s';
         keys = sort (remdups (map fst kv)) in
     case err of
       None \<Rightarrow>
         Written res = keys \<and>
         (\<forall>k \<in> fst ` set kv. W' (p @ ''/'' @ k) = map_of kv k) \<and>
         (\<forall>ik. ik \<notin> (\<lambda>k. p @ ''/'' @ k) ` fst ` set kv \<longrightarrow> W' ik = W ik)
     | Some e \<Rightarrow>
         (\<forall>ik. ik \<notin> (\<lambda>k. p @ ''/'' @ k) ` set (RollbackFailed res) \<longrightarrow> W' ik = W ik) \<and>
         Written res = [] \<and>
         (res = Result_zero \<or>
          mset keys = mset (Restored res) + mset (Absent res) + mset (Untouched res) +
            mset (RollbackFailed res) \<and>
          (\<forall>k \<in> set (Restored res). W (p @ ''/'' @ k) \<noteq> None) \<and>
          (\<forall>k \<in> set (Absent res). W (p @ ''/'' @ k) = None)))"
  by (rule backend_laws.Store_SetBundle_contract
      [OF keyring_laws.as_backend_laws [OF pass_keyring_laws [OF program json]] s run])

theorem pass_SetBundle_all_or_nothing_witness:
  "store_view (os_view (pass_view brace_codec id)) (fst failed_insert) =
     store_view (os_view (pass_view brace_codec id)) (pass_store 5) \<and>
   Restored (fst (snd failed_insert)) = [''a''] \<and> Absent (fst (snd failed_insert)) = [''c'']"
proof -
  have ok: "store_ok (os_good (pass_good ''/s'' ''pass'' ''svc'')) (pass_store 5)"
    using pass_demo_good(1) by (simp add: store_ok_def pass_store_def os_good_def)
  have "filepath_IsAbs ''/s''" "plain ''svc''" by (simp_all add: filepath_IsAbs_def plain_def)
  note contract = demo_pass_contract [OF this]
  have "Store_SetBundle (os_ops (pass_ops brace_codec demo_pass)) (pass_store 5) ''p'' [(''c'', ''2''), (''a'', ''1'')] [WithOverwrite] =
      (fst failed_insert, fst (snd failed_insert), snd (snd failed_insert))"
    by (simp add: failed_insert_def)
  note all_or_nothing = pass_SetBundle_all_or_nothing [OF contract brace_codec_trimmed ok this]
  obtain e where e: "snd (snd failed_insert) = Some e" and r: "RollbackFailed (fst (snd failed_insert)) = []"
      "Restored (fst (snd failed_insert)) = [''a'']" "Absent (fst (snd failed_insert)) = [''c'']"
    using failed_insert_result by (simp add: case_prod_beta Option.is_none_def) blast
  show ?thesis
    using all_or_nothing unfolding e by (simp add: Let_def fun_eq_iff r)
qed

text \<open>
  C24. \<open>keys\<close> of the pass backend ends with the exact listing: each item key whose file is there, once, and no
  other, however deep the directories go; it changes no file; and it returns an error only if a call
  of the file system fails or a file stands where the directory of the service should be.
\<close>

theorem pass_keys_exact:
  assumes "pass_good dir cmd pre b"
  shows "case pass_keys b of (b', r) \<Rightarrow>
    nodes (pb_fs b') = nodes (pb_fs b) \<and>
    (case r of
       Inr ks \<Rightarrow>
         distinct ks \<and>
         set ks = {i. plains (key_parts i) \<and>
           (\<exists>m c. node_at (pb_fs b) (filepath_Join [dir, (pre @ ''/'' @ i) @ ''.gpg'']) = Some (File m c))}
     | Inl e \<Rightarrow>
         (\<exists>k. fault (pb_fs b) k \<noteq> None) \<or> (\<exists>m c. node_at (pb_fs b) (filepath_Join [dir, pre]) = Some (File m c)))"
proof -
  obtain b' r where run: "pass_keys b = (b', r)" by (cases "pass_keys b")
  have d: "filepath_IsAbs dir" "plain pre" "pb_dir b = dir" "pb_prefix b = pre" using assms by (simp_all add: pass_good_def)
  have "item_parts i \<in> files_below (pb_fs b) (svc_dir dir pre) \<longleftrightarrow>
      (\<exists>m c. node_at (pb_fs b) (filepath_Join [dir, (pre @ ''/'' @ i) @ ''.gpg'']) = Some (File m c))"
    if i: "plains (key_parts i)" for i
    unfolding item_file [OF d(1,2) i] files_below_def using item_parts_plain [OF i] by (simp only: mem_Collect_eq append_assoc append_Cons append_Nil) blast
  then have dom: "dom (pass_view undefined id b) = {i. plains (key_parts i) \<and>
      (\<exists>m c. node_at (pb_fs b) (filepath_Join [dir, (pre @ ''/'' @ i) @ ''.gpg'']) = Some (File m c))}"
    unfolding pass_view_dom d(3,4) by blast
  from pass_keys_run [OF assms run, of undefined id] show ?thesis
    unfolding run dom by (cases r) (auto simp: same_tree_def)
qed

theorem pass_keys_exact_witness:
  "set (case snd (pass_keys (pass_demo 9)) of Inr ks \<Rightarrow> ks | Inl e \<Rightarrow> []) =
     {i. plains (key_parts i) \<and>
       (\<exists>m c. node_at (pb_fs (pass_demo 9)) (filepath_Join [''/s'', (''svc'' @ ''/'' @ i) @ ''.gpg'']) = Some (File m c))} \<and>
   snd (pass_keys (pass_demo 9)) = Inr [''p/a'']"
proof -
  have r: "snd (pass_keys (pass_demo 9)) = Inr [''p/a'']" by code_simp
  then show ?thesis
    using pass_keys_exact [OF pass_demo_good(1), of 9] by (simp only: case_prod_beta r sum.case simp_thms)
qed

end
