(* ===== verification/Migration.thy ===== *)
theory Migration
  imports Errors
begin

text \<open>
  \<open>migration.go\<close>: the one-line signal of a migration, the \<open>_migration\<close> object of a JSON response and the
  error for a legacy value that differs from the keyring's. A slice that may be nil is an \<open>option\<close>. What
  \<open>encoding/json\<close> makes of a struct is its fields under the names of their tags, in their order, a nil
  slice as \<open>null\<close>; how a string is quoted is the parameter \<open>quote\<close>.
\<close>

section \<open>The signal\<close>

definition MigrationSchemaVersion :: int where
  "MigrationSchemaVersion = 1"

definition MigrationFieldName :: string where
  "MigrationFieldName = ''_migration''"

definition formatMigrationLine :: "string \<Rightarrow> string \<Rightarrow> string" where
  "formatMigrationLine field ref =
     ''migrated '' @ field @ '' to keyring at '' @ ref @ ''; this is a one-time operation''"

text \<open>\<open>Fprintln\<close> makes one call of \<open>Write\<close>, whose count and error are dropped.\<close>

definition emitMigration :: "('w \<Rightarrow> string \<Rightarrow> 'w \<times> int \<times> err option) \<Rightarrow> 'w \<Rightarrow> string \<Rightarrow> string \<Rightarrow> 'w" where
  "emitMigration write w field ref = fst (write w (formatMigrationLine field ref @ [CHR 0x0A]))"

text \<open>The process: what it has written to its standard error, which may refuse writes.\<close>

record process =
  stderr_text :: string
  stderr_ok :: bool

definition os_Stderr_Write :: "process \<Rightarrow> string \<Rightarrow> process \<times> int \<times> err option" where
  "os_Stderr_Write w p =
     (if stderr_ok w then (w\<lparr>stderr_text := stderr_text w @ p\<rparr>, int (length p), None)
      else (w, 0, Some (OtherError ''write /dev/stderr: bad file descriptor'')))"

definition EmitMigrationStderr :: "process \<Rightarrow> string \<Rightarrow> string \<Rightarrow> process" where
  "EmitMigrationStderr w field ref = emitMigration os_Stderr_Write w field ref"

section \<open>The JSON object\<close>

record MigrationChange =
  mc_Field :: string
  From :: string
  To :: string

record MigrationBlock =
  mb_Version :: int
  Changes :: "MigrationChange list option"

record MigrationObject =
  Migration :: MigrationBlock

definition MigrationJSONEntry :: "string \<Rightarrow> string \<Rightarrow> string \<Rightarrow> MigrationChange" where
  "MigrationJSONEntry field src dst = \<lparr>mc_Field = field, From = src, To = dst\<rparr>"

text \<open>A call without arguments passes a nil slice.\<close>

definition variadic :: "'a list \<Rightarrow> 'a list option" where
  "variadic xs = (if xs = [] then None else Some xs)"

definition NewMigrationBlock :: "MigrationChange list option \<Rightarrow> MigrationBlock" where
  "NewMigrationBlock changes =
     (let changes = (if changes = None then Some [] else changes) in
      \<lparr>mb_Version = MigrationSchemaVersion, Changes = changes\<rparr>)"

definition NewMigrationObject :: "MigrationChange list option \<Rightarrow> MigrationObject" where
  "NewMigrationObject changes = \<lparr>Migration = NewMigrationBlock changes\<rparr>"

datatype json = JNull | JNum int | JStr string | JArr "json list" | JObj "(string \<times> json) list"

definition MigrationChange_json :: "MigrationChange \<Rightarrow> json" where
  "MigrationChange_json c =
     JObj [(''field'', JStr (mc_Field c)), (''from'', JStr (From c)), (''to'', JStr (To c))]"

definition MigrationBlock_json :: "MigrationBlock \<Rightarrow> json" where
  "MigrationBlock_json b =
     JObj [(''version'', JNum (mb_Version b)),
       (''changes'', case Changes b of None \<Rightarrow> JNull | Some cs \<Rightarrow> JArr (map MigrationChange_json cs))]"

definition MigrationObject_json :: "MigrationObject \<Rightarrow> json" where
  "MigrationObject_json ob = JObj [(''_migration'', MigrationBlock_json (Migration ob))]"

definition show_int :: "int \<Rightarrow> string" where
  "show_int i = (if i < 0 then ''-'' @ show_nat (nat (- i)) else show_nat (nat i))"

primrec json_text :: "(string \<Rightarrow> string) \<Rightarrow> json \<Rightarrow> string" where
  "json_text quote JNull = ''null''"
| "json_text quote (JNum i) = show_int i"
| "json_text quote (JStr s) = quote s"
| "json_text quote (JArr xs) = ''['' @ strings_Join (map (json_text quote) xs) '','' @ '']''"
| "json_text quote (JObj fs) =
     ''{'' @ strings_Join (map (\<lambda>(k, t). quote k @ '':'' @ t) (map (map_prod id (json_text quote)) fs)) '','' @ ''}''"

section \<open>The conflict error\<close>

definition MigrationConflictError :: "string \<Rightarrow> string \<Rightarrow> string \<Rightarrow> string \<Rightarrow> err" where
  "MigrationConflictError cli field legacyLocation ref =
     migrationConflictError
       (''credstore: '' @ field @ '': the legacy plaintext value at '' @ legacyLocation @
        '' differs from the existing keyring value at '' @ ref @ ''; '' @
        ''refusing to silently pick a winner. Resolve with one of:'' @ [CHR 0x0A] @
        ''  - run '' @ ''`'' @ cli @ '' config clear`'' @ '' then re-run (keeps the legacy plaintext value, removes the keyring entry)'' @ [CHR 0x0A] @
        ''  - manually '' @ ''delete the `'' @ field @ ''` field from '' @ legacyLocation @ '' (keeps the keyring value)'' @ [CHR 0x0A] @
        ''  - re-run with '' @ ''--overwrite'' @ '' (forces the legacy plaintext into the keyring, replacing the existing entry)'')"

section \<open>Properties\<close>

text \<open>
  The object of a response is, for every way of quoting strings, \<open>{"_migration":{"version":1,"changes":[...]}}\<close>
  with one entry per change in their order; without any change the list is empty and not \<open>null\<close>, which is
  what a block built without the constructor would show.
\<close>

theorem NewMigrationObject_json:
  "json_text q (MigrationObject_json (NewMigrationObject (variadic cs))) =
    ''{'' @ q MigrationFieldName @ '':{'' @ q ''version'' @ '':1,'' @ q ''changes'' @ '':['' @
      strings_Join (map (\<lambda>c. ''{'' @ q ''field'' @ '':'' @ q (mc_Field c) @ '','' @ q ''from'' @ '':'' @ q (From c) @ '','' @
        q ''to'' @ '':'' @ q (To c) @ ''}'') cs) '','' @ '']}}'' \<and>
    json_text q (MigrationBlock_json \<lparr>mb_Version = v, Changes = None\<rparr>) =
      ''{'' @ q ''version'' @ '':'' @ show_int v @ '','' @ q ''changes'' @ '':null}''"
proof -
  have "show_int MigrationSchemaVersion = ''1''" by code_simp
  moreover have "Changes (NewMigrationBlock (variadic cs)) = Some cs" "mb_Version (NewMigrationBlock (variadic cs)) = MigrationSchemaVersion"
    by (simp_all add: NewMigrationBlock_def variadic_def)
  ultimately show ?thesis
    by (simp add: MigrationObject_json_def MigrationBlock_json_def MigrationChange_json_def NewMigrationObject_def
        MigrationFieldName_def comp_def)
qed


end
