(* ===== verification/LibsecretLaws.thy ===== *)
theory LibsecretLaws
  imports Libsecret
begin

text \<open>
  What the adapters rely on of the libsecret client, and that they then are a service as \<open>SecretLaws\<close> wants it.
  The client is seen through an \<open>ssView\<close> of its own state and handles; the adapters' state adds the session.
\<close>

definition own_collection :: "('w, 's, 'c, 'i) libsecret \<Rightarrow> ('w, 'c, 'i) ssView \<Rightarrow> string \<Rightarrow> 'w \<Rightarrow> 'c option" where
  "own_collection L V nm w = find (\<lambda>c. secretServiceCollectionPathMatches (lib_coll_Path L c) nm) (v_colls V w)"

definition client_service_ok :: "('w, 's, 'c, 'i) libsecret \<Rightarrow> ('w, 'c, 'i) ssView \<Rightarrow> string \<Rightarrow> 'w \<Rightarrow> bool" where
  "client_service_ok L V nm w \<longleftrightarrow>
     (case lib_Open L w of (w', r) \<Rightarrow> still V w w' \<and> fails_as r (\<lambda>_. True)) \<and>
     (case lib_Collections L w of (w', r) \<Rightarrow> still V w w' \<and> fails_as r (\<lambda>cs. cs = v_colls V w)) \<and>
     (\<forall>ob. case lib_Unlock L w ob of (w', r) \<Rightarrow> still V w w' \<and> pred_option ss_error r) \<and>
     (case lib_CreateCollection L w nm of
        (w', Inl e) \<Rightarrow> still V w w' \<and> ss_error e
      | (w', Inr c) \<Rightarrow> v_good V w' \<and>
          (own_collection L V nm w = None \<longrightarrow>
             own_collection L V nm w' = Some c \<and> v_entries V w' c = Map.empty))"

definition client_collection_ok :: "('w, 's, 'c, 'i) libsecret \<Rightarrow> ('w, 'c, 'i) ssView \<Rightarrow> 'w \<Rightarrow> 'c \<Rightarrow> bool" where
  "client_collection_ok L V w c \<longleftrightarrow>
     (case lib_coll_Locked L w c of (w', r) \<Rightarrow> still V w w' \<and> fails_as r (\<lambda>_. True)) \<and>
     (case lib_coll_Items L w c of (w', r) \<Rightarrow> still V w w' \<and>
        fails_as r (\<lambda>is. distinct (map (snd \<circ> v_ref V) is) \<and> set (map (snd \<circ> v_ref V) is) = dom (v_entries V w c))) \<and>
     (\<forall>k. case lib_coll_SearchItems L w c k of (w', r) \<Rightarrow> still V w w' \<and>
        fails_as r (\<lambda>is. case is of [] \<Rightarrow> v_entries V w c k = None | i # _ \<Rightarrow> v_ref V i = (c, k) \<and> v_entries V w c k \<noteq> None)) \<and>
     (\<forall>k secret. case lib_coll_CreateItem L w c k secret True of (w', r) \<Rightarrow>
        v_good V w' \<and> v_colls V w' = v_colls V w \<and>
        (case r of
           Inr _ \<Rightarrow> v_entries V w' c = (v_entries V w c)(k \<mapsto> sec_Value secret)
         | Inl e \<Rightarrow> ss_error e \<and> same_except {k} (v_entries V w c) (v_entries V w' c)))"

definition client_item_ok :: "('w, 's, 'c, 'i) libsecret \<Rightarrow> ('w, 'c, 'i) ssView \<Rightarrow> 'w \<Rightarrow> 'i \<Rightarrow> bool" where
  "client_item_ok L V w i \<longleftrightarrow>
     (case v_ref V i of (c, k) \<Rightarrow>
        (case lib_item_Locked L w i of (w', r) \<Rightarrow> still V w w' \<and> fails_as r (\<lambda>_. True)) \<and>
        (\<forall>session. case lib_item_GetSecret L w i session of (w', r) \<Rightarrow>
           still V w w' \<and> fails_as r (\<lambda>secret. v_entries V w c k = Some (sec_Value secret))) \<and>
        (case lib_item_Label L w i of (w', r) \<Rightarrow> still V w w' \<and> r = Inr k) \<and>
        (case lib_item_Delete L w i of (w', r) \<Rightarrow>
           v_good V w' \<and> v_colls V w' = v_colls V w \<and>
           (case r of
              None \<Rightarrow> v_entries V w' c = (v_entries V w c)(k := None)
            | Some e \<Rightarrow> ss_error e \<and> same_except {k} (v_entries V w c) (v_entries V w' c))))"

definition client_contract :: "('w, 's, 'c, 'i) libsecret \<Rightarrow> ('w, 'c, 'i) ssView \<Rightarrow> string \<Rightarrow> bool" where
  "client_contract L V nm \<longleftrightarrow>
     (\<forall>w. v_good V w \<longrightarrow>
        client_service_ok L V nm w \<and> (\<forall>c. client_collection_ok L V w c) \<and> (\<forall>i. client_item_ok L V w i))"

text \<open>The adapters' state and handles, seen through the client's.\<close>

definition adapted ::
  "('w, 'c, 'i) ssView \<Rightarrow>
     (('w, 's) libsecretServiceAdapter, 'c libsecretCollectionAdapter, 'i libsecretItemAdapter) ssView"
where
  "adapted V =
     \<lparr>v_good = (\<lambda>a. v_good V (lsa_service a)),
      v_colls = (\<lambda>a. map (\<lambda>c. \<lparr>lca_collection = c\<rparr>) (v_colls V (lsa_service a))),
      v_entries = (\<lambda>a c. v_entries V (lsa_service a) (lca_collection c)),
      v_ref = (\<lambda>i. case v_ref V (lia_item i) of (c, k) \<Rightarrow> (\<lparr>lca_collection = c\<rparr>, k))\<rparr>"

lemma adapted_simps [simp]:
  "v_good (adapted V) a = v_good V (lsa_service a)"
  "v_colls (adapted V) a = map (\<lambda>c. \<lparr>lca_collection = c\<rparr>) (v_colls V (lsa_service a))"
  "v_entries (adapted V) a c = v_entries V (lsa_service a) (lca_collection c)"
  "v_ref (adapted V) \<lparr>lia_item = i\<rparr> = (\<lparr>lca_collection = fst (v_ref V i)\<rparr>, snd (v_ref V i))"
  by (simp_all add: adapted_def case_prod_beta)

lemma inj_collection: "map (\<lambda>c. \<lparr>lca_collection = c\<rparr>) xs = map (\<lambda>c. \<lparr>lca_collection = c\<rparr>) ys \<longleftrightarrow> xs = ys"
  by (rule inj_map_eq_map) (simp add: inj_def)

lemma all_collections: "(\<forall>c :: 'c libsecretCollectionAdapter. P (lca_collection c)) \<longleftrightarrow> (\<forall>c. P c)"
  by (metis libsecretCollectionAdapter.select_convs(1))

lemma adapted_still [simp]: "still (adapted V) a a' \<longleftrightarrow> still V (lsa_service a) (lsa_service a')"
  by (simp add: still_def fun_eq_iff [of "v_entries (adapted V) _"] inj_collection)
     (use all_collections [of "\<lambda>c. v_entries V (lsa_service a') c = v_entries V (lsa_service a) c"] in \<open>simp add: fun_eq_iff\<close>)

lemma on_lsa_cases:
  "on_lsa a f = (a\<lparr>lsa_service := fst (f (lsa_service a))\<rparr>, snd (f (lsa_service a)))"
  by (simp add: on_lsa_def case_prod_beta)

lemma fails_map_result [simp]: "fails_as (map_result f r) P \<longleftrightarrow> fails_as r (P \<circ> f)"
  by (cases r) (simp_all add: fails_as_def map_result_def)

lemma find_map: "find P (map f xs) = map_option f (find (P \<circ> f) xs)"
  by (induction xs) simp_all

lemma adapted_current:
  "current (libsecret_methods L) (adapted V) nm a =
     map_option (\<lambda>c. \<lparr>lca_collection = c\<rparr>) (own_collection L V nm (lsa_service a))"
  by (simp add: current_def own_collection_def find_map comp_def libsecret_methods_def lca_path_def)

lemma adapted_service:
  assumes good: "v_good V (lsa_service a)" and client: "client_service_ok L V nm (lsa_service a)"
  shows "service_ok (libsecret_methods L) (adapted V) nm a"
proof -
  note C = libsecret_methods_def lsa_open_def lsa_collections_def lsa_unlock_def lsa_createCollection_def on_lsa_cases
  note c = client [unfolded client_service_ok_def]
  have foreign: "ss_error (Errorf ps)" for ps by (simp add: ss_error_def foreign_error_def own_error_def)
  show ?thesis
    unfolding service_ok_def
  proof (intro conjI allI)
    show "case ss_open (m_service (libsecret_methods L)) a of (w', r) \<Rightarrow> still (adapted V) a w' \<and> pred_option ss_error r"
      using c [THEN conjunct1] by (cases "lib_Open L (lsa_service a)") (auto simp: C fails_as_def split: sum.splits)
    show "case ss_collections (m_service (libsecret_methods L)) a of (w', r) \<Rightarrow>
        still (adapted V) a w' \<and> fails_as r (\<lambda>cs. cs = v_colls (adapted V) a)"
      using c [THEN conjunct2, THEN conjunct1]
      by (cases "lib_Collections L (lsa_service a)") (auto simp: C fails_as_def map_result_def split: sum.splits)
    show "case ss_unlock (m_service (libsecret_methods L)) a u of (w', r) \<Rightarrow> still (adapted V) a w' \<and> pred_option ss_error r" for u
    proof (cases u)
      case (DBusTarget ob)
      with c [THEN conjunct2, THEN conjunct2, THEN conjunct1, THEN spec, of ob] show ?thesis
        by (simp add: C case_prod_beta)
    next
      case (OtherTarget ty)
      with good foreign show ?thesis by (simp add: C still_def)
    qed
    show "case ss_createCollection (m_service (libsecret_methods L)) a nm of
        (w', Inl e) \<Rightarrow> still (adapted V) a w' \<and> ss_error e
      | (w', Inr c) \<Rightarrow> v_good (adapted V) w' \<and>
          (current (libsecret_methods L) (adapted V) nm a = None \<longrightarrow>
             current (libsecret_methods L) (adapted V) nm w' = Some c \<and> v_entries (adapted V) w' c = Map.empty)"
      using c [THEN conjunct2, THEN conjunct2, THEN conjunct2] unfolding adapted_current
      by (cases "lib_CreateCollection L (lsa_service a) nm"; cases "snd (lib_CreateCollection L (lsa_service a) nm)")
         (simp_all add: C map_result_def)
  qed
qed

lemma adapted_collection:
  assumes "client_collection_ok L V (lsa_service a) (lca_collection c)"
  shows "collection_ok (libsecret_methods L) (adapted V) a c"
proof -
  have refs: "map (snd \<circ> v_ref (adapted V)) (adaptItems is) = map (snd \<circ> v_ref V) is" for "is"
    by (simp add: adaptItems_def comp_def)
  have ref_set: "(\<lambda>i. snd (v_ref (adapted V) i)) ` set (adaptItems is) = (\<lambda>i. snd (v_ref V i)) ` set is" for "is"
    by (simp add: adaptItems_def image_image)
  have found: "(case adaptItems is of [] \<Rightarrow> P | i # _ \<Rightarrow> v_ref (adapted V) i = (c, k) \<and> Q) \<longleftrightarrow>
      (case is of [] \<Rightarrow> P | i # _ \<Rightarrow> v_ref V i = (lca_collection c, k) \<and> Q)" for "is" k P Q
    by (cases c) (auto simp: adaptItems_def split: list.split)
  note C = libsecret_methods_def lca_locked_def lca_items_def lca_searchItems_def lca_createItem_def on_lsa_cases case_prod_beta
  note c = assms [unfolded client_collection_ok_def]
  note ok = c [THEN conjunct1] c [THEN conjunct2, THEN conjunct1] c [THEN conjunct2, THEN conjunct2, THEN conjunct1, THEN spec]
    c [THEN conjunct2, THEN conjunct2, THEN conjunct2, THEN spec, THEN spec]
  have create: "case sc_createItem (m_collection (libsecret_methods L)) a c k d of (a', r) \<Rightarrow>
      v_good (adapted V) a' \<and> v_colls (adapted V) a' = v_colls (adapted V) a \<and>
      (case r of
         None \<Rightarrow> v_entries (adapted V) a' c = (v_entries (adapted V) a c)(k \<mapsto> d)
       | Some e \<Rightarrow> ss_error e \<and> same_except {k} (v_entries (adapted V) a c) (v_entries (adapted V) a' c))" for k d
    using ok(4) [of k "\<lparr>sec_Session = lsa_session a, sec_Parameters = '''', sec_Value = d, sec_ContentType = ''application/json''\<rparr>"]
    by (auto simp: C Let_def split: sum.splits)
  show ?thesis
    unfolding collection_ok_def
  proof (intro conjI allI)
    show "case sc_locked (m_collection (libsecret_methods L)) a c of (w', r) \<Rightarrow> still (adapted V) a w' \<and> fails_as r (\<lambda>_. True)"
      using ok(1) by (simp add: C)
    show "case sc_items (m_collection (libsecret_methods L)) a c of (w', r) \<Rightarrow> still (adapted V) a w' \<and>
        fails_as r (\<lambda>is. distinct (map (snd \<circ> v_ref (adapted V)) is) \<and>
          set (map (snd \<circ> v_ref (adapted V)) is) = dom (v_entries (adapted V) a c))"
      using ok(2) by (simp add: C comp_def refs [unfolded comp_def] ref_set)
    show "case sc_searchItems (m_collection (libsecret_methods L)) a c k of (w', r) \<Rightarrow> still (adapted V) a w' \<and>
        fails_as r (\<lambda>is. case is of [] \<Rightarrow> v_entries (adapted V) a c k = None
          | i # _ \<Rightarrow> v_ref (adapted V) i = (c, k) \<and> v_entries (adapted V) a c k \<noteq> None)" for k
      using ok(3) [of k] by (simp only: C fails_map_result comp_def found adapted_simps) (simp add: C comp_def found)
  qed (rule create)
qed

lemma adapted_item:
  assumes "client_item_ok L V (lsa_service a) (lia_item i)"
  shows "item_ok (libsecret_methods L) (adapted V) a i"
  using assms
  unfolding item_ok_def client_item_ok_def
  by (cases i; cases "snd (lib_item_Delete L (lsa_service a) (lia_item i))")
     (simp_all add: libsecret_methods_def lia_locked_def lia_secretValue_def lia_label_def lia_delete_def on_lsa_cases
      case_prod_beta comp_def)

lemma adapted_contract: "client_contract L V nm \<Longrightarrow> ss_contract (libsecret_methods L) (adapted V) nm"
  by (simp add: client_contract_def ss_contract_def adapted_service adapted_collection adapted_item)

end
