(* ===== verification/Dispatch.thy ===== *)
theory Dispatch
  imports KeyringLaws StoreProps
begin

text \<open>
  Calls through an interface whose value has one of two dynamic types. A value of the interface is a sum of
  the receivers' states, and a call goes to the method of the type it has. What both sides promise, the
  interface promises; so a keyring that is one of several, and a store whose backend is the in-memory map
  or a keyring behind its adapter, inherit the laws of what is inside.
\<close>

definition sum_call :: "('a \<Rightarrow> 'a \<times> 'r) \<Rightarrow> ('b \<Rightarrow> 'b \<times> 'r) \<Rightarrow> 'a + 'b \<Rightarrow> ('a + 'b) \<times> 'r" where
  "sum_call f g k = (case k of Inl a \<Rightarrow> map_prod Inl id (f a) | Inr b \<Rightarrow> map_prod Inr id (g b))"

lemma sum_call_simps [simp]:
  "sum_call f g (Inl a) = map_prod Inl id (f a)" "sum_call f g (Inr b) = map_prod Inr id (g b)"
  by (simp_all add: sum_call_def)

section \<open>Keyrings\<close>

definition keyring_sum :: "'a keyringBackend \<Rightarrow> 'b keyringBackend \<Rightarrow> ('a + 'b) keyringBackend" where
  "keyring_sum A B =
     \<lparr>kr_get = (\<lambda>k i. sum_call (\<lambda>a. kr_get A a i) (\<lambda>b. kr_get B b i) k),
      kr_metadata = (\<lambda>k i. sum_call (\<lambda>a. kr_metadata A a i) (\<lambda>b. kr_metadata B b i) k),
      kr_set = (\<lambda>k it. sum_call (\<lambda>a. kr_set A a it) (\<lambda>b. kr_set B b it) k),
      kr_remove = (\<lambda>k i. sum_call (\<lambda>a. kr_remove A a i) (\<lambda>b. kr_remove B b i) k),
      kr_keys = sum_call (kr_keys A) (kr_keys B)\<rparr>"

lemma keyring_sum_simps [simp]:
  "kr_get (keyring_sum A B) (Inl a) i = map_prod Inl id (kr_get A a i)"
  "kr_get (keyring_sum A B) (Inr b) i = map_prod Inr id (kr_get B b i)"
  "kr_metadata (keyring_sum A B) (Inl a) i = map_prod Inl id (kr_metadata A a i)"
  "kr_metadata (keyring_sum A B) (Inr b) i = map_prod Inr id (kr_metadata B b i)"
  "kr_set (keyring_sum A B) (Inl a) it = map_prod Inl id (kr_set A a it)"
  "kr_set (keyring_sum A B) (Inr b) it = map_prod Inr id (kr_set B b it)"
  "kr_remove (keyring_sum A B) (Inl a) i = map_prod Inl id (kr_remove A a i)"
  "kr_remove (keyring_sum A B) (Inr b) i = map_prod Inr id (kr_remove B b i)"
  "kr_keys (keyring_sum A B) (Inl a) = map_prod Inl id (kr_keys A a)"
  "kr_keys (keyring_sum A B) (Inr b) = map_prod Inr id (kr_keys B b)"
  by (simp_all add: keyring_sum_def)

abbreviation (input) sum_view :: "('a \<Rightarrow> kvmap) \<Rightarrow> ('b \<Rightarrow> kvmap) \<Rightarrow> 'a + 'b \<Rightarrow> kvmap" where
  "sum_view v1 v2 \<equiv> case_sum v1 v2"

abbreviation (input) sum_good :: "('a \<Rightarrow> bool) \<Rightarrow> ('b \<Rightarrow> bool) \<Rightarrow> 'a + 'b \<Rightarrow> bool" where
  "sum_good g1 g2 \<equiv> case_sum g1 g2"

lemma usable_sum [simp]:
  "usable (sum_view v1 v2) (Inl a) i = usable v1 a i" "usable (sum_view v1 v2) (Inr b) i = usable v2 b i"
  by (simp_all add: usable_def)

lemma laws_sum [simp]:
  "get_law (sum_view v1 v2) (sum_good g1 g2) (Inl a) i (map_prod Inl id og) = get_law v1 g1 a i og"
  "get_law (sum_view v1 v2) (sum_good g1 g2) (Inr b) i (map_prod Inr id og') = get_law v2 g2 b i og'"
  "metadata_law (sum_view v1 v2) (sum_good g1 g2) (Inl a) i (map_prod Inl id og) = metadata_law v1 g1 a i og"
  "metadata_law (sum_view v1 v2) (sum_good g1 g2) (Inr b) i (map_prod Inr id og') = metadata_law v2 g2 b i og'"
  "set_law (sum_view v1 v2) (sum_good g1 g2) (Inl a) i v (map_prod Inl id os) = set_law v1 g1 a i v os"
  "set_law (sum_view v1 v2) (sum_good g1 g2) (Inr b) i v (map_prod Inr id os') = set_law v2 g2 b i v os'"
  "remove_law (sum_view v1 v2) (sum_good g1 g2) (Inl a) i (map_prod Inl id os) = remove_law v1 g1 a i os"
  "remove_law (sum_view v1 v2) (sum_good g1 g2) (Inr b) i (map_prod Inr id os') = remove_law v2 g2 b i os'"
  "keys_law (sum_view v1 v2) (sum_good g1 g2) (Inl a) (map_prod Inl id ok) = keys_law v1 g1 a ok"
  "keys_law (sum_view v1 v2) (sum_good g1 g2) (Inr b) (map_prod Inr id ok') = keys_law v2 g2 b ok'"
  by (simp_all add: call_laws case_prod_beta split: sum.split option.split)

lemma exactness_sum [simp]:
  "found_or_absent (map_prod f id out) = found_or_absent out"
  "removed_or_absent (map_prod g id out') = removed_or_absent out'"
  by (simp_all add: found_or_absent_def removed_or_absent_def)

lemma keyring_sum_laws:
  assumes A: "keyring_laws A v1 g1" and B: "keyring_laws B v2 g2"
  shows "keyring_laws (keyring_sum A B) (sum_view v1 v2) (sum_good g1 g2)"
proof (rule keyring_lawsI)
  note laws = keyring_laws.calls [OF A] keyring_laws.calls [OF B]
  fix k i it
  assume good: "sum_good g1 g2 k"
  show "usable (sum_view v1 v2) k i \<Longrightarrow> get_law (sum_view v1 v2) (sum_good g1 g2) k i (kr_get (keyring_sum A B) k i)"
    "usable (sum_view v1 v2) k i \<Longrightarrow> metadata_law (sum_view v1 v2) (sum_good g1 g2) k i (kr_metadata (keyring_sum A B) k i)"
    "usable (sum_view v1 v2) k (ki_key it) \<Longrightarrow>
       set_law (sum_view v1 v2) (sum_good g1 g2) k (ki_key it) (ki_data it) (kr_set (keyring_sum A B) k it)"
    "usable (sum_view v1 v2) k i \<Longrightarrow> remove_law (sum_view v1 v2) (sum_good g1 g2) k i (kr_remove (keyring_sum A B) k i)"
    "keys_law (sum_view v1 v2) (sum_good g1 g2) k (kr_keys (keyring_sum A B) k)"
    using good laws by (cases k; simp)+
qed

lemma keyring_sum_exact:
  assumes A: "exact_keyring A v1 g1" and B: "exact_keyring B v2 g2"
  shows "exact_keyring (keyring_sum A B) (sum_view v1 v2) (sum_good g1 g2)"
proof (rule exact_keyringI)
  show "keyring_laws (keyring_sum A B) (sum_view v1 v2) (sum_good g1 g2)"
    by (rule keyring_sum_laws [OF exact_keyring.axioms(1) [OF A] exact_keyring.axioms(1) [OF B]])
  note calls = exact_keyring.exact_calls [OF A] exact_keyring.exact_calls [OF B]
  fix k i it
  assume good: "sum_good g1 g2 k"
  show "usable (sum_view v1 v2) k i \<Longrightarrow> found_or_absent (kr_get (keyring_sum A B) k i)"
    "usable (sum_view v1 v2) k i \<Longrightarrow> found_or_absent (kr_metadata (keyring_sum A B) k i)"
    "usable (sum_view v1 v2) k (ki_key it) \<Longrightarrow> snd (kr_set (keyring_sum A B) k it) = None"
    "usable (sum_view v1 v2) k i \<Longrightarrow> removed_or_absent (kr_remove (keyring_sum A B) k i)"
    "\<not> isl (snd (kr_keys (keyring_sum A B) k))"
    using good calls by (cases k; simp)+
qed
section \<open>Backends\<close>

definition backend_sum :: "'a backend \<Rightarrow> 'b backend \<Rightarrow> ('a + 'b) backend" where
  "backend_sum A B =
     \<lparr>be_get = (\<lambda>s k. sum_call (\<lambda>a. be_get A a k) (\<lambda>b. be_get B b k) s),
      be_set = (\<lambda>s k v ow. sum_call (\<lambda>a. be_set A a k v ow) (\<lambda>b. be_set B b k v ow) s),
      be_delete = (\<lambda>s k. sum_call (\<lambda>a. be_delete A a k) (\<lambda>b. be_delete B b k) s),
      be_exists = (\<lambda>s k. sum_call (\<lambda>a. be_exists A a k) (\<lambda>b. be_exists B b k) s),
      be_listKeys = sum_call (be_listKeys A) (be_listKeys B),
      be_kind = case_sum (be_kind A) (be_kind B),
      be_close = sum_call (be_close A) (be_close B)\<rparr>"

lemma backend_sum_simps [simp]:
  "be_get (backend_sum A B) (Inl a) k = map_prod Inl id (be_get A a k)"
  "be_get (backend_sum A B) (Inr b) k = map_prod Inr id (be_get B b k)"
  "be_set (backend_sum A B) (Inl a) k v ow = map_prod Inl id (be_set A a k v ow)"
  "be_set (backend_sum A B) (Inr b) k v ow = map_prod Inr id (be_set B b k v ow)"
  "be_delete (backend_sum A B) (Inl a) k = map_prod Inl id (be_delete A a k)"
  "be_delete (backend_sum A B) (Inr b) k = map_prod Inr id (be_delete B b k)"
  "be_exists (backend_sum A B) (Inl a) k = map_prod Inl id (be_exists A a k)"
  "be_exists (backend_sum A B) (Inr b) k = map_prod Inr id (be_exists B b k)"
  "be_listKeys (backend_sum A B) (Inl a) = map_prod Inl id (be_listKeys A a)"
  "be_listKeys (backend_sum A B) (Inr b) = map_prod Inr id (be_listKeys B b)"
  "be_close (backend_sum A B) (Inl a) = map_prod Inl id (be_close A a)"
  "be_close (backend_sum A B) (Inr b) = map_prod Inr id (be_close B b)"
  "be_kind (backend_sum A B) (Inl a) = be_kind A a" "be_kind (backend_sum A B) (Inr b) = be_kind B b"
  by (simp_all add: backend_sum_def)

lemma map_prod_eqD: "map_prod f id p = (x, r) \<Longrightarrow> x = f (fst p) \<and> p = (fst p, r)"
  by (cases p) auto

lemma backend_sum_laws:
  assumes A: "backend_laws A v1 g1" and B: "backend_laws B v2 g2"
  shows "backend_laws (backend_sum A B) (sum_view v1 v2) (sum_good g1 g2)"
proof (unfold_locales, goal_cases)
  case (1 s k s' r)
  then show ?case
    using backend_laws.get_keeps [OF A] backend_laws.get_keeps [OF B] by (cases s) (auto dest!: map_prod_eqD)
next
  case (2 s k s' v)
  then show ?case
    using backend_laws.get_value [OF A] backend_laws.get_value [OF B] by (cases s) (auto dest!: map_prod_eqD)
next
  case (3 s k s' e)
  then show ?case
    using backend_laws.get_absent [OF A] backend_laws.get_absent [OF B] by (cases s) (auto dest!: map_prod_eqD)
next
  case (4 s k s' r)
  then show ?case
    using backend_laws.exists_keeps [OF A] backend_laws.exists_keeps [OF B] by (cases s) (auto dest!: map_prod_eqD)
next
  case (5 s k s' p)
  then show ?case
    using backend_laws.exists_value [OF A, of "projl s" k "projl s'" p] backend_laws.exists_value [OF B, of "projr s" k "projr s'" p]
    by (cases s) (auto dest!: map_prod_eqD)
next
  case (6 s k v ow s')
  then show ?case
    using backend_laws.set_ok [OF A, of "projl s" k v ow "projl s'"] backend_laws.set_ok [OF B, of "projr s" k v ow "projr s'"]
    by (cases s) (auto dest!: map_prod_eqD)
next
  case (7 s k v ow s' e)
  then show ?case
    using backend_laws.set_fail [OF A] backend_laws.set_fail [OF B] by (cases s) (auto dest!: map_prod_eqD)
next
  case (8 s k v s' r)
  then show ?case
    using backend_laws.set_guard [OF A] backend_laws.set_guard [OF B] by (cases s) (auto dest!: map_prod_eqD)
next
  case (9 s k v s' e)
  then show ?case
    using backend_laws.set_exists [OF A] backend_laws.set_exists [OF B] by (cases s) (auto dest!: map_prod_eqD)
next
  case (10 s k s')
  then show ?case
    using backend_laws.delete_ok [OF A] backend_laws.delete_ok [OF B] by (cases s) (auto dest!: map_prod_eqD)
next
  case (11 s k s' e)
  then show ?case
    using backend_laws.delete_fail [OF A] backend_laws.delete_fail [OF B] by (cases s) (auto dest!: map_prod_eqD)
next
  case (12 s k s' e)
  then show ?case
    using backend_laws.delete_absent [OF A] backend_laws.delete_absent [OF B] by (cases s) (auto dest!: map_prod_eqD)
next
  case (13 s s' r)
  then show ?case
    using backend_laws.list_keeps [OF A] backend_laws.list_keeps [OF B] by (cases s) (auto dest!: map_prod_eqD)
next
  case (14 s s' ks)
  then show ?case
    using backend_laws.list_value [OF A] backend_laws.list_value [OF B] by (cases s) (auto dest!: map_prod_eqD)
qed

lemma backend_sum_exact:
  assumes A: "exact_backend A v1 g1" and B: "exact_backend B v2 g2"
  shows "exact_backend (backend_sum A B) (sum_view v1 v2) (sum_good g1 g2)"
proof (rule exact_backend.intro)
  show "backend_laws (backend_sum A B) (sum_view v1 v2) (sum_good g1 g2)"
    by (rule backend_sum_laws [OF exact_backend.axioms(1) [OF A] exact_backend.axioms(1) [OF B]])
  show "exact_backend_axioms (backend_sum A B) (sum_view v1 v2) (sum_good g1 g2)"
  proof (rule exact_backend_axioms.intro, goal_cases)
    case (1 s k)
    then show ?case using exact_backend.get_exact [OF A] exact_backend.get_exact [OF B] by (cases s) simp_all
  next
    case (2 s k v ow)
    then show ?case using exact_backend.set_exact [OF A] exact_backend.set_exact [OF B] by (cases s) simp_all
  next
    case (3 s k)
    then show ?case using exact_backend.delete_exact [OF A] exact_backend.delete_exact [OF B] by (cases s) simp_all
  next
    case (4 s k)
    then show ?case using exact_backend.exists_exact [OF A] exact_backend.exists_exact [OF B] by (cases s) simp_all
  next
    case (5 s)
    then show ?case using exact_backend.list_exact [OF A] exact_backend.list_exact [OF B] by (cases s) simp_all
  next
    case (6 s)
    then show ?case using exact_backend.close_exact [OF A] exact_backend.close_exact [OF B] by (cases s) simp_all
  qed
qed

end
