(* ===== verification/StaticBuild.thy ===== *)
theory StaticBuild
  imports LibsecretLaws PassProps SecretProps Dispatch
begin

text \<open>
  The store of the static Unix builds: \<open>openKeyringBackend\<close> of \<open>osbackend_nocgo_unix.go\<close> with all of its
  keyrings, the file keyring, the pass backend and the Secret Service, and the store that \<open>Open\<close> returns on
  whichever backend it resolves, the in-memory one included.
\<close>

section \<open>Opening\<close>

type_synonym ('w, 's, 'c) nocgoKeyring =
  "(passKeyringBackend + (('w, 's) libsecretServiceAdapter, 'c libsecretCollectionAdapter) secretServiceBackend) staticKeyring"

definition openKeyringBackend_static ::
  "host \<Rightarrow> (string \<Rightarrow> string option) \<Rightarrow> fs \<Rightarrow> ('w, 's, 'c, 'i) libsecret \<Rightarrow>
     Backend \<Rightarrow> backendConfig \<Rightarrow> ('w, 's, 'c) nocgoKeyring result"
where
  "openKeyringBackend_static h lookupEnv w L =
     openKeyringBackend_nocgo h w
       (\<lambda>cfg. map_sum id Inl (openPassBackend h lookupEnv w cfg))
       (\<lambda>cfg. map_sum id Inr
          (if host_GOOS h = ''linux'' then openSecretServiceBackend L cfg else openSecretServiceBackend_nonlinux cfg))"

section \<open>The methods of the opened store\<close>

definition static_keyring_ops ::
  "codec \<Rightarrow> getenv \<Rightarrow> pass_exec \<Rightarrow> ('w, 's, 'c, 'i) libsecret \<Rightarrow> ('w, 's, 'c) nocgoKeyring keyringBackend"
where
  "static_keyring_ops cd env exec L =
     keyring_sum (file_ops cd env) (keyring_sum (pass_ops cd exec) (ss_ops cd (libsecret_methods L)))"

definition static_ops ::
  "codec \<Rightarrow> getenv \<Rightarrow> pass_exec \<Rightarrow> ('w, 's, 'c, 'i) libsecret \<Rightarrow>
     (memoryBackend + ('w, 's, 'c) nocgoKeyring osKeyringBackend) backend"
where
  "static_ops cd env exec L = backend_sum memory_ops (os_ops (static_keyring_ops cd env exec L))"

text \<open>What is stored, read through the decryption of the pass files and the view of the service.\<close>

definition static_view ::
  "codec \<Rightarrow> getenv \<Rightarrow> (string \<Rightarrow> string) \<Rightarrow> ('w, 's, 'c, 'i) libsecret \<Rightarrow> ('w, 'c, 'i) ssView \<Rightarrow>
     memoryBackend + ('w, 's, 'c) nocgoKeyring osKeyringBackend \<Rightarrow> kvmap"
where
  "static_view cd env dec L V =
     sum_view memory_view (os_view (sum_view (file_view cd env)
       (sum_view (pass_view cd dec) (ss_view cd (libsecret_methods L) (adapted V)))))"

definition static_good ::
  "codec \<Rightarrow> getenv \<Rightarrow> string \<Rightarrow> ('w, 's, 'c, 'i) libsecret \<Rightarrow> ('w, 'c, 'i) ssView \<Rightarrow> string \<Rightarrow>
     memoryBackend + ('w, 's, 'c) nocgoKeyring osKeyringBackend \<Rightarrow> bool"
where
  "static_good cd env dir L V service =
     sum_good memory_good (os_good (sum_good (file_good cd env)
       (sum_good (pass_good dir ''pass'' service) (ss_good (libsecret_methods L) (adapted V) service))))"

lemma trimmed_json_ok: "json_trimmed cd \<Longrightarrow> json_ok cd"
  by (auto simp: json_trimmed_def json_ok_def)

lemma static_laws:
  assumes json: "json_trimmed cd" and program: "pass_contract exec dec dir ''pass'' service"
    and client: "client_contract L V service"
  shows "backend_laws (static_ops cd env exec L) (static_view cd env dec L V) (static_good cd env dir L V service)"
  unfolding static_ops_def static_view_def static_good_def static_keyring_ops_def
  by (intro backend_sum_laws keyring_laws.as_backend_laws keyring_sum_laws
      mem.backend_laws_axioms filekr.keyring_laws_axioms pass_keyring_laws [OF program json]
      ss_keyring_laws [OF adapted_contract [OF client] trimmed_json_ok [OF json]])
section \<open>The opened store is in order\<close>

text \<open>Where pass keeps its files: the variable of the program, or the directory in the home.\<close>

definition store_dir :: "host \<Rightarrow> (string \<Rightarrow> string option) \<Rightarrow> string result" where
  "store_dir h lookupEnv =
     (case lookupEnv ''PASSWORD_STORE_DIR'' of
        Some dir \<Rightarrow> expandTilde (host_env h) dir
      | None \<Rightarrow>
          (case os_UserHomeDir (host_GOOS h) (host_env h) of
             Inl e \<Rightarrow> Inl e
           | Inr home \<Rightarrow> expandTilde (host_env h) (filepath_Join [home, ''.password-store''])))"

lemma openPassBackend_Inr:
  assumes "openPassBackend h lookupEnv w cfg = Inr b" "passDir cfg = ''''" "passCmd cfg = ''''"
  shows "store_dir h lookupEnv = Inr (pb_dir b)" "pb_passcmd b = ''pass''" "pb_prefix b = passPrefix cfg" "pb_fs b = w"
  using assms by (auto simp: openPassBackend_def store_dir_def Let_def split: sum.splits option.splits)

text \<open>The store that was resolved to pass is one over its backend, on the files there are.\<close>

lemma opened_pass:
  assumes "openOSBackend rt h (openKeyringBackend_static h lookupEnv w L) BackendPass service opts getenv = Inr ob"
  obtains b where "os_kr ob = Inr (Inl b)" "store_dir h lookupEnv = Inr (pb_dir b)" "pb_passcmd b = ''pass''"
    "pb_prefix b = service" "pb_fs b = w"
proof -
  from assms obtain cfg where cfg: "buildKeyringConfig rt h BackendPass service opts getenv = Inr cfg"
    "openKeyringBackend_static h lookupEnv w L BackendPass cfg = Inr (os_kr ob)" by (rule openOSBackend_cases)
  obtain b where b: "openPassBackend h lookupEnv w cfg = Inr b" "os_kr ob = Inr (Inl b)"
    using cfg(2) by (auto simp: openKeyringBackend_static_def openKeyringBackend_nocgo_def map_sum_Inr_iff Backend_defs)
  have "passDir cfg = ''''" "passCmd cfg = ''''" "passPrefix cfg = service"
    using cfg(1) by (auto simp: buildKeyringConfig_def backendConfig_zero_def Let_def Backend_defs)
  with openPassBackend_Inr [OF b(1)] b(2) show thesis by (intro that) simp_all
qed

lemma openSecretServiceBackend_good:
  assumes client: "client_contract L V service" and new: "\<And>w0. lib_NewService L = Inr w0 \<Longrightarrow> v_good V w0"
    and "openSecretServiceBackend L cfg = Inr b" "serviceName cfg = service" "service \<noteq> ''''"
  shows "ss_good (libsecret_methods L) (adapted V) service b"
proof -
  let ?M = "libsecret_methods L"
  obtain w0 where w0: "lib_NewService L = Inr w0"
    "openSecretServiceBackendWithService ?M service \<lparr>lsa_service = w0, lsa_session = None\<rparr> = Inr b"
    using assms(3,4) by (auto simp: openSecretServiceBackend_def split: sum.splits)
  let ?b = "\<lparr>ssb_name = service, ssb_service = \<lparr>lsa_service = w0, lsa_session = None\<rparr>, ssb_collection = None\<rparr>"
  have "openSecrets ?M ?b = (b, None)"
    using w0(2) assms(5) by (auto simp: openSecretServiceBackendWithService_def split: prod.splits option.splits)
  moreover have "ss_good ?M (adapted V) service ?b" using new [OF w0(1)] by (simp add: ss_good_def)
  ultimately show ?thesis using openSecrets_laws [OF adapted_contract [OF client]] by blast
qed

text \<open>What the machine has to give: plain directories, files that are items, a service that answers.\<close>

definition file_ready :: "codec \<Rightarrow> host \<Rightarrow> string \<Rightarrow> fs \<Rightarrow> bool" where
  "file_ready cd h service w \<longleftrightarrow>
     (case fileKeyringDir h service (host_env h) of Inl e \<Rightarrow> False | Inr d \<Rightarrow> filepath_IsAbs d \<and> dir_ok cd d w)"

definition pass_ready :: "host \<Rightarrow> (string \<Rightarrow> string option) \<Rightarrow> string \<Rightarrow> string \<Rightarrow> fs \<Rightarrow> bool" where
  "pass_ready h lookupEnv dir service w \<longleftrightarrow>
     store_dir h lookupEnv = Inr dir \<and> filepath_IsAbs dir \<and> pass_fs_ok dir service w"

lemma static_opened:
  assumes opened: "Open rt h (openKeyringBackend_static h lookupEnv w L) probe service opts = Inr s"
    and codec: "codec_ok cd"
    and files: "st_kind s = BackendFile \<Longrightarrow> file_ready cd h service w"
    and prompt: "\<And>o1 fn e. opts = Some o1 \<Longrightarrow> FilePassphrase o1 = Some fn \<Longrightarrow> fn () = Inl e \<Longrightarrow> foreign_error e"
    and items: "st_kind s = BackendPass \<Longrightarrow> pass_ready h lookupEnv dir service w"
    and client: "client_contract L V service" "\<And>w0. lib_NewService L = Inr w0 \<Longrightarrow> v_good V w0"
  shows "store_ok (static_good cd (host_env h) dir L V service) s \<and> st_service s = service"
proof -
  let ?o = "case opts of None \<Rightarrow> Options_zero | Some o1 \<Rightarrow> o1"
  let ?open = "openKeyringBackend_static h lookupEnv w L"
  from opened have run: "openWithDeps rt h ?open service opts (host_env h) (host_GOOS h) probe = Inr s"
    by (simp add: Open_def)
  then show ?thesis
  proof (cases rule: openWithDeps_cases)
    case (1 be)
    have name: "service \<noteq> ''''" "plain service"
      using validSegment_nonempty [OF 1(1)] validSegment_plain [OF 1(1)] by simp_all
    have "static_good cd (host_env h) dir L V service be"
    proof (cases be)
      case (Inl m)
      with 1(7) show ?thesis by (simp add: static_good_def memory_ok_if_exact memory_exact_new)
    next
      case (Inr ob)
      with 1(7) have k: "st_kind s \<noteq> BackendMemory"
        "openOSBackend rt h ?open (st_kind s) service (Some ?o) (host_env h) = Inr ob" by simp_all
      from k(2) obtain cfg where cfg: "buildKeyringConfig rt h (st_kind s) service (Some ?o) (host_env h) = Inr cfg"
        "?open (st_kind s) cfg = Inr (os_kr ob)" by (rule openOSBackend_cases)
      note names = buildKeyringConfig_names [OF cfg(1)]
      consider (encrypted) "st_kind s = BackendFile" | (program) "st_kind s = BackendPass"
        | (secret) "st_kind s = BackendSecretService" "host_GOOS h = ''linux''"
        using cfg(2) by (auto simp: openKeyringBackend_static_def openKeyringBackend_nocgo_def split: if_splits)
      then show ?thesis
      proof cases
        case encrypted
        with files obtain d where d: "fileKeyringDir h service (host_env h) = Inr d" "filepath_IsAbs d" "dir_ok cd d w"
          by (auto simp: file_ready_def split: sum.splits)
        obtain b where b: "openFileBackend w cfg = Inr b" "os_kr ob = Inl b"
          using cfg(2) encrypted by (auto simp: openKeyringBackend_static_def openKeyringBackend_nocgo_def openFileBackend_def)
        have "foreign_error e" if "Option.bind (Some ?o) FilePassphrase = Some fn" "fn () = Inl e" for fn e
          using prompt that by (cases opts) (auto simp: Options_zero_def)
        from opened_file_keyring(4) [OF cfg(1) [unfolded encrypted] b(1) d(1,2) codec d(3) this] Inr b(2)
        show ?thesis by (simp add: static_good_def os_good_def)
      next
        case program
        obtain b where "os_kr ob = Inr (Inl b)" "store_dir h lookupEnv = Inr (pb_dir b)" "pb_passcmd b = ''pass''"
          "pb_prefix b = service" "pb_fs b = w" using k(2) [unfolded program] by (rule opened_pass)
        with items [OF program] name(2) Inr show ?thesis
          by (simp add: static_good_def os_good_def pass_good_def pass_ready_def)
      next
        case secret
        obtain b where b: "openSecretServiceBackend L cfg = Inr b" "os_kr ob = Inr (Inr b)"
          using cfg(2) secret
          by (auto simp: openKeyringBackend_static_def openKeyringBackend_nocgo_def map_sum_Inr_iff Backend_defs)
        from openSecretServiceBackend_good [OF client b(1) _ name(1)] names Inr b(2)
        show ?thesis by (simp add: static_good_def os_good_def)
      qed
    qed
    moreover have "case st_allowed s of None \<Rightarrow> st_allowedList s = []
        | Some A \<Rightarrow> finite A \<and> A \<noteq> {} \<and> (\<forall>k \<in> A. validSegment k) \<and> st_allowedList s = sorted_list_of_set A"
      using normalizeAllowedKeys_Inr [OF 1(2)] by (auto split: option.split)
    ultimately show ?thesis
      using 1(4-6) by (cases "st_allowed s") (auto simp: store_ok_def)
  qed
qed
section \<open>A machine for the witnesses\<close>

text \<open>A libsecret client over the service of \<open>SecretProps\<close>.\<close>

definition demo_client :: "(demo_world, unit, string, string \<times> string) libsecret" where
  "demo_client =
     (let S = m_service demo_methods; C = m_collection demo_methods; I = m_item demo_methods in
      \<lparr>lib_NewService = Inr \<lparr>dw_colls = [], dw_left = None\<rparr>, lib_Open = (\<lambda>w. (w, Inr ())),
       lib_Collections = ss_collections S, lib_CreateCollection = ss_createCollection S,
       lib_Unlock = (\<lambda>w ob. ss_unlock S w ()), lib_coll_Path = sc_path C, lib_coll_Locked = sc_locked C,
       lib_coll_Items = sc_items C, lib_coll_SearchItems = sc_searchItems C,
       lib_coll_CreateItem = (\<lambda>w c k secret replace.
         case sc_createItem C w c k (sec_Value secret) of
           (w', None) \<Rightarrow> (w', Inr (c, k)) | (w', Some e) \<Rightarrow> (w', Inl e)),
       lib_item_Locked = si_locked I,
       lib_item_GetSecret = (\<lambda>w i session. case si_secretValue I w i of (w', r) \<Rightarrow>
         (w', map_result (\<lambda>v. \<lparr>sec_Session = session, sec_Parameters = '''', sec_Value = v,
            sec_ContentType = ''application/json''\<rparr>) r)),
       lib_item_Label = si_label I, lib_item_Delete = si_delete I\<rparr>)"

lemma demo_client_contract: "client_contract demo_client demo_view nm"
  unfolding client_contract_def
proof (intro allI impI conjI)
  fix w c i
  assume g: "v_good demo_view w"
  note ok = contractD [OF demo_ss_contract g]
  have own: "own_collection demo_client demo_view nm w = current demo_methods demo_view nm w" for w
    by (simp add: own_collection_def current_def demo_client_def Let_def)
  show "client_service_ok demo_client demo_view nm w"
    using ok(1) [of nm] g unfolding service_ok_def client_service_ok_def own
    by (simp add: demo_client_def fails_as_def Let_def)
  show "client_collection_ok demo_client demo_view w c"
    unfolding client_collection_ok_def
  proof (intro conjI allI)
    note c = ok(2) [of c, unfolded collection_ok_def]
    fix k secret
    show "case lib_coll_CreateItem demo_client w c k secret True of (w', r) \<Rightarrow>
        v_good demo_view w' \<and> v_colls demo_view w' = v_colls demo_view w \<and>
        (case r of
           Inr _ \<Rightarrow> v_entries demo_view w' c = (v_entries demo_view w c)(k \<mapsto> sec_Value secret)
         | Inl e \<Rightarrow> ss_error e \<and> same_except {k} (v_entries demo_view w c) (v_entries demo_view w' c))"
      using c [THEN conjunct2, THEN conjunct2, THEN conjunct2, THEN spec, THEN spec, of k "sec_Value secret"]
      by (cases "snd (sc_createItem (m_collection demo_methods) w c k (sec_Value secret))")
         (simp_all add: demo_client_def Let_def case_prod_beta)
  qed (use ok(2) [of c] in \<open>simp_all add: collection_ok_def demo_client_def Let_def case_prod_beta\<close>)
  show "client_item_ok demo_client demo_view w i"
    using ok(3) [of i] unfolding item_ok_def client_item_ok_def
    by (simp add: demo_client_def Let_def case_prod_beta comp_def)
qed

lemma brace_codec_ok: "codec_ok brace_codec"
proof -
  have "nameable brace_codec i = nameable plain_codec i" for i
    by (simp add: nameable_def fileKeyringFilename_def brace_codec_def)
  then show ?thesis
    using plain_codec_ok(1) brace_codec_trimmed by (simp add: codec_ok_def json_trimmed_def brace_codec_def)
qed

end
