(* ===== verification/SecretExact.thy ===== *)
theory SecretExact
  imports LibsecretLaws FileProps
begin

text \<open>
  The Secret Service keyring when nothing goes wrong: no call of the service fails, and every secret under the
  collection is an encoded item. Then each method succeeds unless the item itself is the reason it cannot. What
  the entries of the collection are, undecoded, is the view through a codec that stores data as it is.
\<close>

section \<open>A service that does not fail\<close>

definition ss_reliable :: "('w, 'c, 'i, 'u) ssMethods \<Rightarrow> ('w, 'c, 'i) ssView \<Rightarrow> string \<Rightarrow> bool" where
  "ss_reliable M V nm \<longleftrightarrow>
     (\<forall>w. v_good V w \<longrightarrow>
        snd (ss_open (m_service M) w) = None \<and> \<not> isl (snd (ss_collections (m_service M) w)) \<and>
        (\<forall>c. snd (ss_unlock (m_service M) w (sc_unlockTarget (m_collection M) c)) = None) \<and>
        (\<forall>i. snd (ss_unlock (m_service M) w (si_unlockTarget (m_item M) i)) = None) \<and>
        \<not> isl (snd (ss_createCollection (m_service M) w nm)) \<and>
        (\<forall>c \<in> set (v_colls V w).
           \<not> isl (snd (sc_locked (m_collection M) w c)) \<and> \<not> isl (snd (sc_items (m_collection M) w c)) \<and>
           (\<forall>k. \<not> isl (snd (sc_searchItems (m_collection M) w c k))) \<and>
           (\<forall>k d. snd (sc_createItem (m_collection M) w c k d) = None)) \<and>
        (\<forall>i. fst (v_ref V i) \<in> set (v_colls V w) \<longrightarrow> v_entries V w (fst (v_ref V i)) (snd (v_ref V i)) \<noteq> None \<longrightarrow>
           \<not> isl (snd (si_locked (m_item M) w i)) \<and> \<not> isl (snd (si_secretValue (m_item M) w i)) \<and>
           snd (si_delete (m_item M) w i) = None))"

lemma reliable_service:
  assumes "ss_reliable M V nm" "v_good V w"
  shows "snd (ss_open (m_service M) w) = None" "\<not> isl (snd (ss_collections (m_service M) w))"
    "snd (ss_unlock (m_service M) w (sc_unlockTarget (m_collection M) c)) = None"
    "snd (ss_unlock (m_service M) w (si_unlockTarget (m_item M) i)) = None"
    "\<not> isl (snd (ss_createCollection (m_service M) w nm))"
  using assms unfolding ss_reliable_def by blast+

lemma reliable_collection:
  assumes "ss_reliable M V nm" "v_good V w" "current M V nm w = Some c"
  shows "\<not> isl (snd (sc_locked (m_collection M) w c))" "\<not> isl (snd (sc_items (m_collection M) w c))"
    "\<not> isl (snd (sc_searchItems (m_collection M) w c k))" "snd (sc_createItem (m_collection M) w c k d) = None"
proof -
  have "c \<in> set (v_colls V w)" using assms(3) by (auto simp: current_def find_Some_iff)
  then show "\<not> isl (snd (sc_locked (m_collection M) w c))" "\<not> isl (snd (sc_items (m_collection M) w c))"
    "\<not> isl (snd (sc_searchItems (m_collection M) w c k))" "snd (sc_createItem (m_collection M) w c k d) = None"
    using assms(1,2) unfolding ss_reliable_def by blast+
qed

lemma reliable_item:
  assumes "ss_reliable M V nm" "v_good V w" "current M V nm w = Some c" "v_ref V i = (c, k)" "v_entries V w c k \<noteq> None"
  shows "\<not> isl (snd (si_locked (m_item M) w i))" "\<not> isl (snd (si_secretValue (m_item M) w i))"
    "snd (si_delete (m_item M) w i) = None"
proof -
  have "fst (v_ref V i) \<in> set (v_colls V w)" using assms(3,4) by (auto simp: current_def find_Some_iff)
  moreover have "v_entries V w (fst (v_ref V i)) (snd (v_ref V i)) \<noteq> None" using assms(4,5) by simp
  ultimately show "\<not> isl (snd (si_locked (m_item M) w i))" "\<not> isl (snd (si_secretValue (m_item M) w i))"
    "snd (si_delete (m_item M) w i) = None"
    using assms(1,2) unfolding ss_reliable_def by blast+
qed

section \<open>What is stored, undecoded\<close>

abbreviation ss_raw :: "('w, 'c, 'i, 'u) ssMethods \<Rightarrow> ('w, 'c, 'i) ssView \<Rightarrow> ('w, 'c) secretServiceBackend \<Rightarrow> kvmap" where
  "ss_raw M V \<equiv> ss_view plain_codec M V"

lemma raw_plain [simp]: "raw_data plain_codec s = s" "encodeSecretServiceItem plain_codec it = Inr (ki_data it)" "json_ok plain_codec"
  using plain_codec_ok
  by (simp_all add: raw_data_def decodeSecretServiceItem_def encodeSecretServiceItem_def plain_codec_def json_ok_def codec_ok_def)

lemma raw_usable: "usable (ss_view cd M V) b i = usable (ss_raw M V) b i"
proof -
  have "ss_view cd M V b i = None \<longleftrightarrow> ss_raw M V b i = None"
    by (simp add: ss_view_def ss_kv_def split: option.split)
  then show ?thesis by (simp add: usable_def)
qed

text \<open>Encoding an item is storing its encoding as it is; reading does not depend on the codec but for its result.\<close>

lemma ss_set_raw:
  "encodeSecretServiceItem cd it = Inr d \<Longrightarrow> ss_set cd it M b = ss_set plain_codec (it\<lparr>ki_data := d\<rparr>) M b"
proof -
  assume "encodeSecretServiceItem cd it = Inr d"
  then have "ss_set_in cd it c M b1 = ss_set_in plain_codec (it\<lparr>ki_data := d\<rparr>) c M b1" for c b1
    by (simp add: ss_set_in_def split: prod.split option.split)
  then show ?thesis unfolding ss_set_def by (simp split: prod.split option.split sum.split)
qed

lemma read_raw:
  "fst (readSecretServiceItem cd I w i u) = fst (readSecretServiceItem plain_codec I w i u)"
  by (auto simp: readSecretServiceItem_def Let_def split: prod.split sum.split option.split)

lemma ss_get_raw: "fst (ss_get cd k M b) = fst (ss_get plain_codec k M b)"
proof -
  have "w1 = w2" if "readSecretServiceItem cd I w i u = (w1, r1)" "readSecretServiceItem plain_codec I w i u = (w2, r2)"
    for I w i u w1 r1 w2 r2
    using read_raw [of cd I w i u] that by simp
  then show ?thesis by (fastforce simp: ss_get_def split: prod.split sum.split list.split)
qed

definition decodes :: "codec \<Rightarrow> ('w, 'c, 'i, 'u) ssMethods \<Rightarrow> ('w, 'c, 'i) ssView \<Rightarrow> ('w, 'c) secretServiceBackend \<Rightarrow> bool" where
  "decodes cd M V b \<longleftrightarrow> (\<forall>k d. ss_raw M V b k = Some d \<longrightarrow> \<not> isl (decodeSecretServiceItem cd d))"
section \<open>The methods\<close>

lemma openSecrets_exact:
  assumes C: "ss_contract M V nm" and R: "ss_reliable M V nm" and g: "ss_good M V nm b"
  shows "snd (openSecrets M b) = None"
proof -
  have w: "v_good V (ssb_service b)" using g by (simp add: ss_good_def)
  obtain w1 r1 where o: "ss_open (m_service M) (ssb_service b) = (w1, r1)" by (cases "ss_open (m_service M) (ssb_service b)")
  have "v_good V w1" using contractD(1) [OF C w] o by (simp add: service_ok_def still_def)
  from reliable_service(2) [OF R this] reliable_service(1) [OF R w] o show ?thesis
    by (cases "ss_collections (m_service M) w1") (auto simp: openSecrets_def split: sum.split option.split)
qed

lemma openCollection_exact:
  assumes "ss_contract M V nm" "ss_reliable M V nm" "ss_good M V nm b" "openCollection M b = (b1, Inl e)"
  shows "e = Sentinel errSecretServiceCollectionNotFound"
  using openSecrets_exact [OF assms(1-3)] assms(4)
  by (auto simp: openCollection_def split: prod.splits option.splits)

text \<open>The two ways \<open>openCollection\<close> can end.\<close>

lemma exact_cases [consumes 4, case_names missing found]:
  assumes C: "ss_contract M V nm" and R: "ss_reliable M V nm" and g: "ss_good M V nm b" and run: "openCollection M b = (b1, r)"
  obtains
    (missing) "r = Inl (Sentinel errSecretServiceCollectionNotFound)"
  | (found) c where "r = Inr c" "\<And>k. ss_raw M V b k = v_entries V (ssb_service b1) c k"
      "v_good V (ssb_service b1)" "current M V nm (ssb_service b1) = Some c"
proof -
  from C g run show thesis
  proof (cases rule: opened_cases [where cd = plain_codec])
    case (failed e)
    with openCollection_exact [OF C R g] run show thesis by (intro missing) simp
  next
    case (missing e)
    with openCollection_exact [OF C R g] run show thesis by (intro that(1)) simp
  next
    case (found c)
    have "ss_raw M V b k = v_entries V (ssb_service b1) c k" for k
      using found(2) [of k] by (cases "v_entries V (ssb_service b1) c k") simp_all
    from that(2) [OF found(1) this found(3,4)] show thesis .
  qed
qed

lemma still_current_Some: "still V w w' \<Longrightarrow> current M V nm w = Some c \<Longrightarrow> current M V nm w' = Some c"
  by (simp add: still_current)

lemma ss_get_exact:
  assumes C: "ss_contract M V nm" and R: "ss_reliable M V nm" and g: "ss_good M V nm b" and d: "decodes cd M V b"
  shows "found_or_absent (ss_get cd k M b)"
proof -
  obtain b1 r1 where o: "openCollection M b = (b1, r1)" by (cases "openCollection M b")
  from C R g o show ?thesis
  proof (cases rule: exact_cases)
    case missing
    with o NotFoundError_laws(2) show ?thesis by (simp add: ss_get_def found_or_absent_def)
  next
    case (found c)
    obtain w r where s: "sc_searchItems (m_collection M) (ssb_service b1) c k = (w, r)"
      by (cases "sc_searchItems (m_collection M) (ssb_service b1) c k")
    note s1 = searchItems_laws [OF C found(3) s]
    obtain xs where r: "r = Inr xs" using reliable_collection(3) [OF R found(3,4), of k] s by (cases r) simp_all
    show ?thesis
    proof (cases xs)
      case Nil
      with o found(1) s r show ?thesis by (simp add: ss_get_def found_or_absent_def)
    next
      case (Cons i ys)
      have ref: "v_ref V i = (c, k)" "v_entries V (ssb_service b1) c k \<noteq> None" using s1(4) r Cons by simp_all
      note w = still_good [OF s1(1)] still_current_Some [OF s1(1) found(4)]
      have ent: "v_entries V w = v_entries V (ssb_service b1)" using s1(1) by (simp add: still_def)
      obtain w1 rl where l: "si_locked (m_item M) w i = (w1, rl)" by (cases "si_locked (m_item M) w i")
      obtain locked where rl: "rl = Inr locked"
        using reliable_item(1) [OF R w ref(1)] ref(2) ent l by (cases rl) simp_all
      have l1: "still V w w1" using item_laws(1) [OF C w(1) ref(1) l] by simp
      obtain w2 ru where u: "ss_unlock (m_service M) w1 (si_unlockTarget (m_item M) i) = (w2, ru)"
        by (cases "ss_unlock (m_service M) w1 (si_unlockTarget (m_item M) i)")
      have u1: "still V w1 w2" "ru = None"
        using ss_unlock_laws(1) [OF C still_good [OF l1] u] reliable_service(4) [OF R still_good [OF l1], of i] u by simp_all
      have read: "\<exists>it. (case si_secretValue (m_item M) v i of (w', Inl e) \<Rightarrow> (w', Inl e)
          | (w', Inr val) \<Rightarrow> (w', decodeSecretServiceItem cd val)) = (fst (si_secretValue (m_item M) v i), Inr it)"
        if sv: "still V w v" for v
      proof -
        obtain v' rv where val: "si_secretValue (m_item M) v i = (v', rv)" by (cases "si_secretValue (m_item M) v i")
        have "v_entries V v c k \<noteq> None" using sv ref(2) ent by (simp add: still_def)
        with reliable_item(2) [OF R still_good [OF sv] still_current_Some [OF sv w(2)] ref(1)] val
        obtain t where t: "rv = Inr t" by (cases rv) simp_all
        with item_laws(2) [OF C still_good [OF sv] ref(1) val] sv ent found(2) have "ss_raw M V b k = Some t"
          by (simp add: fails_as_def still_def)
        with d have "\<not> isl (decodeSecretServiceItem cd t)" by (simp add: decodes_def)
        with val t show ?thesis by (cases "decodeSecretServiceItem cd t") simp_all
      qed
      have "\<exists>it. snd (readSecretServiceItem cd (m_item M) w i
          (\<lambda>w. ss_unlock (m_service M) w (si_unlockTarget (m_item M) i))) = Inr it"
        using read [OF l1] read [OF still_trans [OF l1 u1(1)]] l rl u u1(2)
        by (cases locked) (auto simp: readSecretServiceItem_def Let_def)
      then show ?thesis
        using o found(1) s r Cons by (auto simp: ss_get_def found_or_absent_def split: prod.splits)
    qed
  qed
qed

lemma ss_metadata_exact:
  assumes C: "ss_contract M V nm" and R: "ss_reliable M V nm" and g: "ss_good M V nm b"
  shows "found_or_absent (ss_metadata k M b)"
proof -
  obtain b1 r1 where o: "openCollection M b = (b1, r1)" by (cases "openCollection M b")
  from C R g o show ?thesis
  proof (cases rule: exact_cases)
    case missing
    with o NotFoundError_laws(2) show ?thesis by (simp add: ss_metadata_def found_or_absent_def)
  next
    case (found c)
    with reliable_collection(3) [OF R found(3,4), of k] o show ?thesis
      by (cases "sc_searchItems (m_collection M) (ssb_service b1) c k"; cases "snd (sc_searchItems (m_collection M) (ssb_service b1) c k)")
         (simp_all add: ss_metadata_def found_or_absent_def)
  qed
qed

lemma ensure_exact:
  assumes C: "ss_contract M V nm" and R: "ss_reliable M V nm" and w: "v_good V (ssb_service b)"
    and cur: "current M V nm (ssb_service b) = Some c"
  obtains w where "ensureCollectionUnlocked c M b = (b\<lparr>ssb_service := w\<rparr>, None)" "still V (ssb_service b) w"
proof -
  obtain w1 rl where l: "sc_locked (m_collection M) (ssb_service b) c = (w1, rl)"
    by (cases "sc_locked (m_collection M) (ssb_service b) c")
  obtain locked where rl: "rl = Inr locked" using reliable_collection(1) [OF R w cur] l by (cases rl) simp_all
  have l1: "still V (ssb_service b) w1" using contractD(2) [OF C w, of c] l by (simp add: collection_ok_def)
  obtain w2 ru where u: "ss_unlock (m_service M) w1 (sc_unlockTarget (m_collection M) c) = (w2, ru)"
    by (cases "ss_unlock (m_service M) w1 (sc_unlockTarget (m_collection M) c)")
  have u1: "still V w1 w2" "ru = None"
    using ss_unlock_laws(1) [OF C still_good [OF l1] u] reliable_service(3) [OF R still_good [OF l1], of c] u by simp_all
  show thesis
    by (rule that [of "if locked then w2 else w1"])
      (use l rl u u1 l1 still_trans [OF l1 u1(1)] in \<open>simp_all add: ensureCollectionUnlocked_def\<close>)
qed

lemma ss_set_in_exact:
  assumes C: "ss_contract M V nm" and R: "ss_reliable M V nm" and w: "v_good V (ssb_service b)"
    and cur: "current M V nm (ssb_service b) = Some c" and total: "\<And>p. \<not> isl (json_Marshal cd p)"
  shows "snd (ss_set_in cd it c M b) = None"
proof -
  from ensure_exact [OF C R w cur] obtain w1 where
    e: "ensureCollectionUnlocked c M b = (b\<lparr>ssb_service := w1\<rparr>, None)" "still V (ssb_service b) w1" .
  obtain d where d: "encodeSecretServiceItem cd it = Inr d"
    unfolding encodeSecretServiceItem_def using total by (metis sum.collapse(2))
  have "snd (sc_createItem (m_collection M) w1 c (ki_key it) d) = None"
    by (rule reliable_collection(4) [OF R still_good [OF e(2)] still_current_Some [OF e(2) cur]])
  with e(1) d show ?thesis by (simp add: ss_set_in_def case_prod_beta)
qed

lemma ss_set_exact:
  assumes C: "ss_contract M V nm" and R: "ss_reliable M V nm" and g: "ss_good M V nm b"
    and total: "\<And>p. \<not> isl (json_Marshal cd p)"
  shows "snd (ss_set cd it M b) = None"
proof -
  obtain b1 r1 where o: "openSecrets M b = (b1, r1)" by (cases "openSecrets M b")
  have r1: "r1 = None" using openSecrets_exact [OF C R g] o by simp
  note o1 = openSecrets_laws [OF C g o]
  have v: "v_good V (ssb_service b1)" "ssb_name b1 = nm" "ssb_collection b1 = current M V nm (ssb_service b1)"
    using o1 r1 by (simp_all add: still_def ss_good_def)
  show ?thesis
  proof (cases "ssb_collection b1")
    case (Some c)
    then have "current M V nm (ssb_service b1) = Some c" using v(3) by simp
    from ss_set_in_exact [OF C R v(1) this total, of it] Some o r1 show ?thesis by (simp add: ss_set_def)
  next
    case None
    obtain w rc where cr: "ss_createCollection (m_service M) (ssb_service b1) nm = (w, rc)"
      by (cases "ss_createCollection (m_service M) (ssb_service b1) nm")
    obtain c where c: "rc = Inr c" using reliable_service(5) [OF R v(1)] cr by (cases rc) simp_all
    have "case ss_createCollection (m_service M) (ssb_service b1) nm of
        (w', Inl e) \<Rightarrow> still V (ssb_service b1) w' \<and> ss_error e
      | (w', Inr c) \<Rightarrow> v_good V w' \<and>
          (current M V nm (ssb_service b1) = None \<longrightarrow> current M V nm w' = Some c \<and> v_entries V w' c = Map.empty)"
      using contractD(1) [OF C v(1)] unfolding service_ok_def by (elim conjE)
    then have "v_good V w" "current M V nm w = Some c" using cr c None v(3) by simp_all
    with ss_set_in_exact [OF C R _ _ total, of "b1\<lparr>ssb_service := w, ssb_collection := Some c\<rparr>" c it] None cr c o r1 v(2)
    show ?thesis by (simp add: ss_set_def)
  qed
qed

lemma ss_remove_exact:
  assumes C: "ss_contract M V nm" and R: "ss_reliable M V nm" and g: "ss_good M V nm b"
  shows "removed_or_absent (ss_remove k M b)"
proof -
  obtain b1 r1 where o: "openCollection M b = (b1, r1)" by (cases "openCollection M b")
  from C R g o show ?thesis
  proof (cases rule: exact_cases)
    case missing
    with o NotFoundError_laws(2) show ?thesis by (simp add: ss_remove_def removed_or_absent_def)
  next
    case (found c)
    obtain w r where s: "sc_searchItems (m_collection M) (ssb_service b1) c k = (w, r)"
      by (cases "sc_searchItems (m_collection M) (ssb_service b1) c k")
    note s1 = searchItems_laws [OF C found(3) s]
    obtain xs where r: "r = Inr xs" using reliable_collection(3) [OF R found(3,4), of k] s by (cases r) simp_all
    show ?thesis
    proof (cases xs)
      case Nil
      with o found(1) s r show ?thesis by (simp add: ss_remove_def removed_or_absent_def)
    next
      case (Cons i ys)
      have ref: "v_ref V i = (c, k)" "v_entries V (ssb_service b1) c k \<noteq> None" using s1(4) r Cons by simp_all
      note w = still_good [OF s1(1)] still_current_Some [OF s1(1) found(4)]
      have ent: "v_entries V w = v_entries V (ssb_service b1)" using s1(1) by (simp add: still_def)
      obtain w1 rl where l: "si_locked (m_item M) w i = (w1, rl)" by (cases "si_locked (m_item M) w i")
      obtain locked where rl: "rl = Inr locked"
        using reliable_item(1) [OF R w ref(1)] ref(2) ent l by (cases rl) simp_all
      have l1: "still V w w1" using item_laws(1) [OF C w(1) ref(1) l] by simp
      obtain w2 ru where u: "ss_unlock (m_service M) w1 (si_unlockTarget (m_item M) i) = (w2, ru)"
        by (cases "ss_unlock (m_service M) w1 (si_unlockTarget (m_item M) i)")
      have u1: "still V w1 w2" "ru = None"
        using ss_unlock_laws(1) [OF C still_good [OF l1] u] reliable_service(4) [OF R still_good [OF l1], of i] u by simp_all
      have "snd (si_delete (m_item M) v i) = None" if sv: "still V w v" for v
      proof -
        have "v_entries V v c k \<noteq> None" using sv ref(2) ent by (simp add: still_def)
        then show ?thesis
          by (rule reliable_item(3) [OF R still_good [OF sv] still_current_Some [OF sv w(2)] ref(1)])
      qed
      from this [OF l1] this [OF still_trans [OF l1 u1(1)]] o found(1) s r Cons l rl u u1(2) show ?thesis
        by (cases locked) (simp_all add: ss_remove_def Let_def removed_or_absent_def case_prod_beta)
    qed
  qed
qed

lemma ss_keys_exact:
  assumes C: "ss_contract M V nm" and R: "ss_reliable M V nm" and g: "ss_good M V nm b"
  shows "\<not> isl (snd (ss_keys M b))"
proof -
  obtain b1 r1 where o: "openCollection M b = (b1, r1)" by (cases "openCollection M b")
  from C R g o show ?thesis
  proof (cases rule: exact_cases)
    case missing
    with o show ?thesis
      by (simp add: ss_keys_def secretServiceKeysError_def secretServiceIsMissingCollection_def)
  next
    case (found c)
    from ensure_exact [OF C R found(3,4)] obtain w1 where
      e: "ensureCollectionUnlocked c M b1 = (b1\<lparr>ssb_service := w1\<rparr>, None)" "still V (ssb_service b1) w1" .
    obtain w2 ri where it: "sc_items (m_collection M) w1 c = (w2, ri)" by (cases "sc_items (m_collection M) w1 c")
    have "\<not> isl ri"
      using reliable_collection(2) [OF R still_good [OF e(2)] still_current_Some [OF e(2) found(4)]] it by simp
    with o found(1) e(1) it show ?thesis by (cases ri) (simp_all add: ss_keys_def case_prod_beta)
  qed
qed

section \<open>The exact keyring\<close>

lemma decodes_same: "ss_raw M V b' = ss_raw M V b \<Longrightarrow> decodes cd M V b \<Longrightarrow> decodes cd M V b'"
  by (simp add: decodes_def)

lemma encode_decodes: "json_ok cd \<Longrightarrow> encodeSecretServiceItem cd it = Inr d \<Longrightarrow> \<not> isl (decodeSecretServiceItem cd d)"
  unfolding json_ok_def encodeSecretServiceItem_def decodeSecretServiceItem_def by (fastforce split: sum.split)

lemma ss_exact_keyring:
  assumes C: "ss_contract M V nm" and R: "ss_reliable M V nm" and J: "json_ok cd" and total: "\<And>p. \<not> isl (json_Marshal cd p)"
  shows "exact_keyring (ss_ops cd M) (ss_view cd M V) (\<lambda>b. ss_good M V nm b \<and> decodes cd M V b)"
proof (rule exact_keyringI)
  show "keyring_laws (ss_ops cd M) (ss_view cd M V) (\<lambda>b. ss_good M V nm b \<and> decodes cd M V b)"
  proof (rule keyring_laws_keeping [OF ss_keyring_laws [OF C J]])
    fix b i it
    assume g: "ss_good M V nm b" and d: "decodes cd M V b"
    show "decodes cd M V (fst (kr_get (ss_ops cd M) b i))"
      using ss_get_laws [OF C raw_plain(3) g, of i] d ss_get_raw [of cd i M b]
      by (auto simp: ss_ops_def get_law_def case_prod_beta intro: decodes_same)
    show "decodes cd M V (fst (kr_metadata (ss_ops cd M) b i))"
      using ss_metadata_laws [OF C g, of plain_codec i] d
      by (auto simp: ss_ops_def metadata_law_def case_prod_beta intro: decodes_same)
    show "decodes cd M V (fst (kr_keys (ss_ops cd M) b))"
      using ss_keys_laws [OF C g, of plain_codec] d
      by (auto simp: ss_ops_def keys_law_def case_prod_beta intro: decodes_same)
    have "ss_raw M V (fst (ss_remove i M b)) = (ss_raw M V b)(i := None) \<or> ss_raw M V (fst (ss_remove i M b)) = ss_raw M V b"
      using ss_remove_laws [OF C g, of plain_codec i] ss_remove_exact [OF C R g, of i]
      by (auto simp: remove_law_def removed_or_absent_def case_prod_beta)
    then show "decodes cd M V (fst (kr_remove (ss_ops cd M) b i))"
      using d by (auto simp: ss_ops_def decodes_def split: if_splits)
    obtain t where t: "encodeSecretServiceItem cd it = Inr t"
      unfolding encodeSecretServiceItem_def using total by (metis sum.collapse(2))
    have "ss_raw M V (fst (ss_set cd it M b)) = (ss_raw M V b)(ki_key it \<mapsto> t)"
      using ss_set_laws [OF C raw_plain(3) g, of "it\<lparr>ki_data := t\<rparr>"] ss_set_exact [OF C R g total, of it]
      unfolding ss_set_raw [OF t] by (simp add: set_law_def case_prod_beta)
    then show "decodes cd M V (fst (kr_set (ss_ops cd M) b it))"
      using d encode_decodes [OF J t] by (auto simp: ss_ops_def decodes_def split: if_splits)
  qed
next
  fix b i it
  assume "ss_good M V nm b \<and> decodes cd M V b"
  then have g: "ss_good M V nm b" "decodes cd M V b" by simp_all
  show "found_or_absent (kr_get (ss_ops cd M) b i)" using ss_get_exact [OF C R g] by (simp add: ss_ops_def)
  show "found_or_absent (kr_metadata (ss_ops cd M) b i)" using ss_metadata_exact [OF C R g(1)] by (simp add: ss_ops_def)
  show "snd (kr_set (ss_ops cd M) b it) = None" using ss_set_exact [OF C R g(1) total] by (simp add: ss_ops_def)
  show "removed_or_absent (kr_remove (ss_ops cd M) b i)" using ss_remove_exact [OF C R g(1)] by (simp add: ss_ops_def)
  show "\<not> isl (snd (kr_keys (ss_ops cd M) b))" using ss_keys_exact [OF C R g(1)] by (simp add: ss_ops_def)
qed

end
