(* ===== verification/PassExact.thy ===== *)
theory PassExact
  imports PassLaws
begin

text \<open>
  The pass backend when nothing goes wrong: the file system does not fault and the program does its work from
  every state of a set \<open>R\<close> that its runs do not leave. Then each method succeeds unless the item itself is the
  reason it cannot.
\<close>

definition pass_reliable :: "pass_exec \<Rightarrow> (string \<Rightarrow> string) \<Rightarrow> string \<Rightarrow> string \<Rightarrow> string \<Rightarrow> (fs \<Rightarrow> bool) \<Rightarrow> bool" where
  "pass_reliable exec dec dir cmd pre R \<longleftrightarrow>
     (\<forall>w. R w \<longrightarrow>
        pass_fs_ok dir pre w \<and> fault w = (\<lambda>_. None) \<and> (\<forall>w'. same_tree w w' \<longrightarrow> R w') \<and>
        (\<forall>m c. node_at w (filepath_Join [dir, pre]) \<noteq> Some (File m c)) \<and>
        (\<forall>i s. usable (pass_entries dec dir pre) w i \<longrightarrow>
           (let E = pass_entries dec dir pre;
                run = (\<lambda>args input. exec w \<lparr>cmd_Path = cmd, cmd_Args = args @ [pre @ ''/'' @ i],
                  cmd_Env = [''PASSWORD_STORE_DIR='' @ dir], cmd_Stdin = input\<rparr>) in
            (case run [''show''] '''' of (w', out, r) \<Rightarrow> R w' \<and> (E w i \<noteq> None \<longrightarrow> r = None)) \<and>
            (case run [''insert'', ''-m'', ''-f''] s of (w', out, r) \<Rightarrow> R w' \<and> r = None) \<and>
            (case run [''rm'', ''-f''] '''' of (w', out, r) \<Rightarrow> R w' \<and> (E w i \<noteq> None \<longrightarrow> r = None)))))"

text \<open>A backend in such a state, all of whose items decode.\<close>

definition pass_in_order ::
  "codec \<Rightarrow> (string \<Rightarrow> string) \<Rightarrow> string \<Rightarrow> string \<Rightarrow> (fs \<Rightarrow> bool) \<Rightarrow> passKeyringBackend \<Rightarrow> bool"
where
  "pass_in_order cd dec dir pre R b \<longleftrightarrow>
     R (pb_fs b) \<and> (\<forall>i t. pass_entries dec dir pre (pb_fs b) i = Some t \<longrightarrow> \<not> isl (decodePassItemOutput cd t))"

lemma reliable_state:
  assumes "pass_reliable exec dec dir cmd pre R" "R w"
  shows "fault w = (\<lambda>_. None)" "same_tree w w' \<Longrightarrow> R w'" "node_at w (filepath_Join [dir, pre]) \<noteq> Some (File m c)"
  using assms unfolding pass_reliable_def by blast+

lemma reliable_runs:
  assumes R: "pass_reliable exec dec dir cmd pre R" "R (pb_fs b)" and g: "pass_good dir cmd pre b"
    and u: "usable (pass_view cd dec) b i"
  shows "exec (pb_fs b) (pass b [''show'', pre @ ''/'' @ i]) = (w, out, r) \<Longrightarrow>
      R w \<and> (pass_entries dec dir pre (pb_fs b) i \<noteq> None \<longrightarrow> r = None)"
    "exec (pb_fs b) ((pass b [''insert'', ''-m'', ''-f'', pre @ ''/'' @ i])\<lparr>cmd_Stdin := s\<rparr>) = (w, out, r) \<Longrightarrow>
      R w \<and> r = None"
    "exec (pb_fs b) (pass b [''rm'', ''-f'', pre @ ''/'' @ i]) = (w, out, r) \<Longrightarrow>
      R w \<and> (pass_entries dec dir pre (pb_fs b) i \<noteq> None \<longrightarrow> r = None)"
proof -
  have b: "pb_dir b = dir" "pb_passcmd b = cmd" "dir \<noteq> ''''"
    using g by (auto simp: pass_good_def filepath_IsAbs_def)
  note c = R(1) [unfolded pass_reliable_def Let_def, THEN spec [of _ "pb_fs b"], THEN mp, OF R(2), THEN conjunct2, THEN conjunct2,
    THEN conjunct2, THEN conjunct2, THEN spec [of _ i], THEN spec [of _ s], THEN mp, OF u [unfolded pass_usable [OF g]]]
  show "exec (pb_fs b) (pass b [''show'', pre @ ''/'' @ i]) = (w, out, r) \<Longrightarrow>
      R w \<and> (pass_entries dec dir pre (pb_fs b) i \<noteq> None \<longrightarrow> r = None)"
    using conjunct1 [OF c] b by (simp add: pass_def)
  show "exec (pb_fs b) ((pass b [''insert'', ''-m'', ''-f'', pre @ ''/'' @ i])\<lparr>cmd_Stdin := s\<rparr>) = (w, out, r) \<Longrightarrow>
      R w \<and> r = None"
    using conjunct1 [OF conjunct2 [OF c]] b by (simp add: pass_def)
  show "exec (pb_fs b) (pass b [''rm'', ''-f'', pre @ ''/'' @ i]) = (w, out, r) \<Longrightarrow>
      R w \<and> (pass_entries dec dir pre (pb_fs b) i \<noteq> None \<longrightarrow> r = None)"
    using conjunct2 [OF conjunct2 [OF c]] b by (simp add: pass_def)
qed

lemma in_order_tick:
  assumes "pass_reliable exec dec dir cmd pre R" "pass_in_order cd dec dir pre R b" "same_tree (pb_fs b) w"
  shows "pass_in_order cd dec dir pre R (b\<lparr>pb_fs := w\<rparr>)"
  using assms(2) reliable_state(2) [OF assms(1) _ assms(3)] same_tree_entries [OF assms(3), of dec dir pre]
  by (simp add: pass_in_order_def)

lemma check_in_order:
  assumes R: "pass_reliable exec dec dir cmd pre R" and g: "pass_good dir cmd pre b" and x: "pass_in_order cd dec dir pre R b"
    and u: "usable (pass_view cd dec) b i" and run: "checkItemExists b i = (b', r)"
  shows "pass_in_order cd dec dir pre R b'" "r = None \<or> r = Some (Sentinel errKeyringItemNotFound)"
proof -
  have b: "plain pre" "pb_prefix b = pre" using g by (simp_all add: pass_good_def)
  note i = entries_plain [OF u [unfolded pass_usable [OF g]]]
  have quiet: "fault (pb_fs b) = (\<lambda>_. None)" using reliable_state(1) [OF R] x by (simp add: pass_in_order_def)
  obtain w s where s: "os_Stat (pb_fs b) (filepath_Join [pb_dir b, (pre @ ''/'' @ i) @ ''.gpg'']) = (w, s)"
    by (cases "os_Stat (pb_fs b) (filepath_Join [pb_dir b, (pre @ ''/'' @ i) @ ''.gpg''])")
  have out: "b' = b\<lparr>pb_fs := w\<rparr>"
    "r = (case s of Inr _ \<Rightarrow> None | Inl e \<Rightarrow> Some (if os_IsNotExist e then Sentinel errKeyringItemNotFound else e))"
    using run s passItemPath_eq(1) [OF b(1) i] b(2) by (auto simp: checkItemExists_def split: sum.splits)
  show "pass_in_order cd dec dir pre R b'" unfolding out(1) by (rule in_order_tick [OF R x os_Stat_walk(1) [OF s]])
  show "r = None \<or> r = Some (Sentinel errKeyringItemNotFound)"
    using s quiet unfolding out(2)
    by (auto simp: os_Stat_def syscall_def fault_now_def os_IsNotExist_def split: option.splits)
qed

text \<open>A run of the program, from and to states in order, given what it did to the entries.\<close>

lemma run_in_order:
  assumes "pass_in_order cd dec dir pre R b" "R w"
    "\<And>j t. pass_entries dec dir pre w j = Some t \<Longrightarrow>
       pass_entries dec dir pre (pb_fs b) j = Some t \<or> \<not> isl (decodePassItemOutput cd t)"
  shows "pass_in_order cd dec dir pre R (b\<lparr>pb_fs := w\<rparr>)"
  using assms unfolding pass_in_order_def by (metis passKeyringBackend.select_convs(4) passKeyringBackend.surjective
    passKeyringBackend.update_convs(4))

text \<open>What a checked call has to go on with: the item is there.\<close>

lemma check_cases [consumes 4, case_names absent present]:
  assumes R: "pass_reliable exec dec dir cmd pre R" and g: "pass_good dir cmd pre b" and x: "pass_in_order cd dec dir pre R b"
    and u: "usable (pass_view cd dec) b i"
  obtains
    (absent) b1 where "checkItemExists b i = (b1, Some (Sentinel errKeyringItemNotFound))" "pass_in_order cd dec dir pre R b1"
  | (present) b1 t where "checkItemExists b i = (b1, None)" "pass_in_order cd dec dir pre R b1" "pass_good dir cmd pre b1"
      "usable (pass_view cd dec) b1 i" "passItemPath (pb_prefix b1) i = Inr (pre @ ''/'' @ i)"
      "pass_entries dec dir pre (pb_fs b1) i = Some t" "R (pb_fs b1)"
proof -
  obtain b1 r where c: "checkItemExists b i = (b1, r)" by (cases "checkItemExists b i")
  note o = check_in_order [OF R g x u c]
  note l = checkItemExists_laws [OF g u c]
  show thesis
  proof (cases r)
    case (Some e)
    with o c show thesis by (intro absent) simp_all
  next
    case None
    with l have k: "pass_good dir cmd pre b1" "pass_view cd dec b1 = pass_view cd dec b" "pass_view cd dec b i \<noteq> None"
      "passItemPath (pb_prefix b1) i = Inr (pre @ ''/'' @ i)" by simp_all
    then have "pass_view cd dec b1 i \<noteq> None" by simp
    then obtain t where t: "pass_entries dec dir pre (pb_fs b1) i = Some t"
      using k(1) by (auto simp: pass_view_def pass_good_def)
    show thesis
      by (rule present [OF c [unfolded None] o(1) k(1) usable_same [OF k(2) u] k(4) t])
        (use o(1) in \<open>simp add: pass_in_order_def\<close>)
  qed
qed

lemma pass_get_exact:
  assumes C: "pass_contract exec dec dir cmd pre" and R: "pass_reliable exec dec dir cmd pre R"
    and g: "pass_good dir cmd pre b" and x: "pass_in_order cd dec dir pre R b" and u: "usable (pass_view cd dec) b i"
  shows "pass_in_order cd dec dir pre R (fst (pass_get cd exec b i)) \<and> found_or_absent (pass_get cd exec b i)"
  using R g x u
proof (cases rule: check_cases)
  case (absent b1)
  then show ?thesis by (simp add: pass_get_def found_or_absent_def)
next
  case (present b1 t)
  obtain w out r where run: "exec (pb_fs b1) (pass b1 [''show'', pre @ ''/'' @ i]) = (w, out, r)"
    by (cases "exec (pb_fs b1) (pass b1 [''show'', pre @ ''/'' @ i])")
  note k = contract_runs(1) [OF C present(3,4) run] reliable_runs(1) [OF R present(7,3,4) run]
  have r: "r = None" using k(2) present(6) by simp
  have same: "strings_TrimSpace out = strings_TrimSpace t" using k(1) r present(6) by simp
  have eq: "decodePassItemOutput cd out = decodePassItemOutput cd t" unfolding decodePassItemOutput_def same ..
  have "\<not> isl (decodePassItemOutput cd t)" using present(2,6) unfolding pass_in_order_def by blast
  then obtain it where it: "decodePassItemOutput cd out = Inr it" unfolding eq by (cases "decodePassItemOutput cd t") simp_all
  have "pass_in_order cd dec dir pre R (b1\<lparr>pb_fs := w\<rparr>)"
    by (rule run_in_order [OF present(2)]) (use k in simp_all)
  moreover have "pass_get cd exec b i = (b1\<lparr>pb_fs := w\<rparr>, Inr it)"
    unfolding pass_get_def present(1) prod.case option.case present(5) sum.case run r it ..
  ultimately show ?thesis by (simp add: found_or_absent_def)
qed

lemma pass_metadata_exact:
  assumes R: "pass_reliable exec dec dir cmd pre R" and g: "pass_good dir cmd pre b" and x: "pass_in_order cd dec dir pre R b"
    and u: "usable (pass_view cd dec) b i"
  shows "pass_in_order cd dec dir pre R (fst (pass_metadata b i)) \<and> found_or_absent (pass_metadata b i)"
  using R g x u by (cases rule: check_cases) (simp_all add: pass_metadata_def found_or_absent_def)

lemma pass_remove_exact:
  assumes C: "pass_contract exec dec dir cmd pre" and R: "pass_reliable exec dec dir cmd pre R"
    and g: "pass_good dir cmd pre b" and x: "pass_in_order cd dec dir pre R b" and u: "usable (pass_view cd dec) b i"
  shows "pass_in_order cd dec dir pre R (fst (pass_remove exec b i)) \<and> removed_or_absent (pass_remove exec b i)"
  using R g x u
proof (cases rule: check_cases)
  case (absent b1)
  then show ?thesis by (simp add: pass_remove_def removed_or_absent_def)
next
  case (present b1 t)
  obtain w out r where run: "exec (pb_fs b1) (pass b1 [''rm'', ''-f'', pre @ ''/'' @ i]) = (w, out, r)"
    by (cases "exec (pb_fs b1) (pass b1 [''rm'', ''-f'', pre @ ''/'' @ i])")
  note k = contract_runs(3) [OF C present(3,4) run] reliable_runs(3) [OF R present(7,3,4) run]
  have r: "r = None" using k(2) present(6) by simp
  have "pass_in_order cd dec dir pre R (b1\<lparr>pb_fs := w\<rparr>)"
    by (rule run_in_order [OF present(2)]) (use k r in \<open>auto split: if_splits\<close>)
  then show ?thesis using present(1,5) run r by (simp add: pass_remove_def removed_or_absent_def)
qed

lemma pass_set_exact:
  assumes C: "pass_contract exec dec dir cmd pre" and R: "pass_reliable exec dec dir cmd pre R"
    and J: "json_trimmed cd" and total: "\<And>p. \<not> isl (json_Marshal cd p)"
    and g: "pass_good dir cmd pre b" and x: "pass_in_order cd dec dir pre R b" and u: "usable (pass_view cd dec) b (ki_key it)"
  shows "pass_in_order cd dec dir pre R (fst (pass_set cd exec b it)) \<and> snd (pass_set cd exec b it) = None"
proof -
  let ?item = "\<lparr>pi_Key = ki_key it, pi_Data = ki_data it, pi_Label = '''', pi_Description = '''',
    pi_KeychainNotTrustApplication = False, pi_KeychainNotSynchronizable = False\<rparr>"
  have p: "passItemPath (pb_prefix b) (ki_key it) = Inr (pre @ ''/'' @ ki_key it)"
    using passItemPath_eq(1) [OF _ entries_plain [OF u [unfolded pass_usable [OF g]]]] g by (simp add: pass_good_def)
  obtain s where s: "json_Marshal cd ?item = Inr s" using total [of ?item] by (cases "json_Marshal cd ?item") simp_all
  obtain w out r where run: "exec (pb_fs b) ((pass b [''insert'', ''-m'', ''-f'', pre @ ''/'' @ ki_key it])\<lparr>cmd_Stdin := s\<rparr>) = (w, out, r)"
    by (cases "exec (pb_fs b) ((pass b [''insert'', ''-m'', ''-f'', pre @ ''/'' @ ki_key it])\<lparr>cmd_Stdin := s\<rparr>)")
  have "R (pb_fs b)" using x by (simp add: pass_in_order_def)
  note k = contract_runs(2) [OF C g u run] reliable_runs(2) [OF R this g u run]
  have dec: "\<not> isl (decodePassItemOutput cd s)"
    using J s by (fastforce simp: json_trimmed_def decodePassItemOutput_def)
  have "pass_in_order cd dec dir pre R (b\<lparr>pb_fs := w\<rparr>)"
    by (rule run_in_order [OF x]) (use k dec in \<open>auto split: if_splits\<close>)
  then show ?thesis using p s run k by (simp add: pass_set_def)
qed

text \<open>The exact keyring.\<close>

theorem pass_exact_keyring:
  assumes C: "pass_contract exec dec dir cmd pre" and R: "pass_reliable exec dec dir cmd pre R"
    and J: "json_trimmed cd" and total: "\<And>p. \<not> isl (json_Marshal cd p)"
  shows "exact_keyring (pass_ops cd exec) (pass_view cd dec) (\<lambda>b. pass_good dir cmd pre b \<and> pass_in_order cd dec dir pre R b)"
proof (rule exact_keyringI)
  have keys: "pass_in_order cd dec dir pre R (fst (pass_keys b)) \<and> \<not> isl (snd (pass_keys b))"
    if g: "pass_good dir cmd pre b" and x: "pass_in_order cd dec dir pre R b" for b
  proof -
    obtain b' r where run: "pass_keys b = (b', r)" by (cases "pass_keys b")
    note k = pass_keys_run [OF g run, of cd dec]
    have Rb: "R (pb_fs b)" using x by (simp add: pass_in_order_def)
    have st: "same_tree (pb_fs b) (pb_fs b')" using k by blast
    have "\<not> isl r"
      using k reliable_state(1) [OF R Rb] reliable_state(3) [OF R Rb] by simp
    moreover have "pass_in_order cd dec dir pre R b'"
      using x reliable_state(2) [OF R Rb st] same_tree_entries [OF st, of dec dir pre] by (simp add: pass_in_order_def)
    ultimately show ?thesis using run by simp
  qed
  show "keyring_laws (pass_ops cd exec) (pass_view cd dec) (\<lambda>b. pass_good dir cmd pre b \<and> pass_in_order cd dec dir pre R b)"
    by (rule keyring_laws_keeping [OF pass_keyring_laws [OF C J]])
      (use pass_get_exact [OF C R] pass_metadata_exact [OF R] pass_set_exact [OF C R J total] pass_remove_exact [OF C R] keys
       in \<open>simp_all add: pass_ops_def\<close>)
  fix b i it
  assume "pass_good dir cmd pre b \<and> pass_in_order cd dec dir pre R b"
  then have g: "pass_good dir cmd pre b" "pass_in_order cd dec dir pre R b" by simp_all
  show "usable (pass_view cd dec) b i \<Longrightarrow> found_or_absent (kr_get (pass_ops cd exec) b i)"
    using pass_get_exact [OF C R g] by (simp add: pass_ops_def)
  show "usable (pass_view cd dec) b i \<Longrightarrow> found_or_absent (kr_metadata (pass_ops cd exec) b i)"
    using pass_metadata_exact [OF R g] by (simp add: pass_ops_def)
  show "usable (pass_view cd dec) b (ki_key it) \<Longrightarrow> snd (kr_set (pass_ops cd exec) b it) = None"
    using pass_set_exact [OF C R J total g] by (simp add: pass_ops_def)
  show "usable (pass_view cd dec) b i \<Longrightarrow> removed_or_absent (kr_remove (pass_ops cd exec) b i)"
    using pass_remove_exact [OF C R g] by (simp add: pass_ops_def)
  show "\<not> isl (snd (kr_keys (pass_ops cd exec) b))"
    using keys [OF g] by (simp add: pass_ops_def)
qed

end
