(* ===== verification/PassCalm.thy ===== *)
theory PassCalm
  imports PassExact PassProps
begin

text \<open>
  A program that keeps the contract and is reliable: the one of \<open>PassProps\<close>, which makes the directory of an
  item it writes where there is none, as pass does.
\<close>

definition made :: "fs \<Rightarrow> string \<Rightarrow> fs" where
  "made w d = (if node_at w d = None \<and> is_dir w (filepath_Dir d) then put_node d (Dir 448) w else w)"

definition calm_pass :: pass_exec where
  "calm_pass w c =
     demo_pass
       (if hd (cmd_Args c) = ''insert''
        then made w (filepath_Dir (filepath_Join [drop (length ''PASSWORD_STORE_DIR='') (hd (cmd_Env c)), last (cmd_Args c) @ ''.gpg'']))
        else w) c"

section \<open>A directory more\<close>

lemma tree_put_dir:
  assumes "is_tree w" "plains ps" "plain v" "is_dir w (at_path ps)" "node_at w (at_path (ps @ [v])) = None"
  shows "is_tree (put_node (at_path (ps @ [v])) (Dir m) w)"
    "is_dir (put_node (at_path (ps @ [v])) (Dir m) w) q \<longleftrightarrow> filepath_Clean q = at_path (ps @ [v]) \<or> is_dir w q"
proof -
  let ?p = "at_path (ps @ [v])"
  let ?w = "put_node ?p (Dir m) w"
  have all: "plains (ps @ [v])" using assms(2,3) by auto
  have dir: "is_dir ?w q \<longleftrightarrow> filepath_Clean q = ?p \<or> is_dir w q" for q
    using at_path_proper [OF all] at_path_Clean [OF all] by (simp add: is_dir_def)
  then show "is_dir ?w q \<longleftrightarrow> filepath_Clean q = ?p \<or> is_dir w q" .
  have nodes: "nodes ?w = AList.update ?p (Dir m) (nodes w)" using all by (simp add: put_node_def)
  show "is_tree ?w"
    unfolding is_tree_def nodes dir
  proof (intro conjI ballI)
    show "distinct (map fst (AList.update ?p (Dir m) (nodes w)))"
      using assms(1) by (intro distinct_update) (simp add: is_tree_def)
    fix q
    assume "q \<in> fst ` set (AList.update ?p (Dir m) (nodes w))"
    then have "q = ?p \<or> q \<in> fst ` set (nodes w)" by (simp add: dom_update)
    then show "\<exists>ps' v'. plains ps' \<and> plain v' \<and> q = at_path (ps' @ [v']) \<and>
        (filepath_Clean (at_path ps') = ?p \<or> is_dir w (at_path ps'))"
    proof
      assume "q = ?p"
      with assms(2-4) show ?thesis by blast
    next
      assume "q \<in> fst ` set (nodes w)"
      with assms(1) show ?thesis unfolding is_tree_def by blast
    qed
  qed
qed

text \<open>An item the store may write lies in a directory of the service's.\<close>

lemma item_key_parts:
  assumes "is_item_key i"
  obtains p k where "plain p" "plain (k @ ''.gpg'')" "item_parts i = [p, k @ ''.gpg'']"
proof -
  obtain p k where i: "i = p @ ''/'' @ k" "validSegment p" "validSegment k" using assms unfolding is_item_key_def by blast
  note pl = validSegment_plain [OF i(2)] validSegment_plain [OF i(3)]
  have "key_parts i = [p, k]"
    unfolding i(1) using pl by (simp add: strings_Split_append strings_Split_single plain_def)
  then have parts: "item_parts i = [p, k @ ''.gpg'']" by (simp add: item_parts_def)
  have "plains (item_parts i)" by (rule item_parts_plain [OF item_key_plain [OF assms]])
  with parts show thesis by (intro that [OF pl(1) _ parts]) simp
qed

text \<open>Where the program makes a directory, nothing else about the store changes.\<close>

lemma made_dir:
  assumes w: "pass_fs_ok dir pre w" and d: "filepath_IsAbs dir" "plain pre" and v: "plain v"
  shows "pass_fs_ok dir pre (made w (at_path (svc_dir dir pre @ [v])))"
    "pass_entries dec dir pre (made w (at_path (svc_dir dir pre @ [v]))) = pass_entries dec dir pre w"
    "node_at (made w (at_path (svc_dir dir pre @ [v]))) q = Some (File m c) \<longleftrightarrow> node_at w q = Some (File m c)"
    "is_dir w q \<Longrightarrow> is_dir (made w (at_path (svc_dir dir pre @ [v]))) q"
    "fault (made w x) = fault w"
proof -
  let ?root = "svc_dir dir pre"
  let ?d = "at_path (?root @ [v])"
  let ?w = "made w ?d"
  note root = svc_dir_plains [OF d]
  have pl: "plains (?root @ [v])" using root v by simp
  note at_d = at_path_proper [OF pl] at_path_Clean [OF pl]
  show "fault (made w x) = fault w" for x by (simp add: made_def put_node_def)
  have free: "node_at w q = None" if "node_at w ?d = None" "filepath_Clean q = ?d" for q
    using that node_at_cong [of q ?d w] at_d(2) by simp
  show files: "node_at ?w q = Some (File m c) \<longleftrightarrow> node_at w q = Some (File m c)" for q m c
    using at_d free [of q] by (simp add: made_def)
  show kept: "is_dir ?w q" if "is_dir w q" for q
    using that at_d free [of q] is_dir_node [OF that] by (simp add: made_def is_dir_def)
  show "pass_entries dec dir pre ?w = pass_entries dec dir pre w"
  proof
    fix i
    have "(case x of Some (File m c) \<Rightarrow> Some (dec c) | _ \<Rightarrow> None) = (case y of Some (File m c) \<Rightarrow> Some (dec c) | _ \<Rightarrow> None)"
      if "\<forall>m c. x = Some (File m c) \<longleftrightarrow> y = Some (File m c)" for x y
      using that by (auto split: option.split node.split)
    then have "(case node_at ?w q of Some (File m c) \<Rightarrow> Some (dec c) | _ \<Rightarrow> None) =
        (case node_at w q of Some (File m c) \<Rightarrow> Some (dec c) | _ \<Rightarrow> None)" for q
      using files by blast
    then show "pass_entries dec dir pre ?w i = pass_entries dec dir pre w i" unfolding pass_entries_def by presburger
  qed
  have tree: "is_tree w" using w by (simp add: pass_fs_ok_def)
  have "is_tree ?w \<and> (\<forall>q. is_dir ?w q \<longrightarrow> filepath_Clean q = ?d \<or> is_dir w q)"
  proof (cases "node_at w ?d = None \<and> is_dir w (filepath_Dir ?d)")
    case True
    then have "is_dir w (at_path ?root)" "node_at w ?d = None" unfolding at_path_Dir [OF root v] by simp_all
    note put = tree_put_dir [OF tree root v this, of 448]
    have "?w = put_node ?d (Dir 448) w" unfolding made_def if_P [OF True] ..
    with put show ?thesis by (simp only:) blast
  next
    case False
    then have "?w = w" unfolding made_def by (rule if_not_P)
    with tree show ?thesis by simp
  qed
  moreover have "files_below ?w ?root = files_below w ?root" unfolding files_below_def files ..
  moreover have "filepath_Clean (at_path (?root @ item_parts i)) \<noteq> ?d" if "is_item_key i" for i
  proof -
    from that obtain p k where i: "plain p" "plain (k @ ''.gpg'')" "item_parts i = [p, k @ ''.gpg'']" by (rule item_key_parts)
    have "plains (?root @ [p, k @ ''.gpg''])" using root i(1,2) by simp
    then show ?thesis unfolding i(3) at_path_Clean [OF \<open>plains (?root @ [p, k @ ''.gpg''])\<close>]
      using at_path_inj [OF _ pl] by fastforce
  qed
  ultimately show "pass_fs_ok dir pre ?w" using w unfolding pass_fs_ok_def by metis
qed

section \<open>The program\<close>

lemma calm_pass_run:
  assumes d: "filepath_IsAbs dir" "plain pre" and i: "plains (key_parts i)"
  shows "calm_pass w \<lparr>cmd_Path = cmd, cmd_Args = (a # as) @ [pre @ ''/'' @ i], cmd_Env = [''PASSWORD_STORE_DIR='' @ dir], cmd_Stdin = s\<rparr> =
     demo_run (if a = ''insert'' then made w (filepath_Dir (item_path dir pre i)) else w) (item_path dir pre i) a s"
  using item_file [OF d i] by (simp add: calm_pass_def demo_pass_def)

text \<open>The directory of an item that may be used: one of the service's, unless it is there already.\<close>

lemma parent_cases [consumes 4, case_names there below]:
  assumes w: "pass_fs_ok dir pre w" and d: "filepath_IsAbs dir" "plain pre" and u: "usable (pass_entries dec dir pre) w i"
  obtains (there) "is_dir w (filepath_Dir (item_path dir pre i))"
  | (below) v where "plain v" "filepath_Dir (item_path dir pre i) = at_path (svc_dir dir pre @ [v])"
proof (cases "is_item_key i")
  case True
  then obtain p k where i: "plain p" "plain (k @ ''.gpg'')" "item_parts i = [p, k @ ''.gpg'']" by (rule item_key_parts)
  have "plains (svc_dir dir pre @ [p])" using svc_dir_plains [OF d] i(1) by simp
  from at_path_Dir [OF this i(2)] have "filepath_Dir (item_path dir pre i) = at_path (svc_dir dir pre @ [p])"
    unfolding i(3) by simp
  with i(1) show thesis by (rule below)
next
  case False
  note i = entries_plain [OF u]
  let ?ps = "svc_dir dir pre @ butlast (item_parts i)" and ?v = "last (item_parts i)"
  have "item_parts i \<noteq> []" by (simp add: item_parts_def)
  then have split: "svc_dir dir pre @ item_parts i = ?ps @ [?v]" by simp
  have pl: "plains ?ps" "plain ?v" using item_path_plains [OF d i] unfolding split by simp_all
  from False u have "pass_entries dec dir pre w i \<noteq> None" by (simp add: usable_def)
  then have "node_at w (at_path (?ps @ [?v])) \<noteq> None"
    unfolding pass_entries_def if_P [OF i] split by (auto split: option.splits)
  moreover have "plains [?v]" using pl(2) by simp
  moreover have "is_tree w" using w by (simp add: pass_fs_ok_def)
  ultimately have "is_dir w (at_path ?ps)" using tree_no_below_file [of w ?ps "[?v]"] pl(1) by blast
  then have "is_dir w (filepath_Dir (item_path dir pre i))" unfolding split at_path_Dir [OF pl] .
  then show thesis by (rule there)
qed

lemma made_there: "is_dir w p \<Longrightarrow> made w p = w"
  using is_dir_node [of w p] by (auto simp: made_def)

lemma made_item:
  assumes w: "pass_fs_ok dir pre w" and d: "filepath_IsAbs dir" "plain pre" and u: "usable (pass_entries dec dir pre) w i"
  shows "pass_fs_ok dir pre (made w (filepath_Dir (item_path dir pre i)))"
    "pass_entries dec dir pre (made w (filepath_Dir (item_path dir pre i))) = pass_entries dec dir pre w"
    "node_at (made w (filepath_Dir (item_path dir pre i))) q = Some (File m c) \<longleftrightarrow> node_at w q = Some (File m c)"
    "is_dir w q \<Longrightarrow> is_dir (made w (filepath_Dir (item_path dir pre i))) q"
    "fault (made w (filepath_Dir (item_path dir pre i))) = fault w"
proof -
  have all: "pass_fs_ok dir pre (made w (filepath_Dir (item_path dir pre i))) \<and>
      pass_entries dec dir pre (made w (filepath_Dir (item_path dir pre i))) = pass_entries dec dir pre w \<and>
      (\<forall>q m c. node_at (made w (filepath_Dir (item_path dir pre i))) q = Some (File m c) \<longleftrightarrow> node_at w q = Some (File m c)) \<and>
      (\<forall>q. is_dir w q \<longrightarrow> is_dir (made w (filepath_Dir (item_path dir pre i))) q) \<and>
      fault (made w (filepath_Dir (item_path dir pre i))) = fault w"
    using w d u
  proof (cases rule: parent_cases)
    case there
    from w show ?thesis unfolding made_there [OF there] by blast
  next
    case (below v)
    show ?thesis unfolding below(2) using made_dir [OF w d below(1)] by blast
  qed
  from all show "pass_fs_ok dir pre (made w (filepath_Dir (item_path dir pre i)))"
    "pass_entries dec dir pre (made w (filepath_Dir (item_path dir pre i))) = pass_entries dec dir pre w"
    "node_at (made w (filepath_Dir (item_path dir pre i))) q = Some (File m c) \<longleftrightarrow> node_at w q = Some (File m c)"
    "is_dir w q \<Longrightarrow> is_dir (made w (filepath_Dir (item_path dir pre i))) q"
    "fault (made w (filepath_Dir (item_path dir pre i))) = fault w"
    by blast+
qed

lemma calm_pass_contract:
  assumes d: "filepath_IsAbs dir" "plain pre"
  shows "pass_contract calm_pass id dir cmd pre"
  unfolding pass_contract_def Let_def
proof (intro allI impI)
  fix w i s
  assume w: "pass_fs_ok dir pre w" and u: "usable (pass_entries id dir pre) w i"
  note i = entries_plain [OF u]
  note made = made_item(1,2) [OF w d u]
  have u': "usable (pass_entries id dir pre) (made w (filepath_Dir (item_path dir pre i))) i"
    using u made(2) by (simp only: usable_def)
  note runs = calm_pass_run [OF d i, of w cmd "''show''" "[]" "''''", simplified]
    calm_pass_run [OF d i, of w cmd "''insert''" "[''-m'', ''-f'']" s, simplified]
    calm_pass_run [OF d i, of w cmd "''rm''" "[''-f'']" "''''", simplified]
  note laws = demo_run_laws(1) [OF w d u, of "''''"] demo_run_laws(2) [OF made(1) d u', of s, unfolded made(2)]
    demo_run_laws(3) [OF w d u, of "''''"]
  show "(case calm_pass w \<lparr>cmd_Path = cmd, cmd_Args = [''show''] @ [pre @ ''/'' @ i],
        cmd_Env = [''PASSWORD_STORE_DIR='' @ dir], cmd_Stdin = ''''\<rparr> of (w', out, r) \<Rightarrow>
        pass_fs_ok dir pre w' \<and> pass_entries id dir pre w' = pass_entries id dir pre w \<and>
        (case r of
           None \<Rightarrow> \<exists>t. pass_entries id dir pre w i = Some t \<and> strings_TrimSpace out = strings_TrimSpace t
         | Some e \<Rightarrow> foreign_error e)) \<and>
      (case calm_pass w \<lparr>cmd_Path = cmd, cmd_Args = [''insert'', ''-m'', ''-f''] @ [pre @ ''/'' @ i],
        cmd_Env = [''PASSWORD_STORE_DIR='' @ dir], cmd_Stdin = s\<rparr> of (w', out, r) \<Rightarrow>
        pass_fs_ok dir pre w' \<and>
        (case r of
           None \<Rightarrow> pass_entries id dir pre w' = (pass_entries id dir pre w)(i \<mapsto> s)
         | Some e \<Rightarrow> foreign_error e \<and> same_except {i} (pass_entries id dir pre w) (pass_entries id dir pre w'))) \<and>
      (case calm_pass w \<lparr>cmd_Path = cmd, cmd_Args = [''rm'', ''-f''] @ [pre @ ''/'' @ i],
        cmd_Env = [''PASSWORD_STORE_DIR='' @ dir], cmd_Stdin = ''''\<rparr> of (w', out, r) \<Rightarrow>
        pass_fs_ok dir pre w' \<and>
        (case r of
           None \<Rightarrow> pass_entries id dir pre w' = (pass_entries id dir pre w)(i := None)
         | Some e \<Rightarrow> foreign_error e \<and> same_except {i} (pass_entries id dir pre w) (pass_entries id dir pre w')))"
    using laws by (auto simp: runs same_except_def split: prod.splits option.splits)
qed

section \<open>The states it does not leave\<close>

text \<open>The service has its directory, no file in it stands where the directory of a profile would be, and no call fails.\<close>

definition pass_calm :: "string \<Rightarrow> string \<Rightarrow> fs \<Rightarrow> bool" where
  "pass_calm dir pre w \<longleftrightarrow>
     pass_fs_ok dir pre w \<and> fault w = (\<lambda>_. None) \<and> is_dir w (at_path (svc_dir dir pre)) \<and>
     (\<forall>v m c. plain v \<longrightarrow> node_at w (at_path (svc_dir dir pre @ [v])) \<noteq> Some (File m c))"

lemma calm_same_tree: "same_tree w w' \<Longrightarrow> pass_calm dir pre w \<Longrightarrow> pass_calm dir pre w'"
  using same_tree_fs_ok [of w w' dir pre] same_tree_node [of w w']
  by (simp add: pass_calm_def is_dir_def same_tree_def)

lemma item_parts_not_single:
  assumes d: "filepath_IsAbs dir" "plain pre" and c: "pass_calm dir pre w" and u: "usable (pass_entries dec dir pre) w i"
  shows "item_parts i \<noteq> [v]"
proof
  assume v: "item_parts i = [v]"
  note i = entries_plain [OF u]
  have pv: "plain v" using item_parts_plain [OF i] unfolding v by simp
  show False
  proof (cases "is_item_key i")
    case True
    then obtain p k where "item_parts i = [p, k @ ''.gpg'']" by (rule item_key_parts)
    with v show False by simp
  next
    case False
    with u have "pass_entries dec dir pre w i \<noteq> None" by (simp add: usable_def)
    then obtain m c where "node_at w (at_path (svc_dir dir pre @ [v])) = Some (File m c)"
      unfolding pass_entries_def if_P [OF i] v by (auto split: option.splits node.splits)
    with c pv show False unfolding pass_calm_def by blast
  qed
qed

text \<open>Writing a file at an item's place, or taking it away, leaves what stands elsewhere.\<close>

lemma calm_change:
  assumes d: "filepath_IsAbs dir" "plain pre" and c: "pass_calm dir pre w" and u: "usable (pass_entries dec dir pre) w i"
    and ok: "pass_fs_ok dir pre w'" and f: "fault w' = fault w"
    and node: "\<And>q. filepath_Clean q \<noteq> item_path dir pre i \<Longrightarrow> node_at w' q = node_at w q"
  shows "pass_calm dir pre w'"
proof -
  note root = svc_dir_plains [OF d]
  note pi = item_path_plains [OF d entries_plain [OF u]]
  have away: "node_at w' (at_path (svc_dir dir pre @ rs)) = node_at w (at_path (svc_dir dir pre @ rs))"
    if "plains rs" "rs \<noteq> item_parts i" for rs
  proof (rule node)
    have all: "plains (svc_dir dir pre @ rs)" using that(1) root by (simp only: set_append ball_Un simp_thms)
    show "filepath_Clean (at_path (svc_dir dir pre @ rs)) \<noteq> item_path dir pre i"
      unfolding at_path_Clean [OF all] at_path_inj [OF all pi] same_append_eq using that(2) .
  qed
  have "[] \<noteq> item_parts i" by (simp add: item_parts_def)
  from away [OF _ this] have "is_dir w' (at_path (svc_dir dir pre)) = is_dir w (at_path (svc_dir dir pre))"
    by (simp add: is_dir_def)
  moreover have "node_at w' (at_path (svc_dir dir pre @ [v])) \<noteq> Some (File m x)" if "plain v" for v m x
  proof -
    have "plains [v]" using that by simp
    from away [OF this item_parts_not_single [OF d c u, symmetric]] c that show ?thesis
      unfolding pass_calm_def by metis
  qed
  ultimately show ?thesis using c ok f unfolding pass_calm_def by metis
qed

lemma made_calm:
  assumes d: "filepath_IsAbs dir" "plain pre" and c: "pass_calm dir pre w" and u: "usable (pass_entries dec dir pre) w i"
  shows "pass_calm dir pre (made w (filepath_Dir (item_path dir pre i)))"
    "is_dir (made w (filepath_Dir (item_path dir pre i))) (filepath_Dir (item_path dir pre i))"
proof -
  have w: "pass_fs_ok dir pre w" and root: "is_dir w (at_path (svc_dir dir pre))" using c by (simp_all add: pass_calm_def)
  note made = made_item [OF w d u]
  show "pass_calm dir pre (made w (filepath_Dir (item_path dir pre i)))"
    using c made unfolding pass_calm_def by metis
  from w d u show "is_dir (made w (filepath_Dir (item_path dir pre i))) (filepath_Dir (item_path dir pre i))"
  proof (cases rule: parent_cases)
    case there
    then show ?thesis by (rule made(4))
  next
    case (below v)
    let ?d = "at_path (svc_dir dir pre @ [v])"
    note sp = svc_dir_plains [OF d]
    have pl: "plains (svc_dir dir pre @ [v])" using sp below(1) by simp
    have "is_dir (made w ?d) ?d"
    proof (cases "node_at w ?d")
      case None
      have "made w ?d = put_node ?d (Dir 448) w"
        unfolding made_def at_path_Dir [OF sp below(1)] using None root by (simp only: simp_thms if_True)
      moreover have "svc_dir dir pre @ [v] \<noteq> []" by simp
      note at_path_proper [OF pl this]
      ultimately show ?thesis unfolding is_dir_def by simp
    next
      case (Some nd)
      with c below(1) have "is_dir w ?d" unfolding pass_calm_def is_dir_def by (cases nd) auto
      then show ?thesis using made_there by metis
    qed
    then show ?thesis unfolding below(2) .
  qed
qed

lemma calm_runs:
  assumes d: "filepath_IsAbs dir" "plain pre" and c: "pass_calm dir pre w" and u: "usable (pass_entries id dir pre) w i"
  shows "case demo_run w (item_path dir pre i) ''show'' x of (w', out, r) \<Rightarrow>
      pass_calm dir pre w' \<and> (pass_entries id dir pre w i \<noteq> None \<longrightarrow> r = None)"
    "is_dir w (filepath_Dir (item_path dir pre i)) \<Longrightarrow>
     case demo_run w (item_path dir pre i) ''insert'' x of (w', out, r) \<Rightarrow> pass_calm dir pre w' \<and> r = None"
    "case demo_run w (item_path dir pre i) ''rm'' x of (w', out, r) \<Rightarrow>
      pass_calm dir pre w' \<and> (pass_entries id dir pre w i \<noteq> None \<longrightarrow> r = None)"
proof -
  let ?p = "item_path dir pre i"
  note i = entries_plain [OF u]
  note path = item_path_proper [OF d i]
  have w: "pass_fs_ok dir pre w" and quiet: "fault_now w = None" using c by (simp_all add: pass_calm_def fault_now_def)
  have st: "pass_calm dir pre (step w)" using calm_same_tree [OF same_tree_refl(2) c] .
  have us: "usable (pass_entries id dir pre) (step w) i"
    using u same_tree_entries [OF same_tree_refl(2), of id dir pre w] by (simp only: usable_def)
  have E: "pass_entries id dir pre w i = (case node_at w ?p of Some (File m c) \<Rightarrow> Some c | _ \<Rightarrow> None)"
    unfolding pass_entries_def if_P [OF i] id_apply ..
  have put: "pass_calm dir pre (put_node ?p (File m x) (step w))" if ok: "pass_fs_ok dir pre (put_node ?p (File m x) (step w))" for m x
    using calm_change [OF d st us ok] node_at_put [OF path(1), unfolded path(2)] by (simp del: append_assoc)
  have del: "pass_calm dir pre (del_node ?p (step w))" if ok: "pass_fs_ok dir pre (del_node ?p (step w))"
    using calm_change [OF d st us ok] node_at_del [OF path(1), unfolded path(2)] by (simp del: append_assoc)
  show "case demo_run w ?p ''show'' x of (w', out, r) \<Rightarrow>
      pass_calm dir pre w' \<and> (pass_entries id dir pre w i \<noteq> None \<longrightarrow> r = None)"
    unfolding demo_run_def E using st quiet by (simp split: option.split node.split del: append_assoc)
  show "case demo_run w ?p ''insert'' x of (w', out, r) \<Rightarrow> pass_calm dir pre w' \<and> r = None"
    if parent: "is_dir w (filepath_Dir ?p)"
    using demo_run_laws(2) [OF w d u, of x] put quiet parent unfolding demo_run_def
    by (simp del: append_assoc)
  show "case demo_run w ?p ''rm'' x of (w', out, r) \<Rightarrow>
      pass_calm dir pre w' \<and> (pass_entries id dir pre w i \<noteq> None \<longrightarrow> r = None)"
    using demo_run_laws(3) [OF w d u, of x] del st quiet unfolding demo_run_def
    by (simp split: option.splits node.splits del: append_assoc)
qed

lemma calm_pass_reliable:
  assumes d: "filepath_IsAbs dir" "plain pre"
  shows "pass_reliable calm_pass id dir cmd pre (pass_calm dir pre)"
  unfolding pass_reliable_def Let_def
proof (intro allI impI conjI)
  fix w w' i s m c
  assume calm: "pass_calm dir pre w"
  show "pass_fs_ok dir pre w" "fault w = (\<lambda>_. None)" using calm by (simp_all add: pass_calm_def)
  show "same_tree w w' \<Longrightarrow> pass_calm dir pre w'" using calm_same_tree calm by blast
  have "is_dir w (filepath_Join [dir, pre])" using calm unfolding svc_dir_path [OF d] pass_calm_def by blast
  then show "node_at w (filepath_Join [dir, pre]) \<noteq> Some (File m c)" by (auto simp: is_dir_def)
  assume u: "usable (pass_entries id dir pre) w i"
  note i = entries_plain [OF u]
  note runs = calm_pass_run [OF d i, of w cmd "''show''" "[]" "''''", simplified]
    calm_pass_run [OF d i, of w cmd "''insert''" "[''-m'', ''-f'']" s, simplified]
    calm_pass_run [OF d i, of w cmd "''rm''" "[''-f'']" "''''", simplified]
  have fs: "pass_fs_ok dir pre w" using calm by (simp add: pass_calm_def)
  have u': "usable (pass_entries id dir pre) (made w (filepath_Dir (item_path dir pre i))) i"
    using u made_item(2) [OF fs d u] by (simp only: usable_def)
  show "case calm_pass w \<lparr>cmd_Path = cmd, cmd_Args = [''show''] @ [pre @ ''/'' @ i],
        cmd_Env = [''PASSWORD_STORE_DIR='' @ dir], cmd_Stdin = ''''\<rparr> of (w', out, r) \<Rightarrow>
      pass_calm dir pre w' \<and> (pass_entries id dir pre w i \<noteq> None \<longrightarrow> r = None)"
    using calm_runs(1) [OF d calm u] by (simp add: runs)
  show "case calm_pass w \<lparr>cmd_Path = cmd, cmd_Args = [''insert'', ''-m'', ''-f''] @ [pre @ ''/'' @ i],
        cmd_Env = [''PASSWORD_STORE_DIR='' @ dir], cmd_Stdin = s\<rparr> of (w', out, r) \<Rightarrow> pass_calm dir pre w' \<and> r = None"
    using calm_runs(2) [OF d made_calm(1) [OF d calm u] u' made_calm(2) [OF d calm u]] by (simp add: runs)
  show "case calm_pass w \<lparr>cmd_Path = cmd, cmd_Args = [''rm'', ''-f''] @ [pre @ ''/'' @ i],
        cmd_Env = [''PASSWORD_STORE_DIR='' @ dir], cmd_Stdin = ''''\<rparr> of (w', out, r) \<Rightarrow>
      pass_calm dir pre w' \<and> (pass_entries id dir pre w i \<noteq> None \<longrightarrow> r = None)"
    using calm_runs(3) [OF d calm u] by (simp add: runs)
qed

section \<open>Files for the witness\<close>

text \<open>The files of \<open>pass_demo\<close>, of one item, on a system that does not fault.\<close>

definition calm_files :: fs where
  "calm_files = (pb_fs (pass_demo 5))\<lparr>fault := (\<lambda>_. None)\<rparr>"

lemma calm_files_nodes: "nodes calm_files = nodes (pb_fs (pass_demo 5))" "node_at calm_files = node_at (pb_fs (pass_demo 5))"
proof -
  show n: "nodes calm_files = nodes (pb_fs (pass_demo 5))" by (simp add: calm_files_def)
  show "node_at calm_files = node_at (pb_fs (pass_demo 5))" unfolding fun_eq_iff node_at_def n by simp
qed

lemma calm_files_ok:
  "pass_calm ''/s'' ''svc'' calm_files" "pass_entries dec ''/s'' ''svc'' calm_files = [''p/a'' \<mapsto> dec ''{0}'']"
proof -
  have pl: "plain ''s''" "plain ''svc''" "plain ''p''" "plain ''a.gpg''" by (simp_all add: plain_def)
  have path: "''/s/svc/p/a.gpg'' = at_path [''s'', ''svc'', ''p'', ''a.gpg'']" by code_simp
  have proper: "proper ''/s/svc/p/a.gpg''" "filepath_Clean ''/s/svc/p/a.gpg'' = ''/s/svc/p/a.gpg''"
    unfolding path using at_path_proper [of "[''s'', ''svc'', ''p'', ''a.gpg'']"] at_path_Clean [of "[''s'', ''svc'', ''p'', ''a.gpg'']"] pl
    by simp_all
  have node: "node_at calm_files q =
      (if filepath_Clean q = ''/s/svc/p/a.gpg'' then Some (File 384 ''{0}'') else node_at (pass_dirs 5) q)" for q
    unfolding calm_files_nodes using proper by (simp add: pass_demo_def)
  have "is_tree calm_files = is_tree (pb_fs (pass_demo 5))" "is_dir calm_files = is_dir (pb_fs (pass_demo 5))"
    "files_below calm_files = files_below (pb_fs (pass_demo 5))"
    by (simp_all add: is_tree_def is_dir_def files_below_def calm_files_nodes fun_eq_iff)
  then have "pass_fs_ok ''/s'' ''svc'' calm_files"
    using pass_demo_good(1) [of 5] by (simp add: pass_good_def pass_fs_ok_def pass_demo_def)
  moreover have "is_dir calm_files (at_path (svc_dir ''/s'' ''svc''))"
  proof -
    have all: "plains [''s'', ''svc'']" "plains [''s'', ''svc'', ''p'', ''a.gpg'']" using pl by simp_all
    have "filepath_Clean (at_path [''s'', ''svc'']) \<noteq> ''/s/svc/p/a.gpg''"
      unfolding path at_path_Clean [OF all(1)] at_path_inj [OF all] by simp
    moreover have "is_dir (pass_dirs 5) (at_path [''s'', ''svc''])"
      using all(1) by (simp add: is_dir_def node_at_path) (simp add: dirs_paths pass_dirs_def)
    ultimately show ?thesis unfolding dirs_paths(4) is_dir_def node by simp
  qed
  moreover have "node_at calm_files (at_path (svc_dir ''/s'' ''svc'' @ [v])) \<noteq> Some (File m c)" if "plain v" for v m c
  proof -
    have all: "plains [''s'', ''svc'', v]" "plains [''s'', ''svc'', ''p'', ''a.gpg'']" using pl that by simp_all
    have "filepath_Clean (at_path (svc_dir ''/s'' ''svc'' @ [v])) \<noteq> ''/s/svc/p/a.gpg''"
      unfolding path dirs_paths(4) append_Cons append_Nil at_path_Clean [OF all(1)] at_path_inj [OF all] by simp
    then show ?thesis unfolding node by (simp add: pass_dirs_no_file)
  qed
  ultimately show "pass_calm ''/s'' ''svc'' calm_files" unfolding pass_calm_def by (simp add: calm_files_def)
  show "pass_entries dec ''/s'' ''svc'' calm_files = [''p/a'' \<mapsto> dec ''{0}'']"
    using pass_demo_good(2) [of dec 5] unfolding fun_eq_iff pass_entries_def calm_files_nodes .
qed

end
