(* ===== verification/StaticExact.thy ===== *)
theory StaticExact
  imports StaticBuild SecretExact PassCalm Sessions
begin

text \<open>
  The store of the static Unix builds when nothing goes wrong: no call of the system, the pass program or the
  libsecret client fails, and what is stored decodes. Then the store that \<open>Open\<close> returns is exact on every
  backend.
\<close>

section \<open>A libsecret client that does not fail\<close>

definition client_reliable :: "('w, 's, 'c, 'i) libsecret \<Rightarrow> ('w, 'c, 'i) ssView \<Rightarrow> string \<Rightarrow> bool" where
  "client_reliable L V nm \<longleftrightarrow>
     (\<forall>w. v_good V w \<longrightarrow>
        \<not> isl (snd (lib_Open L w)) \<and> \<not> isl (snd (lib_Collections L w)) \<and>
        (\<forall>ob. snd (lib_Unlock L w ob) = None) \<and> \<not> isl (snd (lib_CreateCollection L w nm)) \<and>
        (\<forall>c \<in> set (v_colls V w).
           \<not> isl (snd (lib_coll_Locked L w c)) \<and> \<not> isl (snd (lib_coll_Items L w c)) \<and>
           (\<forall>k. \<not> isl (snd (lib_coll_SearchItems L w c k))) \<and>
           (\<forall>k secret. \<not> isl (snd (lib_coll_CreateItem L w c k secret True)))) \<and>
        (\<forall>i. fst (v_ref V i) \<in> set (v_colls V w) \<longrightarrow> v_entries V w (fst (v_ref V i)) (snd (v_ref V i)) \<noteq> None \<longrightarrow>
           \<not> isl (snd (lib_item_Locked L w i)) \<and> (\<forall>session. \<not> isl (snd (lib_item_GetSecret L w i session))) \<and>
           snd (lib_item_Delete L w i) = None))"

lemma isl_map_result [simp]: "isl (map_result f r) = isl r"
  by (simp add: map_result_def split: sum.split)

lemma adapted_ref: "v_ref (adapted V) i = (\<lparr>lca_collection = fst (v_ref V (lia_item i))\<rparr>, snd (v_ref V (lia_item i)))"
  by (simp add: adapted_def case_prod_beta)

lemma adapted_reliable:
  fixes L :: "('w, 's, 'c, 'i) libsecret"
  assumes "client_reliable L V nm"
  shows "ss_reliable (libsecret_methods L) (adapted V) nm"
  unfolding ss_reliable_def
proof (intro allI impI conjI ballI)
  fix a :: "('w, 's) libsecretServiceAdapter" and c i k d
  assume "v_good (adapted V) a"
  note R = assms [unfolded client_reliable_def, THEN spec, THEN mp, OF this [unfolded adapted_simps(1)]]
  note C = libsecret_methods_def on_lsa_cases case_prod_beta
  show "snd (ss_open (m_service (libsecret_methods L)) a) = None"
    using R by (cases "snd (lib_Open L (lsa_service a))") (simp_all add: C lsa_open_def)
  show "\<not> isl (snd (ss_collections (m_service (libsecret_methods L)) a))"
    using R by (simp add: C lsa_collections_def)
  show "snd (ss_unlock (m_service (libsecret_methods L)) a (sc_unlockTarget (m_collection (libsecret_methods L)) c)) = None"
    "snd (ss_unlock (m_service (libsecret_methods L)) a (si_unlockTarget (m_item (libsecret_methods L)) i)) = None"
    using R by (simp_all add: C lsa_unlock_def lca_unlockTarget_def lia_unlockTarget_def)
  show "\<not> isl (snd (ss_createCollection (m_service (libsecret_methods L)) a nm))"
    using R by (simp add: C lsa_createCollection_def)
  {
    fix c
    assume "c \<in> set (v_colls (adapted V) a)"
    then have "lca_collection c \<in> set (v_colls V (lsa_service a))" by auto
    note Rc = R [THEN conjunct2, THEN conjunct2, THEN conjunct2, THEN conjunct2, THEN conjunct1, THEN bspec, OF this]
    show "\<not> isl (snd (sc_locked (m_collection (libsecret_methods L)) a c))"
      "\<not> isl (snd (sc_items (m_collection (libsecret_methods L)) a c))"
      "\<not> isl (snd (sc_searchItems (m_collection (libsecret_methods L)) a c k))"
      using Rc by (simp_all add: C lca_locked_def lca_items_def lca_searchItems_def)
    let ?s = "\<lparr>sec_Session = lsa_session a, sec_Parameters = '''', sec_Value = d, sec_ContentType = ''application/json''\<rparr>"
    have "\<not> isl (snd (lib_coll_CreateItem L (lsa_service a) (lca_collection c) k ?s True))" using Rc by blast
    then show "snd (sc_createItem (m_collection (libsecret_methods L)) a c k d) = None"
      by (cases "snd (lib_coll_CreateItem L (lsa_service a) (lca_collection c) k ?s True)") (simp_all add: C lca_createItem_def Let_def)
  }
  {
    assume "fst (v_ref (adapted V) i) \<in> set (v_colls (adapted V) a)"
      "v_entries (adapted V) a (fst (v_ref (adapted V) i)) (snd (v_ref (adapted V) i)) \<noteq> None"
    then have "fst (v_ref V (lia_item i)) \<in> set (v_colls V (lsa_service a))"
      "v_entries V (lsa_service a) (fst (v_ref V (lia_item i))) (snd (v_ref V (lia_item i))) \<noteq> None"
      by (auto simp: adapted_ref)
    with R show "\<not> isl (snd (si_locked (m_item (libsecret_methods L)) a i))"
      "\<not> isl (snd (si_secretValue (m_item (libsecret_methods L)) a i))"
      "snd (si_delete (m_item (libsecret_methods L)) a i) = None"
      by (simp_all add: C lia_locked_def lia_secretValue_def lia_delete_def)
  }
qed

section \<open>The exact store\<close>

definition static_exact ::
  "codec \<Rightarrow> getenv \<Rightarrow> (string \<Rightarrow> string) \<Rightarrow> string \<Rightarrow> (fs \<Rightarrow> bool) \<Rightarrow> ('w, 's, 'c, 'i) libsecret \<Rightarrow> ('w, 'c, 'i) ssView \<Rightarrow>
     string \<Rightarrow> memoryBackend + ('w, 's, 'c) nocgoKeyring osKeyringBackend \<Rightarrow> bool"
where
  "static_exact cd env dec dir R L V service =
     sum_good memory_exact (os_good (sum_good (file_exact cd env)
       (sum_good (\<lambda>b. pass_good dir ''pass'' service b \<and> pass_in_order cd dec dir service R b)
         (\<lambda>b. ss_good (libsecret_methods L) (adapted V) service b \<and> decodes cd (libsecret_methods L) (adapted V) b))))"

lemma static_exact_backend:
  assumes json: "json_trimmed cd" "\<And>p. \<not> isl (json_Marshal cd p)"
    and program: "pass_contract exec dec dir ''pass'' service" "pass_reliable exec dec dir ''pass'' service R"
    and client: "client_contract L V service" "client_reliable L V service"
  shows "exact_backend (static_ops cd env exec L) (static_view cd env dec L V) (static_exact cd env dec dir R L V service)"
  unfolding static_ops_def static_view_def static_exact_def static_keyring_ops_def
  by (intro backend_sum_exact exact_keyring.as_exact_backend keyring_sum_exact
      memx.exact_backend_axioms filex.exact_keyring_axioms pass_exact_keyring [OF program json]
      ss_exact_keyring [OF adapted_contract [OF client(1)] adapted_reliable [OF client(2)] trimmed_json_ok [OF json(1)] json(2)])

text \<open>
  What has to be in order beside what \<open>static_opened\<close> gives: the directory of the file keyring is there, its
  passphrase can be had and opens what is stored, no call of the system fails, the items of pass and of the
  Secret Service decode, and what is stored was stored by a store.
\<close>

definition static_calm ::
  "codec \<Rightarrow> getenv \<Rightarrow> (string \<Rightarrow> string) \<Rightarrow> string \<Rightarrow> (fs \<Rightarrow> bool) \<Rightarrow> ('w, 's, 'c, 'i) libsecret \<Rightarrow> ('w, 'c, 'i) ssView \<Rightarrow>
     string \<Rightarrow> memoryBackend + ('w, 's, 'c) nocgoKeyring osKeyringBackend \<Rightarrow> bool"
where
  "static_calm cd env dec dir R L V service be \<longleftrightarrow>
     sum_good (\<lambda>m. True) (os_good (sum_good
       (\<lambda>b. unlockable b \<and> fault (fb_fs b) = (\<lambda>_. None) \<and> is_dir (fb_fs b) (base_dir env b) \<and>
          (\<forall>(q, n) \<in> set (below (base_dir env b) (fb_fs b)). decodable cd (eff_password b) n))
       (sum_good (pass_in_order cd dec dir service R) (decodes cd (libsecret_methods L) (adapted V))))) be \<and>
     (\<forall>ik \<in> dom (static_view cd env dec L V be). is_item_key ik)"

lemma static_exactI:
  assumes "static_good cd env dir L V service be" "static_calm cd env dec dir R L V service be" "codec_total cd"
    "\<And>m. be = Inl m \<Longrightarrow> memory_exact m"
  shows "static_exact cd env dec dir R L V service be"
  using assms
  by (auto simp: static_good_def static_calm_def static_exact_def os_good_def file_exact_def split: sum.splits)

lemma opened_memory:
  assumes "Open rt h openBackend probe service opts = Inr s" "st_be s = Some (Inl m)"
  shows "m = newMemoryBackend"
proof -
  from assms(1) have "openWithDeps rt h openBackend service opts (host_env h) (host_GOOS h) probe = Inr s"
    by (simp add: Open_def)
  then show ?thesis
    by (cases rule: openWithDeps_cases) (use assms(2) in auto)
qed

text \<open>The opened store, and its view, are where the abstract store starts.\<close>

lemma static_opened_wf:
  assumes ok: "store_ok (static_good cd env dir L V service) s"
    and calm: "\<And>be. st_be s = Some be \<Longrightarrow> static_calm cd env dec dir R L V service be"
    and memory: "\<And>m. st_be s = Some (Inl m) \<Longrightarrow> memory_exact m"
    and total: "codec_total cd"
  shows "store_wf (static_exact cd env dec dir R L V service) (static_view cd env dec L V) s"
proof -
  have "static_exact cd env dec dir R L V service be" if "st_be s = Some be" for be
    by (rule static_exactI [OF _ calm [OF that] total])
      (use ok memory that in \<open>auto simp: store_ok_def split: option.splits\<close>)
  moreover have "\<exists>p k. joinItemKey p k = Inr ik" if "is_item_key ik" for ik
    using that by (auto simp: is_item_key_def joinItemKey_Inr)
  ultimately show ?thesis
    using ok calm
    by (auto simp: store_wf_def store_ok_def store_view_def static_calm_def split: option.splits)
qed

section \<open>A machine on which nothing fails\<close>

text \<open>
  All that is asked of the machine a store was opened on: of the codec, the passphrase callback, the pass
  program, the libsecret client, and of what is there already.
\<close>

definition calm_machine ::
  "codec \<Rightarrow> host \<Rightarrow> (string \<Rightarrow> string option) \<Rightarrow> fs \<Rightarrow> pass_exec \<Rightarrow> (string \<Rightarrow> string) \<Rightarrow> string \<Rightarrow> (fs \<Rightarrow> bool) \<Rightarrow>
     ('w, 's, 'c, 'i) libsecret \<Rightarrow> ('w, 'c, 'i) ssView \<Rightarrow> string \<Rightarrow> Options option \<Rightarrow>
     (memoryBackend + ('w, 's, 'c) nocgoKeyring osKeyringBackend) Store \<Rightarrow> bool"
where
  "calm_machine cd h lookupEnv w exec dec dir R L V service opts s \<longleftrightarrow>
     codec_ok cd \<and> json_trimmed cd \<and> codec_total cd \<and>
     (\<forall>fn e. Option.bind opts FilePassphrase = Some fn \<longrightarrow> fn () = Inl e \<longrightarrow> foreign_error e) \<and>
     pass_contract exec dec dir ''pass'' service \<and> pass_reliable exec dec dir ''pass'' service R \<and>
     client_contract L V service \<and> client_reliable L V service \<and> (\<forall>w0. lib_NewService L = Inr w0 \<longrightarrow> v_good V w0) \<and>
     (st_kind s = BackendFile \<longrightarrow> file_ready cd h service w) \<and>
     (st_kind s = BackendPass \<longrightarrow> pass_ready h lookupEnv dir service w) \<and>
     (\<forall>be. st_be s = Some be \<longrightarrow> static_calm cd (host_env h) dec dir R L V service be)"

lemma calm_machine_exact:
  assumes opened: "Open rt h (openKeyringBackend_static h lookupEnv w L) probe service opts = Inr s"
    and calm: "calm_machine cd h lookupEnv w exec dec dir R L V service opts s"
  shows "exact_backend (static_ops cd (host_env h) exec L) (static_view cd (host_env h) dec L V)
      (static_exact cd (host_env h) dec dir R L V service)"
    "store_wf (static_exact cd (host_env h) dec dir R L V service) (static_view cd (host_env h) dec L V) s"
    "\<not> st_closed s"
proof -
  note c = calm [unfolded calm_machine_def]
  have total: "\<not> isl (json_Marshal cd p)" for p using c by (simp add: codec_total_def)
  from c show "exact_backend (static_ops cd (host_env h) exec L) (static_view cd (host_env h) dec L V)
      (static_exact cd (host_env h) dec dir R L V service)"
    by (intro static_exact_backend total) simp_all
  have codec: "codec_ok cd" "codec_total cd" using c by simp_all
  have "store_ok (static_good cd (host_env h) dir L V service) s"
    by (rule static_opened [OF opened codec(1), THEN conjunct1]) (use c in auto)
  then show "store_wf (static_exact cd (host_env h) dec dir R L V service) (static_view cd (host_env h) dec L V) s"
    by (rule static_opened_wf) (use c opened_memory [OF opened] memory_exact_new codec(2) in auto)
  from opened have "openWithDeps rt h (openKeyringBackend_static h lookupEnv w L) service opts (host_env h) (host_GOOS h) probe = Inr s"
    by (simp add: Open_def)
  then show "\<not> st_closed s" by (cases rule: openWithDeps_cases)
qed

section \<open>A machine for the witness\<close>

text \<open>The client of \<open>StaticBuild\<close>, as long as it is not set to fail.\<close>

definition calm_view :: "(demo_world, string, string \<times> string) ssView" where
  "calm_view = demo_view\<lparr>v_good := (\<lambda>w. v_good demo_view w \<and> dw_left w = None)\<rparr>"

lemma calm_simps [simp]:
  "v_good calm_view w = (v_good demo_view w \<and> dw_left w = None)" "v_colls calm_view = v_colls demo_view"
  "v_entries calm_view = v_entries demo_view" "v_ref calm_view = v_ref demo_view"
  "still calm_view w w' = (still demo_view w w' \<and> dw_left w' = None)"
  "own_collection L calm_view nm w = own_collection L demo_view nm w"
  by (auto simp: calm_view_def still_def own_collection_def)

lemma calm_kept:
  assumes "dw_left w = None"
  shows "dw_left (fst (lib_Open demo_client w)) = None" "dw_left (fst (lib_Collections demo_client w)) = None"
    "dw_left (fst (lib_Unlock demo_client w ob)) = None" "dw_left (fst (lib_CreateCollection demo_client w nm)) = None"
    "dw_left (fst (lib_coll_Locked demo_client w c)) = None" "dw_left (fst (lib_coll_Items demo_client w c)) = None"
    "dw_left (fst (lib_coll_SearchItems demo_client w c k)) = None"
    "dw_left (fst (lib_coll_CreateItem demo_client w c k secret True)) = None"
    "dw_left (fst (lib_item_Locked demo_client w i)) = None" "dw_left (fst (lib_item_GetSecret demo_client w i session)) = None"
    "dw_left (fst (lib_item_Label demo_client w i)) = None" "dw_left (fst (lib_item_Delete demo_client w i)) = None"
  using assms
  by (simp_all add: demo_client_def demo_methods_def demo_put_def Let_def split: option.split prod.split)

lemma calm_client:
  "client_contract demo_client calm_view nm" "client_reliable demo_client calm_view nm"
proof -
  show "client_contract demo_client calm_view nm"
    unfolding client_contract_def
  proof (intro allI impI conjI)
    fix w c i
    assume "v_good calm_view w"
    then have g: "v_good demo_view w" and l: "dw_left w = None" by simp_all
    note ok = demo_client_contract [of nm, unfolded client_contract_def, THEN spec, THEN mp, OF g]
    note kept = calm_kept [OF l]
    show "client_service_ok demo_client calm_view nm w"
      using ok [THEN conjunct1] kept(1-3) kept(4) [of nm]
      by (auto simp: client_service_ok_def case_prod_beta simp del: demo_view_simps split: sum.splits)
    show "client_collection_ok demo_client calm_view w c"
      using ok [THEN conjunct2, THEN conjunct1, THEN spec, of c] kept(5-8)
      unfolding client_collection_ok_def calm_simps by (simp add: case_prod_beta del: demo_view_simps)
    show "client_item_ok demo_client calm_view w i"
      using ok [THEN conjunct2, THEN conjunct2, THEN spec, of i] kept(9-12)
      unfolding client_item_ok_def calm_simps by (simp add: case_prod_beta del: demo_view_simps)
  qed
  show "client_reliable demo_client calm_view nm"
    by (auto simp: client_reliable_def demo_client_def demo_methods_def Let_def map_result_def split: option.split)
qed

text \<open>Linux with pass, and nothing that fails.\<close>

definition calm_opened :: "(memoryBackend + (demo_world, unit, string) nocgoKeyring osKeyringBackend) Store result" where
  "calm_opened = Open no_tables home_host (openKeyringBackend_static home_host (\<lambda>_. Some ''/s'') calm_files demo_client)
     (probeSecretService_static demo_client) ''svc'' (Some (Options_zero\<lparr>Backend := ''pass''\<rparr>))"

lemma calm_opened_result: "map_sum (\<lambda>_. ()) st_kind calm_opened = Inr BackendPass"
  by code_simp

lemma calm_opened_pass:
  assumes opened: "calm_opened = Inr s" "st_kind s = BackendPass" "st_be s = Some be"
  obtains ob b where "be = Inr ob" "os_kr ob = Inr (Inl b)" "pb_dir b = ''/s''" "pb_passcmd b = ''pass''"
    "pb_prefix b = ''svc''" "pb_fs b = calm_files"
proof -
  from opened(1) have "openWithDeps no_tables home_host (openKeyringBackend_static home_host (\<lambda>_. Some ''/s'') calm_files demo_client)
      ''svc'' (Some (Options_zero\<lparr>Backend := ''pass''\<rparr>)) (host_env home_host) (host_GOOS home_host)
      (probeSecretService_static demo_client) = Inr s" by (simp add: calm_opened_def Open_def)
  then obtain ob where ob: "be = Inr ob"
    "openOSBackend no_tables home_host (openKeyringBackend_static home_host (\<lambda>_. Some ''/s'') calm_files demo_client) BackendPass
       ''svc'' (Some (Options_zero\<lparr>Backend := ''pass''\<rparr>)) (host_env home_host) = Inr ob"
    by (cases rule: openWithDeps_cases) (use opened(2,3) in \<open>auto simp: Backend_defs split: sum.splits\<close>)
  from ob(2) obtain b where b: "os_kr ob = Inr (Inl b)" "store_dir home_host (\<lambda>_. Some ''/s'') = Inr (pb_dir b)"
    "pb_passcmd b = ''pass''" "pb_prefix b = ''svc''" "pb_fs b = calm_files" by (rule opened_pass)
  have "filepath_IsAbs ''/s''" by (simp add: filepath_IsAbs_def)
  with b(2) have "pb_dir b = ''/s''" by (simp add: store_dir_def expandTilde_abs)
  from that [OF ob(1) b(1) this b(3-5)] show thesis .
qed

lemma calm_opened_calm:
  assumes opened: "calm_opened = Inr s" "st_kind s = BackendPass" "st_be s = Some be"
  shows "static_calm brace_codec env id ''/s'' (pass_calm ''/s'' ''svc'') L V ''svc'' be"
proof -
  obtain ob b where b: "be = Inr ob" "os_kr ob = Inr (Inl b)" "pb_dir b = ''/s''" "pb_passcmd b = ''pass''"
    "pb_prefix b = ''svc''" "pb_fs b = calm_files" by (rule calm_opened_pass [OF opened])
  have "validSegment ''p''" "validSegment ''a''" by code_simp+
  then have "is_item_key (''p'' @ ''/'' @ ''a'')" unfolding is_item_key_def by blast
  then have key: "is_item_key ''p/a''" by simp
  have "\<not> isl (decodePassItemOutput brace_codec ''{0}'')" by code_simp
  with key show ?thesis
    using calm_files_ok(1) calm_files_ok(2) [of id] b
    by (auto simp: static_calm_def os_good_def os_view_def static_view_def pass_in_order_def pass_view_def dom_def
      split: if_splits)
qed

text \<open>What it holds at first is one item.\<close>

lemma calm_opened_view:
  assumes opened: "calm_opened = Inr s" "st_kind s = BackendPass" and ik: "p @ ''/'' @ k \<noteq> ''p/a''"
  shows "store_abs (static_view brace_codec env id L V) s (p, k) = None"
proof (cases "st_be s")
  case (Some be)
  obtain ob b where "be = Inr ob" "os_kr ob = Inr (Inl b)" "pb_dir b = ''/s''" "pb_passcmd b = ''pass''"
    "pb_prefix b = ''svc''" "pb_fs b = calm_files" by (rule calm_opened_pass [OF opened Some])
  with Some ik show ?thesis
    using calm_files_ok(2) [of id]
    by (auto simp: store_abs_def store_view_def os_view_def static_view_def pass_view_def split: if_splits)
qed (simp add: store_abs_def store_view_def)

lemma brace_codec_total: "codec_total brace_codec"
  by (simp add: codec_total_def brace_codec_def plain_codec_def)

text \<open>The store that is opened, and all that was asked of the machine.\<close>

definition calm_ops :: "(memoryBackend + (demo_world, unit, string) nocgoKeyring osKeyringBackend) backend" where
  "calm_ops = static_ops brace_codec (host_env home_host) calm_pass demo_client"

lemma calm_opened_machine:
  obtains s where "calm_opened = Inr s" "st_kind s = BackendPass"
    "Open no_tables home_host (openKeyringBackend_static home_host (\<lambda>_. Some ''/s'') calm_files demo_client)
       (probeSecretService_static demo_client) ''svc'' (Some (Options_zero\<lparr>Backend := ''pass''\<rparr>)) = Inr s"
    "calm_machine brace_codec home_host (\<lambda>_. Some ''/s'') calm_files calm_pass id ''/s'' (pass_calm ''/s'' ''svc'')
       demo_client calm_view ''svc'' (Some (Options_zero\<lparr>Backend := ''pass''\<rparr>)) s"
proof -
  obtain s where s: "calm_opened = Inr s" "st_kind s = BackendPass"
    using calm_opened_result by (auto simp: map_sum_Inr_iff)
  have dir: "filepath_IsAbs ''/s''" "plain ''svc''" by (simp_all add: filepath_IsAbs_def plain_def)
  have prompt: "\<forall>fn e. Option.bind (Some (Options_zero\<lparr>Backend := ''pass''\<rparr>)) FilePassphrase = Some fn \<longrightarrow>
      fn () = Inl e \<longrightarrow> foreign_error e" by (simp add: Options_zero_def)
  have new: "\<forall>w0. lib_NewService demo_client = Inr w0 \<longrightarrow> v_good calm_view w0"
    by (simp add: demo_client_def demo_view_def Let_def)
  have files: "st_kind s = BackendFile \<longrightarrow> file_ready brace_codec home_host ''svc'' calm_files"
    "st_kind s = BackendPass \<longrightarrow> pass_ready home_host (\<lambda>_. Some ''/s'') ''/s'' ''svc'' calm_files"
    using s(2) dir(1) calm_files_ok(1) by (simp_all add: Backend_defs pass_ready_def store_dir_def expandTilde_abs pass_calm_def)
  have calm: "\<forall>be. st_be s = Some be \<longrightarrow>
      static_calm brace_codec (host_env home_host) id ''/s'' (pass_calm ''/s'' ''svc'') demo_client calm_view ''svc'' be"
    using calm_opened_calm [OF s] by blast
  show thesis
    by (rule that [OF s s(1) [unfolded calm_opened_def]], unfold calm_machine_def, intro conjI)
      (rule brace_codec_ok brace_codec_trimmed brace_codec_total prompt calm_pass_contract [OF dir] calm_pass_reliable [OF dir]
        calm_client new files calm)+
qed

end
