(* ===== verification/Spec2Isabelle.thy ===== *)
theory Spec2Isabelle
  imports ThreadProps FileProps Redaction Open StateDir CacheProps CgoProps SecretProps PassProps Migration StaticExact
begin

text \<open>
  cli-common is the Go library the Open CLI tools share. Its core is package \<open>credstore\<close>, a store of
  credentials per service over one of several backends, with what surrounds it: selection of the backend,
  redaction of secrets in output, and the migration messages. Beside it stand packages \<open>statedir\<close> (where
  config, cache and data of a tool live), \<open>statedirtest\<close> (a hermetic environment for tests) and \<open>cache\<close>
  (resource envelopes on disk). All of the implementation files are modelled; tests, docs and scripts are not.

  \<^bold>\<open>How the parts interact.\<close> \<open>Open\<close> validates the service and the allowlist, resolves a backend
  (\<open>resolveBackend\<close>: flag, environment, config, then what the platform has, with the Linux fallback after a
  probe), assembles its config, and opens it. A store then checks refs and the allowlist and calls its
  backend: the in-memory map, or the adapter \<open>osKeyringBackend\<close> over a keyring. The keyring is the encrypted
  file keyring, the pass backend or the Secret Service in static Unix builds, and the ByteNess library, with
  reads of the macOS keychain through \<open>security\<close>, in the others. Bundles are sequences of calls of the
  backend with rollback.

  \<^bold>\<open>Shared ground.\<close> \<open>Prelude\<close> (package \<open>strings\<close>, maps), \<open>Errors\<close> (error values, \<open>errors.Is\<close> and texts),
  \<open>Hex\<close>, \<open>Env\<close> (environment and user directories), \<open>Paths\<close> (\<open>path/filepath\<close>, lexically, on Unix), \<open>Fs\<close> and
  \<open>FsOps\<close> (a tree of files whose every call may fault, writes in part), \<open>Walk\<close> (\<open>filepath.Walk\<close>).

  \<^bold>\<open>The store.\<close> \<open>CredRef\<close> is \<open>ref.go\<close>: segments, \<open>ParseRef\<close>, \<open>FormatRef\<close> and the escape, which are inverse to
  each other. \<open>Select\<close> is \<open>select.go\<close>, \<open>flag.go\<close>, \<open>linuxfallback.go\<close> and the options of \<open>store.go\<close>: precedence
  of the sources, and that nothing but an absent service downgrades to files. \<open>BackendIface\<close> is the interface
  \<open>backend\<close> with the locale \<open>backend_laws\<close>; \<open>Store\<close> (\<open>store.go\<close>) and \<open>Bundle\<close> (\<open>bundle.go\<close>) are its clients,
  \<open>StoreLaws\<close> and \<open>BundleLaws\<close> what they promise over every lawful backend whatever calls fail. \<open>StoreSpec\<close> is
  the abstract store, a map from profile and key to value and a closed flag, and the refinement of it over an
  \<open>exact_backend\<close>, one on which nothing fails but for the map itself. \<open>Memory\<close> (\<open>memory.go\<close>) and \<open>StoreProps\<close>
  interpret both locales.

  \<^bold>\<open>Keyrings.\<close> \<open>OsBackend\<close> is the adapter of \<open>osbackend_core.go\<close> with the locale \<open>keyring_laws\<close> of what it
  needs, \<open>KeyringLaws\<close> the same contract call by call. \<open>FileBackend\<close>, \<open>FileExact\<close> and \<open>FileProps\<close> are
  \<open>filebackend_*.go\<close>; \<open>PassBackend\<close>, \<open>PassLaws\<close> and \<open>PassProps\<close> are \<open>passbackend_nocgo_unix.go\<close>;
  \<open>SecretService\<close>, \<open>SecretLaws\<close> and \<open>SecretProps\<close> are \<open>secretservice_core.go\<close>, \<open>Libsecret\<close> and
  \<open>LibsecretLaws\<close> the adapters of \<open>secretservice_nocgo_*.go\<close> and the probes of \<open>linuxfallback_*.go\<close>;
  \<open>Keychain\<close> is \<open>osbackend_keychain_stable_read.go\<close>, \<open>Byteness\<close> and \<open>CgoProps\<close> are \<open>osbackend_byteness.go\<close>.
  Each group defines the methods on the keyring's state, shows the laws from a contract of the external
  party, and states what a store on top promises. \<open>Dispatch\<close> is the call through an interface.

  \<^bold>\<open>Opening.\<close> \<open>Config\<close> is \<open>buildKeyringConfig\<close> and its helpers of \<open>osbackend_core.go\<close> and the 1Password
  guards; \<open>Open\<close> is \<open>Open\<close> and \<open>openWithDeps\<close>; \<open>StaticBuild\<close> joins the keyrings of \<open>osbackend_nocgo_unix.go\<close>
  and shows that the store that comes out is lawful. \<open>SecretExact\<close> and \<open>PassExact\<close> are the two keyrings over
  a service and a program that do not fail, each call of which then succeeds unless the item itself is the
  reason it cannot; \<open>StaticExact\<close> joins them, with the file keyring and the in-memory backend, to the exact
  store; \<open>PassCalm\<close> is a program that keeps all that is asked. \<open>Sessions\<close> is about whole sequences of
  operations on an exact store: profiles do not interfere, and an open store does not get stuck. The
  properties of this theory are about the opened store, under faults and without.

  \<^bold>\<open>The rest.\<close> \<open>Redaction\<close> is \<open>redaction.go\<close>, \<open>Migration\<close> is \<open>migration.go\<close>, \<open>StateDir\<close> is
  \<open>statedir/resolver.go\<close> and \<open>statedirtest.go\<close>, \<open>ResourceCache\<close> and \<open>CacheProps\<close> are package \<open>cache\<close>.

  \<^bold>\<open>State and effects.\<close> A receiver, the file system and the state of a service are values passed and
  returned; an error is \<open>Inl\<close> or \<open>Some\<close>; a panic is an error value of its own (\<open>NilDereference\<close>, index
  and slice errors). Strings are byte strings. A method is a function on the store it finds, one
  method at a time; what follows when threads share the store is the next paragraph.

  \<^bold>\<open>Threads.\<close> \<open>store.go\<close> promises that a \<open>Store\<close> is safe for concurrent use: every method of \<open>store.go\<close> and
  \<open>bundle.go\<close> that touches \<open>closed\<close> or \<open>be\<close> holds \<open>s.mu\<close> from before it does so to its return. \<open>Lockstep\<close> shows
  that a method depends on its backend only through the answers to its calls (the locales \<open>backend_kept\<close> and
  \<open>backend_pair\<close>), \<open>Replay\<close> takes a method apart into those calls by an interpretation on a backend that
  records them and one that replays answers, and \<open>Threads\<close> is the step relation \<open>sys_step\<close>: a thread calls a
  method, gets the mutex when it is free, makes its calls of the backend one by one, returns and unlocks, and
  between any two of these steps another thread may move. The invariant \<open>consistent\<close> gives, in \<open>ThreadProps\<close>,
  that a shared store is linearizable over any backend, that every run ends (\<open>step_decreases\<close>, and
  \<open>threads_move\<close> for the absence of deadlock), and that after a \<open>Close\<close> nothing gets through; over an exact
  backend, that threads on their own profiles do not notice one another and that a race to create an entry
  has one winner. Steps within one call of the backend are not split: only the holder of the mutex is in one. The
  mutexes of \<open>memory.go\<close> and \<open>redaction.go\<close> guard single methods, which are one step each.

  \<^bold>\<open>Bounds.\<close> \<open>os_CreateTemp\<close> tries 10000 names as the library does. \<open>walk_fuel\<close> is one more than the
  length of all paths in the tree together; a walk never goes deeper (\<open>filepath_Walk_files\<close> gives its
  full result). All other loops are structural or have a proved measure. Durations saturate as in
  package \<open>time\<close>.

  \<^bold>\<open>Parameters.\<close> \<open>codec\<close>: encoding/json, jose2go and percent (\<open>codec_ok\<close>, \<open>json_ok\<close>, \<open>json_trimmed\<close>);
  \<open>jcodec\<close> and the clock of the cache; \<open>host\<close>: platform, environment, \<open>exec.LookPath\<close> and the build tag;
  \<open>runtime\<close>: Unicode tables and \<open>%q\<close>; the pass program (\<open>pass_contract\<close>), the libsecret client
  (\<open>client_contract\<close>), the ByteNess keyring (\<open>keyring_contract\<close>) and \<open>security\<close> (\<open>security_contract\<close>). The
  contracts state what these do when they succeed and that a failed write touches its own entry only; each
  has an instance that the witnesses run on. What refines the abstract store needs, beside the contract,
  that the party does not fail (\<open>pass_reliable\<close>, \<open>client_reliable\<close>, \<open>keyring_reliable\<close>, \<open>security_reliable\<close>).

  \<^bold>\<open>Not modelled.\<close> Windows path lexing (Windows appears in the selection, the directories and the guards),
  symbolic links and permissions beyond the modes, other processes that use the same
  backend at the same time, D-Bus below the libsecret client, what a child process
  writes to standard error, the length of the keychain read timeout, and the wiping of byte slices and
  snapshots, which no result depends on.
\<close>

section \<open>Properties\<close>

text \<open>
  C1. \<open>SetBundle\<close> on a store that \<open>Open\<close> returns in a static Unix build, whichever backend was resolved, in
  memory, encrypted files, pass or the Secret Service, and whichever calls of the system, the program or the
  service fail: on success the bundle is exactly what was asked and nothing else changed; on failure
  nothing outside \<open>RollbackFailed\<close> has changed, nothing counts as written, and the slices partition the keys.
\<close>

theorem opened_SetBundle_all_or_nothing:
  assumes opened: "Open rt h (openKeyringBackend_static h lookupEnv w L) probe service opts = Inr s"
    and codec: "codec_ok cd" "json_trimmed cd"
    and prompt: "\<forall>fn e. Option.bind opts FilePassphrase = Some fn \<longrightarrow> fn () = Inl e \<longrightarrow> foreign_error e"
    and program: "pass_contract exec dec dir ''pass'' service"
    and client: "client_contract L V service" "\<forall>w0. lib_NewService L = Inr w0 \<longrightarrow> v_good V w0"
    and files: "st_kind s = BackendFile \<longrightarrow> file_ready cd h service w"
      "st_kind s = BackendPass \<longrightarrow> pass_ready h lookupEnv dir service w"
    and run: "Store_SetBundle (static_ops cd (host_env h) exec L) s p kv bundle_opts = (s', res, err)"
  shows "store_ok (static_good cd (host_env h) dir L V service) s' \<and>
    (let W = store_view (static_view cd (host_env h) dec L V) s; W' = store_view (static_view cd (host_env h) dec L V) s';
         keys = sort (remdups (map fst kv)) in
     case err of
       None \<Rightarrow>
         Written res = keys \<and>
         (\<forall>k \<in> fst ` set kv. W' (p @ ''/'' @ k) = map_of kv k) \<and>
         (\<forall>ik. ik \<notin> (\<lambda>k. p @ ''/'' @ k) ` fst ` set kv \<longrightarrow> W' ik = W ik)
     | Some e \<Rightarrow>
         (\<forall>ik. ik \<notin> (\<lambda>k. p @ ''/'' @ k) ` set (RollbackFailed res) \<longrightarrow> W' ik = W ik) \<and>
         Written res = [] \<and>
         (res = Result_zero \<or>
          mset keys = mset (Restored res) + mset (Absent res) + mset (Untouched res) +
            mset (RollbackFailed res) \<and>
          (\<forall>k \<in> set (Restored res). W (p @ ''/'' @ k) \<noteq> None) \<and>
          (\<forall>k \<in> set (Absent res). W (p @ ''/'' @ k) = None)))"
proof -
  have "store_ok (static_good cd (host_env h) dir L V service) s"
    by (rule static_opened [OF opened codec(1), THEN conjunct1]) (use files prompt client in auto)
  from backend_laws.Store_SetBundle_contract [OF static_laws [OF codec(2) program client(1)] this run] show ?thesis .
qed

text \<open>Linux with pass, opened for one service; the program fails at its second write.\<close>

definition pass_opened :: "(memoryBackend + (demo_world, unit, string) nocgoKeyring osKeyringBackend) Store result" where
  "pass_opened = Open no_tables home_host
     (openKeyringBackend_static home_host (\<lambda>_. Some ''/s'') (pb_fs (pass_demo 5)) demo_client)
     (probeSecretService_static demo_client) ''svc'' (Some (Options_zero\<lparr>Backend := ''pass''\<rparr>))"

lemma pass_opened_result: "map_sum (\<lambda>_. ()) st_kind pass_opened = Inr BackendPass"
  by code_simp

theorem opened_SetBundle_all_or_nothing_witness:
  "\<exists>s s' res err. pass_opened = Inr s \<and> st_kind s = BackendPass \<and>
     Store_SetBundle (static_ops brace_codec (host_env home_host) demo_pass demo_client) s
       ''p'' [(''c'', ''2''), (''a'', ''1'')] [WithOverwrite] = (s', res, err) \<and>
     Written res = (if err = None then [''a'', ''c''] else [])"
proof -
  obtain s where s: "pass_opened = Inr s" "st_kind s = BackendPass"
    using pass_opened_result by (auto simp: map_sum_Inr_iff)
  obtain s' res err where run: "Store_SetBundle (static_ops brace_codec (host_env home_host) demo_pass demo_client) s
      ''p'' [(''c'', ''2''), (''a'', ''1'')] [WithOverwrite] = (s', res, err)"
    by (cases "Store_SetBundle (static_ops brace_codec (host_env home_host) demo_pass demo_client) s
      ''p'' [(''c'', ''2''), (''a'', ''1'')] [WithOverwrite]")
  have dir: "filepath_IsAbs ''/s''" "plain ''svc''" by (simp_all add: filepath_IsAbs_def plain_def)
  have ready: "pass_ready home_host (\<lambda>_. Some ''/s'') ''/s'' ''svc'' (pb_fs (pass_demo 5))"
    using pass_demo_good(1) [of 5] dir(1) by (simp add: pass_ready_def store_dir_def expandTilde_abs pass_good_def)
  have keys: "sort (remdups (map fst [(''c'', ''2''), (''a'', ''1'')])) = [''a'', ''c'']" by code_simp
  have prompt: "\<forall>fn e. Option.bind (Some (Options_zero\<lparr>Backend := ''pass''\<rparr>)) FilePassphrase = Some fn \<longrightarrow>
      fn () = Inl e \<longrightarrow> foreign_error e" by (simp add: Options_zero_def)
  have new: "\<forall>w0. lib_NewService demo_client = Inr w0 \<longrightarrow> v_good demo_view w0"
    by (simp add: demo_client_def demo_view_def Let_def)
  have files: "st_kind s = BackendFile \<longrightarrow> file_ready brace_codec home_host ''svc'' (pb_fs (pass_demo 5))"
    using s(2) by (simp add: Backend_defs)
  have "st_kind s = BackendPass \<longrightarrow> pass_ready home_host (\<lambda>_. Some ''/s'') ''/s'' ''svc'' (pb_fs (pass_demo 5))"
    using ready ..
  note all_or_nothing = opened_SetBundle_all_or_nothing [OF s(1) [unfolded pass_opened_def] brace_codec_ok
      brace_codec_trimmed prompt demo_pass_contract [OF dir] demo_client_contract new files this run]
  have "Written res = (if err = None then [''a'', ''c''] else [])"
    using all_or_nothing unfolding keys by (cases err) (simp_all add: Let_def)
  with s run show ?thesis by blast
qed

text \<open>
  C2. A store that \<open>Open\<close> returns in a static Unix build implements the abstract store on whichever backend was
  resolved, in memory, encrypted files, pass or the Secret Service: if what the backend talks to behaves as
  documented and does not fail, and what is stored decodes, every sequence of operations gets the replies of
  the map from profile and key to value, errors by class, starting from what the backend holds.
\<close>

theorem opened_store_refines_spec:
  assumes opened: "Open rt h (openKeyringBackend_static h lookupEnv w L) probe service opts = Inr s"
    and calm: "calm_machine cd h lookupEnv w exec dec dir R L V service opts s"
    and run: "store_run (static_ops cd (host_env h) exec L) s xs = (s', rs)"
  shows "\<exists>rs'. spec_run (st_allowed s) (store_spec (static_view cd (host_env h) dec L V) s) xs =
      (store_spec (static_view cd (host_env h) dec L V) s', rs') \<and> list_all2 reply_matches rs rs' \<and>
    Inl NilDereference \<notin> set rs"
  by (rule exact_backend.store_run_refines [OF calm_machine_exact(1,2) [OF opened calm] run])

theorem opened_store_refines_spec_witness:
  "\<exists>s s' rs rs'. calm_opened = Inr s \<and> st_kind s = BackendPass \<and> store_run calm_ops s example_ops = (s', rs) \<and>
     spec_run (st_allowed s) (store_spec (static_view brace_codec (host_env home_host) id demo_client calm_view) s) example_ops =
       (store_spec (static_view brace_codec (host_env home_host) id demo_client calm_view) s', rs') \<and>
     list_all2 reply_matches rs rs'"
proof (rule calm_opened_machine)
  fix s
  assume s: "calm_opened = Inr s" "st_kind s = BackendPass"
    "Open no_tables home_host (openKeyringBackend_static home_host (\<lambda>_. Some ''/s'') calm_files demo_client)
       (probeSecretService_static demo_client) ''svc'' (Some (Options_zero\<lparr>Backend := ''pass''\<rparr>)) = Inr s"
    "calm_machine brace_codec home_host (\<lambda>_. Some ''/s'') calm_files calm_pass id ''/s'' (pass_calm ''/s'' ''svc'')
       demo_client calm_view ''svc'' (Some (Options_zero\<lparr>Backend := ''pass''\<rparr>)) s"
  obtain s' rs where run: "store_run calm_ops s example_ops = (s', rs)" by (cases "store_run calm_ops s example_ops")
  from opened_store_refines_spec [OF s(3,4) run [unfolded calm_ops_def]] s(1,2) run show ?thesis by blast
qed

text \<open>
  C5. On such a store the profiles do not see one another: in any sequence of operations, however those of
  different profiles are interleaved, the operations on one profile get the replies they would get if the
  operations on the others were left out.
\<close>

theorem opened_profiles_isolated:
  assumes opened: "Open rt h (openKeyringBackend_static h lookupEnv w L) probe service opts = Inr s"
    and calm: "calm_machine cd h lookupEnv w exec dec dir R L V service opts s"
    and open1: "OpClose \<notin> set xs"
  shows "list_all2 agree (replies_on p xs (snd (store_run (static_ops cd (host_env h) exec L) s xs)))
    (snd (store_run (static_ops cd (host_env h) exec L) s (filter (\<lambda>x. op_profile x = Some p) xs)))"
  by (rule exact_backend.sessions_isolated [OF calm_machine_exact(1,2) [OF opened calm] open1])

theorem opened_profiles_isolated_witness:
  "\<exists>s. calm_opened = Inr s \<and>
     list_all2 agree
       (replies_on ''p'' [OpSet ''q'' ''a'' ''1'' True, OpSet ''p'' ''a'' ''2'' True, OpDeleteBundle ''q'', OpGet ''p'' ''a'']
         (snd (store_run calm_ops s
           [OpSet ''q'' ''a'' ''1'' True, OpSet ''p'' ''a'' ''2'' True, OpDeleteBundle ''q'', OpGet ''p'' ''a''])))
       (snd (store_run calm_ops s [OpSet ''p'' ''a'' ''2'' True, OpGet ''p'' ''a'']))"
proof (rule calm_opened_machine)
  fix s
  assume s: "calm_opened = Inr s"
    "Open no_tables home_host (openKeyringBackend_static home_host (\<lambda>_. Some ''/s'') calm_files demo_client)
       (probeSecretService_static demo_client) ''svc'' (Some (Options_zero\<lparr>Backend := ''pass''\<rparr>)) = Inr s"
    "calm_machine brace_codec home_host (\<lambda>_. Some ''/s'') calm_files calm_pass id ''/s'' (pass_calm ''/s'' ''svc'')
       demo_client calm_view ''svc'' (Some (Options_zero\<lparr>Backend := ''pass''\<rparr>)) s"
  let ?xs = "[OpSet ''q'' ''a'' ''1'' True, OpSet ''p'' ''a'' ''2'' True, OpDeleteBundle ''q'', OpGet ''p'' ''a'']"
  have "OpClose \<notin> set ?xs" by simp
  note isolated = opened_profiles_isolated [OF s(2,3) this, of "''p''"]
  have "filter (\<lambda>x. op_profile x = Some ''p'') ?xs = [OpSet ''p'' ''a'' ''2'' True, OpGet ''p'' ''a'']" by simp
  from isolated [unfolded this] s(1) show ?thesis unfolding calm_ops_def by blast
qed

text \<open>
  C7. Such a store does not get stuck: after any sequence of operations that does not close it, writing a bundle
  with overwrite, under a valid profile and valid keys of the allowlist, succeeds with all of its keys, and
  reading one of them then gives the value written.
\<close>

theorem opened_store_progress:
  assumes opened: "Open rt h (openKeyringBackend_static h lookupEnv w L) probe service opts = Inr s"
    and calm: "calm_machine cd h lookupEnv w exec dec dir R L V service opts s"
    and open1: "OpClose \<notin> set xs"
    and entry: "writable (st_allowed s) p (fst ` set kv)" "map_of kv k = Some v"
  shows "drop (length xs) (snd (store_run (static_ops cd (host_env h) exec L) s (xs @ [OpSetBundle p kv True, OpGet p k]))) =
    [Inr (Names (sorted_list_of_set (fst ` set kv))), Inr (Value v)]"
  by (rule exact_backend.sessions_progress [OF calm_machine_exact [OF opened calm] open1 entry])

theorem opened_store_progress_witness:
  "\<exists>s. calm_opened = Inr s \<and>
     drop 2 (snd (store_run calm_ops s
       ([OpDeleteBundle ''p'', OpSet ''p'' ''b'' ''0'' False] @
         [OpSetBundle ''p'' [(''b'', ''2''), (''a'', ''1'')] True, OpGet ''p'' ''b'']))) =
       [Inr (Names [''a'', ''b'']), Inr (Value ''2'')]"
proof (rule calm_opened_machine)
  fix s
  assume s: "calm_opened = Inr s"
    "Open no_tables home_host (openKeyringBackend_static home_host (\<lambda>_. Some ''/s'') calm_files demo_client)
       (probeSecretService_static demo_client) ''svc'' (Some (Options_zero\<lparr>Backend := ''pass''\<rparr>)) = Inr s"
    "calm_machine brace_codec home_host (\<lambda>_. Some ''/s'') calm_files calm_pass id ''/s'' (pass_calm ''/s'' ''svc'')
       demo_client calm_view ''svc'' (Some (Options_zero\<lparr>Backend := ''pass''\<rparr>)) s"
  have all: "map_sum (\<lambda>_. ()) st_allowed calm_opened = Inr None" by code_simp
  have "st_allowed s = None" using all unfolding s(1) by simp
  moreover have "validSegment ''p''" "validSegment ''a''" "validSegment ''b''" by code_simp+
  ultimately have w: "writable (st_allowed s) ''p'' (fst ` set [(''b'', ''2''), (''a'', ''1'')])" by (simp add: writable_def)
  have no_close: "OpClose \<notin> set [OpDeleteBundle ''p'', OpSet ''p'' ''b'' ''0'' False]" by simp
  have v: "map_of [(''b'', ''2''), (''a'', ''1'')] ''b'' = Some ''2''" by simp
  have keys: "sorted_list_of_set (fst ` set [(''b'', ''2''), (''a'', ''1'')]) = [''a'', ''b'']" by code_simp
  have two: "length [OpDeleteBundle ''p'', OpSet ''p'' ''b'' ''0'' False] = 2" by simp
  from opened_store_progress [OF s(2,3) no_close w v, unfolded keys two] s(1) show ?thesis
    unfolding calm_ops_def by blast
qed

text \<open>
  C6. Threads that share such a store and keep to their own profiles do not notice one another: of a thread that
  has a profile to itself, whatever the others do meanwhile short of closing the store, every result it has
  got so far is the one it would have got by running alone from the start.
\<close>

theorem opened_threads_isolated:
  assumes opened: "Open rt h (openKeyringBackend_static h lookupEnv w L) probe service opts = Inr s"
    and calm: "calm_machine cd h lookupEnv w exec dec dir R L V service opts s"
    and run: "sys_steps (static_ops cd (host_env h) exec L) (start s progs) c"
    and open1: "\<forall>xs \<in> set progs. OpClose \<notin> set xs" and thread: "i < length progs"
    and profile: "\<forall>x \<in> set (progs ! i). op_profile x = Some p"
      "\<forall>j < length progs. j \<noteq> i \<longrightarrow> (\<forall>x \<in> set (progs ! j). op_profile x \<noteq> Some p)"
  shows "list_all2 agree (map snd (th_done (sys_threads c ! i)))
    (snd (store_run (static_ops cd (host_env h) exec L) s (map fst (th_done (sys_threads c ! i)))))"
  by (rule exact_backend.threads_isolated [OF calm_machine_exact(1,2) [OF opened calm] run open1 thread profile])

theorem opened_threads_isolated_witness:
  "\<exists>s c. calm_opened = Inr s \<and>
     sys_steps calm_ops (start s [[OpSet ''p'' ''a'' ''2'' True, OpGet ''p'' ''a''], [OpDeleteBundle ''q'', OpListProfiles]]) c \<and>
     finished c \<and> map fst (th_done (sys_threads c ! 0)) = [OpSet ''p'' ''a'' ''2'' True, OpGet ''p'' ''a''] \<and>
     list_all2 agree (map snd (th_done (sys_threads c ! 0)))
       (snd (store_run calm_ops s [OpSet ''p'' ''a'' ''2'' True, OpGet ''p'' ''a'']))"
proof (rule calm_opened_machine)
  fix s
  assume s: "calm_opened = Inr s"
    "Open no_tables home_host (openKeyringBackend_static home_host (\<lambda>_. Some ''/s'') calm_files demo_client)
       (probeSecretService_static demo_client) ''svc'' (Some (Options_zero\<lparr>Backend := ''pass''\<rparr>)) = Inr s"
    "calm_machine brace_codec home_host (\<lambda>_. Some ''/s'') calm_files calm_pass id ''/s'' (pass_calm ''/s'' ''svc'')
       demo_client calm_view ''svc'' (Some (Options_zero\<lparr>Backend := ''pass''\<rparr>)) s"
  let ?progs = "[[OpSet ''p'' ''a'' ''2'' True, OpGet ''p'' ''a''], [OpDeleteBundle ''q'', OpListProfiles]]"
  obtain c where run: "sys_steps calm_ops (start s ?progs) c" and fin: "finished c"
    by (rule finishing_run [OF consistent_start])
  have own1: "map fst (th_done (sys_threads c ! 0)) = [OpSet ''p'' ''a'' ''2'' True, OpGet ''p'' ''a'']"
    using finished_thread [OF reached_consistent [OF run] fin, of 0] by simp
  have side: "\<forall>xs \<in> set ?progs. OpClose \<notin> set xs" "0 < length ?progs" "\<forall>x \<in> set (?progs ! 0). op_profile x = Some ''p''"
    "\<forall>j < length ?progs. j \<noteq> 0 \<longrightarrow> (\<forall>x \<in> set (?progs ! j). op_profile x \<noteq> Some ''p'')"
    by (simp_all add: less_Suc_eq)
  note alone = opened_threads_isolated [OF s(2,3) run [unfolded calm_ops_def] side, unfolded own1]
  show ?thesis
    by (intro exI conjI) (rule s(1) run fin own1 alone [folded calm_ops_def])+
qed

text \<open>
  C4. When threads race to create one absent entry of such a store, each with a \<open>Set\<close> that does not overwrite,
  exactly one wins, whatever the schedule: its \<open>Set\<close> succeeds and its value is the one stored, and every other
  thread gets \<open>ErrExists\<close>.
\<close>

theorem opened_threads_race:
  assumes opened: "Open rt h (openKeyringBackend_static h lookupEnv w L) probe service opts = Inr s"
    and calm: "calm_machine cd h lookupEnv w exec dec dir R L V service opts s"
    and entry: "writable (st_allowed s) p {k}" "store_abs (static_view cd (host_env h) dec L V) s (p, k) = None"
    and run: "vs \<noteq> []" "sys_steps (static_ops cd (host_env h) exec L) (start s (map (\<lambda>v. [OpSet p k v False]) vs)) c" "finished c"
  shows "\<exists>i < length vs. th_done (sys_threads c ! i) = [(OpSet p k (vs ! i) False, Inr Done)] \<and>
    store_abs (static_view cd (host_env h) dec L V) (sys_store c) (p, k) = Some (vs ! i) \<and>
    (\<forall>j < length vs. j \<noteq> i \<longrightarrow>
       (\<exists>e. th_done (sys_threads c ! j) = [(OpSet p k (vs ! j) False, Inl e)] \<and> errors_Is e ErrExists))"
  by (rule exact_backend.threads_race [OF calm_machine_exact [OF opened calm] entry run])

theorem opened_threads_race_witness:
  "\<exists>s c i. calm_opened = Inr s \<and>
     sys_steps calm_ops (start s (map (\<lambda>v. [OpSet ''p'' ''b'' v False]) [''1'', ''2'', ''3''])) c \<and> i < 3 \<and>
     th_done (sys_threads c ! i) = [(OpSet ''p'' ''b'' ([''1'', ''2'', ''3''] ! i) False, Inr Done)]"
proof (rule calm_opened_machine)
  fix s
  assume s: "calm_opened = Inr s" "st_kind s = BackendPass"
    "Open no_tables home_host (openKeyringBackend_static home_host (\<lambda>_. Some ''/s'') calm_files demo_client)
       (probeSecretService_static demo_client) ''svc'' (Some (Options_zero\<lparr>Backend := ''pass''\<rparr>)) = Inr s"
    "calm_machine brace_codec home_host (\<lambda>_. Some ''/s'') calm_files calm_pass id ''/s'' (pass_calm ''/s'' ''svc'')
       demo_client calm_view ''svc'' (Some (Options_zero\<lparr>Backend := ''pass''\<rparr>)) s"
  have all: "map_sum (\<lambda>_. ()) st_allowed calm_opened = Inr None" by code_simp
  have "st_allowed s = None" using all unfolding s(1) by simp
  moreover have "validSegment ''p''" "validSegment ''b''" by code_simp+
  ultimately have w: "writable (st_allowed s) ''p'' {''b''}" by (simp add: writable_def)
  have absent: "store_abs (static_view brace_codec (host_env home_host) id demo_client calm_view) s (''p'', ''b'') = None"
    by (rule calm_opened_view [OF s(1,2)]) simp
  have some: "[''1'', ''2'', ''3''] \<noteq> []" by simp
  obtain c where run: "sys_steps calm_ops (start s (map (\<lambda>v. [OpSet ''p'' ''b'' v False]) [''1'', ''2'', ''3''])) c"
    and fin: "finished c" by (rule finishing_run [OF consistent_start])
  have three: "length [''1'', ''2'', ''3''] = 3" by simp
  from opened_threads_race [OF s(3,4) w absent some run [unfolded calm_ops_def] fin, unfolded three] s(1) run show ?thesis
    by blast
qed

end
